(* ===== verification/Prelude.thy ===== *)
theory Prelude
  imports Complex_Main "HOL-Library.AList" "HOL-Library.List_Lexorder"
begin

text \<open>
  Shared vocabulary of the development.

  \<^item> Python code that raises after having changed its object keeps the change, so an
    operation is a function \<open>'s \<Rightarrow> ('e + 'a) \<times> 's\<close> (\<open>Inl\<close> the exception) and
    \<open>bind_res\<close> sequences two of them.
  \<^item> A Python \<open>float\<close> that may be \<open>math.inf\<close> is a \<open>pyfloat\<close>; finite floats are
    idealised as real numbers (no rounding).
  \<^item> A \<open>dict\<close> or \<open>OrderedDict\<close> is an association list with distinct keys in insertion
    order, so that the library's \<open>AList.update\<close> is \<open>d[k] = v\<close> and \<open>AList.delete\<close> is
    \<open>d.pop(k, None)\<close>; \<open>od_to_end\<close> and \<open>od_to_front\<close> are \<open>move_to_end\<close>.
  \<^item> \<open>defaultdict(int)\<close> counters are total functions.
\<close>

named_theorems inv_intro \<open>preservation lemmas of the component invariants\<close>
named_theorems frame \<open>fields that an operation leaves unchanged\<close>
named_theorems od_simps \<open>ordered-dictionary equations\<close>

section \<open>Results with state\<close>

type_synonym ('e, 'a, 's) res = "('e + 'a) \<times> 's"

definition bind_res :: "('e, 'a, 's) res \<Rightarrow> ('a \<Rightarrow> 's \<Rightarrow> ('e, 'b, 's) res) \<Rightarrow> ('e, 'b, 's) res" where
  "bind_res r f = (case r of (Inl e, s) \<Rightarrow> (Inl e, s) | (Inr a, s) \<Rightarrow> f a s)"

lemma bind_res_simps [simp]:
  "bind_res (Inl e, s) f = (Inl e, s)"
  "bind_res (Inr a, s) f = f a s"
  by (simp_all add: bind_res_def)

lemma bind_res_Inr:
  "bind_res r f = (Inr b, s') \<longleftrightarrow> (\<exists>a s. r = (Inr a, s) \<and> f a s = (Inr b, s'))"
  by (cases r; cases "fst r") (auto simp: bind_res_def split: sum.splits)

lemma snd_bind_res:
  assumes "P (snd r)" and "\<And>a s. r = (Inr a, s) \<Longrightarrow> P s \<Longrightarrow> P (snd (f a s))"
  shows "P (snd (bind_res r f))"
  using assms by (cases r; cases "fst r") auto

fun fold_res :: "('x \<Rightarrow> 's \<Rightarrow> ('e, 'a, 's) res) \<Rightarrow> 'x list \<Rightarrow> 's \<Rightarrow> ('e, 'a list, 's) res" where
  "fold_res f [] s = (Inr [], s)"
| "fold_res f (x # xs) s =
     bind_res (f x s) (\<lambda>a s1. bind_res (fold_res f xs s1) (\<lambda>as s2. (Inr (a # as), s2)))"

lemma fold_res_inv:
  assumes "I s" and "\<And>x s. x \<in> set xs \<Longrightarrow> I s \<Longrightarrow> I (snd (f x s))"
  shows "I (snd (fold_res f xs s))"
  using assms
proof (induction xs arbitrary: s)
  case Nil
  then show ?case by simp
next
  case (Cons x xs)
  obtain r s1 where r: "f x s = (r, s1)" by (cases "f x s")
  with Cons.prems(2)[of x s] Cons.prems(1) have "I s1" by simp
  then have "I (snd (fold_res f xs s1))" by (rule Cons.IH) (simp add: Cons.prems(2))
  with r \<open>I s1\<close> show ?case
    by (cases r; cases "fold_res f xs s1"; cases "fst (fold_res f xs s1)") simp_all
qed

text \<open>A pure check that raises before any mutation.\<close>

definition lift_sum :: "('e + 'a) \<Rightarrow> 's \<Rightarrow> ('e, 'a, 's) res" where
  "lift_sum r s = (r, s)"

lemma lift_sum_simps [simp]: "fst (lift_sum r s) = r" "snd (lift_sum r s) = s"
  by (simp_all add: lift_sum_def)

fun map_sum_list :: "('x \<Rightarrow> 'e + 'a) \<Rightarrow> 'x list \<Rightarrow> 'e + 'a list" where
  "map_sum_list f [] = Inr []"
| "map_sum_list f (x # xs) =
     (case f x of Inl e \<Rightarrow> Inl e
      | Inr a \<Rightarrow> (case map_sum_list f xs of Inl e \<Rightarrow> Inl e | Inr as \<Rightarrow> Inr (a # as)))"

section \<open>Floats that may be infinite\<close>

datatype pyfloat = Fin real | PInf

fun pf_add :: "real \<Rightarrow> pyfloat \<Rightarrow> pyfloat" where
  "pf_add x (Fin y) = Fin (x + y)"
| "pf_add x PInf = PInf"

text \<open>\<open>now >= d\<close> and \<open>now < d\<close> for a finite \<open>now\<close>.\<close>

fun reached :: "real \<Rightarrow> pyfloat \<Rightarrow> bool" where
  "reached now (Fin d) = (d \<le> now)"
| "reached now PInf = False"

text \<open>
  \<open>max(0, a - b)\<close>. For two infinities the difference is NaN, which Python's \<open>max\<close> drops
  because \<open>nan > 0\<close> is false.
\<close>

fun pf_gap :: "pyfloat \<Rightarrow> pyfloat \<Rightarrow> pyfloat" where
  "pf_gap (Fin a) (Fin b) = Fin (max 0 (a - b))"
| "pf_gap PInf (Fin b) = PInf"
| "pf_gap (Fin a) PInf = Fin 0"
| "pf_gap PInf PInf = Fin 0"

fun pf_max :: "real \<Rightarrow> pyfloat \<Rightarrow> pyfloat" where
  "pf_max x (Fin y) = Fin (max x y)"
| "pf_max x PInf = PInf"

text \<open>\<open>int(x)\<close> truncates towards zero.\<close>

definition py_int :: "real \<Rightarrow> int" where
  "py_int x = (if 0 \<le> x then \<lfloor>x\<rfloor> else \<lceil>x\<rceil>)"

lemma reached_mono: "reached t d \<Longrightarrow> t \<le> t' \<Longrightarrow> reached t' d"
  by (cases d) auto

section \<open>Ordered dictionaries\<close>

definition od_to_end :: "'k \<Rightarrow> ('k \<times> 'v) list \<Rightarrow> ('k \<times> 'v) list" where
  "od_to_end k d = (case map_of d k of None \<Rightarrow> d | Some v \<Rightarrow> AList.delete k d @ [(k, v)])"

definition od_to_front :: "'k \<Rightarrow> ('k \<times> 'v) list \<Rightarrow> ('k \<times> 'v) list" where
  "od_to_front k d = (case map_of d k of None \<Rightarrow> d | Some v \<Rightarrow> (k, v) # AList.delete k d)"

abbreviation od_keys :: "('k \<times> 'v) list \<Rightarrow> 'k list" where
  "od_keys d \<equiv> map fst d"

abbreviation od_distinct :: "('k \<times> 'v) list \<Rightarrow> bool" where
  "od_distinct d \<equiv> distinct (map fst d)"

lemma delete_filter: "AList.delete k d = filter (\<lambda>p. fst p \<noteq> k) d"
  by (induction d) auto

lemma od_keys_delete [od_simps]: "od_keys (AList.delete k d) = filter (\<lambda>x. x \<noteq> k) (od_keys d)"
  by (induction d) auto

lemma od_distinct_delete [simp]: "od_distinct d \<Longrightarrow> od_distinct (AList.delete k d)"
  by (simp add: od_keys_delete)

lemma set_keys_delete [simp]: "fst ` set (AList.delete k d) = fst ` set d - {k}"
  by (auto simp: delete_filter)

lemma delete_fresh: "k \<notin> fst ` set d \<Longrightarrow> AList.delete k d = d"
  by (induction d) auto

lemma delete_append [simp]: "AList.delete k (xs @ ys) = AList.delete k xs @ AList.delete k ys"
  by (simp add: delete_filter)

lemma update_fresh: "k \<notin> fst ` set d \<Longrightarrow> AList.update k v d = d @ [(k, v)]"
  by (induction d) auto

lemma update_deleted [od_simps]:
  "AList.update k v (AList.delete k d) = AList.delete k d @ [(k, v)]"
  by (rule update_fresh) simp

lemma map_of_delete_other [simp]: "k' \<noteq> k \<Longrightarrow> map_of (AList.delete k d) k' = map_of d k'"
  by (induction d) auto

lemma map_of_delete_same [simp]: "map_of (AList.delete k d) k = None"
  by (induction d) auto

lemma map_of_update [simp]: "map_of (AList.update k v d) = (map_of d)(k \<mapsto> v)"
  by (simp add: update_conv')

lemma length_delete:
  "od_distinct d \<Longrightarrow> map_of d k = Some v \<Longrightarrow> Suc (length (AList.delete k d)) = length d"
proof (induction d)
  case Nil
  then show ?case by simp
next
  case (Cons p d)
  show ?case
  proof (cases "fst p = k")
    case True
    with Cons.prems have "k \<notin> fst ` set d" by auto
    with True show ?thesis by (cases p) (simp add: delete_fresh)
  next
    case False
    with Cons show ?thesis by (cases p) auto
  qed
qed

lemma length_delete_le: "length (AList.delete k d) \<le> length d"
  by (simp add: delete_filter)

lemma od_to_end_keys [simp]: "fst ` set (od_to_end k d) = fst ` set d"
  by (auto simp: od_to_end_def delete_filter split: option.splits dest: map_of_SomeD intro: rev_image_eqI)

lemma od_to_end_distinct [simp]: "od_distinct d \<Longrightarrow> od_distinct (od_to_end k d)"
  by (auto simp: od_to_end_def od_keys_delete split: option.splits)

lemma map_of_od_to_end [simp]: "map_of (od_to_end k d) = map_of d"
  by (rule ext) (auto simp: od_to_end_def map_add_def delete_conv' split: option.splits)

lemma od_to_end_last: "od_distinct d \<Longrightarrow> od_to_end k (AList.delete k d @ [(k, v)]) = AList.delete k d @ [(k, v)]"
  by (simp add: od_to_end_def map_add_def delete_fresh)

text \<open>Sums over the values of a dictionary.\<close>

definition od_sum :: "('v \<Rightarrow> int) \<Rightarrow> ('k \<times> 'v) list \<Rightarrow> int" where
  "od_sum f d = sum_list (map (\<lambda>p. f (snd p)) d)"

lemma od_sum_simps [simp]:
  "od_sum f [] = 0"
  "od_sum f (p # d) = f (snd p) + od_sum f d"
  "od_sum f (d @ d') = od_sum f d + od_sum f d'"
  by (simp_all add: od_sum_def)

lemma od_sum_delete:
  "od_distinct d \<Longrightarrow> map_of d k = Some v \<Longrightarrow> od_sum f (AList.delete k d) = od_sum f d - f v"
proof (induction d)
  case Nil
  then show ?case by simp
next
  case (Cons p d)
  show ?case
  proof (cases "fst p = k")
    case True
    with Cons.prems have "k \<notin> fst ` set d" by auto
    with True Cons.prems show ?thesis by (cases p) (simp add: delete_fresh)
  next
    case False
    with Cons show ?thesis by (cases p) auto
  qed
qed

lemma delete_absent: "map_of d k = None \<Longrightarrow> AList.delete k d = d"
  by (simp add: delete_fresh map_of_eq_None_iff)

lemma od_sum_to_end [simp]: "od_distinct d \<Longrightarrow> od_sum f (od_to_end k d) = od_sum f d"
  by (auto simp: od_to_end_def od_sum_delete split: option.splits)

lemma length_od_to_end [simp]: "od_distinct d \<Longrightarrow> length (od_to_end k d) = length d"
  by (cases "map_of d k") (simp_all add: od_to_end_def length_delete)

lemma od_sum_nonneg: "(\<And>k v. (k, v) \<in> set d \<Longrightarrow> 0 \<le> f v) \<Longrightarrow> 0 \<le> od_sum f d"
  by (induction d) fastforce+

section \<open>Counters\<close>

definition bump :: "string \<Rightarrow> int \<Rightarrow> (string \<Rightarrow> int) \<Rightarrow> string \<Rightarrow> int" where
  "bump name n m = m(name := m name + n)"

end
