(* ===== verification/PyText.thy ===== *)
theory PyText
  imports Prelude
begin

text \<open>
  Python text, bytes and values as the sources use them.

  \<^item> \<open>str\<close> is \<open>pystr\<close>, the list of its code points, so that \<open>length\<close> is Python's
    \<open>len\<close> and the library's lexicographic order is Python's string order;
  \<^item> \<open>bytes\<close> is \<open>string\<close>: a \<open>char\<close> of HOL is exactly one byte;
  \<^item> \<open>encode_utf8\<close> is \<open>str.encode('utf-8')\<close>, with \<open>None\<close> for the
    \<open>UnicodeEncodeError\<close> on a surrogate, and \<open>decode_utf8\<close> is the strict decoder;
  \<^item> \<open>pyval\<close> is the tree of values the cache stores. A \<open>float\<close> is named by its
    \<open>repr\<close>; \<open>POpaque\<close> stands for every object \<open>json.dumps\<close> rejects; the keys of
    a dictionary are strings.
\<close>

type_synonym pystr = "nat list"
type_synonym bytes = string

definition lit :: "string \<Rightarrow> pystr" where
  "lit s = map of_char s"

section \<open>UTF-8\<close>

definition is_surrogate :: "nat \<Rightarrow> bool" where
  "is_surrogate c \<longleftrightarrow> 0xD800 \<le> c \<and> c \<le> 0xDFFF"

definition is_scalar :: "nat \<Rightarrow> bool" where
  "is_scalar c \<longleftrightarrow> c < 0x110000 \<and> \<not> is_surrogate c"

definition utf8_units :: "nat \<Rightarrow> nat list" where
  "utf8_units c =
     (if c < 0x80 then [c]
      else if c < 0x800 then [0xC0 + c div 64, 0x80 + c mod 64]
      else if c < 0x10000 then [0xE0 + c div 4096, 0x80 + c div 64 mod 64, 0x80 + c mod 64]
      else [0xF0 + c div 262144, 0x80 + c div 4096 mod 64, 0x80 + c div 64 mod 64, 0x80 + c mod 64])"

fun encode_utf8 :: "pystr \<Rightarrow> bytes option" where
  "encode_utf8 [] = Some []"
| "encode_utf8 (c # cs) =
     (if is_scalar c
      then map_option (\<lambda>bs. map char_of (utf8_units c) @ bs) (encode_utf8 cs)
      else None)"

definition cont :: "nat \<Rightarrow> bool" where
  "cont b \<longleftrightarrow> 0x80 \<le> b \<and> b < 0xC0"

text \<open>One code point off the front of the byte values, refusing overlong forms and surrogates.\<close>

fun utf8_next :: "nat list \<Rightarrow> (nat \<times> nat list) option" where
  "utf8_next [] = None"
| "utf8_next (a # r) =
     (if a < 0x80 then Some (a, r)
      else if 0xC2 \<le> a \<and> a < 0xE0 then
        (case r of b # r' \<Rightarrow>
            (if cont b then Some ((a - 0xC0) * 64 + (b - 0x80), r') else None)
         | _ \<Rightarrow> None)
      else if 0xE0 \<le> a \<and> a < 0xF0 then
        (case r of b # c # r' \<Rightarrow>
            (let cp = (a - 0xE0) * 4096 + (b - 0x80) * 64 + (c - 0x80)
             in if cont b \<and> cont c \<and> 0x800 \<le> cp \<and> is_scalar cp then Some (cp, r') else None)
         | _ \<Rightarrow> None)
      else if 0xF0 \<le> a \<and> a < 0xF5 then
        (case r of b # c # d # r' \<Rightarrow>
            (let cp = (a - 0xF0) * 262144 + (b - 0x80) * 4096 + (c - 0x80) * 64 + (d - 0x80)
             in if cont b \<and> cont c \<and> cont d \<and> 0x10000 \<le> cp \<and> is_scalar cp
                then Some (cp, r') else None)
         | _ \<Rightarrow> None)
      else None)"

lemma utf8_next_shorter: "utf8_next bs = Some (c, r) \<Longrightarrow> length r < length bs"
  by (cases bs) (auto simp: Let_def split: if_splits list.splits)

function decode_units :: "nat list \<Rightarrow> pystr option" where
  "decode_units bs =
     (if bs = [] then Some []
      else case utf8_next bs of
          None \<Rightarrow> None
        | Some (c, r) \<Rightarrow> map_option (\<lambda>cs. c # cs) (decode_units r))"
  by pat_completeness auto
termination
  by (relation "measure length") (auto dest: utf8_next_shorter)

declare decode_units.simps [simp del]

definition decode_utf8 :: "bytes \<Rightarrow> pystr option" where
  "decode_utf8 bs = decode_units (map of_char bs)"

lemma utf8_units_bound: "is_scalar c \<Longrightarrow> u \<in> set (utf8_units c) \<Longrightarrow> u < 256"
  by (auto simp: utf8_units_def is_scalar_def split: if_splits)

lemma utf8_next_units2:
  assumes "128 \<le> c" "c < 2048"
  shows "utf8_next ((0xC0 + c div 64) # (0x80 + c mod 64) # r) = Some (c, r)"
proof -
  have "2 \<le> c div 64" "c div 64 < 32" using assms by auto
  moreover have "c mod 64 < 64" by simp
  ultimately show ?thesis by (simp add: cont_def)
qed

lemma split3: "(c div 4096) * 4096 + (c div 64 mod 64) * 64 + c mod 64 = (c::nat)"
proof -
  have "c div 4096 = c div 64 div 64" by (simp add: div_mult2_eq [symmetric])
  then show ?thesis using div_mult_mod_eq [of c 64] div_mult_mod_eq [of "c div 64" 64] by linarith
qed

lemma split4:
  "(c div 262144) * 262144 + (c div 4096 mod 64) * 4096 + (c div 64 mod 64) * 64 + c mod 64 = (c::nat)"
proof -
  have "c div 262144 = c div 4096 div 64" by (simp add: div_mult2_eq [symmetric])
  then show ?thesis using split3 [of c] div_mult_mod_eq [of "c div 4096" 64] by linarith
qed

lemma utf8_next_units3:
  assumes "2048 \<le> c" "c < 65536" "is_scalar c"
  shows "utf8_next ((0xE0 + c div 4096) # (0x80 + c div 64 mod 64) # (0x80 + c mod 64) # r) = Some (c, r)"
proof -
  have "c div 4096 < 16" using assms by auto
  moreover have "c mod 64 < 64" "c div 64 mod 64 < 64" by simp_all
  ultimately show ?thesis using assms split3 [of c] by (simp add: cont_def Let_def)
qed

lemma utf8_next_units4:
  assumes "65536 \<le> c" "is_scalar c"
  shows "utf8_next ((0xF0 + c div 262144) # (0x80 + c div 4096 mod 64) # (0x80 + c div 64 mod 64)
           # (0x80 + c mod 64) # r) = Some (c, r)"
proof -
  have "c div 262144 < 5" using assms by (auto simp: is_scalar_def)
  moreover have "c mod 64 < 64" "c div 64 mod 64 < 64" "c div 4096 mod 64 < 64" by simp_all
  ultimately show ?thesis using assms split4 [of c] by (simp add: cont_def Let_def)
qed

lemma utf8_next_units: "is_scalar c \<Longrightarrow> utf8_next (utf8_units c @ r) = Some (c, r)"
  using utf8_next_units2 [of c r] utf8_next_units3 [of c r] utf8_next_units4 [of c r]
  by (auto simp: utf8_units_def simp del: utf8_next.simps) (simp_all add: is_scalar_def)

lemma map_of_char_char_of: "(\<And>u. u \<in> set us \<Longrightarrow> u < 256) \<Longrightarrow> map of_char (map char_of us :: string) = (us :: nat list)"
  by (induction us) auto

text \<open>Decoding inverts encoding.\<close>

lemma decode_encode_utf8: "encode_utf8 s = Some bs \<Longrightarrow> decode_utf8 bs = Some s"
proof (induction s arbitrary: bs)
  case Nil
  then show ?case by (simp add: decode_utf8_def decode_units.simps)
next
  case (Cons c s)
  then obtain bs' where c: "is_scalar c" and bs': "encode_utf8 s = Some bs'"
    and bs: "bs = map char_of (utf8_units c) @ bs'"
    by (auto split: if_splits)
  have "map of_char bs = utf8_units c @ map of_char bs'"
    using c bs by (simp add: map_of_char_char_of utf8_units_bound del: map_map)
  moreover have "utf8_units c \<noteq> []" by (simp add: utf8_units_def)
  ultimately show ?case
    using Cons.IH [OF bs'] c by (simp add: decode_utf8_def decode_units.simps [of "_ @ _"] utf8_next_units)
qed

text \<open>An ASCII byte of the encoding is a character of the text.\<close>

lemma utf8_units_ascii: "is_scalar c \<Longrightarrow> u \<in> set (utf8_units c) \<Longrightarrow> u < 128 \<Longrightarrow> u = c"
  by (auto simp: utf8_units_def split: if_splits)

lemma utf8_byte_origin:
  "encode_utf8 s = Some bs \<Longrightarrow> c \<in> set bs \<Longrightarrow> of_char c < (128::nat) \<Longrightarrow> of_char c \<in> set s"
proof (induction s arbitrary: bs)
  case (Cons d s)
  then obtain bs' where d: "is_scalar d" and bs': "encode_utf8 s = Some bs'"
    and bs: "bs = map char_of (utf8_units d) @ bs'"
    by (auto split: if_splits)
  show ?case
  proof (cases "c \<in> set bs'")
    case False
    then obtain u where u: "u \<in> set (utf8_units d)" "c = char_of u" using Cons.prems(2) bs by auto
    with utf8_units_bound [OF d u(1)] have "of_char c = u" by simp
    with utf8_units_ascii [OF d u(1)] Cons.prems(3) show ?thesis by simp
  qed (use Cons bs' in simp)
qed simp

lemma encode_utf8_inj: "encode_utf8 s = Some bs \<Longrightarrow> encode_utf8 t = Some bs \<Longrightarrow> s = t"
  by (metis decode_encode_utf8 option.inject)

text \<open>\<open>len(s.encode('utf-8'))\<close>.\<close>

definition utf8_len :: "pystr \<Rightarrow> int option" where
  "utf8_len s = map_option (\<lambda>bs. int (length bs)) (encode_utf8 s)"

lemma utf8_len_nonneg: "utf8_len s = Some n \<Longrightarrow> 0 \<le> n"
  by (auto simp: utf8_len_def)

lemma utf8_len_ge_length: "utf8_len s = Some n \<Longrightarrow> int (length s) \<le> n"
proof (induction s arbitrary: n)
  case (Cons c s)
  then obtain bs where "encode_utf8 s = Some bs" "n = int (length (utf8_units c) + length bs)"
    by (auto simp: utf8_len_def split: if_splits)
  moreover have "1 \<le> length (utf8_units c)" by (simp add: utf8_units_def)
  ultimately show ?case using Cons.IH [of "int (length bs)"] by (simp add: utf8_len_def)
qed (simp add: utf8_len_def)

definition is_ascii :: "pystr \<Rightarrow> bool" where
  "is_ascii s \<longleftrightarrow> list_all (\<lambda>c. c < 128) s"

lemma encode_ascii: "is_ascii s \<Longrightarrow> encode_utf8 s = Some (map char_of s)"
  by (induction s) (auto simp: is_ascii_def is_scalar_def is_surrogate_def utf8_units_def)

lemma utf8_len_ascii: "is_ascii s \<Longrightarrow> utf8_len s = Some (int (length s))"
  by (simp add: utf8_len_def encode_ascii)

section \<open>Values\<close>

datatype pyval =
    PNone
  | PBool bool
  | PInt int
  | PFloat pystr
  | PStr pystr
  | PBytes bytes
  | PList "pyval list"
  | PTuple "pyval list"
  | PDict "(pystr \<times> pyval) list"
  | POpaque

text \<open>\<open>json.dumps(value, separators=(',', ':'), ensure_ascii=False)\<close>; \<open>None\<close> is \<open>TypeError\<close>.\<close>

fun digits10 :: "nat \<Rightarrow> pystr" where
  "digits10 n = (if n < 10 then [48 + n] else digits10 (n div 10) @ [48 + n mod 10])"

declare digits10.simps [simp del]

definition dump_int :: "int \<Rightarrow> pystr" where
  "dump_int i = (if i < 0 then 45 # digits10 (nat (- i)) else digits10 (nat i))"

definition hex_digit :: "nat \<Rightarrow> nat" where
  "hex_digit d = (if d < 10 then 48 + d else 87 + d)"

definition dump_char :: "nat \<Rightarrow> pystr" where
  "dump_char c =
     (if c = 34 then [92, 34]
      else if c = 92 then [92, 92]
      else if c = 10 then [92, 110]
      else if c = 13 then [92, 114]
      else if c = 9 then [92, 116]
      else if c = 12 then [92, 102]
      else if c = 8 then [92, 98]
      else if c < 32 then [92, 117, 48, 48, hex_digit (c div 16), hex_digit (c mod 16)]
      else [c])"

definition dump_str :: "pystr \<Rightarrow> pystr" where
  "dump_str s = [34] @ concat (map dump_char s) @ [34]"

fun join_text :: "pystr list \<Rightarrow> pystr" where
  "join_text [] = []"
| "join_text [x] = x"
| "join_text (x # xs) = x @ [44] @ join_text xs"

fun collect_opt :: "'a option list \<Rightarrow> 'a list option" where
  "collect_opt [] = Some []"
| "collect_opt (None # xs) = None"
| "collect_opt (Some x # xs) = map_option (\<lambda>ys. x # ys) (collect_opt xs)"

fun json_dumps :: "pyval \<Rightarrow> pystr option" where
  "json_dumps PNone = Some (lit ''null'')"
| "json_dumps (PBool b) = Some (lit (if b then ''true'' else ''false''))"
| "json_dumps (PInt i) = Some (dump_int i)"
| "json_dumps (PFloat r) = Some r"
| "json_dumps (PStr s) = Some (dump_str s)"
| "json_dumps (PBytes b) = None"
| "json_dumps (PList xs) =
     map_option (\<lambda>ts. [91] @ join_text ts @ [93]) (collect_opt (map json_dumps xs))"
| "json_dumps (PTuple xs) =
     map_option (\<lambda>ts. [91] @ join_text ts @ [93]) (collect_opt (map json_dumps xs))"
| "json_dumps (PDict kvs) =
     map_option (\<lambda>ts. [123] @ join_text ts @ [125])
       (collect_opt (map (\<lambda>(k, v). map_option (\<lambda>t. dump_str k @ [58] @ t) (json_dumps v)) kvs))"
| "json_dumps POpaque = None"

text \<open>\<open>json.loads(json.dumps(value))\<close>: tuples come back as lists, everything else as it was.\<close>

fun json_norm :: "pyval \<Rightarrow> pyval" where
  "json_norm (PList xs) = PList (map json_norm xs)"
| "json_norm (PTuple xs) = PList (map json_norm xs)"
| "json_norm (PDict kvs) = PDict (map (\<lambda>(k, v). (k, json_norm v)) kvs)"
| "json_norm v = v"

lemma json_norm_idem: "json_norm (json_norm v) = json_norm v"
  by (induction v rule: json_norm.induct) (auto simp: case_prod_beta)

lemma json_dumps_norm: "json_dumps (json_norm v) = json_dumps v"
proof (induction v rule: json_norm.induct)
  case (1 xs)
  then have "map json_dumps (map json_norm xs) = map json_dumps xs" by simp
  then show ?case by (simp only: json_norm.simps json_dumps.simps)
next
  case (2 xs)
  then have "map json_dumps (map json_norm xs) = map json_dumps xs" by simp
  then show ?case by (simp only: json_norm.simps json_dumps.simps)
next
  case (3 kvs)
  then have "map (\<lambda>(k, v). map_option (\<lambda>t. dump_str k @ [58] @ t) (json_dumps v)) (map (\<lambda>(k, v). (k, json_norm v)) kvs)
      = map (\<lambda>(k, v). map_option (\<lambda>t. dump_str k @ [58] @ t) (json_dumps v)) kvs"
    by (auto simp: case_prod_beta)
  then show ?case by (simp only: json_norm.simps json_dumps.simps)
qed simp_all

end
