(* ===== verification/Engine.thy ===== *)
theory Engine
  imports PyText "HOL-Library.Product_Lexorder"
begin

text \<open>
  The cache engine, \<open>src/src/megacache/engine.py\<close>, with the entry type it exports
  (\<open>storage.py\<close>). One record holds every field of \<open>CacheEngine\<close>; each method is one
  definition that returns its result or its exception together with the new state.

  \<^item> \<open>self._clock()\<close> is the stream \<open>clock\<close> of readings; each call consumes one
    (\<open>ticks\<close>), so two readings of one method may differ.
  \<^item> \<open>_entries\<close> is the association list \<open>entries\<close>, least recently used first.
  \<^item> \<open>_lock\<close> is a reentrant lock: every method runs atomically; \<open>lock_depth\<close> records
    only the acquisitions that outlive a method (the mutation checkpoint).
  \<^item> The random lease token is an argument of \<open>acquire_lease\<close>.
  \<^item> Parameters annotated \<open>str\<close> and \<open>bool\<close> have that type, so their \<open>isinstance\<close>
    guards are vacuous; durations and tag collections are \<open>pyval\<close>s and keep theirs.
\<close>

section \<open>Data\<close>

datatype cache_state = Fresh | Stale | Miss | Loading | Lease | StaleLease

record cache_result =
  state :: cache_state
  result_value :: pyval
  expires_in_seconds :: pyfloat
  stale_for_seconds :: pyfloat
  lease_token :: "pystr option"
  retry_after_seconds :: pyfloat

definition result_of :: "cache_state \<Rightarrow> cache_result" where
  "result_of st = \<lparr>state = st, result_value = PNone, expires_in_seconds = Fin 0,
     stale_for_seconds = Fin 0, lease_token = None, retry_after_seconds = Fin 0\<rparr>"

record entry =
  "value" :: pyval
  fresh_until :: pyfloat
  stale_until :: pyfloat
  tags :: "pystr list"
  size_bytes :: int
  configured_ttl_seconds :: "real option"
  access_count :: int
  last_access :: real
  load_cost_ms :: real

record lease =
  token :: pystr
  until :: real
  lease_size :: int

record storage_entry =
  se_key :: pystr
  se_value :: pyval
  se_fresh_for :: "real option"
  se_stale_for :: "real option"
  se_tags :: "pystr list"
  se_persistent :: bool

datatype eviction = LRU | Cost

datatype engine_error =
    KeyLength
  | LimitsNotPositive
  | UnknownPolicy
  | PersistentWindow
  | BadDuration string bool
  | BadSnapshotDuration string
  | TagsNotArray
  | TooManyTags
  | TagLength
  | NotSerializable
  | UnicodeEncodeError
  | PyTypeError
  | EntryTooLarge int int
  | ExceedsMemoryLimit
  | ExceedsAvailableMemory
  | LeaseMissing
  | LeaseMismatch
  | LeaseCapacity
  | SnapshotDuplicateKeys
  | SnapshotEntryTooLarge
  | SnapshotCapacity
  | MutationActive
  | InvalidCheckpoint
  | BadLoadCost
  | NoVictim
  | KeyMissing

record mutation =
  cp_id :: nat
  cp_key :: pystr
  cp_entry :: "entry option"
  cp_predecessor :: "pystr option"
  cp_lease :: "lease option"
  cp_used_bytes :: int
  cp_lease_bytes :: int
  cp_metrics :: "string \<Rightarrow> int"
  evicted_entries :: "(pystr \<times> entry) list"
  evicted_keys :: "pystr set"

record engine =
  max_entries :: int
  max_memory_bytes :: int
  max_entry_bytes :: int
  eviction_policy :: eviction
  default_ttl :: int
  default_stale :: int
  lease_seconds :: int
  clock :: "nat \<Rightarrow> real"
  ticks :: nat
  entries :: "(pystr \<times> entry) list"
  used_bytes :: int
  lease_bytes :: int
  tag_index :: "pystr \<rightharpoonup> pystr set"
  leases :: "(pystr \<times> lease) list"
  metrics :: "string \<Rightarrow> int"
  request_counts :: "((string \<times> string \<times> string) \<times> int) list"
  latency_counts :: "((string \<times> string \<times> real) \<times> int) list"
  latency_sums :: "((string \<times> string) \<times> real) list"
  lock_depth :: nat
  active_mutation :: "mutation option"
  next_checkpoint :: nat

type_synonym 'a eres = "(engine_error, 'a, engine) res"

definition make_engine ::
  "int \<Rightarrow> int \<Rightarrow> int \<Rightarrow> int \<Rightarrow> (nat \<Rightarrow> real) \<Rightarrow> int \<Rightarrow> int \<Rightarrow> string \<Rightarrow> engine_error + engine" where
  "make_engine n_entries ttl_s stale_s lease_s clk mem entry_mem policy =
     (if Min {n_entries, mem, entry_mem, ttl_s, stale_s, lease_s} \<le> 0 then Inl LimitsNotPositive
      else if policy \<noteq> ''lru'' \<and> policy \<noteq> ''cost'' then Inl UnknownPolicy
      else Inr \<lparr>max_entries = n_entries, max_memory_bytes = mem, max_entry_bytes = entry_mem,
        eviction_policy = (if policy = ''lru'' then LRU else Cost),
        default_ttl = ttl_s, default_stale = stale_s, lease_seconds = lease_s,
        clock = clk, ticks = 0, entries = [], used_bytes = 0, lease_bytes = 0,
        tag_index = Map.empty, leases = [], metrics = (\<lambda>_. 0),
        request_counts = [], latency_counts = [], latency_sums = [],
        lock_depth = 0, active_mutation = None, next_checkpoint = 0\<rparr>)"

definition now_of :: "engine \<Rightarrow> real" where
  "now_of s = clock s (ticks s)"

definition tick :: "engine \<Rightarrow> engine" where
  "tick s = s\<lparr>ticks := Suc (ticks s)\<rparr>"

definition count_metric :: "string \<Rightarrow> engine \<Rightarrow> engine" where
  "count_metric name s = s\<lparr>metrics := bump name 1 (metrics s)\<rparr>"

section \<open>Validation\<close>

definition validate_key :: "pystr \<Rightarrow> engine_error + unit" where
  "validate_key key = (if key = [] \<or> length key > 1024 then Inl KeyLength else Inr ())"

definition duration :: "pyval \<Rightarrow> int \<Rightarrow> string \<Rightarrow> bool \<Rightarrow> engine_error + int" where
  "duration v dflt name allow_zero =
     (let selected = (if v = PNone then PInt dflt else v);
          minimum = (if allow_zero then 0 else 1 :: int)
      in case selected of
           PInt i \<Rightarrow> (if i < minimum then Inl (BadDuration name allow_zero) else Inr i)
         | _ \<Rightarrow> Inl (BadDuration name allow_zero))"

text \<open>
  A snapshot duration is \<open>None\<close> or a finite number here; the other rejected values
  (booleans, infinities, non-numbers) have no representation in \<open>storage_entry\<close>.
\<close>

definition snapshot_duration :: "real option \<Rightarrow> string \<Rightarrow> engine_error + real" where
  "snapshot_duration v name =
     (case v of None \<Rightarrow> Inl (BadSnapshotDuration name)
      | Some x \<Rightarrow> (if x < 0 then Inl (BadSnapshotDuration name) else Inr x))"

fun check_tags :: "pyval list \<Rightarrow> engine_error + pystr list" where
  "check_tags [] = Inr []"
| "check_tags (PStr t # ts) =
     (if t = [] then Inl TagLength
      else case utf8_len t of
          None \<Rightarrow> Inl UnicodeEncodeError
        | Some n \<Rightarrow> (if n > 256 then Inl TagLength
                    else case check_tags ts of Inl e \<Rightarrow> Inl e | Inr us \<Rightarrow> Inr (t # us)))"
| "check_tags (_ # ts) = Inl TagLength"

definition normalize_tags :: "pyval \<Rightarrow> engine_error + pystr list" where
  "normalize_tags ts =
     (case ts of
        PStr _ \<Rightarrow> Inl TagsNotArray
      | PBytes _ \<Rightarrow> Inl TagsNotArray
      | PList xs \<Rightarrow> (if length xs > 100 then Inl TooManyTags else check_tags xs)
      | PTuple xs \<Rightarrow> (if length xs > 100 then Inl TooManyTags else check_tags xs)
      | PDict kvs \<Rightarrow> (if length kvs > 100 then Inl TooManyTags
                     else check_tags (map (PStr \<circ> fst) kvs))
      | _ \<Rightarrow> Inl PyTypeError)"

definition utf8_size :: "pystr \<Rightarrow> engine_error + int" where
  "utf8_size s = (case utf8_len s of None \<Rightarrow> Inl UnicodeEncodeError | Some n \<Rightarrow> Inr n)"

definition snapshot_value :: "pyval \<Rightarrow> engine_error + pyval" where
  "snapshot_value v =
     (case v of
        PBytes b \<Rightarrow> Inr (PBytes b)
      | PStr t \<Rightarrow> Inr (PStr t)
      | _ \<Rightarrow> (case json_dumps v of None \<Rightarrow> Inl NotSerializable | Some _ \<Rightarrow> Inr (json_norm v)))"

definition value_size :: "pyval \<Rightarrow> engine_error + int" where
  "value_size v =
     (case v of
        PBytes b \<Rightarrow> Inr (int (length b))
      | PStr t \<Rightarrow> utf8_size t
      | _ \<Rightarrow> (case Option.bind (json_dumps v) utf8_len of
               None \<Rightarrow> Inl NotSerializable | Some n \<Rightarrow> Inr n))"

fun sum_sizes :: "pystr list \<Rightarrow> engine_error + int" where
  "sum_sizes [] = Inr 0"
| "sum_sizes (t # ts) =
     (case utf8_size t of Inl e \<Rightarrow> Inl e
      | Inr n \<Rightarrow> (case sum_sizes ts of Inl e \<Rightarrow> Inl e | Inr m \<Rightarrow> Inr (n + m)))"

definition entry_size :: "pystr \<Rightarrow> pyval \<Rightarrow> pystr list \<Rightarrow> engine_error + int" where
  "entry_size key v ts =
     (case value_size v of Inl e \<Rightarrow> Inl e
      | Inr value_bytes \<Rightarrow>
          (case utf8_size key of Inl e \<Rightarrow> Inl e
           | Inr key_bytes \<Rightarrow>
               (case sum_sizes ts of Inl e \<Rightarrow> Inl e
                | Inr tag_bytes \<Rightarrow> Inr (value_bytes + (key_bytes + tag_bytes + 128)))))"

text \<open>\<open>secrets.compare_digest\<close> on two strings raises \<open>TypeError\<close> unless both are ASCII.\<close>

definition compare_digest :: "pystr \<Rightarrow> pystr \<Rightarrow> engine_error + bool" where
  "compare_digest a b = (if is_ascii a \<and> is_ascii b then Inr (a = b) else Inl PyTypeError)"

section \<open>Removal, lookup and eviction\<close>

fun untag :: "pystr \<Rightarrow> pystr list \<Rightarrow> (pystr \<rightharpoonup> pystr set) \<Rightarrow> (pystr \<rightharpoonup> pystr set)" where
  "untag key [] m = m"
| "untag key (t # ts) m =
     untag key ts
       (case m t of None \<Rightarrow> m
        | Some ks \<Rightarrow> (if ks - {key} = {} then m(t := None) else m(t \<mapsto> ks - {key})))"

fun tag_all :: "pystr \<Rightarrow> pystr list \<Rightarrow> (pystr \<rightharpoonup> pystr set) \<Rightarrow> (pystr \<rightharpoonup> pystr set)" where
  "tag_all key [] m = m"
| "tag_all key (t # ts) m =
     tag_all key ts (m(t \<mapsto> insert key (case m t of None \<Rightarrow> {} | Some ks \<Rightarrow> ks)))"

definition journal :: "pystr \<Rightarrow> entry \<Rightarrow> mutation option \<Rightarrow> mutation option" where
  "journal key e am =
     (case am of None \<Rightarrow> None
      | Some mu \<Rightarrow>
          (if key \<noteq> cp_key mu \<and> key \<notin> evicted_keys mu
           then Some (mu\<lparr>evicted_entries := evicted_entries mu @ [(key, e)],
                         evicted_keys := insert key (evicted_keys mu)\<rparr>)
           else Some mu))"

definition remove_entry :: "pystr \<Rightarrow> engine \<Rightarrow> bool \<times> engine" where
  "remove_entry key s =
     (case map_of (entries s) key of
        None \<Rightarrow> (False, s)
      | Some e \<Rightarrow>
          (True, s\<lparr>entries := AList.delete key (entries s),
                   active_mutation := journal key e (active_mutation s),
                   used_bytes := used_bytes s - size_bytes e,
                   tag_index := untag key (tags e) (tag_index s)\<rparr>))"

definition remove_lease :: "pystr \<Rightarrow> engine \<Rightarrow> bool \<times> engine" where
  "remove_lease key s =
     (case map_of (leases s) key of
        None \<Rightarrow> (False, s)
      | Some l \<Rightarrow>
          (True, s\<lparr>leases := AList.delete key (leases s),
                   used_bytes := used_bytes s - lease_size l,
                   lease_bytes := lease_bytes s - lease_size l\<rparr>))"

definition purge_expired_leases :: "real \<Rightarrow> engine \<Rightarrow> engine" where
  "purge_expired_leases now s =
     fold (\<lambda>(key, l) s'. if until l \<le> now then snd (remove_lease key s') else s') (leases s) s"

definition purge_expired_entries :: "real \<Rightarrow> engine \<Rightarrow> engine" where
  "purge_expired_entries now s =
     fold (\<lambda>(key, e) s'. if reached now (stale_until e) then snd (remove_entry key s') else s')
       (entries s) s"

definition touch :: "bool \<Rightarrow> real \<Rightarrow> entry \<Rightarrow> entry" where
  "touch count now e =
     (if count then e\<lparr>access_count := min (access_count e + 1) 2147483647, last_access := now\<rparr> else e)"

definition lookup :: "pystr \<Rightarrow> bool \<Rightarrow> engine \<Rightarrow> cache_result \<times> engine" where
  "lookup key count s =
     (let now = now_of s; s1 = tick s
      in case map_of (entries s1) key of
           None \<Rightarrow> (result_of Miss, if count then count_metric ''misses_total'' s1 else s1)
         | Some e \<Rightarrow>
             (if reached now (stale_until e) then
                (let s2 = snd (remove_entry key s1)
                 in (result_of Miss,
                     if count then count_metric ''expirations_total'' (count_metric ''misses_total'' s2)
                     else s2))
              else
                (let s2 = s1\<lparr>entries := AList.update key (touch count now e) (od_to_end key (entries s1))\<rparr>
                 in if \<not> reached now (fresh_until e) then
                      ((result_of Fresh)\<lparr>result_value := value e,
                          expires_in_seconds := pf_gap (fresh_until e) (Fin now),
                          stale_for_seconds := pf_gap (stale_until e) (fresh_until e)\<rparr>,
                       if count then count_metric ''hits_total'' s2 else s2)
                    else
                      ((result_of Stale)\<lparr>result_value := value e,
                          stale_for_seconds := pf_gap (stale_until e) (Fin now)\<rparr>,
                       if count then count_metric ''stale_hits_total'' s2 else s2))))"

definition eviction_score :: "entry \<Rightarrow> real \<Rightarrow> real" where
  "eviction_score e now =
     (let age = max 0 (now - last_access e);
          reuse = 1 + ln (1 + of_int (access_count e));
          cost = 1 + ln (1 + load_cost_ms e);
          sz = max 1 (sqrt (of_int (size_bytes e)))
      in (reuse * cost) / (sz * (1 + age)))"

text \<open>
  The next victim, with the state after the clock reading the cost policy takes. On an empty
  cache \<open>next(iter(...))\<close> and \<open>min(...)\<close> both raise.
\<close>

definition pick_victim :: "engine \<Rightarrow> pystr option \<times> engine" where
  "pick_victim s =
     (case eviction_policy s of
        LRU \<Rightarrow> (case entries s of [] \<Rightarrow> (None, s) | (key, _) # _ \<Rightarrow> (Some key, s))
      | Cost \<Rightarrow>
          (let now = now_of s; s1 = tick s
           in case entries s of
                [] \<Rightarrow> (None, s1)
              | _ # _ \<Rightarrow>
                  (Some (fst (arg_min_list (\<lambda>(key, e). (eviction_score e now, key)) (entries s))), s1)))"

definition over_limit :: "engine \<Rightarrow> bool" where
  "over_limit s \<longleftrightarrow> int (length (entries s)) > max_entries s \<or> used_bytes s > max_memory_bytes s"

definition count_eviction :: "engine \<Rightarrow> engine" where
  "count_eviction s =
     count_metric (case eviction_policy s of Cost \<Rightarrow> ''cost_evictions_total'' | LRU \<Rightarrow> ''lru_evictions_total'')
       (count_metric ''evictions_total'' s)"

lemma pick_victim_in: "pick_victim s = (Some key, s') \<Longrightarrow> key \<in> fst ` set (entries s)"
proof (cases "entries s = []")
  case True
  then show "pick_victim s = (Some key, s') \<Longrightarrow> key \<in> fst ` set (entries s)"
    by (auto simp: pick_victim_def Let_def split: eviction.splits)
next
  case False
  from arg_min_list_in [OF False]
  have "fst (arg_min_list f (entries s)) \<in> fst ` set (entries s)" for f :: "_ \<Rightarrow> real \<times> pystr"
    by (rule imageI)
  then show "pick_victim s = (Some key, s') \<Longrightarrow> key \<in> fst ` set (entries s)"
    by (auto simp: pick_victim_def Let_def simp del: arg_min_list.simps
        split: eviction.splits list.splits)
qed

lemma pick_victim_entries: "entries (snd (pick_victim s)) = entries s"
  by (auto simp: pick_victim_def Let_def tick_def split: eviction.splits list.splits)

lemma remove_entry_shrinks:
  "key \<in> fst ` set (entries s) \<Longrightarrow> length (entries (snd (remove_entry key s))) < length (entries s)"
  by (auto simp: remove_entry_def delete_filter map_of_eq_None_iff intro!: length_filter_less
      split: option.splits)

lemma count_eviction_entries [simp]: "entries (count_eviction s) = entries s"
  by (simp add: count_eviction_def count_metric_def split: eviction.splits)

function evict_if_needed :: "engine \<Rightarrow> unit eres" where
  "evict_if_needed s =
     (if over_limit s then
        (case pick_victim s of
           (None, s1) \<Rightarrow> (Inl NoVictim, s1)
         | (Some key, s1) \<Rightarrow> evict_if_needed (count_eviction (snd (remove_entry key s1))))
      else (Inr (), s))"
  by pat_completeness auto
termination
  using pick_victim_in pick_victim_entries remove_entry_shrinks
  by (relation "measure (length \<circ> entries)") (auto, metis snd_conv)

declare evict_if_needed.simps [simp del]

section \<open>Reads and writes\<close>

definition get :: "pystr \<Rightarrow> engine \<Rightarrow> cache_result eres" where
  "get key s =
     (case validate_key key of Inl e \<Rightarrow> (Inl e, s)
      | Inr _ \<Rightarrow> (let (r, s1) = lookup key True s in (Inr r, s1)))"

definition prepare_windows ::
  "pyval \<Rightarrow> pyval \<Rightarrow> bool \<Rightarrow> engine \<Rightarrow> engine_error + (pyfloat \<times> int)" where
  "prepare_windows ttl_s stale_s persistent s =
     (if persistent then
        (if ttl_s \<noteq> PNone \<or> stale_s \<noteq> PNone then Inl PersistentWindow else Inr (PInf, 0))
      else
        (case duration ttl_s (default_ttl s) ''ttl_seconds'' False of Inl e \<Rightarrow> Inl e
         | Inr ttl \<Rightarrow>
             (case duration stale_s (default_stale s) ''stale_seconds'' True of Inl e \<Rightarrow> Inl e
              | Inr stale \<Rightarrow> Inr (Fin (of_int ttl), stale))))"

definition reject :: "bool \<Rightarrow> engine \<Rightarrow> engine" where
  "reject counted s = (if counted then count_metric ''rejected_entries_total'' s else s)"

definition prepare_put ::
  "pystr \<Rightarrow> pyval \<Rightarrow> pyval \<Rightarrow> pyval \<Rightarrow> pyval \<Rightarrow> bool \<Rightarrow> bool \<Rightarrow> engine \<Rightarrow>
   (pyval \<times> pyfloat \<times> int \<times> pystr list \<times> int) eres" where
  "prepare_put key v ttl_s stale_s ts persistent count_rejection s =
     (case validate_key key of Inl e \<Rightarrow> (Inl e, s)
      | Inr _ \<Rightarrow>
     (case prepare_windows ttl_s stale_s persistent s of Inl e \<Rightarrow> (Inl e, s)
      | Inr (ttl, stale) \<Rightarrow>
     (case normalize_tags ts of Inl e \<Rightarrow> (Inl e, s)
      | Inr raw_tags \<Rightarrow>
     (case snapshot_value v of Inl e \<Rightarrow> (Inl e, s)
      | Inr stored \<Rightarrow>
     (let ntags = remdups raw_tags in
      case entry_size key stored ntags of Inl e \<Rightarrow> (Inl e, s)
      | Inr sz \<Rightarrow>
          (if sz > max_entry_bytes s then
             (Inl (EntryTooLarge sz (max_entry_bytes s)), reject count_rejection s)
           else if sz > max_memory_bytes s then
             (Inl ExceedsMemoryLimit, reject count_rejection s)
           else (Inr (stored, ttl, stale, ntags, sz), s)))))))"

definition reserved_bytes :: "pystr \<Rightarrow> engine \<Rightarrow> int" where
  "reserved_bytes key s =
     lease_bytes s - (case map_of (leases s) key of None \<Rightarrow> 0 | Some l \<Rightarrow> lease_size l)"

definition check_put_lease :: "pystr \<Rightarrow> pystr option \<Rightarrow> real \<Rightarrow> engine \<Rightarrow> unit eres" where
  "check_put_lease key tok now s =
     (case tok of None \<Rightarrow> (Inr (), s)
      | Some given \<Rightarrow>
          (case map_of (leases s) key of
             None \<Rightarrow> (Inl LeaseMissing, snd (remove_lease key s))
           | Some l \<Rightarrow>
               (if until l \<le> now then (Inl LeaseMissing, snd (remove_lease key s))
                else case compare_digest (token l) given of
                    Inl e \<Rightarrow> (Inl e, s)
                  | Inr True \<Rightarrow> (Inr (), s)
                  | Inr False \<Rightarrow> (Inl LeaseMismatch, s))))"

definition new_entry ::
  "pyval \<Rightarrow> pyfloat \<Rightarrow> int \<Rightarrow> pystr list \<Rightarrow> int \<Rightarrow> bool \<Rightarrow> real \<Rightarrow> entry option \<Rightarrow> entry" where
  "new_entry v ttl stale ntags sz persistent now existing =
     \<lparr>value = v,
      fresh_until = pf_add now ttl,
      stale_until = pf_add (of_int stale) (pf_add now ttl),
      tags = ntags,
      size_bytes = sz,
      configured_ttl_seconds = (if persistent then None else case ttl of Fin x \<Rightarrow> Some x | PInf \<Rightarrow> None),
      access_count = (case existing of None \<Rightarrow> 0 | Some e \<Rightarrow> access_count e),
      last_access = (case existing of None \<Rightarrow> now | Some e \<Rightarrow> last_access e),
      load_cost_ms = (case existing of None \<Rightarrow> 0 | Some e \<Rightarrow> load_cost_ms e)\<rparr>"

definition insert_entry :: "pystr \<Rightarrow> entry \<Rightarrow> engine \<Rightarrow> engine" where
  "insert_entry key e s =
     (let s1 = snd (remove_entry key s)
      in s1\<lparr>entries := AList.update key e (entries s1),
            used_bytes := used_bytes s1 + size_bytes e,
            tag_index := tag_all key (tags e) (tag_index s1)\<rparr>)"

definition put ::
  "pystr \<Rightarrow> pyval \<Rightarrow> pyval \<Rightarrow> pyval \<Rightarrow> pyval \<Rightarrow> pystr option \<Rightarrow> bool \<Rightarrow> engine \<Rightarrow> cache_result eres" where
  "put key v ttl_s stale_s ts tok persistent s =
     bind_res (prepare_put key v ttl_s stale_s ts persistent True s)
       (\<lambda>(stored, ttl, stale, ntags, sz) s1.
         let now = now_of s1 in
         bind_res (check_put_lease key tok now (tick s1))
           (\<lambda>_ s2.
             if sz + reserved_bytes key s2 > max_memory_bytes s2 then
               (Inl ExceedsAvailableMemory, count_metric ''rejected_entries_total'' s2)
             else
               let e = new_entry stored ttl stale ntags sz persistent now (map_of (entries s2) key);
                   s3 = insert_entry key e s2;
                   s4 = snd (remove_lease key s3)
               in bind_res (evict_if_needed (count_metric ''writes_total'' s4))
                    (\<lambda>_ s5. let (r, s6) = lookup key False s5 in (Inr r, s6))))"

definition validate_put ::
  "pystr \<Rightarrow> pyval \<Rightarrow> pyval \<Rightarrow> pyval \<Rightarrow> pyval \<Rightarrow> pystr option \<Rightarrow> bool \<Rightarrow> engine \<Rightarrow> unit eres" where
  "validate_put key v ttl_s stale_s ts tok persistent s =
     bind_res (prepare_put key v ttl_s stale_s ts persistent False s)
       (\<lambda>(stored, ttl, stale, ntags, sz) s1.
         let now = now_of s1; s2 = tick s1;
             lease_check =
               (case tok of None \<Rightarrow> Inr ()
                | Some given \<Rightarrow>
                    (case map_of (leases s2) key of
                       None \<Rightarrow> Inl LeaseMissing
                     | Some l \<Rightarrow>
                         (if until l \<le> now then Inl LeaseMissing
                          else case compare_digest (token l) given of
                              Inl e \<Rightarrow> Inl e
                            | Inr True \<Rightarrow> Inr ()
                            | Inr False \<Rightarrow> Inl LeaseMismatch)))
         in case lease_check of Inl e \<Rightarrow> (Inl e, s2)
            | Inr _ \<Rightarrow> (if sz + reserved_bytes key s2 > max_memory_bytes s2
                        then (Inl ExceedsAvailableMemory, s2) else (Inr (), s2)))"

definition mget :: "pystr list \<Rightarrow> engine \<Rightarrow> cache_result list eres" where
  "mget ks s = fold_res get ks s"

definition mset_check :: "pystr \<times> pyval \<Rightarrow> engine \<Rightarrow> unit eres" where
  "mset_check kv s =
     (let (key, v) = kv in
      case validate_key key of Inl e \<Rightarrow> (Inl e, s)
      | Inr _ \<Rightarrow>
          (case entry_size key v [] of Inl e \<Rightarrow> (Inl e, s)
           | Inr sz \<Rightarrow>
               (if sz > max_entry_bytes s \<or> sz > max_memory_bytes s
                then (Inl (EntryTooLarge sz (min (max_entry_bytes s) (max_memory_bytes s))),
                      count_metric ''rejected_entries_total'' s)
                else (Inr (), s))))"

definition mset :: "(pystr \<times> pyval) list \<Rightarrow> engine \<Rightarrow> unit eres" where
  "mset kvs s =
     bind_res (fold_res mset_check kvs s)
       (\<lambda>_ s1. bind_res (fold_res (\<lambda>(key, v). put key v PNone PNone (PTuple []) None True) kvs s1)
         (\<lambda>_ s2. (Inr (), s2)))"

definition delete :: "pystr \<Rightarrow> engine \<Rightarrow> bool eres" where
  "delete key s =
     (case validate_key key of Inl e \<Rightarrow> (Inl e, s)
      | Inr _ \<Rightarrow>
          (let (existed, s1) = remove_entry key s;
               s2 = snd (remove_lease key s1)
           in (Inr existed, if existed then count_metric ''deletes_total'' s2 else s2)))"

definition delete_many :: "pystr list \<Rightarrow> engine \<Rightarrow> int eres" where
  "delete_many ks s =
     bind_res (fold_res delete ks s) (\<lambda>bs s1. (Inr (int (length (filter id bs))), s1))"

fun exists_count :: "pystr list \<Rightarrow> engine \<Rightarrow> int \<times> engine" where
  "exists_count [] s = (0, s)"
| "exists_count (key # ks) s =
     (let (r, s1) = lookup key False s; (n, s2) = exists_count ks s1
      in ((if state r \<noteq> Miss then 1 else 0) + n, s2))"

definition expire :: "pystr \<Rightarrow> pyval \<Rightarrow> engine \<Rightarrow> bool eres" where
  "expire key ttl_s s =
     (case validate_key key of Inl e \<Rightarrow> (Inl e, s)
      | Inr _ \<Rightarrow>
     (case duration ttl_s 0 ''ttl_seconds'' False of Inl e \<Rightarrow> (Inl e, s)
      | Inr ttl \<Rightarrow>
          (let (r, s1) = lookup key False s
           in if state r = Miss then (Inr False, s1)
              else case map_of (entries s1) key of
                  None \<Rightarrow> (Inl KeyMissing, s1)
                | Some e \<Rightarrow>
                    (let deadline = Fin (now_of s1 + of_int ttl);
                         e' = e\<lparr>fresh_until := deadline, stale_until := deadline,
                                configured_ttl_seconds := Some (of_int ttl)\<rparr>;
                         s2 = (tick s1)\<lparr>entries := AList.update key e' (entries s1)\<rparr>
                     in (Inr True, count_metric ''expirations_set_total'' s2)))))"

definition ttl :: "pystr \<Rightarrow> engine \<Rightarrow> int eres" where
  "ttl key s =
     (case validate_key key of Inl e \<Rightarrow> (Inl e, s)
      | Inr _ \<Rightarrow>
          (let (r, s1) = lookup key False s
           in if state r = Miss then (Inr (-2), s1)
              else case map_of (entries s1) key of
                  None \<Rightarrow> (Inl KeyMissing, s1)
                | Some e \<Rightarrow>
                    (case fresh_until e of
                       PInf \<Rightarrow> (Inr (-1), s1)
                     | Fin d \<Rightarrow> (Inr (max 0 (py_int (d - now_of s1))), tick s1))))"

definition flush :: "engine \<Rightarrow> int \<times> engine" where
  "flush s =
     (int (length (entries s)),
      count_metric ''flushes_total''
        (s\<lparr>entries := [], tag_index := Map.empty, leases := [], used_bytes := 0, lease_bytes := 0\<rparr>))"

definition size_op :: "engine \<Rightarrow> int \<times> engine" where
  "size_op s =
     (let s1 = fold (\<lambda>key s'. snd (lookup key False s')) (od_keys (entries s)) s
      in (int (length (entries s1)), s1))"

definition keys :: "engine \<Rightarrow> pystr list \<times> engine" where
  "keys s =
     (let s1 = purge_expired_entries (now_of s) (tick s)
      in (od_keys (entries s1), s1))"

section \<open>Snapshots\<close>

definition export_one :: "real \<Rightarrow> pystr \<Rightarrow> entry \<Rightarrow> storage_entry" where
  "export_one now key e =
     (let persistent = (fresh_until e = PInf);
          seconds = (\<lambda>x. case x of Fin r \<Rightarrow> Some r | PInf \<Rightarrow> None)
      in \<lparr>se_key = key,
          se_value = value e,
          se_fresh_for = (if persistent then None else seconds (pf_gap (fresh_until e) (Fin now))),
          se_stale_for = (if persistent then None
                          else seconds (pf_gap (stale_until e) (pf_max now (fresh_until e)))),
          se_tags = sort (tags e),
          se_persistent = persistent\<rparr>)"

fun export_loop :: "real \<Rightarrow> pystr list \<Rightarrow> engine \<Rightarrow> storage_entry list \<times> engine" where
  "export_loop now [] s = ([], s)"
| "export_loop now (key # ks) s =
     (case map_of (entries s) key of
        None \<Rightarrow> export_loop now ks s
      | Some e \<Rightarrow>
          (if reached now (stale_until e) then export_loop now ks (snd (remove_entry key s))
           else let (out, s1) = export_loop now ks s in (export_one now key e # out, s1)))"

definition export_entries :: "pystr list option \<Rightarrow> engine \<Rightarrow> storage_entry list \<times> engine" where
  "export_entries selected s =
     export_loop (now_of s)
       (case selected of None \<Rightarrow> od_keys (entries s) | Some ks \<Rightarrow> ks) (tick s)"

type_synonym prepared = "pystr \<times> pyval \<times> pystr list \<times> int \<times> (real \<times> real) option"

definition prepare_one :: "engine \<Rightarrow> storage_entry \<Rightarrow> engine_error + prepared option" where
  "prepare_one s item =
     (case normalize_tags (PTuple (map PStr (se_tags item))) of Inl e \<Rightarrow> Inl e
      | Inr raw_tags \<Rightarrow>
     (case snapshot_value (se_value item) of Inl e \<Rightarrow> Inl e
      | Inr v \<Rightarrow>
     (let windows =
        (if se_persistent item then Inr (Some None)
         else case snapshot_duration (se_fresh_for item) ''fresh_for_seconds'' of Inl e \<Rightarrow> Inl e
              | Inr fresh_for \<Rightarrow>
                  (case snapshot_duration (se_stale_for item) ''stale_for_seconds'' of Inl e \<Rightarrow> Inl e
                   | Inr stale_for \<Rightarrow>
                       (if fresh_for + stale_for \<le> 0 then Inr None
                        else Inr (Some (Some (fresh_for, stale_for))))))
      in case windows of Inl e \<Rightarrow> Inl e
         | Inr None \<Rightarrow> Inr None
         | Inr (Some w) \<Rightarrow>
             (let ntags = remdups raw_tags in
              case entry_size (se_key item) v ntags of Inl e \<Rightarrow> Inl e
              | Inr sz \<Rightarrow>
                  (if sz > max_entry_bytes s \<or> sz > max_memory_bytes s
                   then Inl SnapshotEntryTooLarge
                   else Inr (Some (se_key item, v, ntags, sz, w)))))))"

definition prepare_restore_entries :: "engine \<Rightarrow> storage_entry list \<Rightarrow> engine_error + prepared list" where
  "prepare_restore_entries s items =
     (case map_sum_list (\<lambda>item. validate_key (se_key item)) items of Inl e \<Rightarrow> Inl e
      | Inr _ \<Rightarrow>
          (if \<not> distinct (map se_key items) then Inl SnapshotDuplicateKeys
           else case map_sum_list (prepare_one s) items of Inl e \<Rightarrow> Inl e
                | Inr ps \<Rightarrow> Inr (List.map_filter id ps)))"

definition validate_prepared_restore_capacity :: "engine \<Rightarrow> prepared list \<Rightarrow> engine_error + unit" where
  "validate_prepared_restore_capacity s ps =
     (let old = List.map_filter (\<lambda>p. map_of (entries s) (fst p)) ps;
          replaced_bytes = sum_list (map size_bytes old);
          replaced_count = int (length old);
          final_count = int (length (entries s)) - replaced_count + int (length ps);
          final_bytes = used_bytes s - replaced_bytes
             + sum_list (map (\<lambda>(_, _, _, sz, _). sz) ps)
      in if final_count > max_entries s \<or> final_bytes > max_memory_bytes s
         then Inl SnapshotCapacity else Inr ())"

definition restored_entry :: "real \<Rightarrow> prepared \<Rightarrow> entry" where
  "restored_entry now p =
     (let (key, v, ntags, sz, w) = p;
          fresh = (case w of None \<Rightarrow> PInf | Some (f, g) \<Rightarrow> Fin (now + f));
          stale = (case w of None \<Rightarrow> PInf | Some (f, g) \<Rightarrow> Fin (now + f + g))
      in \<lparr>value = v, fresh_until = fresh, stale_until = stale, tags = ntags, size_bytes = sz,
          configured_ttl_seconds = map_option fst w, access_count = 0, last_access = now,
          load_cost_ms = 0\<rparr>)"

definition restore_entries :: "storage_entry list \<Rightarrow> engine \<Rightarrow> int eres" where
  "restore_entries items s =
     (case prepare_restore_entries s items of Inl e \<Rightarrow> (Inl e, s)
      | Inr ps \<Rightarrow>
          (let s1 = purge_expired_entries (now_of s) (tick s)
           in case validate_prepared_restore_capacity s1 ps of Inl e \<Rightarrow> (Inl e, s1)
              | Inr _ \<Rightarrow>
                  (let now = now_of s1
                   in (Inr (int (length ps)),
                       fold (\<lambda>p. insert_entry (fst p) (restored_entry now p)) ps (tick s1)))))"

definition validate_restore_entries :: "storage_entry list \<Rightarrow> engine \<Rightarrow> unit eres" where
  "validate_restore_entries items s =
     (case prepare_restore_entries s items of Inl e \<Rightarrow> (Inl e, s)
      | Inr ps \<Rightarrow>
          (let s1 = purge_expired_entries (now_of s) (tick s)
           in (validate_prepared_restore_capacity s1 ps, s1)))"

section \<open>Checkpoints\<close>

fun predecessor_of :: "pystr \<Rightarrow> pystr option \<Rightarrow> pystr list \<Rightarrow> pystr option" where
  "predecessor_of key prev [] = prev"
| "predecessor_of key prev (k # ks) = (if k = key then prev else predecessor_of key (Some k) ks)"

definition begin_mutation_checkpoint :: "pystr \<Rightarrow> engine \<Rightarrow> nat eres" where
  "begin_mutation_checkpoint key s =
     (case validate_key key of Inl e \<Rightarrow> (Inl e, s)
      | Inr _ \<Rightarrow>
          (if active_mutation s \<noteq> None then (Inl MutationActive, s)
           else
             (let cp = \<lparr>cp_id = next_checkpoint s, cp_key = key, cp_entry = map_of (entries s) key,
                        cp_predecessor = predecessor_of key None (od_keys (entries s)),
                        cp_lease = map_of (leases s) key, cp_used_bytes = used_bytes s,
                        cp_lease_bytes = lease_bytes s, cp_metrics = metrics s,
                        evicted_entries = [], evicted_keys = {}\<rparr>
              in (Inr (cp_id cp), s\<lparr>lock_depth := Suc (lock_depth s), active_mutation := Some cp,
                                    next_checkpoint := Suc (next_checkpoint s)\<rparr>))))"

definition validate_active_mutation :: "nat \<Rightarrow> engine \<Rightarrow> engine_error + mutation" where
  "validate_active_mutation cp s =
     (case active_mutation s of None \<Rightarrow> Inl InvalidCheckpoint
      | Some mu \<Rightarrow> (if cp_id mu = cp then Inr mu else Inl InvalidCheckpoint))"

definition commit_mutation_checkpoint :: "nat \<Rightarrow> engine \<Rightarrow> unit eres" where
  "commit_mutation_checkpoint cp s =
     (case validate_active_mutation cp s of Inl e \<Rightarrow> (Inl e, s)
      | Inr _ \<Rightarrow> (Inr (), s\<lparr>active_mutation := None, lock_depth := lock_depth s - 1\<rparr>))"

text \<open>The loop that re-inserts the key behind its predecessor by popping the tail.\<close>

definition insert_after :: "pystr \<Rightarrow> pystr \<Rightarrow> entry \<Rightarrow> (pystr \<times> entry) list \<Rightarrow> (pystr \<times> entry) list" where
  "insert_after pred key e d =
     (let tail = takeWhile (\<lambda>p. fst p \<noteq> pred) (rev d);
          front = rev (dropWhile (\<lambda>p. fst p \<noteq> pred) (rev d))
      in foldl (\<lambda>d' (k, x). AList.update k x d') (AList.update key e front) (rev tail))"

definition reinstate_front :: "pystr \<times> entry \<Rightarrow> engine \<Rightarrow> engine" where
  "reinstate_front ke s =
     (let (key, e) = ke; s1 = snd (remove_entry key s)
      in s1\<lparr>entries := od_to_front key (AList.update key e (entries s1)),
            tag_index := tag_all key (tags e) (tag_index s1)\<rparr>)"

definition reinstate_key :: "mutation \<Rightarrow> engine \<Rightarrow> engine" where
  "reinstate_key mu s =
     (case cp_entry mu of None \<Rightarrow> s
      | Some e \<Rightarrow>
          s\<lparr>entries :=
               (case cp_predecessor mu of
                  None \<Rightarrow> od_to_front (cp_key mu) (AList.update (cp_key mu) e (entries s))
                | Some p \<Rightarrow> insert_after p (cp_key mu) e (entries s)),
            tag_index := tag_all (cp_key mu) (tags e) (tag_index s)\<rparr>)"

definition restore_mutation_checkpoint :: "nat \<Rightarrow> engine \<Rightarrow> unit eres" where
  "restore_mutation_checkpoint cp s =
     (case validate_active_mutation cp s of Inl e \<Rightarrow> (Inl e, s)
      | Inr mu \<Rightarrow>
          (let s1 = s\<lparr>active_mutation := None\<rparr>;
               s2 = snd (remove_entry (cp_key mu) s1);
               s3 = snd (remove_lease (cp_key mu) s2);
               s4 = fold reinstate_front (rev (evicted_entries mu)) s3;
               s5 = reinstate_key mu s4;
               s6 = (case cp_lease mu of None \<Rightarrow> s5
                     | Some l \<Rightarrow> s5\<lparr>leases := AList.update (cp_key mu) l (leases s5)\<rparr>)
           in (Inr (), s6\<lparr>used_bytes := cp_used_bytes mu, lease_bytes := cp_lease_bytes mu,
                          metrics := cp_metrics mu, active_mutation := None,
                          lock_depth := lock_depth s6 - 1\<rparr>)))"

record engine_checkpoint =
  ec_entries :: "(pystr \<times> entry) list"
  ec_used_bytes :: int
  ec_lease_bytes :: int
  ec_tags :: "pystr \<rightharpoonup> pystr set"
  ec_leases :: "(pystr \<times> lease) list"
  ec_metrics :: "string \<Rightarrow> int"

definition checkpoint :: "engine \<Rightarrow> engine_checkpoint" where
  "checkpoint s = \<lparr>ec_entries = entries s, ec_used_bytes = used_bytes s,
     ec_lease_bytes = lease_bytes s, ec_tags = tag_index s, ec_leases = leases s,
     ec_metrics = metrics s\<rparr>"

definition restore_checkpoint :: "engine_checkpoint \<Rightarrow> engine \<Rightarrow> engine" where
  "restore_checkpoint cp s =
     s\<lparr>entries := ec_entries cp, used_bytes := ec_used_bytes cp, lease_bytes := ec_lease_bytes cp,
       tag_index := ec_tags cp, leases := ec_leases cp, metrics := ec_metrics cp\<rparr>"

section \<open>Tags and leases\<close>

text \<open>
  The keys of the invalidated tags form a Python set, whose iteration order is unspecified;
  the model takes them in sorted order.
\<close>

definition tagged_keys :: "pystr list \<Rightarrow> engine \<Rightarrow> pystr set" where
  "tagged_keys ts s = (\<Union>t\<in>set ts. case tag_index s t of None \<Rightarrow> {} | Some ks \<Rightarrow> ks)"

fun invalidate_loop :: "pystr list \<Rightarrow> engine \<Rightarrow> int \<times> engine" where
  "invalidate_loop [] s = (0, s)"
| "invalidate_loop (key # ks) s =
     (let (removed, s1) = remove_entry key s;
          s2 = snd (remove_lease key s1);
          (n, s3) = invalidate_loop ks s2
      in ((if removed then 1 else 0) + n, s3))"

definition invalidate_tags :: "pyval \<Rightarrow> engine \<Rightarrow> int eres" where
  "invalidate_tags ts s =
     (case normalize_tags ts of Inl e \<Rightarrow> (Inl e, s)
      | Inr normalized \<Rightarrow>
          (let (removed, s1) = invalidate_loop (sorted_list_of_set (tagged_keys normalized s)) s
           in (Inr removed, s1\<lparr>metrics := bump ''invalidations_total'' removed (metrics s1)\<rparr>)))"

definition acquire_lease :: "pystr \<Rightarrow> bool \<Rightarrow> pystr \<Rightarrow> engine \<Rightarrow> cache_result eres" where
  "acquire_lease key force tok s =
     (case validate_key key of Inl e \<Rightarrow> (Inl e, s)
      | Inr _ \<Rightarrow>
     (let now = now_of s;
          s1 = purge_expired_leases now (tick s);
          (cached, s2) = lookup key True s1
      in if state cached = Fresh \<and> \<not> force then (Inr cached, s2)
         else
           (let grant =
              (case utf8_size key of Inl e \<Rightarrow> (Inl e, s2)
               | Inr key_bytes \<Rightarrow>
                   (let sz = key_bytes + int (length tok) + 64
                    in if int (length (leases s2)) \<ge> max_entries s2
                          \<or> used_bytes s2 + sz > max_memory_bytes s2
                       then (Inl LeaseCapacity, count_metric ''rejected_leases_total'' s2)
                       else
                         (let l = \<lparr>token = tok, until = now + of_int (lease_seconds s2), lease_size = sz\<rparr>;
                              s3 = count_metric ''leases_total''
                                (s2\<lparr>leases := AList.update key l (leases s2),
                                    used_bytes := used_bytes s2 + sz,
                                    lease_bytes := lease_bytes s2 + sz\<rparr>)
                          in (Inr (if state cached = Stale
                                   then (result_of StaleLease)
                                     \<lparr>result_value := result_value cached,
                                      stale_for_seconds := stale_for_seconds cached,
                                      lease_token := Some tok,
                                      expires_in_seconds := Fin (of_int (lease_seconds s2))\<rparr>
                                   else (result_of Lease)
                                     \<lparr>lease_token := Some tok,
                                      expires_in_seconds := Fin (of_int (lease_seconds s2))\<rparr>), s3))))
            in case map_of (leases s2) key of
                 None \<Rightarrow> grant
               | Some l \<Rightarrow>
                   (if until l > now then
                      (Inr (if state cached = Stale then cached
                            else (result_of Loading)\<lparr>retry_after_seconds := Fin (max 0 (until l - now))\<rparr>),
                       count_metric ''coalesced_total'' s2)
                    else grant))))"

definition release_lease :: "pystr \<Rightarrow> pystr \<Rightarrow> engine \<Rightarrow> bool eres" where
  "release_lease key tok s =
     (case validate_key key of Inl e \<Rightarrow> (Inl e, s)
      | Inr _ \<Rightarrow>
          (case map_of (leases s) key of None \<Rightarrow> (Inr False, s)
           | Some l \<Rightarrow>
               (case compare_digest (token l) tok of
                  Inl e \<Rightarrow> (Inl e, s)
                | Inr False \<Rightarrow> (Inr False, s)
                | Inr True \<Rightarrow> (let (b, s1) = remove_lease key s in (Inr b, s1)))))"

definition renew_lease :: "pystr \<Rightarrow> pystr \<Rightarrow> engine \<Rightarrow> bool eres" where
  "renew_lease key tok s =
     (case validate_key key of Inl e \<Rightarrow> (Inl e, s)
      | Inr _ \<Rightarrow>
          (let now = now_of s; s1 = tick s
           in case map_of (leases s1) key of
                None \<Rightarrow> (Inr False, snd (remove_lease key s1))
              | Some l \<Rightarrow>
                  (if until l \<le> now then (Inr False, snd (remove_lease key s1))
                   else case compare_digest (token l) tok of
                       Inl e \<Rightarrow> (Inl e, s1)
                     | Inr False \<Rightarrow> (Inr False, s1)
                     | Inr True \<Rightarrow>
                         (Inr True, count_metric ''lease_renewals_total''
                            (s1\<lparr>leases := AList.update key
                                  (l\<lparr>until := now + of_int (lease_seconds s1)\<rparr>) (leases s1)\<rparr>)))))"

section \<open>Observation\<close>

definition dict_add :: "'k \<Rightarrow> 'v::{plus,zero} \<Rightarrow> ('k \<times> 'v) list \<Rightarrow> ('k \<times> 'v) list" where
  "dict_add k n d = AList.update k ((case map_of d k of None \<Rightarrow> 0 | Some m \<Rightarrow> m) + n) d"

definition latency_buckets :: "real list" where
  "latency_buckets = [1/1000, 5/1000, 1/100, 25/1000, 5/100, 1/10, 1/4, 1/2, 1, 5/2, 5]"

definition observe_request :: "string \<Rightarrow> string \<Rightarrow> real \<Rightarrow> bool \<Rightarrow> engine \<Rightarrow> engine" where
  "observe_request protocol operation seconds success s =
     s\<lparr>request_counts :=
          dict_add (protocol, operation, if success then ''success'' else ''error'') 1 (request_counts s),
       latency_sums := dict_add (protocol, operation) seconds (latency_sums s),
       latency_counts :=
          fold (\<lambda>b d. if seconds \<le> b then dict_add (protocol, operation, b) 1 d else d)
            latency_buckets (latency_counts s)\<rparr>"

fun count_active :: "(pystr \<times> lease) list \<Rightarrow> engine \<Rightarrow> int \<times> engine" where
  "count_active [] s = (0, s)"
| "count_active ((_, l) # ls) s =
     (let (n, s1) = count_active ls (tick s) in ((if until l > now_of s then 1 else 0) + n, s1))"

definition stats :: "engine \<Rightarrow> (string \<Rightarrow> int) \<times> engine" where
  "stats s =
     (let s1 = purge_expired_leases (now_of s) (tick s);
          (n, s2) = size_op s1;
          (active, s3) = count_active (leases s2) s2
      in ((metrics s1)
            (''entries'' := n,
             ''memory_bytes'' := used_bytes s2,
             ''lease_memory_bytes'' := lease_bytes s2,
             ''memory_limit_bytes'' := max_memory_bytes s2,
             ''tags'' := int (card (dom (tag_index s2))),
             ''active_leases'' := active,
             ''protocol_requests_total'' := sum_list (map snd (request_counts s3)),
             ''request_errors_total'' :=
               sum_list (map snd (filter (\<lambda>((_, _, st), _). st = ''error'') (request_counts s3))),
             ''cost_aware_eviction_enabled'' := (case eviction_policy s3 of Cost \<Rightarrow> 1 | LRU \<Rightarrow> 0)), s3))"

definition record_load_cost :: "pystr \<Rightarrow> pyfloat \<Rightarrow> engine \<Rightarrow> unit eres" where
  "record_load_cost key duration_ms s =
     (case duration_ms of
        PInf \<Rightarrow> (Inl BadLoadCost, s)
      | Fin d \<Rightarrow>
          (if d < 0 then (Inl BadLoadCost, s)
           else case map_of (entries s) key of
               None \<Rightarrow> (Inr (), s)
             | Some e \<Rightarrow>
                 (let v = min d 3600000;
                      c = (if load_cost_ms e = 0 then v else load_cost_ms e * (8/10) + v * (2/10))
                  in (Inr (), s\<lparr>entries := AList.update key (e\<lparr>load_cost_ms := c\<rparr>) (entries s)\<rparr>))))"

definition safe_lineage_path :: "pyval \<Rightarrow> pyval" where
  "safe_lineage_path v = (case v of PStr p \<Rightarrow> PStr (takeWhile (\<lambda>c. c \<noteq> 63) p) | _ \<Rightarrow> v)"

definition dict_get :: "(pystr \<times> pyval) list \<Rightarrow> string \<Rightarrow> pyval" where
  "dict_get kvs name = (case map_of kvs (lit name) of None \<Rightarrow> PNone | Some v \<Rightarrow> v)"

record lineage =
  lin_origin :: pyval
  lin_path :: pyval
  lin_status :: pyval
  lin_negative :: bool

definition lineage_of :: "pyval \<Rightarrow> lineage option" where
  "lineage_of v =
     (case v of
        PDict kvs \<Rightarrow>
          (let info = \<lparr>lin_origin = dict_get kvs ''origin'',
                       lin_path = safe_lineage_path (dict_get kvs ''path''),
                       lin_status = dict_get kvs ''status'', lin_negative = False\<rparr>
           in if dict_get kvs ''$megacache_origin_value_v1'' = PBool True then Some info
              else if dict_get kvs ''$megacache_origin_negative_v1'' = PBool True
                   then Some (info\<lparr>lin_negative := True\<rparr>)
                   else None)
      | _ \<Rightarrow> None)"

text \<open>\<open>round(x, n)\<close>: to the nearest decimal, ties to even.\<close>

definition py_round :: "nat \<Rightarrow> real \<Rightarrow> real" where
  "py_round n x =
     (let y = x * 10 ^ n; f = \<lfloor>y\<rfloor>; d = y - of_int f;
          r = (if d < 1/2 then f else if d > 1/2 then f + 1 else if even f then f else f + 1)
      in of_int r / 10 ^ n)"

record entry_report =
  rep_state :: cache_state
  rep_present :: bool
  rep_policy :: eviction
  rep_persistent :: bool
  rep_fresh_for :: "pyfloat option"
  rep_stale_for :: "pyfloat option"
  rep_configured_ttl :: "int option"
  rep_size_bytes :: int
  rep_access_count :: int
  rep_load_cost_ms :: real
  rep_eviction_score :: real
  rep_lineage :: "lineage option"

definition explain_entry :: "pystr \<Rightarrow> engine \<Rightarrow> entry_report eres" where
  "explain_entry key s =
     (case validate_key key of Inl e \<Rightarrow> (Inl e, s)
      | Inr _ \<Rightarrow>
          (let now = now_of s; s1 = tick s;
               absent = \<lparr>rep_state = Miss, rep_present = False, rep_policy = eviction_policy s,
                  rep_persistent = False, rep_fresh_for = None, rep_stale_for = None,
                  rep_configured_ttl = None, rep_size_bytes = 0, rep_access_count = 0,
                  rep_load_cost_ms = 0, rep_eviction_score = 0, rep_lineage = None\<rparr>
           in case map_of (entries s1) key of
                None \<Rightarrow> (Inr absent, s1)
              | Some e \<Rightarrow>
                  (if reached now (stale_until e) then (Inr absent, s1)
                   else
                     (let persistent = (fresh_until e = PInf)
                      in (Inr \<lparr>rep_state = (if \<not> reached now (fresh_until e) then Fresh else Stale),
                           rep_present = True, rep_policy = eviction_policy s,
                           rep_persistent = persistent,
                           rep_fresh_for = (if persistent then None
                              else Some (pf_gap (fresh_until e) (Fin now))),
                           rep_stale_for = (if persistent then None
                              else Some (pf_gap (stale_until e) (pf_max now (fresh_until e)))),
                           rep_configured_ttl = map_option py_int (configured_ttl_seconds e),
                           rep_size_bytes = size_bytes e, rep_access_count = access_count e,
                           rep_load_cost_ms = py_round 3 (load_cost_ms e),
                           rep_eviction_score = py_round 6 (eviction_score e now),
                           rep_lineage = lineage_of (value e)\<rparr>, s1)))))"

end
