(* ===== verification/Engine_Inv.thy ===== *)
theory Engine_Inv
  imports Engine
begin

text \<open>
  The representation invariant of the cache engine and its preservation by every operation:
  the byte counters equal the sizes of what is stored, the tag index is exactly the inverse
  of the entries' tags (with no empty bucket), keys are unique, and the entry and memory
  limits hold. The eviction loop is shown to return whenever the reserved lease memory fits.
\<close>

section \<open>The invariant\<close>

definition keys_tagged :: "pystr \<Rightarrow> (pystr \<times> entry) list \<Rightarrow> pystr set" where
  "keys_tagged t es = {k. \<exists>e. map_of es k = Some e \<and> t \<in> set (tags e)}"

definition index_of :: "(pystr \<times> entry) list \<Rightarrow> pystr \<rightharpoonup> pystr set" where
  "index_of es t = (if keys_tagged t es = {} then None else Some (keys_tagged t es))"

text \<open>
  What every stored entry satisfies: it is charged its exact size, its value is a fixed point
  of the snapshot taken on admission, its tags are valid and distinct, and it is either
  persistent or has an ordered pair of windows.
\<close>

fun ordered_windows :: "pyfloat \<Rightarrow> pyfloat \<Rightarrow> bool" where
  "ordered_windows (Fin f) (Fin g) = (f \<le> g)"
| "ordered_windows PInf PInf = True"
| "ordered_windows _ _ = False"

definition windows_ok :: "entry \<Rightarrow> bool" where
  "windows_ok e \<longleftrightarrow> ordered_windows (fresh_until e) (stale_until e)"

definition entry_ok :: "pystr \<Rightarrow> entry \<Rightarrow> bool" where
  "entry_ok k e \<longleftrightarrow>
     validate_key k = Inr () \<and> snapshot_value (value e) = Inr (value e) \<and>
     check_tags (map PStr (tags e)) = Inr (tags e) \<and> distinct (tags e) \<and> length (tags e) \<le> 100 \<and>
     entry_size k (value e) (tags e) = Inr (size_bytes e) \<and> windows_ok e"

definition accounted :: "engine \<Rightarrow> bool" where
  "accounted s \<longleftrightarrow>
     od_distinct (entries s) \<and> od_distinct (leases s) \<and>
     (\<forall>(k, e) \<in> set (entries s). entry_ok k e) \<and>
     (\<forall>(k, l) \<in> set (leases s). 0 \<le> lease_size l) \<and>
     used_bytes s = od_sum size_bytes (entries s) + od_sum lease_size (leases s) \<and>
     lease_bytes s = od_sum lease_size (leases s) \<and>
     tag_index s = index_of (entries s)"

definition positive_limits :: "engine \<Rightarrow> bool" where
  "positive_limits s \<longleftrightarrow> 0 < max_entries s \<and> 0 < max_memory_bytes s"

definition engine_inv :: "engine \<Rightarrow> bool" where
  "engine_inv s \<longleftrightarrow> accounted s \<and> positive_limits s \<and> \<not> over_limit s"

lemmas inv_defs = engine_inv_def positive_limits_def over_limit_def

section \<open>The tag index\<close>

lemma untag_apply:
  "untag k ts m t =
     (if t \<in> set ts then (case m t of None \<Rightarrow> None
        | Some K \<Rightarrow> if K - {k} = {} then None else Some (K - {k})) else m t)"
proof (induction ts arbitrary: m)
  case Nil
  then show ?case by simp
next
  case (Cons u ts)
  then show ?case by (cases "m u") (auto split: option.splits)
qed

lemma tag_all_apply:
  "tag_all k ts m t =
     (if t \<in> set ts then Some (insert k (case m t of None \<Rightarrow> {} | Some K \<Rightarrow> K)) else m t)"
  by (induction ts arbitrary: m) (auto split: option.splits)

lemma index_of_delete:
  assumes "map_of es k = Some e"
  shows "index_of (AList.delete k es) = untag k (tags e) (index_of es)"
proof
  fix t
  have "keys_tagged t (AList.delete k es) = keys_tagged t es - {k}"
    by (auto simp: keys_tagged_def delete_conv' split: if_splits)
  moreover have "k \<in> keys_tagged t es \<longleftrightarrow> t \<in> set (tags e)"
    using assms by (simp add: keys_tagged_def)
  ultimately show "index_of (AList.delete k es) t = untag k (tags e) (index_of es) t"
    by (auto simp: index_of_def untag_apply)
qed

lemma keys_tagged_insert:
  "map_of es k = None \<Longrightarrow> keys_tagged t (AList.update k e es) =
     (if t \<in> set (tags e) then insert k (keys_tagged t es) else keys_tagged t es)"
  by (auto simp: keys_tagged_def)

lemma index_of_insert:
  "map_of es k = None \<Longrightarrow> index_of (AList.update k e es) = tag_all k (tags e) (index_of es)"
  by (rule ext) (auto simp: index_of_def tag_all_apply keys_tagged_insert)

lemma index_of_cong: "map_of es = map_of es' \<Longrightarrow> index_of es = index_of es'"
  by (simp add: index_of_def keys_tagged_def fun_eq_iff)

lemma index_of_retag:
  "map_of es k = Some e \<Longrightarrow> tags e' = tags e \<Longrightarrow> index_of (AList.update k e' es) = index_of es"
  by (rule ext) (auto simp: index_of_def keys_tagged_def)

section \<open>Entry sizes\<close>

lemma utf8_size_nonneg: "utf8_size s = Inr n \<Longrightarrow> 0 \<le> n"
  by (auto simp: utf8_size_def split: option.splits dest: utf8_len_nonneg)

lemma value_size_nonneg: "value_size v = Inr n \<Longrightarrow> 0 \<le> n"
  by (cases v) (auto simp: value_size_def split: option.splits bind_splits
      dest: utf8_len_nonneg utf8_size_nonneg)

lemma sum_sizes_nonneg: "sum_sizes ts = Inr n \<Longrightarrow> 0 \<le> n"
  by (induction ts arbitrary: n) (auto split: sum.splits dest!: utf8_size_nonneg)

text \<open>Every entry is charged at least its 128 bytes of metadata.\<close>

lemma entry_size_ge: "entry_size k v ts = Inr n \<Longrightarrow> 128 \<le> n"
  by (auto simp: entry_size_def split: sum.splits
      dest!: value_size_nonneg utf8_size_nonneg sum_sizes_nonneg)

lemma entry_ok_size: "entry_ok k e \<Longrightarrow> 128 \<le> size_bytes e"
  by (auto simp: entry_ok_def dest: entry_size_ge)

lemma accounted_size: "accounted s \<Longrightarrow> (k, e) \<in> set (entries s) \<Longrightarrow> 0 \<le> size_bytes e"
  by (force simp: accounted_def dest: entry_ok_size)

section \<open>Primitive steps\<close>

lemma accounted_remove_entry [inv_intro]: "accounted s \<Longrightarrow> accounted (snd (remove_entry k s))"
  by (auto simp: accounted_def remove_entry_def index_of_delete od_sum_delete split: option.splits)
    (auto simp: delete_filter)

lemma accounted_remove_lease [inv_intro]: "accounted s \<Longrightarrow> accounted (snd (remove_lease k s))"
  by (auto simp: accounted_def remove_lease_def od_sum_delete split: option.splits)
    (auto simp: delete_filter)

lemma od_sum_update_same:
  "od_distinct d \<Longrightarrow> map_of d k = Some v \<Longrightarrow> f v' = f v \<Longrightarrow> od_sum f (AList.update k v' d) = od_sum f d"
  by (induction d) (auto split: if_splits)

lemma length_update_present: "map_of d k = Some v \<Longrightarrow> length (AList.update k v' d) = length d"
  by (induction d) (auto split: if_splits)

lemma set_update_present: "(k', v') \<in> set (AList.update k v d) \<Longrightarrow> (k', v') \<in> set d \<or> k' = k \<and> v' = v"
  by (induction d) (auto split: if_splits)

text \<open>Rewriting one entry in place, keeping its size and tags.\<close>

definition rewritten :: "pystr \<Rightarrow> (pystr \<times> entry) list \<Rightarrow> (pystr \<times> entry) list \<Rightarrow> bool" where
  "rewritten k es es' \<longleftrightarrow>
     (\<exists>e e'. map_of es k = Some e \<and> size_bytes e' = size_bytes e \<and> tags e' = tags e \<and>
        (entry_ok k e \<longrightarrow> entry_ok k e') \<and>
        (es' = AList.update k e' es \<or> es' = AList.update k e' (od_to_end k es)))"

lemma set_od_to_end: "p \<in> set (od_to_end k d) \<Longrightarrow> p \<in> set d"
  by (auto simp: od_to_end_def delete_filter split: option.splits dest: map_of_SomeD)

lemma accounted_rewrite:
  assumes "accounted s" and "rewritten k (entries s) es'"
  shows "accounted (s\<lparr>entries := es'\<rparr>)" and "length es' = length (entries s)"
proof -
  from assms(2) obtain e e' es where e: "map_of (entries s) k = Some e"
    and same: "size_bytes e' = size_bytes e" "tags e' = tags e" "entry_ok k e \<longrightarrow> entry_ok k e'"
    and es: "es = entries s \<or> es = od_to_end k (entries s)" and es': "es' = AList.update k e' es"
    unfolding rewritten_def by blast
  have d: "od_distinct (entries s)" using assms(1) by (simp add: accounted_def)
  then have m: "map_of es = map_of (entries s)" and de: "od_distinct es"
    and len: "length es = length (entries s)"
    and sm: "od_sum size_bytes es = od_sum size_bytes (entries s)"
    using es by auto
  have mem: "\<And>p. p \<in> set es \<Longrightarrow> p \<in> set (entries s)" using es set_od_to_end by auto
  have nonneg: "\<forall>(k, e) \<in> set es'. entry_ok k e"
    using assms(1) e same mem es'
    by (fastforce simp: accounted_def dest!: set_update_present map_of_SomeD)
  have "index_of es' = index_of (entries s)"
    using index_of_retag [of es k e e'] index_of_cong [OF m] e m es' same by simp
  moreover have "od_sum size_bytes es' = od_sum size_bytes (entries s)"
    using od_sum_update_same [of es k e size_bytes e'] de e m same sm es' by simp
  ultimately show "accounted (s\<lparr>entries := es'\<rparr>)"
    using assms(1) nonneg de es' by (simp add: accounted_def distinct_update)
  show "length es' = length (entries s)"
    using length_update_present [of es k e e'] e m len es' by simp
qed

lemma accounted_insert_entry [inv_intro]:
  assumes "accounted s" and "entry_ok k e"
  shows "accounted (insert_entry k e s)"
proof -
  define s1 where "s1 = snd (remove_entry k s)"
  have a: "accounted s1" unfolding s1_def by (rule accounted_remove_entry [OF assms(1)])
  have gone: "map_of (entries s1) k = None"
    by (simp add: s1_def remove_entry_def split: option.splits)
  then have "AList.update k e (entries s1) = entries s1 @ [(k, e)]"
    by (simp add: update_fresh map_of_eq_None_iff)
  then show ?thesis
    using a assms(2) gone index_of_insert [OF gone, of e]
    by (auto simp: insert_entry_def s1_def [symmetric] Let_def accounted_def map_of_eq_None_iff)
qed

lemma accounted_frame [simp]:
  "accounted (tick s) = accounted s"
  "accounted (count_metric n s) = accounted s"
  "accounted (s\<lparr>metrics := m\<rparr>) = accounted s"
  "accounted (count_eviction s) = accounted s"
  "accounted (reject b s) = accounted s"
  by (simp_all add: accounted_def tick_def count_metric_def count_eviction_def reject_def)

definition limits :: "engine \<Rightarrow> int \<times> int \<times> int \<times> eviction \<times> int" where
  "limits s = (max_entries s, max_memory_bytes s, max_entry_bytes s, eviction_policy s, lease_seconds s)"

lemma limits_frame [simp]:
  "limits (tick s) = limits s"
  "limits (count_metric n s) = limits s"
  "limits (s\<lparr>metrics := m\<rparr>) = limits s"
  "limits (s\<lparr>entries := es\<rparr>) = limits s"
  "limits (s\<lparr>used_bytes := i\<rparr>) = limits s"
  "limits (s\<lparr>lease_bytes := i\<rparr>) = limits s"
  "limits (s\<lparr>tag_index := ti\<rparr>) = limits s"
  "limits (s\<lparr>leases := ls\<rparr>) = limits s"
  "limits (s\<lparr>lock_depth := d\<rparr>) = limits s"
  "limits (s\<lparr>active_mutation := am\<rparr>) = limits s"
  "limits (count_eviction s) = limits s"
  "limits (reject b s) = limits s"
  "limits (snd (remove_entry k s)) = limits s"
  "limits (snd (remove_lease k s)) = limits s"
  "limits (snd (pick_victim s)) = limits s"
  "limits (insert_entry k e s) = limits s"
  by (simp_all add: limits_def tick_def count_metric_def count_eviction_def reject_def
      remove_entry_def remove_lease_def pick_victim_def insert_entry_def Let_def
      split: option.splits eviction.splits list.splits)

lemma limits_eqD:
  "limits s' = limits s \<Longrightarrow> max_entries s' = max_entries s \<and> max_memory_bytes s' = max_memory_bytes s
     \<and> max_entry_bytes s' = max_entry_bytes s \<and> eviction_policy s' = eviction_policy s
     \<and> lease_seconds s' = lease_seconds s"
  by (simp add: limits_def)

lemma engine_inv_limits:
  "engine_inv s \<Longrightarrow> accounted s' \<Longrightarrow> \<not> over_limit s' \<Longrightarrow> limits s' = limits s \<Longrightarrow> engine_inv s'"
  by (auto simp: engine_inv_def positive_limits_def dest!: limits_eqD)

text \<open>Removal never raises either gauge, so it keeps the limits.\<close>

definition fits :: "engine \<Rightarrow> engine \<Rightarrow> bool" where
  "fits s s' \<longleftrightarrow> limits s' = limits s \<and> length (entries s') \<le> length (entries s)
     \<and> used_bytes s' \<le> used_bytes s"

lemma fits_refl [simp]: "fits s s"
  by (simp add: fits_def)

lemma fits_trans: "fits s s' \<Longrightarrow> fits s' s'' \<Longrightarrow> fits s s''"
  by (simp add: fits_def)

lemma engine_inv_fits: "engine_inv s \<Longrightarrow> accounted s' \<Longrightarrow> fits s s' \<Longrightarrow> engine_inv s'"
  by (auto simp: inv_defs fits_def limits_def)

lemma fits_remove_entry: "accounted s \<Longrightarrow> fits s (snd (remove_entry k s))"
  by (auto simp: fits_def length_delete_le remove_entry_def limits_def accounted_size
      split: option.splits dest!: map_of_SomeD)

lemma fits_remove_lease: "accounted s \<Longrightarrow> fits s (snd (remove_lease k s))"
  by (auto simp: fits_def accounted_def remove_lease_def limits_def
      split: option.splits dest!: map_of_SomeD)

lemma inv_frame [simp]:
  "engine_inv (tick s) = engine_inv s"
  "engine_inv (count_metric n s) = engine_inv s"
  "engine_inv (s\<lparr>metrics := m\<rparr>) = engine_inv s"
  "engine_inv (reject b s) = engine_inv s"
  by (simp_all add: inv_defs tick_def count_metric_def reject_def accounted_def)

lemma inv_remove_entry [inv_intro]: "engine_inv s \<Longrightarrow> engine_inv (snd (remove_entry k s))"
  by (rule engine_inv_fits) (auto simp: engine_inv_def intro: accounted_remove_entry fits_remove_entry)

lemma inv_remove_lease [inv_intro]: "engine_inv s \<Longrightarrow> engine_inv (snd (remove_lease k s))"
  by (rule engine_inv_fits) (auto simp: engine_inv_def intro: accounted_remove_lease fits_remove_lease)

lemma inv_rewrite: "engine_inv s \<Longrightarrow> rewritten k (entries s) es' \<Longrightarrow> engine_inv (s\<lparr>entries := es'\<rparr>)"
  by (rule engine_inv_fits)
    (auto simp: engine_inv_def fits_def limits_def accounted_rewrite)

lemma fold_inv: "I s \<Longrightarrow> (\<And>x s. x \<in> set xs \<Longrightarrow> I s \<Longrightarrow> I (f x s)) \<Longrightarrow> I (fold f xs s)"
  by (induction xs arbitrary: s) auto

lemma inv_purge_leases [inv_intro]: "engine_inv s \<Longrightarrow> engine_inv (purge_expired_leases now s)"
  unfolding purge_expired_leases_def by (rule fold_inv) (auto intro: inv_remove_lease)

lemma inv_purge_entries [inv_intro]: "engine_inv s \<Longrightarrow> engine_inv (purge_expired_entries now s)"
  unfolding purge_expired_entries_def by (rule fold_inv) (auto intro: inv_remove_entry)

section \<open>Lookup and eviction\<close>

lemma entries_frame [simp]:
  "entries (tick s) = entries s"
  "entries (count_metric n s) = entries s"
  "entries (reject b s) = entries s"
  "entries (snd (remove_lease k s)) = entries s"
  "used_bytes (tick s) = used_bytes s"
  by (simp_all add: tick_def count_metric_def reject_def remove_lease_def split: option.splits)

lemma rewritten_touch:
  "map_of (entries s) k = Some e \<Longrightarrow>
   rewritten k (entries s) (AList.update k (touch c now e) (od_to_end k (entries s)))"
proof -
  assume "map_of (entries s) k = Some e"
  moreover have "size_bytes (touch c now e) = size_bytes e" "tags (touch c now e) = tags e"
    "entry_ok k e \<longrightarrow> entry_ok k (touch c now e)"
    by (simp_all add: touch_def entry_ok_def windows_ok_def)
  ultimately show ?thesis unfolding rewritten_def by blast
qed

text \<open>The four ways a lookup can end, with the state it leaves.\<close>

lemma lookup_cases:
  obtains (absent) "map_of (entries s) k = None" "lookup k c s =
      (result_of Miss, if c then count_metric ''misses_total'' (tick s) else tick s)"
  | (expired) e where "map_of (entries s) k = Some e" "reached (now_of s) (stale_until e)"
      "lookup k c s = (result_of Miss,
         if c then count_metric ''expirations_total'' (count_metric ''misses_total''
             (snd (remove_entry k (tick s))))
         else snd (remove_entry k (tick s)))"
  | (live) e r n where "map_of (entries s) k = Some e" "\<not> reached (now_of s) (stale_until e)"
      "state r = (if reached (now_of s) (fresh_until e) then Stale else Fresh)"
      "result_value r = value e"
      "lookup k c s = (r, let s2 = (tick s)\<lparr>entries :=
           AList.update k (touch c (now_of s) e) (od_to_end k (entries s))\<rparr>
         in if c then count_metric n s2 else s2)"
proof (cases "map_of (entries s) k")
  case None
  then show ?thesis by (intro absent) (simp_all add: lookup_def Let_def tick_def)
next
  case (Some e)
  show ?thesis
  proof (cases "reached (now_of s) (stale_until e)")
    case True
    with Some show ?thesis by (intro expired) (simp_all add: lookup_def Let_def tick_def)
  next
    case False
    show ?thesis
    proof (cases "reached (now_of s) (fresh_until e)")
      case True
      with Some False show ?thesis
        by (intro live [of e _ "''stale_hits_total''"])
          (simp_all add: lookup_def Let_def tick_def result_of_def)
    next
      case nf: False
      with Some False show ?thesis
        by (intro live [of e _ "''hits_total''"])
          (simp_all add: lookup_def Let_def tick_def result_of_def)
    qed
  qed
qed

lemma inv_lookup [inv_intro]: "engine_inv s \<Longrightarrow> engine_inv (snd (lookup k c s))"
proof (cases rule: lookup_cases [of s k c])
  case absent
  then show "engine_inv s \<Longrightarrow> ?thesis" by simp
next
  case (expired e)
  then show "engine_inv s \<Longrightarrow> ?thesis" by (simp add: inv_remove_entry)
next
  case (live e r n)
  assume "engine_inv s"
  then have "engine_inv ((tick s)\<lparr>entries := AList.update k (touch c (now_of s) e) (od_to_end k (entries s))\<rparr>)"
    using live(1) rewritten_touch [of s k e c "now_of s"] inv_rewrite [of "tick s" k] by simp
  with live show ?thesis by (cases c) (simp_all add: Let_def)
qed

lemma lease_bytes_frame [simp]:
  "lease_bytes (tick s) = lease_bytes s"
  "lease_bytes (count_metric n s) = lease_bytes s"
  "lease_bytes (count_eviction s) = lease_bytes s"
  "lease_bytes (snd (remove_entry k s)) = lease_bytes s"
  "lease_bytes (snd (pick_victim s)) = lease_bytes s"
  by (simp_all add: tick_def count_metric_def count_eviction_def remove_entry_def pick_victim_def Let_def
      split: option.splits eviction.splits list.splits)

lemma accounted_pick_victim: "accounted s \<Longrightarrow> accounted (snd (pick_victim s))"
  by (auto simp: pick_victim_def Let_def split: eviction.splits list.splits)

text \<open>
  With a positive entry limit and lease memory within the limit, a cache over its limits is
  never empty: the loop always finds a victim.
\<close>

lemma pick_victim_some:
  assumes "accounted s" "over_limit s" "0 < max_entries s" "lease_bytes s \<le> max_memory_bytes s"
  obtains k s1 where "pick_victim s = (Some k, s1)" "accounted s1" "limits s1 = limits s"
    "lease_bytes s1 = lease_bytes s"
proof -
  have "entries s \<noteq> []"
    using assms by (auto simp: accounted_def over_limit_def)
  then have "\<exists>k. fst (pick_victim s) = Some k"
    by (cases "entries s") (auto simp: pick_victim_def Let_def split: eviction.splits)
  then obtain k where k: "fst (pick_victim s) = Some k" by blast
  then have p: "pick_victim s = (Some k, snd (pick_victim s))" by (metis prod.collapse)
  show ?thesis
    by (rule that [OF p accounted_pick_victim [OF assms(1)]]) simp_all
qed

lemma evict_returns:
  assumes "accounted s" "0 < max_entries s" "lease_bytes s \<le> max_memory_bytes s"
  shows "\<exists>s'. evict_if_needed s = (Inr (), s') \<and> accounted s' \<and> \<not> over_limit s'
           \<and> limits s' = limits s \<and> lease_bytes s' = lease_bytes s"
  using assms
proof (induction s rule: evict_if_needed.induct)
  case (1 s)
  show ?case
  proof (cases "over_limit s")
    case False
    with "1.prems" show ?thesis by (simp add: evict_if_needed.simps [of s])
  next
    case True
    with "1.prems" obtain k s1 where p: "pick_victim s = (Some k, s1)" and a: "accounted s1"
      and l: "limits s1 = limits s" and b: "lease_bytes s1 = lease_bytes s"
      by (blast elim: pick_victim_some)
    let ?s2 = "count_eviction (snd (remove_entry k s1))"
    have "accounted ?s2" using a by (simp add: accounted_remove_entry)
    moreover have l2: "limits ?s2 = limits s" using l by simp
    moreover have b2: "lease_bytes ?s2 = lease_bytes s" using b by simp
    ultimately show ?thesis
      using "1.IH" [OF True p [symmetric] refl] "1.prems" True p
      by (simp add: evict_if_needed.simps [of s] limits_def)
  qed
qed

section \<open>Writes\<close>

lemma prepare_put_state:
  "snd (prepare_put k v a b ts p c s) = s \<or> snd (prepare_put k v a b ts p c s) = reject c s"
  by (auto simp: prepare_put_def Let_def split: sum.splits)

lemma prepare_put_ok:
  "prepare_put k v a b ts p c s = (Inr (stored, fr, st, ntags, sz), s1) \<Longrightarrow>
     s1 = s \<and> validate_key k = Inr () \<and> prepare_windows a b p s = Inr (fr, st)
     \<and> snapshot_value v = Inr stored \<and> entry_size k stored ntags = Inr sz
     \<and> sz \<le> max_entry_bytes s \<and> sz \<le> max_memory_bytes s
     \<and> (\<exists>raw. normalize_tags ts = Inr raw \<and> ntags = remdups raw)"
  by (auto simp: prepare_put_def Let_def split: sum.splits if_splits)

lemma inv_prepare_put: "engine_inv s \<Longrightarrow> engine_inv (snd (prepare_put k v a b ts p c s))"
  using prepare_put_state [of k v a b ts p c s] by auto

lemma check_put_lease_ok: "check_put_lease k tok now s = (Inr u, s1) \<Longrightarrow> s1 = s"
  by (auto simp: check_put_lease_def split: option.splits sum.splits if_splits bool.splits)

lemma inv_check_put_lease: "engine_inv s \<Longrightarrow> engine_inv (snd (check_put_lease k tok now s))"
  by (auto simp: check_put_lease_def intro: inv_remove_lease split: option.splits sum.splits bool.splits)

lemma lease_bytes_le_used: "accounted s \<Longrightarrow> lease_bytes s \<le> used_bytes s"
proof -
  assume "accounted s"
  moreover then have "0 \<le> od_sum size_bytes (entries s)"
    by (intro od_sum_nonneg) (rule accounted_size)
  ultimately show ?thesis by (simp add: accounted_def)
qed

lemma lease_bytes_within: "engine_inv s \<Longrightarrow> lease_bytes s \<le> max_memory_bytes s"
  using lease_bytes_le_used [of s] by (auto simp: inv_defs)

lemma lease_bytes_insert [simp]: "lease_bytes (insert_entry k e s) = lease_bytes s"
  by (simp add: insert_entry_def Let_def)

lemma remove_lease_lease_bytes: "accounted s \<Longrightarrow> lease_bytes (snd (remove_lease k s)) \<le> lease_bytes s"
  by (auto simp: accounted_def remove_lease_def split: option.splits dest!: map_of_SomeD)

text \<open>The commit part of a write: insert, drop the lease, evict down to the limits.\<close>

definition store_entry :: "pystr \<Rightarrow> entry \<Rightarrow> engine \<Rightarrow> engine" where
  "store_entry k e s = count_metric ''writes_total'' (snd (remove_lease k (insert_entry k e s)))"

lemma evict_after_store:
  assumes "engine_inv s" "entry_ok k e"
  obtains s' where "evict_if_needed (store_entry k e s) = (Inr (), s')" "engine_inv s'"
    "limits s' = limits s"
proof -
  let ?s = "store_entry k e s"
  have acc: "accounted (insert_entry k e s)"
    using assms by (simp add: engine_inv_def accounted_insert_entry)
  then have a: "accounted ?s" by (simp add: store_entry_def accounted_remove_lease)
  have lim: "limits ?s = limits s" by (simp add: store_entry_def)
  have "lease_bytes ?s \<le> lease_bytes s"
    using remove_lease_lease_bytes [OF acc, of k] by (simp add: store_entry_def)
  then have "lease_bytes ?s \<le> max_memory_bytes ?s" "0 < max_entries ?s"
    using lease_bytes_within [OF assms(1)] limits_eqD [OF lim] assms(1)
    by (simp_all add: engine_inv_def positive_limits_def)
  from evict_returns [OF a this(2,1)] obtain s' where
    "evict_if_needed ?s = (Inr (), s')" "accounted s'" "\<not> over_limit s'" "limits s' = limits ?s" by blast
  moreover then have "engine_inv s'" using engine_inv_limits [OF assms(1)] lim by simp
  ultimately show ?thesis using lim by (intro that [of s']) simp_all
qed

text \<open>A write either fails in one of its checks or ends in a lookup after eviction.\<close>

lemma put_cases:
  obtains (rejected) e s' where "put k v a b ts tok p s = (Inl e, s')"
      "s' = snd (prepare_put k v a b ts p True s)" "fst (prepare_put k v a b ts p True s) = Inl e"
  | (lease_refused) e x where "put k v a b ts tok p s = (Inl e, snd (check_put_lease k tok (now_of s) (tick s)))"
      "prepare_put k v a b ts p True s = (Inr x, s)"
      "check_put_lease k tok (now_of s) (tick s) = (Inl e, snd (check_put_lease k tok (now_of s) (tick s)))"
  | (no_memory) stored fr st ntags sz where "put k v a b ts tok p s =
        (Inl ExceedsAvailableMemory, count_metric ''rejected_entries_total'' (tick s))"
      "prepare_put k v a b ts p True s = (Inr (stored, fr, st, ntags, sz), s)"
      "check_put_lease k tok (now_of s) (tick s) = (Inr (), tick s)"
      "sz + reserved_bytes k (tick s) > max_memory_bytes s"
  | (stored) stored fr st ntags sz e where
      "prepare_put k v a b ts p True s = (Inr (stored, fr, st, ntags, sz), s)"
      "check_put_lease k tok (now_of s) (tick s) = (Inr (), tick s)"
      "sz + reserved_bytes k (tick s) \<le> max_memory_bytes s"
      "e = new_entry stored fr st ntags sz p (now_of s) (map_of (entries s) k)"
      "put k v a b ts tok p s =
        bind_res (evict_if_needed (store_entry k e (tick s)))
          (\<lambda>_ s5. let (r, s6) = lookup k False s5 in (Inr r, s6))"
proof -
  obtain pr s1 where pr: "prepare_put k v a b ts p True s = (pr, s1)" by (cases "prepare_put k v a b ts p True s")
  show ?thesis
  proof (cases pr)
    case (Inl e)
    with pr show ?thesis by (intro rejected [of e s1]) (simp_all add: put_def)
  next
    case (Inr x)
    obtain stored fr st ntags sz where x: "x = (stored, fr, st, ntags, sz)" by (cases x)
    with pr Inr have s1: "s1 = s" using prepare_put_ok by blast
    obtain lr s2 where lr: "check_put_lease k tok (now_of s) (tick s) = (lr, s2)"
      by (cases "check_put_lease k tok (now_of s) (tick s)")
    show ?thesis
    proof (cases lr)
      case Inl': (Inl e)
      with pr Inr x s1 lr show ?thesis by (intro lease_refused [of e x]) (simp_all add: put_def)
    next
      case Inr': (Inr u)
      then have s2: "s2 = tick s" using lr check_put_lease_ok by blast
      show ?thesis
      proof (cases "sz + reserved_bytes k s2 > max_memory_bytes s2")
        case True
        with pr Inr x s1 lr Inr' s2 show ?thesis 
          by (intro no_memory [of stored fr st ntags sz]) (simp_all add: put_def, simp add: tick_def)
      next
        case False
        with pr Inr x s1 lr Inr' s2 show ?thesis
          by (intro stored [OF _ _ _ refl]) (simp_all add: put_def store_entry_def Let_def tick_def)
      qed
    qed
  qed
qed

lemma new_entry_size [simp]: "size_bytes (new_entry v fr st ts sz p now ex) = sz"
  by (simp add: new_entry_def)

lemma check_tags_Inr:
  "check_tags xs = Inr us \<longleftrightarrow>
     xs = map PStr us \<and> (\<forall>u \<in> set us. u \<noteq> [] \<and> (\<exists>n. utf8_len u = Some n \<and> n \<le> 256))"
proof (induction xs arbitrary: us rule: check_tags.induct)
  case (2 t ts)
  then show ?case by (cases us) (auto split: option.splits sum.splits if_splits)
qed auto

lemma normalize_tags_ok:
  "normalize_tags ts = Inr raw \<Longrightarrow>
     check_tags (map PStr (remdups raw)) = Inr (remdups raw) \<and> length (remdups raw) \<le> 100"
  using length_remdups_leq [of raw]
  by (auto simp: normalize_tags_def check_tags_Inr not_less split: pyval.splits if_splits
      dest!: arg_cong [of "map _ _" _ length] intro: order_trans)

lemma snapshot_value_fix: "snapshot_value v = Inr w \<Longrightarrow> snapshot_value w = Inr w"
proof (cases "json_dumps v")
  case None
  then show "snapshot_value v = Inr w \<Longrightarrow> ?thesis" by (cases v) (auto simp: snapshot_value_def)
next
  case (Some x)
  then have "json_dumps (json_norm v) = Some x" by (simp add: json_dumps_norm)
  moreover have "json_norm (json_norm v) = json_norm v" by (rule json_norm_idem)
  ultimately show "snapshot_value v = Inr w \<Longrightarrow> ?thesis"
    using Some by (cases v) (auto simp: snapshot_value_def)
qed

lemma prepare_windows_ok:
  "prepare_windows a b p s = Inr (fr, st) \<Longrightarrow> windows_ok (new_entry v fr st ts sz p now ex)"
  by (auto simp: prepare_windows_def duration_def Let_def windows_ok_def new_entry_def
      split: if_splits sum.splits pyval.splits)

lemma new_entry_ok:
  assumes "prepare_put k v a b ts p c s = (Inr (stored, fr, st, ntags, sz), s1)"
  shows "entry_ok k (new_entry stored fr st ntags sz p now ex)"
proof -
  note ok = prepare_put_ok [OF assms]
  then obtain raw where raw: "normalize_tags ts = Inr raw" "ntags = remdups raw" by blast
  show ?thesis
    using ok raw normalize_tags_ok [OF raw(1)] snapshot_value_fix [of v stored]
      prepare_windows_ok [of a b p s fr st stored ntags sz now ex]
    by (simp add: entry_ok_def) (simp add: new_entry_def)
qed

lemma inv_put [inv_intro]: "engine_inv s \<Longrightarrow> engine_inv (snd (put k v a b ts tok p s))"
proof (cases rule: put_cases [of k v a b ts tok p s])
  case (rejected e s')
  then show "engine_inv s \<Longrightarrow> ?thesis" by (simp add: inv_prepare_put)
next
  case (lease_refused e x)
  then show "engine_inv s \<Longrightarrow> ?thesis" by (simp add: inv_check_put_lease)
next
  case (no_memory stored fr st ntags sz)
  then show "engine_inv s \<Longrightarrow> ?thesis" by simp
next
  case (stored stored fr st ntags sz e)
  assume inv: "engine_inv s"
  have "entry_ok k e" using new_entry_ok [OF stored(1)] stored(4) by simp
  with inv obtain s' where "evict_if_needed (store_entry k e (tick s)) = (Inr (), s')" "engine_inv s'"
    using evict_after_store [of "tick s" k e] by auto
  then show ?thesis using stored(5) inv_lookup [of s' k False]
    by (simp add: case_prod_beta Let_def)
qed

section \<open>The other operations\<close>

lemma inv_get [inv_intro]: "engine_inv s \<Longrightarrow> engine_inv (snd (get k s))"
  by (auto simp: get_def case_prod_beta intro: inv_lookup split: sum.splits)

lemma inv_mget [inv_intro]: "engine_inv s \<Longrightarrow> engine_inv (snd (mget ks s))"
  unfolding mget_def by (rule fold_res_inv) (auto intro: inv_get)

lemma inv_validate_put [inv_intro]: "engine_inv s \<Longrightarrow> engine_inv (snd (validate_put k v a b ts tok p s))"
proof -
  assume inv: "engine_inv s"
  obtain r s1 where r: "prepare_put k v a b ts p False s = (r, s1)"
    by (cases "prepare_put k v a b ts p False s")
  have i1: "engine_inv s1" using inv_prepare_put [OF inv, of k v a b ts p False] r by simp
  show ?thesis
  proof (cases r)
    case (Inl e)
    with r i1 show ?thesis by (simp add: validate_put_def)
  next
    case (Inr x)
    with r i1 show ?thesis
      by (cases x) (auto simp: validate_put_def Let_def split: sum.splits)
  qed
qed

lemma inv_bind_const:
  assumes "engine_inv (snd r)" "\<And>a s. engine_inv s \<Longrightarrow> engine_inv (snd (f a s))"
  shows "engine_inv (snd (bind_res r f))"
  using assms by (cases r; cases "fst r") auto

lemma inv_fold_res:
  "engine_inv s \<Longrightarrow> (\<And>x s. engine_inv s \<Longrightarrow> engine_inv (snd (f x s))) \<Longrightarrow> engine_inv (snd (fold_res f xs s))"
  by (rule fold_res_inv [where I = engine_inv]) auto

lemma inv_mset_check: "engine_inv s \<Longrightarrow> engine_inv (snd (mset_check kv s))"
  by (auto simp: mset_check_def case_prod_beta split: sum.splits)

lemma inv_mset [inv_intro]: "engine_inv s \<Longrightarrow> engine_inv (snd (mset kvs s))"
  unfolding mset_def
  by (rule inv_bind_const, erule inv_fold_res, erule inv_mset_check, rule inv_bind_const,
      erule inv_fold_res) (auto simp: case_prod_beta inv_put)

lemma inv_delete [inv_intro]: "engine_inv s \<Longrightarrow> engine_inv (snd (delete k s))"
  by (auto simp: delete_def case_prod_beta Let_def intro: inv_remove_lease inv_remove_entry split: sum.splits)

lemma inv_delete_many [inv_intro]: "engine_inv s \<Longrightarrow> engine_inv (snd (delete_many ks s))"
  unfolding delete_many_def by (rule inv_bind_const, erule inv_fold_res, erule inv_delete) simp

lemma inv_exists_count [inv_intro]: "engine_inv s \<Longrightarrow> engine_inv (snd (exists_count ks s))"
  by (induction ks arbitrary: s) (auto simp: case_prod_beta Let_def intro: inv_lookup)

lemma rewritten_in_place:
  "map_of es k = Some e \<Longrightarrow> size_bytes e' = size_bytes e \<Longrightarrow> tags e' = tags e \<Longrightarrow>
   (entry_ok k e \<Longrightarrow> entry_ok k e') \<Longrightarrow> rewritten k es (AList.update k e' es)"
  unfolding rewritten_def by blast

lemma inv_update_entry:
  assumes "engine_inv s" "map_of (entries s) k = Some e" "size_bytes e' = size_bytes e" "tags e' = tags e"
    "entry_ok k e \<Longrightarrow> entry_ok k e'"
  shows "engine_inv (s\<lparr>entries := AList.update k e' (entries s)\<rparr>)"
  by (rule inv_rewrite [OF assms(1) rewritten_in_place [OF assms(2-5)]])

lemma inv_expire [inv_intro]: "engine_inv s \<Longrightarrow> engine_inv (snd (expire k d s))"
proof -
  assume inv: "engine_inv s"
  obtain r s1 where r: "lookup k False s = (r, s1)" by (cases "lookup k False s")
  have "engine_inv (tick s1)" using inv_lookup [OF inv, of k False] r by simp
  then have "\<And>e e'. map_of (entries s1) k = Some e \<Longrightarrow> size_bytes e' = size_bytes e \<Longrightarrow> tags e' = tags e \<Longrightarrow>
      (entry_ok k e \<Longrightarrow> entry_ok k e') \<Longrightarrow> engine_inv ((tick s1)\<lparr>entries := AList.update k e' (entries s1)\<rparr>)"
    using inv_update_entry [of "tick s1" k] by simp
  then show ?thesis
    using inv inv_lookup [OF inv, of k False] r
    by (auto simp: expire_def Let_def entry_ok_def windows_ok_def split: sum.splits option.splits)
qed

lemma inv_ttl [inv_intro]: "engine_inv s \<Longrightarrow> engine_inv (snd (ttl k s))"
  using inv_lookup [of s k False]
  by (auto simp: ttl_def case_prod_beta Let_def split: sum.splits option.splits pyfloat.splits)

lemma inv_flush [inv_intro]: "engine_inv s \<Longrightarrow> engine_inv (snd (flush s))"
  by (auto simp: flush_def inv_defs accounted_def index_of_def keys_tagged_def fun_eq_iff count_metric_def)

lemma inv_size_op [inv_intro]: "engine_inv s \<Longrightarrow> engine_inv (snd (size_op s))"
  unfolding size_op_def Let_def by (simp, rule fold_inv) (auto intro: inv_lookup)

lemma inv_keys [inv_intro]: "engine_inv s \<Longrightarrow> engine_inv (snd (keys s))"
  by (simp add: keys_def Let_def inv_purge_entries)

lemma inv_export_loop: "engine_inv s \<Longrightarrow> engine_inv (snd (export_loop now ks s))"
  by (induction now ks s rule: export_loop.induct)
    (auto simp: case_prod_beta Let_def intro: inv_remove_entry split: option.splits)

lemma inv_export_entries [inv_intro]: "engine_inv s \<Longrightarrow> engine_inv (snd (export_entries sel s))"
  by (simp add: export_entries_def inv_export_loop)

lemma inv_invalidate_loop: "engine_inv s \<Longrightarrow> engine_inv (snd (invalidate_loop ks s))"
  by (induction ks arbitrary: s)
    (auto simp: case_prod_beta Let_def intro: inv_remove_entry inv_remove_lease)

lemma inv_invalidate_tags [inv_intro]: "engine_inv s \<Longrightarrow> engine_inv (snd (invalidate_tags ts s))"
  using inv_invalidate_loop
  by (auto simp: invalidate_tags_def case_prod_beta Let_def split: sum.splits)

lemma inv_release_lease [inv_intro]: "engine_inv s \<Longrightarrow> engine_inv (snd (release_lease k tok s))"
  by (auto simp: release_lease_def case_prod_beta intro: inv_remove_lease
      split: sum.splits option.splits bool.splits)

lemma accounted_relabel_lease:
  assumes "accounted s" "map_of (leases s) k = Some l" "lease_size l' = lease_size l"
  shows "accounted (s\<lparr>leases := AList.update k l' (leases s)\<rparr>)"
proof -
  have "od_sum lease_size (AList.update k l' (leases s)) = od_sum lease_size (leases s)"
    using assms by (intro od_sum_update_same) (auto simp: accounted_def)
  moreover have "\<forall>(k, l) \<in> set (AList.update k l' (leases s)). 0 \<le> lease_size l"
    using assms by (fastforce simp: accounted_def dest!: set_update_present map_of_SomeD)
  ultimately show ?thesis using assms by (simp add: accounted_def distinct_update)
qed

lemma inv_relabel_lease:
  assumes "engine_inv s" "map_of (leases s) k = Some l" "lease_size l' = lease_size l"
  shows "engine_inv (s\<lparr>leases := AList.update k l' (leases s)\<rparr>)"
  using assms accounted_relabel_lease [OF _ assms(2,3)]
  by (intro engine_inv_limits [OF assms(1)]) (auto simp: engine_inv_def over_limit_def limits_def)

lemma leases_tick [simp]: "leases (tick s) = leases s"
  by (simp add: tick_def)

lemma inv_renew_lease [inv_intro]: "engine_inv s \<Longrightarrow> engine_inv (snd (renew_lease k tok s))"
  using inv_remove_lease [of "tick s" k] inv_relabel_lease [of "tick s" k]
  by (auto simp: renew_lease_def Let_def split: sum.splits option.splits bool.splits)

lemma inv_add_lease:
  assumes "engine_inv s" "map_of (leases s) k = None" "0 \<le> lease_size l"
    "used_bytes s + lease_size l \<le> max_memory_bytes s"
  shows "engine_inv (s\<lparr>leases := AList.update k l (leases s), used_bytes := used_bytes s + lease_size l,
     lease_bytes := lease_bytes s + lease_size l\<rparr>)"
proof -
  have "AList.update k l (leases s) = leases s @ [(k, l)]"
    using assms(2) by (simp add: update_fresh map_of_eq_None_iff)
  then show ?thesis
    using assms by (auto simp: inv_defs accounted_def map_of_eq_None_iff)
qed

lemma inv_observe_request [inv_intro]: "engine_inv s \<Longrightarrow> engine_inv (observe_request p op d ok s)"
  by (simp add: observe_request_def inv_defs accounted_def)

lemma inv_count_active: "engine_inv s \<Longrightarrow> engine_inv (snd (count_active ls s))"
  by (induction ls s rule: count_active.induct) (auto simp: case_prod_beta Let_def)

lemma inv_stats [inv_intro]: "engine_inv s \<Longrightarrow> engine_inv (snd (stats s))"
  by (auto simp: stats_def case_prod_beta Let_def intro!: inv_count_active inv_size_op inv_purge_leases)

lemma inv_record_load_cost [inv_intro]: "engine_inv s \<Longrightarrow> engine_inv (snd (record_load_cost k d s))"
  by (auto simp: record_load_cost_def Let_def entry_ok_def windows_ok_def
      intro: inv_update_entry split: pyfloat.splits option.splits)

lemma inv_explain_entry [inv_intro]: "engine_inv s \<Longrightarrow> engine_inv (snd (explain_entry k s))"
  by (auto simp: explain_entry_def Let_def split: sum.splits option.splits)

section \<open>Leases granted\<close>

lemma leases_remove_lease [simp]: "leases (snd (remove_lease k s)) = AList.delete k (leases s)"
  by (simp add: remove_lease_def delete_absent split: option.splits)

lemma leases_frame [simp]:
  "leases (count_metric n s) = leases s"
  "leases (snd (remove_entry k s)) = leases s"
  "leases (reject b s) = leases s"
  "leases (insert_entry k e s) = leases s"
  by (simp_all add: count_metric_def remove_entry_def reject_def insert_entry_def Let_def split: option.splits)

lemma leases_lookup [simp]: "leases (snd (lookup k c s)) = leases s"
  by (cases rule: lookup_cases [of s k c]) (simp_all add: Let_def)

lemma leases_purge_fold:
  "leases (fold (\<lambda>(key, l) s'. if until l \<le> now then snd (remove_lease key s') else s') xs s) =
   filter (\<lambda>p. \<not> (\<exists>l. (fst p, l) \<in> set xs \<and> until l \<le> now)) (leases s)"
proof (induction xs arbitrary: s)
  case Nil
  then show ?case by simp
next
  case (Cons x xs)
  then show ?case
    by (cases x) (auto simp: delete_filter intro!: filter_cong)
qed

lemma leases_purge:
  "od_distinct (leases s) \<Longrightarrow>
   leases (purge_expired_leases now s) = filter (\<lambda>p. now < until (snd p)) (leases s)"
  unfolding purge_expired_leases_def leases_purge_fold
  by (rule filter_cong [OF refl]) (force dest: eq_key_imp_eq_value)

lemma purged_live:
  assumes "od_distinct (leases s)" "map_of (leases (purge_expired_leases now s)) k = Some l"
  shows "now < until l"
  using map_of_SomeD [OF assms(2)] by (simp add: leases_purge [OF assms(1)])

text \<open>The three outcomes of \<open>acquire_lease\<close> after its validation.\<close>

definition lease_for :: "pystr \<Rightarrow> pystr \<Rightarrow> real \<Rightarrow> engine \<Rightarrow> int \<Rightarrow> lease" where
  "lease_for k tok now s kb =
     \<lparr>token = tok, until = now + of_int (lease_seconds s), lease_size = kb + int (length tok) + 64\<rparr>"

definition grant_lease :: "pystr \<Rightarrow> lease \<Rightarrow> engine \<Rightarrow> engine" where
  "grant_lease k l s = s\<lparr>leases := AList.update k l (leases s),
     used_bytes := used_bytes s + lease_size l, lease_bytes := lease_bytes s + lease_size l\<rparr>"

lemma acquire_cases:
  assumes "od_distinct (leases s)" "validate_key k = Inr ()"
    and "lookup k True (purge_expired_leases (now_of s) (tick s)) = (cached, s2)"
  obtains (fresh) "state cached = Fresh" "\<not> force" "acquire_lease k force tok s = (Inr cached, s2)"
  | (held) l r where "map_of (leases s2) k = Some l" "now_of s < until l"
      "state cached = Fresh \<Longrightarrow> force"
      "acquire_lease k force tok s = (Inr r, count_metric ''coalesced_total'' s2)"
      "lease_token r = lease_token cached \<or> lease_token r = None"
      "state r = (if state cached = Stale then Stale else Loading)"
  | (failed) e s3 where "map_of (leases s2) k = None" "acquire_lease k force tok s = (Inl e, s3)"
      "s3 = s2 \<or> s3 = count_metric ''rejected_leases_total'' s2"
  | (granted) kb r where "map_of (leases s2) k = None" "utf8_size k = Inr kb"
      "int (length (leases s2)) < max_entries s2"
      "used_bytes s2 + lease_size (lease_for k tok (now_of s) s2 kb) \<le> max_memory_bytes s2"
      "state cached = Fresh \<Longrightarrow> force" "lease_token r = Some tok"
      "state r = (if state cached = Stale then StaleLease else Lease)"
      "acquire_lease k force tok s =
         (Inr r, count_metric ''leases_total'' (grant_lease k (lease_for k tok (now_of s) s2 kb) s2))"
proof (cases "state cached = Fresh \<and> \<not> force")
  case True
  with assms show ?thesis by (intro fresh) (simp_all add: acquire_lease_def Let_def)
next
  case nf: False
  have l2: "leases s2 = leases (purge_expired_leases (now_of s) (tick s))"
    using leases_lookup [of k True "purge_expired_leases (now_of s) (tick s)"] assms(3) by simp
  show ?thesis
  proof (cases "map_of (leases s2) k")
    case (Some l)
    then have "now_of s < until l" using purged_live [of "tick s"] assms(1) l2 by simp
    with Some nf assms show ?thesis
      by (intro held [of l "if state cached = Stale then cached
            else (result_of Loading)\<lparr>retry_after_seconds := Fin (max 0 (until l - now_of s))\<rparr>"])
        (auto simp: acquire_lease_def Let_def result_of_def)
  next
    case None
    show ?thesis
    proof (cases "utf8_size k")
      case (Inl e)
      with None nf assms show ?thesis by (intro failed [of e s2]) (simp_all add: acquire_lease_def Let_def)
    next
      case (Inr kb)
      show ?thesis
      proof (cases "int (length (leases s2)) \<ge> max_entries s2
          \<or> used_bytes s2 + (kb + int (length tok) + 64) > max_memory_bytes s2")
        case True
        with Inr None nf assms show ?thesis
          by (intro failed [of LeaseCapacity "count_metric ''rejected_leases_total'' s2"])
            (simp_all add: acquire_lease_def Let_def)
      next
        case False
        with Inr None nf assms show ?thesis
          by (intro granted [of kb "fst (projr (fst (acquire_lease k force tok s)), ())"])
            (auto simp: acquire_lease_def Let_def lease_for_def grant_lease_def result_of_def)
      qed
    qed
  qed
qed

lemma inv_acquire_lease [inv_intro]: "engine_inv s \<Longrightarrow> engine_inv (snd (acquire_lease k force tok s))"
proof (cases "validate_key k")
  case (Inl e)
  then show "engine_inv s \<Longrightarrow> ?thesis" by (simp add: acquire_lease_def)
next
  case (Inr u)
  assume inv: "engine_inv s"
  obtain cached s2 where c: "lookup k True (purge_expired_leases (now_of s) (tick s)) = (cached, s2)"
    by (cases "lookup k True (purge_expired_leases (now_of s) (tick s))")
  have i2: "engine_inv s2"
    using inv_lookup [OF inv_purge_leases [of "tick s" "now_of s"], of k True] inv c by simp
  have d: "od_distinct (leases s)" using inv by (simp add: engine_inv_def accounted_def)
  from Inr have v: "validate_key k = Inr ()" by simp
  from d v c show ?thesis
  proof (cases rule: acquire_cases [where force = force and tok = tok])
    case (granted kb r)
    have "0 \<le> lease_size (lease_for k tok (now_of s) s2 kb)"
      using utf8_size_nonneg [OF granted(2)] by (simp add: lease_for_def)
    then show ?thesis using granted i2 by (simp add: grant_lease_def inv_add_lease)
  qed (use i2 in auto)
qed

section \<open>Snapshot restore\<close>

lemma map_of_insert_entry [simp]: "map_of (entries (insert_entry k e s)) = (map_of (entries s))(k \<mapsto> e)"
  by (auto simp: insert_entry_def Let_def remove_entry_def fun_eq_iff delete_conv' split: option.splits)

lemma insert_entry_gauges:
  assumes "accounted s"
  shows "used_bytes (insert_entry k e s) =
      used_bytes s - (case map_of (entries s) k of None \<Rightarrow> 0 | Some x \<Rightarrow> size_bytes x) + size_bytes e"
    and "int (length (entries (insert_entry k e s))) =
      int (length (entries s)) - (case map_of (entries s) k of None \<Rightarrow> 0 | Some x \<Rightarrow> 1) + 1"
proof -
  have d: "od_distinct (entries s)" using assms by (simp add: accounted_def)
  show "used_bytes (insert_entry k e s) =
      used_bytes s - (case map_of (entries s) k of None \<Rightarrow> 0 | Some x \<Rightarrow> size_bytes x) + size_bytes e"
    by (simp add: insert_entry_def Let_def remove_entry_def split: option.splits)
  show "int (length (entries (insert_entry k e s))) =
      int (length (entries s)) - (case map_of (entries s) k of None \<Rightarrow> 0 | Some x \<Rightarrow> 1) + 1"
  proof (cases "map_of (entries s) k")
    case None
    then have "AList.update k e (entries s) = entries s @ [(k, e)]"
      by (simp add: update_fresh map_of_eq_None_iff)
    with None show ?thesis by (simp add: insert_entry_def Let_def remove_entry_def)
  next
    case (Some x)
    then show ?thesis using length_delete [OF d Some]
      by (simp add: insert_entry_def Let_def remove_entry_def update_deleted)
  qed
qed

lemma map_filter_cong: "(\<And>x. x \<in> set xs \<Longrightarrow> f x = g x) \<Longrightarrow> List.map_filter f xs = List.map_filter g xs"
  unfolding List.map_filter_def by (auto intro!: map_cong filter_cong)

lemma restore_fold_gauges:
  assumes "accounted s" "distinct (map fst ps)" "\<forall>p \<in> set ps. entry_ok (fst p) (E p)"
  defines "s' \<equiv> fold (\<lambda>p. insert_entry (fst p) (E p)) ps s"
    and "old \<equiv> List.map_filter (\<lambda>p. map_of (entries s) (fst p)) ps"
  shows "accounted s' \<and> limits s' = limits s \<and>
    used_bytes s' = used_bytes s - sum_list (map size_bytes old) + sum_list (map (size_bytes \<circ> E) ps) \<and>
    int (length (entries s')) = int (length (entries s)) - int (length old) + int (length ps)"
  using assms(1-3) unfolding old_def s'_def
proof (induction ps arbitrary: s)
  case Nil
  then show ?case by (simp add: map_filter_simps)
next
  case (Cons p ps)
  let ?s = "insert_entry (fst p) (E p) s"
  have a: "accounted ?s" using Cons.prems by (simp add: accounted_insert_entry)
  have "List.map_filter (\<lambda>q. map_of (entries ?s) (fst q)) ps
      = List.map_filter (\<lambda>q. map_of (entries s) (fst q)) ps"
    using Cons.prems(2) by (intro map_filter_cong) (auto simp: image_iff)
  then show ?case
    using Cons.IH [OF a] Cons.prems insert_entry_gauges [OF Cons.prems(1), of "fst p" "E p"]
    by (cases "map_of (entries s) (fst p)") (simp_all add: map_filter_simps)
qed

lemma map_sum_list_Inr:
  "map_sum_list f xs = Inr ys \<longleftrightarrow> list_all2 (\<lambda>x y. f x = Inr y) xs ys"
proof (induction xs arbitrary: ys)
  case Nil
  then show ?case by auto
next
  case (Cons x xs)
  show ?case by (cases ys) (auto simp: Cons.IH [symmetric] split: sum.splits)
qed

lemma prepare_one_ok:
  "prepare_one s item = Inr (Some p) \<Longrightarrow>
     fst p = se_key item \<and> (\<exists>v ts sz w. p = (se_key item, v, ts, sz, w)
        \<and> entry_size (se_key item) v ts = Inr sz \<and> distinct ts
        \<and> snapshot_value (se_value item) = Inr v
        \<and> (\<exists>raw. check_tags (map PStr (se_tags item)) = Inr raw \<and> ts = remdups raw)
        \<and> (if se_persistent item then w = None
           else \<exists>f g. se_fresh_for item = Some f \<and> se_stale_for item = Some g \<and> w = Some (f, g)))"
  by (auto simp: prepare_one_def Let_def snapshot_duration_def normalize_tags_def
      split: sum.splits if_splits option.splits)

lemma size_restored_entry [simp]: "size_bytes (restored_entry now p) = (\<lambda>(_, _, _, sz, _). sz) p"
  by (simp add: restored_entry_def case_prod_beta Let_def)

lemma snapshot_duration_nonneg: "snapshot_duration x n = Inr r \<Longrightarrow> 0 \<le> r \<and> x = Some r"
  by (auto simp: snapshot_duration_def split: option.splits if_splits)

lemma restored_entry_ok:
  assumes "prepare_one s item = Inr (Some p)" "validate_key (se_key item) = Inr ()"
  shows "entry_ok (fst p) (restored_entry now p)"
proof -
  obtain k v ts sz w where p: "p = (k, v, ts, sz, w)" by (cases p)
  from assms(1) obtain raw where k: "k = se_key item" and ts: "ts = remdups raw"
    and raw: "normalize_tags (PTuple (map PStr (se_tags item))) = Inr raw"
    and v: "snapshot_value (se_value item) = Inr v"
    and sz: "entry_size (se_key item) v (remdups raw) = Inr sz"
    and w: "w = None \<or> (\<exists>f g. w = Some (f, g) \<and> 0 \<le> g)"
    unfolding p
    by (auto simp: prepare_one_def Let_def split: sum.splits if_splits option.splits
        dest!: snapshot_duration_nonneg)
  show ?thesis
    using assms(2) normalize_tags_ok [OF raw] snapshot_value_fix [OF v] sz w
    unfolding p by (auto simp: k ts entry_ok_def restored_entry_def windows_ok_def Let_def)
qed

text \<open>What a successful preparation guarantees of the prepared entries.\<close>

lemma prepared_keys:
  assumes "prepare_restore_entries s items = Inr ps"
  shows "distinct (map fst ps)" and "\<forall>p \<in> set ps. entry_ok (fst p) (restored_entry now p)"
proof -
  from assms obtain qs us where d: "distinct (map se_key items)"
    and us: "list_all2 (\<lambda>x y. validate_key (se_key x) = Inr y) items us"
    and qs: "list_all2 (\<lambda>x y. prepare_one s x = Inr y) items qs" and ps: "ps = List.map_filter id qs"
    by (auto simp: prepare_restore_entries_def map_sum_list_Inr split: sum.splits if_splits)
  from qs have "distinct (map se_key items) \<longrightarrow> distinct (map fst (List.map_filter id qs))
      \<and> fst ` set (List.map_filter id qs) \<subseteq> set (map se_key items)"
  proof (induction rule: list_all2_induct)
    case Nil
    then show ?case by (simp add: map_filter_simps)
  next
    case (Cons x xs y ys)
    then show ?case by (cases y) (auto simp: map_filter_simps dest!: prepare_one_ok)
  qed
  with d ps show "distinct (map fst ps)" by blast
  from us have valid: "\<forall>x \<in> set items. validate_key (se_key x) = Inr ()"
    by (induction rule: list_all2_induct) auto
  from qs valid have "\<forall>p \<in> set (List.map_filter id qs). entry_ok (fst p) (restored_entry now p)"
  proof (induction rule: list_all2_induct)
    case Nil
    then show ?case by (simp add: map_filter_simps)
  next
    case (Cons x xs y ys)
    then show ?case by (cases y) (auto simp: map_filter_simps intro: restored_entry_ok)
  qed
  with ps show "\<forall>p \<in> set ps. entry_ok (fst p) (restored_entry now p)" by blast
qed

lemma inv_restore_entries [inv_intro]: "engine_inv s \<Longrightarrow> engine_inv (snd (restore_entries items s))"
proof -
  assume inv: "engine_inv s"
  define s1 where "s1 = purge_expired_entries (now_of s) (tick s)"
  have i1: "engine_inv s1" using inv by (simp add: s1_def inv_purge_entries)
  show ?thesis
  proof (cases "prepare_restore_entries s items")
    case (Inl e)
    with inv show ?thesis by (simp add: restore_entries_def)
  next
    case (Inr ps)
    show ?thesis
    proof (cases "validate_prepared_restore_capacity s1 ps")
      case (Inl e)
      with Inr i1 show ?thesis by (simp add: restore_entries_def s1_def [symmetric] Let_def)
    next
      case ok: (Inr u)
      let ?s = "fold (\<lambda>p. insert_entry (fst p) (restored_entry (now_of s1) p)) ps (tick s1)"
      have "accounted (tick s1)" using i1 by (simp add: engine_inv_def)
      note g = restore_fold_gauges [OF this prepared_keys(1) [OF Inr], of "restored_entry (now_of s1)"]
      then have l: "limits ?s = limits s1" and a: "accounted ?s" using prepared_keys(2) [OF Inr] by simp_all
      have "\<not> over_limit ?s"
        using g prepared_keys(2) [OF Inr] ok limits_eqD [OF l]
        by (simp add: validate_prepared_restore_capacity_def Let_def over_limit_def comp_def split: if_splits)
      then have "engine_inv ?s" using engine_inv_limits [OF i1 a] l by simp
      with Inr ok show ?thesis by (simp add: restore_entries_def s1_def [symmetric] Let_def)
    qed
  qed
qed

lemma inv_validate_restore [inv_intro]: "engine_inv s \<Longrightarrow> engine_inv (snd (validate_restore_entries items s))"
  by (auto simp: validate_restore_entries_def Let_def intro: inv_purge_entries split: sum.splits)

end
