(* ===== verification/Engine_Journal.thy ===== *)
theory Engine_Journal
  imports Engine_Inv
begin

text \<open>
  The single-key rollback journal of the engine: \<open>begin_mutation_checkpoint\<close>, any sequence of
  operations on the checkpoint's key, then \<open>restore_mutation_checkpoint\<close>. The relation
  \<open>in_tx\<close> ties the journal of a running mutation to the state it began in; rollback then
  rebuilds that state, with the order of the entries when the policy is LRU and up to that
  order under the cost policy. The step relation of the engine closes the theory.
\<close>

section \<open>Sequences of operations under a checkpoint\<close>

datatype tx_op =
    TxPut pyval pyval pyval pyval "pystr option" bool
  | TxDelete
  | TxExpire pyval
  | TxGet

fun tx_step :: "pystr \<Rightarrow> tx_op \<Rightarrow> engine \<Rightarrow> engine" where
  "tx_step k (TxPut v a b ts tok p) s = snd (put k v a b ts tok p s)"
| "tx_step k TxDelete s = snd (delete k s)"
| "tx_step k (TxExpire d) s = snd (expire k d s)"
| "tx_step k TxGet s = snd (get k s)"

definition run_tx :: "pystr \<Rightarrow> tx_op list \<Rightarrow> engine \<Rightarrow> engine" where
  "run_tx k ops s = fold (tx_step k) ops s"

section \<open>The journal relation\<close>

definition covers :: "engine \<Rightarrow> pystr \<Rightarrow> (pystr \<times> entry) list \<Rightarrow> (pystr \<times> entry) list \<Rightarrow> bool" where
  "covers s0 k ev es \<longleftrightarrow>
     od_distinct (ev @ AList.delete k es) \<and> k \<notin> fst ` set ev \<and>
     map_of (ev @ AList.delete k es) = map_of (AList.delete k (entries s0)) \<and>
     (eviction_policy s0 = LRU \<longrightarrow> ev @ AList.delete k es = AList.delete k (entries s0))"

definition journal_of :: "engine \<Rightarrow> pystr \<Rightarrow> mutation \<Rightarrow> bool" where
  "journal_of s0 k mu \<longleftrightarrow>
     cp_key mu = k \<and> cp_entry mu = map_of (entries s0) k \<and>
     cp_predecessor mu = predecessor_of k None (od_keys (entries s0)) \<and>
     cp_lease mu = map_of (leases s0) k \<and> cp_used_bytes mu = used_bytes s0 \<and>
     cp_lease_bytes mu = lease_bytes s0 \<and> cp_metrics mu = metrics s0 \<and>
     evicted_keys mu = fst ` set (evicted_entries mu)"

definition in_tx :: "pystr \<Rightarrow> engine \<Rightarrow> nat \<Rightarrow> engine \<Rightarrow> bool" where
  "in_tx k s0 cp s \<longleftrightarrow>
     engine_inv s0 \<and> accounted s \<and> limits s = limits s0 \<and>
     lease_bytes s \<le> max_memory_bytes s \<and>
     lock_depth s = Suc (lock_depth s0) \<and>
     AList.delete k (leases s) = AList.delete k (leases s0) \<and>
     (\<exists>mu. active_mutation s = Some mu \<and> cp_id mu = cp \<and> journal_of s0 k mu \<and>
           covers s0 k (evicted_entries mu) (entries s))"

lemma in_txE:
  assumes "in_tx k s0 cp s"
  obtains mu where "active_mutation s = Some mu" "cp_id mu = cp" "journal_of s0 k mu"
    "covers s0 k (evicted_entries mu) (entries s)"
  using assms unfolding in_tx_def by blast

lemma delete_delete_same [simp]: "AList.delete k (AList.delete k d) = AList.delete k d"
  by (simp add: delete_filter)

lemma begin_in_tx:
  assumes "engine_inv s0" "begin_mutation_checkpoint k s0 = (Inr cp, s1)"
  shows "in_tx k s0 cp s1"
proof -
  have "od_distinct (entries s0)" using assms(1) by (simp add: engine_inv_def accounted_def)
  then show ?thesis
    using assms lease_bytes_within [OF assms(1)]
    by (auto simp: begin_mutation_checkpoint_def in_tx_def engine_inv_def accounted_def limits_def
        journal_of_def covers_def Let_def split: sum.splits if_splits)
qed

section \<open>Primitive steps keep the relation\<close>

lemma in_tx_frame [simp]:
  "in_tx k s0 cp (tick s) = in_tx k s0 cp s"
  "in_tx k s0 cp (count_metric n s) = in_tx k s0 cp s"
  "in_tx k s0 cp (reject b s) = in_tx k s0 cp s"
  by (simp_all add: in_tx_def tick_def count_metric_def reject_def accounted_def limits_def)

lemma in_tx_entries:
  assumes "in_tx k s0 cp s" "accounted (s\<lparr>entries := es'\<rparr>)"
    "AList.delete k es' = AList.delete k (entries s)"
  shows "in_tx k s0 cp (s\<lparr>entries := es'\<rparr>)"
  using assms by (auto simp: in_tx_def covers_def)

lemma delete_update [simp]: "AList.delete k (AList.update k e d) = AList.delete k d"
  by (induction d) auto

lemma delete_to_end [simp]: "AList.delete k (od_to_end k d) = AList.delete k d"
  by (simp add: od_to_end_def split: option.splits)

lemma delete_rewritten: "rewritten k es es' \<Longrightarrow> AList.delete k es' = AList.delete k es"
  by (auto simp: rewritten_def)

lemma in_tx_rewrite: "in_tx k s0 cp s \<Longrightarrow> rewritten k (entries s) es' \<Longrightarrow> in_tx k s0 cp (s\<lparr>entries := es'\<rparr>)"
  by (rule in_tx_entries) (auto simp: in_tx_def accounted_rewrite delete_rewritten)

lemma lock_depth_remove [simp]:
  "lock_depth (snd (remove_entry k s)) = lock_depth s"
  "lock_depth (snd (remove_lease k s)) = lock_depth s"
  by (simp_all add: remove_entry_def remove_lease_def split: option.splits)

lemma active_remove_lease [simp]: "active_mutation (snd (remove_lease k s)) = active_mutation s"
  by (simp add: remove_lease_def split: option.splits)

lemma entries_remove_entry [simp]: "entries (snd (remove_entry k s)) = AList.delete k (entries s)"
  by (simp add: remove_entry_def delete_absent split: option.splits)

lemma max_memory_limits: "limits s = limits s' \<Longrightarrow> max_memory_bytes s = max_memory_bytes s'"
  by (simp add: limits_def)

lemma in_tx_remove_lease: "in_tx k s0 cp s \<Longrightarrow> in_tx k s0 cp (snd (remove_lease k s))"
proof -
  assume tx: "in_tx k s0 cp s"
  then have a: "accounted s" by (simp add: in_tx_def)
  have "max_memory_bytes (snd (remove_lease k s)) = max_memory_bytes s"
    by (rule max_memory_limits) simp
  with tx show ?thesis
    using accounted_remove_lease [OF a, of k] remove_lease_lease_bytes [OF a, of k]
    by (auto simp: in_tx_def)
qed

lemma journal_own: "journal k e (Some mu) = Some mu" if "cp_key mu = k"
  using that by (simp add: journal_def)

lemma active_remove_own:
  "active_mutation s = Some mu \<Longrightarrow> cp_key mu = k \<Longrightarrow> active_mutation (snd (remove_entry k s)) = Some mu"
  by (simp add: remove_entry_def journal_own split: option.splits)

lemma in_tx_remove_own: "in_tx k s0 cp s \<Longrightarrow> in_tx k s0 cp (snd (remove_entry k s))"
proof -
  assume tx: "in_tx k s0 cp s"
  then obtain mu where mu: "active_mutation s = Some mu" "cp_id mu = cp" "journal_of s0 k mu"
    "covers s0 k (evicted_entries mu) (entries s)" by (rule in_txE)
  then have "active_mutation (snd (remove_entry k s)) = Some mu"
    by (intro active_remove_own) (auto simp: journal_of_def)
  moreover have "max_memory_bytes (snd (remove_entry k s)) = max_memory_bytes s"
    by (rule max_memory_limits) simp
  ultimately show ?thesis
    using tx mu accounted_remove_entry [of s k] by (auto simp: in_tx_def covers_def)
qed

lemma in_tx_insert_own:
  assumes "in_tx k s0 cp s" "entry_ok k e"
  shows "in_tx k s0 cp (insert_entry k e s)"
proof -
  have tx: "in_tx k s0 cp (snd (remove_entry k s))" by (rule in_tx_remove_own [OF assms(1)])
  have acc: "accounted (insert_entry k e s)"
    using assms by (intro accounted_insert_entry) (auto simp: in_tx_def)
  have "max_memory_bytes (insert_entry k e s) = max_memory_bytes s" by (rule max_memory_limits) simp
  moreover have "lock_depth (insert_entry k e s) = lock_depth s"
    "active_mutation (insert_entry k e s) = active_mutation (snd (remove_entry k s))"
    "AList.delete k (entries (insert_entry k e s)) = AList.delete k (entries s)"
    by (simp_all add: insert_entry_def Let_def)
  ultimately show ?thesis using tx acc assms(1) by (auto simp: in_tx_def covers_def)
qed

lemma delete_commute: "AList.delete a (AList.delete b d) = AList.delete b (AList.delete a d)"
  by (simp add: delete_filter conj_commute)

lemma covers_evict:
  assumes c: "covers s0 k ev es" and j: "map_of es j = Some e" "j \<noteq> k"
    and lru: "eviction_policy s0 = LRU \<Longrightarrow> \<exists>r. es = (j, e) # r" and d: "od_distinct es"
  shows "j \<notin> fst ` set ev" and "covers s0 k (ev @ [(j, e)]) (AList.delete j es)"
proof -
  have "j \<in> fst ` set (AList.delete k es)" using j by (auto simp: dest: map_of_SomeD intro: rev_image_eqI)
  with c show nj: "j \<notin> fst ` set ev" by (auto simp: covers_def)
  have com: "AList.delete k (AList.delete j es) = AList.delete j (AList.delete k es)"
    by (rule delete_commute)
  have "map_of (ev @ [(j, e)] @ AList.delete j (AList.delete k es)) = map_of (ev @ AList.delete k es)"
  proof
    fix x
    have "map_of ev j = None" using nj by (simp add: map_of_eq_None_iff)
    then show "map_of (ev @ [(j, e)] @ AList.delete j (AList.delete k es)) x = map_of (ev @ AList.delete k es) x"
      using j by (cases "x = j") (simp_all add: map_add_def split: option.split)
  qed
  moreover have "(ev @ [(j, e)]) @ AList.delete j (AList.delete k es) = ev @ AList.delete k es"
    if "eviction_policy s0 = LRU"
  proof -
    from lru [OF that] obtain r where r: "es = (j, e) # r" ..
    with d have "j \<notin> fst ` set (AList.delete k r)" by auto
    with r j show ?thesis by (simp add: delete_fresh)
  qed
  ultimately show "covers s0 k (ev @ [(j, e)]) (AList.delete j es)"
    using c nj j(2) d by (auto simp: covers_def com od_keys_delete)
qed

lemma in_tx_evict_other:
  assumes tx: "in_tx k s0 cp s" and j: "map_of (entries s) j = Some e" "j \<noteq> k"
    and lru: "eviction_policy s0 = LRU \<Longrightarrow> \<exists>r. entries s = (j, e) # r"
  shows "in_tx k s0 cp (snd (remove_entry j s))"
proof -
  from tx obtain mu where mu: "active_mutation s = Some mu" "cp_id mu = cp" "journal_of s0 k mu"
    "covers s0 k (evicted_entries mu) (entries s)" by (rule in_txE)
  have d: "od_distinct (entries s)" using tx by (simp add: in_tx_def accounted_def)
  note cov = covers_evict [OF mu(4) j lru d]
  let ?mu = "mu\<lparr>evicted_entries := evicted_entries mu @ [(j, e)], evicted_keys := insert j (evicted_keys mu)\<rparr>"
  have act: "active_mutation (snd (remove_entry j s)) = Some ?mu"
    using mu j cov(1) by (simp add: remove_entry_def journal_def journal_of_def)
  have "journal_of s0 k ?mu" using mu(3) by (auto simp: journal_of_def)
  moreover have "max_memory_bytes (snd (remove_entry j s)) = max_memory_bytes s"
    by (rule max_memory_limits) simp
  moreover have "\<exists>mu'. active_mutation (snd (remove_entry j s)) = Some mu' \<and> cp_id mu' = cp \<and>
      journal_of s0 k mu' \<and> covers s0 k (evicted_entries mu') (entries (snd (remove_entry j s)))"
    using act mu(2) cov(2) \<open>journal_of s0 k ?mu\<close> by (intro exI [of _ ?mu]) simp
  ultimately show ?thesis
    using tx accounted_remove_entry [of s j] by (simp add: in_tx_def)
qed

lemma pick_victim_state: "snd (pick_victim s) = s \<or> snd (pick_victim s) = tick s"
  by (auto simp: pick_victim_def Let_def split: eviction.splits list.splits)

lemma in_tx_victim:
  assumes tx: "in_tx k s0 cp s" and v: "pick_victim s = (Some j, s1)"
  shows "in_tx k s0 cp (snd (remove_entry j s1))"
proof -
  have s1: "s1 = s \<or> s1 = tick s" using pick_victim_state [of s] v by auto
  then have tx1: "in_tx k s0 cp s1" and es: "entries s1 = entries s" using tx by auto
  show ?thesis
  proof (cases "j = k")
    case True
    then show ?thesis using in_tx_remove_own [OF tx1] by simp
  next
    case False
    obtain e where e: "map_of (entries s1) j = Some e"
      using pick_victim_in [OF v] es by (cases "map_of (entries s) j") (auto simp: map_of_eq_None_iff)
    have "\<exists>r. entries s1 = (j, e) # r" if "eviction_policy s0 = LRU"
    proof -
      have "eviction_policy s = LRU" using that tx by (auto simp: in_tx_def dest: limits_eqD)
      with v e es show ?thesis by (auto simp: pick_victim_def split: list.splits)
    qed
    then show ?thesis by (rule in_tx_evict_other [OF tx1 e False])
  qed
qed

lemma in_tx_count_eviction [simp]: "in_tx k s0 cp (count_eviction s) = in_tx k s0 cp s"
  by (simp add: count_eviction_def)

lemma in_tx_evict: "in_tx k s0 cp s \<Longrightarrow> in_tx k s0 cp (snd (evict_if_needed s))"
proof (induction s rule: evict_if_needed.induct)
  case (1 s)
  show ?case
  proof (cases "over_limit s")
    case False
    with "1.prems" show ?thesis by (simp add: evict_if_needed.simps [of s])
  next
    case True
    obtain v s1 where v: "pick_victim s = (v, s1)" by (cases "pick_victim s")
    show ?thesis
    proof (cases v)
      case None
      with True v "1.prems" pick_victim_state [of s] show ?thesis
        by (auto simp: evict_if_needed.simps [of s])
    next
      case (Some j)
      have "in_tx k s0 cp (count_eviction (snd (remove_entry j s1)))"
        using in_tx_victim "1.prems" v Some by simp
      with "1.IH" [OF True v [symmetric] Some] True v Some show ?thesis
        by (simp add: evict_if_needed.simps [of s])
    qed
  qed
qed

section \<open>Operations on the checkpoint's key keep the relation\<close>

lemma in_tx_lookup: "in_tx k s0 cp s \<Longrightarrow> in_tx k s0 cp (snd (lookup k c s))"
proof (cases rule: lookup_cases [of s k c])
  case absent
  then show "in_tx k s0 cp s \<Longrightarrow> ?thesis" by simp
next
  case (expired e)
  then show "in_tx k s0 cp s \<Longrightarrow> ?thesis" by (simp add: in_tx_remove_own)
next
  case (live e r n)
  assume "in_tx k s0 cp s"
  then have "in_tx k s0 cp ((tick s)\<lparr>entries := AList.update k (touch c (now_of s) e) (od_to_end k (entries s))\<rparr>)"
    using live(1) rewritten_touch [of s k e c "now_of s"] in_tx_rewrite [of k s0 cp "tick s"] by simp
  with live show ?thesis by (cases c) (simp_all add: Let_def)
qed

lemma in_tx_put: "in_tx k s0 cp s \<Longrightarrow> in_tx k s0 cp (snd (put k v a b ts tok p s))"
proof (cases rule: put_cases [of k v a b ts tok p s])
  case (rejected e s')
  then show "in_tx k s0 cp s \<Longrightarrow> ?thesis" using prepare_put_state [of k v a b ts p True s] by auto
next
  case (lease_refused e x)
  then show "in_tx k s0 cp s \<Longrightarrow> ?thesis"
    by (auto simp: check_put_lease_def in_tx_remove_lease split: option.splits sum.splits bool.splits)
next
  case (no_memory stored fr st ntags sz)
  then show "in_tx k s0 cp s \<Longrightarrow> ?thesis" by simp
next
  case (stored stored fr st ntags sz e)
  assume tx: "in_tx k s0 cp s"
  have "entry_ok k e" using new_entry_ok [OF stored(1)] stored(4) by simp
  then have tx': "in_tx k s0 cp (snd (evict_if_needed (store_entry k e (tick s))))"
    using tx by (simp add: store_entry_def in_tx_evict in_tx_remove_lease in_tx_insert_own)
  obtain r s' where ev: "evict_if_needed (store_entry k e (tick s)) = (r, s')"
    by (cases "evict_if_needed (store_entry k e (tick s))")
  with tx' have t': "in_tx k s0 cp s'" by simp
  show ?thesis
    using stored(5) ev t' in_tx_lookup [OF t', of False]
    by (cases r) (simp_all add: case_prod_beta Let_def)
qed

lemma in_tx_expire: "in_tx k s0 cp s \<Longrightarrow> in_tx k s0 cp (snd (expire k d s))"
proof -
  assume tx: "in_tx k s0 cp s"
  obtain r s1 where r: "lookup k False s = (r, s1)" by (cases "lookup k False s")
  have t1: "in_tx k s0 cp (tick s1)" using in_tx_lookup [OF tx, of False] r by simp
  then have "\<And>e e'. map_of (entries s1) k = Some e \<Longrightarrow> size_bytes e' = size_bytes e \<Longrightarrow> tags e' = tags e \<Longrightarrow>
      (entry_ok k e \<Longrightarrow> entry_ok k e') \<Longrightarrow> in_tx k s0 cp ((tick s1)\<lparr>entries := AList.update k e' (entries s1)\<rparr>)"
    using in_tx_rewrite [OF t1 rewritten_in_place] by simp
  with tx t1 r show ?thesis
    by (auto simp: expire_def Let_def entry_ok_def windows_ok_def split: sum.splits option.splits)
qed

lemma in_tx_step: "in_tx k s0 cp s \<Longrightarrow> in_tx k s0 cp (tx_step k op s)"
proof (cases op)
  case TxDelete
  then show "in_tx k s0 cp s \<Longrightarrow> ?thesis"
    by (auto simp: delete_def case_prod_beta Let_def in_tx_remove_own in_tx_remove_lease split: sum.splits)
next
  case TxGet
  then show "in_tx k s0 cp s \<Longrightarrow> ?thesis"
    by (auto simp: get_def case_prod_beta in_tx_lookup split: sum.splits)
qed (simp_all add: in_tx_put in_tx_expire)

lemma in_tx_run: "in_tx k s0 cp s \<Longrightarrow> in_tx k s0 cp (run_tx k ops s)"
  unfolding run_tx_def by (induction ops arbitrary: s) (auto intro: in_tx_step)

section \<open>Rollback\<close>

lemma od_sum_dom:
  "od_distinct d \<Longrightarrow> od_sum f d = (\<Sum>k\<in>dom (map_of d). f (the (map_of d k)))"
proof (induction d)
  case Nil
  then show ?case by simp
next
  case (Cons p d)
  obtain k v where p: "p = (k, v)" by (cases p)
  with Cons.prems have k: "k \<notin> dom (map_of d)" by (auto simp: dom_map_of_conv_image_fst)
  have "(\<Sum>x\<in>dom (map_of d). f (the (map_of (p # d) x))) = (\<Sum>x\<in>dom (map_of d). f (the (map_of d x)))"
    using k p by (intro sum.cong) auto
  moreover have "dom (map_of (p # d)) = insert k (dom (map_of d))" using p by auto
  ultimately have "(\<Sum>x\<in>dom (map_of (p # d)). f (the (map_of (p # d) x))) =
      f (the (map_of (p # d) k)) + (\<Sum>x\<in>dom (map_of d). f (the (map_of d x)))"
    using k by (simp only: sum.insert [OF finite_dom_map_of k])
  moreover have "od_sum f (p # d) = f (the (map_of (p # d) k)) + od_sum f d" using p by simp
  moreover have "od_sum f d = (\<Sum>x\<in>dom (map_of d). f (the (map_of d x)))" using Cons by simp
  ultimately show ?case by (simp only:)
qed

lemma same_map_sum:
  "od_distinct d \<Longrightarrow> od_distinct d' \<Longrightarrow> map_of d = map_of d' \<Longrightarrow> od_sum f d = od_sum f d'"
  by (simp add: od_sum_dom)

lemma same_map_set:
  assumes "od_distinct d" "od_distinct d'" "map_of d = map_of d'"
  shows "set d = set d'"
proof -
  have "set e = {(k, v). map_of e k = Some v}" if "od_distinct e" for e :: "('a \<times> 'b) list"
    using that by auto
  with assms show ?thesis by metis
qed

lemma same_map_length:
  assumes "od_distinct d" "od_distinct d'" "map_of d = map_of d'"
  shows "length d = length d'"
proof -
  have "card (dom (map_of e)) = length e" if "od_distinct e" for e :: "('a \<times> 'b) list"
    using that by (metis distinct_card dom_map_of_conv_image_fst length_map list.set_map)
  with assms show ?thesis by metis
qed

lemma foldl_update_fresh:
  "od_distinct (d @ xs) \<Longrightarrow> foldl (\<lambda>d' (k, x). AList.update k x d') d xs = d @ xs"
proof (induction xs arbitrary: d)
  case Nil
  then show ?case by simp
next
  case (Cons p xs)
  then have "AList.update (fst p) (snd p) d = d @ [p]" by (auto simp: update_fresh)
  moreover have "od_distinct ((d @ [p]) @ xs)" using Cons.prems by simp
  ultimately show ?case using Cons.IH [of "d @ [p]"] by (simp add: case_prod_beta)
qed

lemma insert_after_split:
  assumes "od_distinct d" "k \<notin> fst ` set d"
  shows "\<exists>xs ys. d = xs @ ys \<and> insert_after p k e d = xs @ (k, e) # ys"
proof -
  let ?t = "takeWhile (\<lambda>q. fst q \<noteq> p) (rev d)" and ?f = "dropWhile (\<lambda>q. fst q \<noteq> p) (rev d)"
  have d: "d = rev ?f @ rev ?t" by (metis rev_append rev_rev_ident takeWhile_dropWhile_id)
  then have mem: "fst ` set d = fst ` set ?f \<union> fst ` set ?t" by (metis image_Un set_append set_rev)
  have "od_distinct (rev ?f @ rev ?t)" using assms(1) d by metis
  with assms(2) mem have "od_distinct (rev ?f @ [(k, e)] @ rev ?t)" by auto
  moreover have "AList.update k e (rev ?f) = rev ?f @ [(k, e)]"
    using assms(2) mem by (intro update_fresh) auto
  ultimately have "insert_after p k e d = rev ?f @ (k, e) # rev ?t"
    using foldl_update_fresh [of "rev ?f @ [(k, e)]" "rev ?t"] by (simp add: insert_after_def Let_def)
  with d show ?thesis by metis
qed

lemma insert_after_found:
  assumes "od_distinct (xs @ (p, x) # ys)" "k \<notin> fst ` set (xs @ (p, x) # ys)"
  shows "insert_after p k e (xs @ (p, x) # ys) = xs @ (p, x) # (k, e) # ys"
proof -
  let ?d = "xs @ (p, x) # ys"
  have np: "\<And>q. q \<in> set (rev ys) \<Longrightarrow> fst q \<noteq> p" using assms(1) by auto
  have r: "rev ?d = rev ys @ (p, x) # rev xs" by simp
  have "takeWhile (\<lambda>q. fst q \<noteq> p) (rev ?d) = rev ys"
    unfolding r by (subst takeWhile_append2) (simp_all add: np)
  moreover have "dropWhile (\<lambda>q. fst q \<noteq> p) (rev ?d) = (p, x) # rev xs"
    unfolding r by (subst dropWhile_append2) (simp_all add: np)
  moreover have "AList.update k e (xs @ [(p, x)]) = xs @ [(p, x)] @ [(k, e)]"
    using assms(2) by (subst update_fresh) auto
  moreover have "od_distinct ((xs @ [(p, x), (k, e)]) @ ys)" using assms by auto
  note foldl_update_fresh [OF this]
  ultimately show ?thesis by (simp add: insert_after_def Let_def)
qed

lemma predecessor_of_None:
  "k \<in> set ks \<Longrightarrow> predecessor_of k prev ks = prev' \<Longrightarrow> prev = None \<Longrightarrow>
   (prev' = None \<and> (\<exists>r. ks = k # r)) \<or> (\<exists>p xs ys. prev' = Some p \<and> ks = xs @ p # k # ys)"
proof -
  have gen: "\<exists>p xs ys. predecessor_of k (Some q) ks = Some p \<and> q # ks = xs @ p # k # ys"
    if "k \<in> set ks" for q ks
    using that
  proof (induction ks arbitrary: q)
    case Nil
    then show ?case by simp
  next
    case (Cons a ks)
    show ?case
    proof (cases "a = k")
      case True
      then have "predecessor_of k (Some q) (a # ks) = Some q \<and> q # a # ks = [] @ q # k # ks" by simp
      then show ?thesis by blast
    next
      case False
      with Cons obtain p xs ys where pr: "predecessor_of k (Some a) ks = Some p"
        and eq: "a # ks = xs @ p # k # ys" by fastforce
      from pr False have "predecessor_of k (Some q) (a # ks) = Some p" by simp
      moreover from eq have "q # a # ks = (q # xs) @ p # k # ys" by simp
      ultimately show ?thesis by blast
    qed
  qed
  assume "k \<in> set ks" "predecessor_of k prev ks = prev'" "prev = None"
  then show ?thesis using gen [of "tl ks" "hd ks"] by (cases ks) (auto split: if_splits)
qed

lemma keys_split:
  "od_keys d = xs @ p # k # ys \<Longrightarrow> map_of d k = Some e \<Longrightarrow> od_distinct d \<Longrightarrow>
   \<exists>as x bs. d = as @ (p, x) # (k, e) # bs"
proof -
  assume keys: "od_keys d = xs @ p # k # ys" and e: "map_of d k = Some e" and di: "od_distinct d"
  from keys obtain as r where d: "d = as @ r" and as: "od_keys as = xs" and r: "od_keys r = p # k # ys"
    by (auto simp: map_eq_append_conv)
  from r obtain x e' bs where r': "r = (p, x) # (k, e') # bs" by (auto simp: map_eq_Cons_conv)
  with d have "(k, e') \<in> set d" by simp
  with e di have "e' = e" by (metis map_of_is_SomeI option.inject)
  with d r' show ?thesis by blast
qed

lemma reinstate_front_fresh:
  assumes fresh: "map_of (entries s) j = None" and idx: "tag_index s = index_of (entries s)"
  shows "reinstate_front (j, e) s = s\<lparr>entries := (j, e) # entries s, tag_index := index_of ((j, e) # entries s)\<rparr>"
proof -
  from fresh have fr: "j \<notin> fst ` set (entries s)" by (simp add: map_of_eq_None_iff)
  have upd: "AList.update j e (entries s) = entries s @ [(j, e)]" by (rule update_fresh [OF fr])
  have front: "od_to_front j (entries s @ [(j, e)]) = (j, e) # entries s"
    using fresh delete_fresh [OF fr] by (simp add: od_to_front_def map_add_def)
  have "index_of ((j, e) # entries s) = index_of (AList.update j e (entries s))"
    by (rule index_of_cong) simp
  then have "tag_all j (tags e) (index_of (entries s)) = index_of ((j, e) # entries s)"
    using index_of_insert [OF fresh] by simp
  then show ?thesis using fresh idx by (simp add: reinstate_front_def remove_entry_def upd front)
qed

lemma reinstate_fold:
  assumes "od_distinct (ev @ entries s)" "tag_index s = index_of (entries s)"
  shows "fold reinstate_front (rev ev) s =
    s\<lparr>entries := ev @ entries s, tag_index := index_of (ev @ entries s)\<rparr>"
  using assms
proof (induction ev)
  case Nil
  then show ?case by simp
next
  case (Cons p ev)
  obtain j e where p: "p = (j, e)" by (cases p)
  let ?s = "s\<lparr>entries := ev @ entries s, tag_index := index_of (ev @ entries s)\<rparr>"
  have "j \<notin> fst ` set (ev @ entries s)" using Cons.prems(1) p by auto
  then have "map_of (ev @ entries s) j = None" by (metis map_of_eq_None_iff)
  then have "map_of (entries ?s) j = None" by simp
  then have "reinstate_front (j, e) ?s =
      ?s\<lparr>entries := (j, e) # entries ?s, tag_index := index_of ((j, e) # entries ?s)\<rparr>"
    by (rule reinstate_front_fresh) simp
  with Cons p show ?case by simp
qed

text \<open>Re-inserting the key itself, in the order it had when the policy is LRU.\<close>

lemma reinstate_key_entries:
  assumes jo: "journal_of s0 k mu" and d0: "od_distinct (entries s0)"
    and cov: "covers s0 k ev es" and s: "entries s = ev @ AList.delete k es"
    "tag_index s = index_of (entries s)"
  shows "od_distinct (entries (reinstate_key mu s))"
    and "map_of (entries (reinstate_key mu s)) = map_of (entries s0)"
    and "tag_index (reinstate_key mu s) = index_of (entries (reinstate_key mu s))"
    and "eviction_policy s0 = LRU \<Longrightarrow> entries (reinstate_key mu s) = entries s0"
proof -
  let ?D = "ev @ AList.delete k es"
  have dD: "od_distinct ?D" using cov by (simp add: covers_def)
  have kD: "k \<notin> fst ` set ?D" using cov by (simp add: covers_def image_Un)
  have mD: "map_of ?D = (map_of (entries s0))(k := None)"
    using cov by (simp add: covers_def delete_conv' restrict_map_def fun_eq_iff)
  have lD: "?D = AList.delete k (entries s0)" if "eviction_policy s0 = LRU"
    using cov that by (simp add: covers_def)
  have none: "map_of ?D k = None" using kD by (metis map_of_eq_None_iff)
  have "od_distinct (entries (reinstate_key mu s)) \<and> map_of (entries (reinstate_key mu s)) = map_of (entries s0)
    \<and> tag_index (reinstate_key mu s) = index_of (entries (reinstate_key mu s))
    \<and> (eviction_policy s0 = LRU \<longrightarrow> entries (reinstate_key mu s) = entries s0)"
  proof (cases "map_of (entries s0) k")
    case None
    then have "entries s0 = AList.delete k (entries s0)" by (simp add: delete_absent)
    with None jo s dD mD lD show ?thesis by (auto simp: reinstate_key_def journal_of_def)
  next
    case (Some e)
    let ?e = "entries (reinstate_key mu s)"
    have cpe: "cp_entry mu = Some e" "cp_key mu = k" using jo Some by (auto simp: journal_of_def)
    have kin: "k \<in> set (od_keys (entries s0))" using Some by (force dest: map_of_SomeD)
    have "\<exists>xs ys. ?D = xs @ ys \<and> ?e = xs @ (k, e) # ys \<and>
        (eviction_policy s0 = LRU \<longrightarrow> ?e = entries s0)"
    proof (cases "cp_predecessor mu")
      case None
      have "?e = (k, e) # ?D"
        using None cpe s update_fresh [OF kD, of e] none delete_fresh [OF kD]
        by (simp add: reinstate_key_def od_to_front_def map_add_def split: option.splits)
      moreover have "eviction_policy s0 = LRU \<longrightarrow> (k, e) # ?D = entries s0"
      proof
        assume "eviction_policy s0 = LRU"
        moreover obtain r where "od_keys (entries s0) = k # r"
          using predecessor_of_None [OF kin refl refl] None jo by (auto simp: journal_of_def)
        then obtain e' rest where r: "entries s0 = (k, e') # rest" by (auto simp: map_eq_Cons_conv)
        ultimately show "(k, e) # ?D = entries s0"
          using lD Some d0 by (simp add: delete_fresh)
      qed
      ultimately show ?thesis by (intro exI [of _ "[]"] exI [of _ ?D]) simp
    next
      case (Some p)
      have ins: "?e = insert_after p k e ?D" using Some cpe s by (simp add: reinstate_key_def)
      obtain xs ys where xy: "?D = xs @ ys" "insert_after p k e ?D = xs @ (k, e) # ys"
        using insert_after_split [OF dD kD] by blast
      moreover have "eviction_policy s0 = LRU \<longrightarrow> insert_after p k e ?D = entries s0"
      proof
        assume lru: "eviction_policy s0 = LRU"
        obtain us vs where "od_keys (entries s0) = us @ p # k # vs"
          using predecessor_of_None [OF kin refl refl] Some jo by (auto simp: journal_of_def)
        with \<open>map_of (entries s0) k = Some e\<close> d0 obtain as x bs
          where sp: "entries s0 = as @ (p, x) # (k, e) # bs" by (blast dest: keys_split)
        then have "?D = as @ (p, x) # bs" using lD [OF lru] d0
          by (auto simp: delete_fresh)
        with dD kD sp show "insert_after p k e ?D = entries s0"
          using insert_after_found [of as p x bs k e] by metis
      qed
      ultimately show ?thesis using ins by auto
    qed
    then obtain xs ys where xy: "?D = xs @ ys" "?e = xs @ (k, e) # ys"
      and lru: "eviction_policy s0 = LRU \<longrightarrow> ?e = entries s0" by blast
    have "od_distinct ?e" using xy dD kD by auto
    moreover have "map_of ?e = (map_of ?D)(k \<mapsto> e)"
      using xy none by (auto simp: map_add_def fun_eq_iff split: option.splits)
    moreover have "tag_index (reinstate_key mu s) = index_of (AList.update k e ?D)"
      using cpe s index_of_insert [OF none, of e] by (simp add: reinstate_key_def)
    moreover have "map_of (AList.update k e ?D) = (map_of ?D)(k \<mapsto> e)" by simp
    ultimately show ?thesis
      using mD Some lru index_of_cong [of ?e "AList.update k e ?D"] by auto
  qed
  then show "od_distinct (entries (reinstate_key mu s))"
    and "map_of (entries (reinstate_key mu s)) = map_of (entries s0)"
    and "tag_index (reinstate_key mu s) = index_of (entries (reinstate_key mu s))"
    and "eviction_policy s0 = LRU \<Longrightarrow> entries (reinstate_key mu s) = entries s0" by simp_all
qed

text \<open>
  Two engine states that hold the same data: the entries, leases (as dictionaries), byte
  counters, tag index, metrics and lock depth agree.
\<close>

definition same_store :: "engine \<Rightarrow> engine \<Rightarrow> bool" where
  "same_store s s' \<longleftrightarrow>
     map_of (entries s') = map_of (entries s) \<and> map_of (leases s') = map_of (leases s) \<and>
     used_bytes s' = used_bytes s \<and> lease_bytes s' = lease_bytes s \<and>
     tag_index s' = tag_index s \<and> metrics s' = metrics s \<and> lock_depth s' = lock_depth s \<and>
     limits s' = limits s"

lemma leases_reinstate_key [simp]: "leases (reinstate_key mu s) = leases s"
  by (simp add: reinstate_key_def split: option.splits)

lemma frame_reinstate_key [simp]:
  "lock_depth (reinstate_key mu s) = lock_depth s" "limits (reinstate_key mu s) = limits s"
  by (simp_all add: reinstate_key_def limits_def split: option.splits)

lemma restore_lease:
  assumes "AList.delete k ls = AList.delete k (leases s0)" "od_distinct (leases s0)"
  defines "ls' \<equiv> (case map_of (leases s0) k of None \<Rightarrow> AList.delete k ls
     | Some l \<Rightarrow> AList.update k l (AList.delete k ls))"
  shows "map_of ls' = map_of (leases s0)" "od_distinct ls'"
  using assms
  by (auto simp: delete_conv' delete_absent distinct_update fun_eq_iff split: option.splits)

lemma rollback:
  assumes tx: "in_tx k s0 cp s"
  obtains s' where "restore_mutation_checkpoint cp s = (Inr (), s')" "same_store s0 s'"
    "active_mutation s' = None" "eviction_policy s0 = LRU \<Longrightarrow> entries s' = entries s0"
    "od_distinct (entries s')" "od_distinct (leases s')"
proof -
  from tx obtain mu where mu: "active_mutation s = Some mu" "cp_id mu = cp" and jo: "journal_of s0 k mu"
    and cov: "covers s0 k (evicted_entries mu) (entries s)" by (rule in_txE)
  have acc: "accounted s" and acc0: "accounted s0" and lim: "limits s = limits s0"
    and lk: "lock_depth s = Suc (lock_depth s0)"
    and ls: "AList.delete k (leases s) = AList.delete k (leases s0)"
    using tx by (auto simp: in_tx_def engine_inv_def)
  define s1 where "s1 = s\<lparr>active_mutation := None\<rparr>"
  define s3 where "s3 = snd (remove_lease k (snd (remove_entry k s1)))"
  define s4 where "s4 = fold reinstate_front (rev (evicted_entries mu)) s3"
  have "accounted s1" using acc by (simp add: accounted_def s1_def)
  then have acc3: "accounted s3" unfolding s3_def by (intro accounted_remove_lease accounted_remove_entry)
  have es3: "entries s3 = AList.delete k (entries s)" by (simp add: s3_def s1_def)
  have idx3: "tag_index s3 = index_of (entries s3)" using acc3 by (simp add: accounted_def)
  have dist: "od_distinct (evicted_entries mu @ entries s3)" using cov es3 by (simp add: covers_def)
  note s4 = reinstate_fold [OF dist idx3, folded s4_def]
  have e4: "entries s4 = evicted_entries mu @ AList.delete k (entries s)"
    and t4: "tag_index s4 = index_of (entries s4)" using s4 es3 by simp_all
  have d0: "od_distinct (entries s0)" "od_distinct (leases s0)" using acc0 by (simp_all add: accounted_def)
  note key = reinstate_key_entries [OF jo d0(1) cov e4 t4]
  have l4: "leases s4 = AList.delete k (leases s)" using s4 by (simp add: s3_def s1_def)
  note lease = restore_lease [OF ls d0(2)]
  let ?s' = "snd (restore_mutation_checkpoint cp s)"
  have "validate_active_mutation cp s = Inr mu" using mu by (simp add: validate_active_mutation_def)
  then have ret: "restore_mutation_checkpoint cp s = (Inr (), ?s')"
    by (simp add: restore_mutation_checkpoint_def Let_def)
  have k: "cp_key mu = k" "cp_lease mu = map_of (leases s0) k" using jo by (simp_all add: journal_of_def)
  have fields: "entries ?s' = entries (reinstate_key mu s4)"
    "tag_index ?s' = tag_index (reinstate_key mu s4)"
    "leases ?s' = (case map_of (leases s0) k of None \<Rightarrow> leases s4 | Some l \<Rightarrow> AList.update k l (leases s4))"
    "used_bytes ?s' = used_bytes s0" "lease_bytes ?s' = lease_bytes s0" "metrics ?s' = metrics s0"
    "lock_depth ?s' = lock_depth s4 - 1" "active_mutation ?s' = None" "limits ?s' = limits s4"
    using \<open>validate_active_mutation cp s = Inr mu\<close> jo k
    by (auto simp: restore_mutation_checkpoint_def Let_def s4_def s3_def s1_def journal_of_def
        split: option.split)
  have lease': "map_of (leases ?s') = map_of (leases s0)" "od_distinct (leases ?s')"
    unfolding fields(3) l4 by (rule lease)+
  have "lock_depth s4 = Suc (lock_depth s0)" "limits s4 = limits s0"
    using s4 lk lim by (simp_all add: s3_def s1_def)
  moreover have "tag_index ?s' = tag_index s0"
    using fields(2) key(3) index_of_cong [OF key(2)] acc0 by (simp add: accounted_def)
  ultimately have "same_store s0 ?s'"
    using fields key(2) lease'(1) by (simp add: same_store_def)
  then show ?thesis
    by (rule that [OF ret]) (use fields key lease' in simp_all)
qed

lemma same_store_inv:
  assumes "engine_inv s0" "same_store s0 s'" "od_distinct (entries s')" "od_distinct (leases s')"
  shows "engine_inv s'"
proof -
  have d: "od_distinct (entries s0)" "od_distinct (leases s0)"
    using assms(1) by (simp_all add: engine_inv_def accounted_def)
  have m: "map_of (entries s') = map_of (entries s0)" "map_of (leases s') = map_of (leases s0)"
    using assms(2) by (simp_all add: same_store_def)
  have mem: "set (entries s') = set (entries s0)" "set (leases s') = set (leases s0)"
    using same_map_set [OF assms(3) d(1) m(1)] same_map_set [OF assms(4) d(2) m(2)] by simp_all
  have "accounted s'"
    using assms(1) unfolding engine_inv_def accounted_def
    by (simp add: same_map_sum [OF assms(3) d(1) m(1)] same_map_sum [OF assms(4) d(2) m(2)]
        index_of_cong [OF m(1)] assms(2-4) mem assms(2) [unfolded same_store_def])
  moreover have "\<not> over_limit s'"
    using assms(1,2) same_map_length [OF assms(3) d(1) m(1)]
    by (auto simp: engine_inv_def over_limit_def same_store_def dest!: limits_eqD)
  ultimately show ?thesis
    using assms(2) by (intro engine_inv_limits [OF assms(1)]) (simp_all add: same_store_def)
qed

section \<open>The engine as a transition system\<close>

text \<open>
  One rule per public operation, and one per transaction: begin, operations on the
  checkpoint's key, then commit or rollback. Every argument is arbitrary, so a run is any
  sequence of calls that concurrent clients can make; the reentrant lock makes each call,
  and each transaction, one step.
\<close>

inductive engine_step :: "engine \<Rightarrow> engine \<Rightarrow> bool" where
  step_get: "engine_step s (snd (get k s))"
| step_put: "engine_step s (snd (put k v a b ts tok p s))"
| step_validate_put: "engine_step s (snd (validate_put k v a b ts tok p s))"
| step_mget: "engine_step s (snd (mget ks s))"
| step_mset: "engine_step s (snd (mset kvs s))"
| step_delete: "engine_step s (snd (delete k s))"
| step_delete_many: "engine_step s (snd (delete_many ks s))"
| step_exists: "engine_step s (snd (exists_count ks s))"
| step_expire: "engine_step s (snd (expire k d s))"
| step_ttl: "engine_step s (snd (ttl k s))"
| step_flush: "engine_step s (snd (flush s))"
| step_size: "engine_step s (snd (size_op s))"
| step_keys: "engine_step s (snd (keys s))"
| step_export: "engine_step s (snd (export_entries sel s))"
| step_restore: "engine_step s (snd (restore_entries items s))"
| step_validate_restore: "engine_step s (snd (validate_restore_entries items s))"
| step_invalidate: "engine_step s (snd (invalidate_tags ts s))"
| step_acquire: "engine_step s (snd (acquire_lease k force tok' s))"
| step_release: "engine_step s (snd (release_lease k tok' s))"
| step_renew: "engine_step s (snd (renew_lease k tok' s))"
| step_stats: "engine_step s (snd (stats s))"
| step_observe: "engine_step s (observe_request prot op secs ok s)"
| step_load_cost: "engine_step s (snd (record_load_cost k ms s))"
| step_explain: "engine_step s (snd (explain_entry k s))"
| step_commit: "begin_mutation_checkpoint k s = (Inr cp, s1) \<Longrightarrow>
    engine_step s (snd (commit_mutation_checkpoint cp (run_tx k ops s1)))"
| step_rollback: "begin_mutation_checkpoint k s = (Inr cp, s1) \<Longrightarrow>
    engine_step s (snd (restore_mutation_checkpoint cp (run_tx k ops s1)))"

inductive engine_reachable :: "engine \<Rightarrow> bool" where
  engine_init: "make_engine n t st l clk mem em pol = Inr s \<Longrightarrow> engine_reachable s"
| engine_next: "engine_reachable s \<Longrightarrow> engine_step s s' \<Longrightarrow> engine_reachable s'"

lemma inv_tx_step: "engine_inv s \<Longrightarrow> engine_inv (tx_step k op s)"
  by (cases op) (auto intro: inv_put inv_delete inv_expire inv_get)

lemma inv_run_tx: "engine_inv s \<Longrightarrow> engine_inv (run_tx k ops s)"
  unfolding run_tx_def by (rule fold_inv) (auto intro: inv_tx_step)

lemma inv_begin: "engine_inv s \<Longrightarrow> engine_inv (snd (begin_mutation_checkpoint k s))"
  by (auto simp: begin_mutation_checkpoint_def Let_def inv_defs accounted_def split: sum.splits)

lemma inv_commit: "engine_inv s \<Longrightarrow> engine_inv (snd (commit_mutation_checkpoint cp s))"
  by (auto simp: commit_mutation_checkpoint_def inv_defs accounted_def split: sum.splits)

lemma inv_rollback:
  assumes "engine_inv s" "begin_mutation_checkpoint k s = (Inr cp, s1)"
  shows "engine_inv (snd (restore_mutation_checkpoint cp (run_tx k ops s1)))"
proof -
  have "in_tx k s cp (run_tx k ops s1)" by (rule in_tx_run [OF begin_in_tx [OF assms]])
  then obtain s' where "restore_mutation_checkpoint cp (run_tx k ops s1) = (Inr (), s')"
    "same_store s s'" "od_distinct (entries s')" "od_distinct (leases s')" by (rule rollback)
  then show ?thesis using same_store_inv [OF assms(1)] by simp
qed

lemma engine_step_inv: "engine_step s s' \<Longrightarrow> engine_inv s \<Longrightarrow> engine_inv s'"
proof (induction rule: engine_step.induct)
  case (step_commit k s cp s1 ops)
  then have "engine_inv s1" using inv_begin [of s k] by simp
  then show ?case by (intro inv_commit inv_run_tx)
next
  case (step_rollback k s cp s1 ops)
  then show ?case by (intro inv_rollback)
qed (simp_all add: inv_intro)

lemma make_engine_Inr:
  assumes "make_engine n t st l clk mem em pol = Inr s"
  shows "0 < n" "0 < mem" "entries s = []" "leases s = []" "used_bytes s = 0" "lease_bytes s = 0"
    "tag_index s = Map.empty" "max_entries s = n" "max_memory_bytes s = mem"
proof -
  let ?M = "Min {n, mem, em, t, st, l}"
  have "\<not> ?M \<le> 0" using assms by (simp add: make_engine_def del: Min_insert split: if_splits)
  then have "0 < ?M" by (simp only: not_le)
  then have "\<forall>x \<in> {n, mem, em, t, st, l}. 0 < x" by (subst (asm) Min_gr_iff) simp_all
  then show "0 < n" "0 < mem" by simp_all
  show "entries s = []" "leases s = []" "used_bytes s = 0" "lease_bytes s = 0"
    "tag_index s = Map.empty" "max_entries s = n" "max_memory_bytes s = mem"
    using assms by (auto simp: make_engine_def simp del: Min_insert split: if_splits)
qed

lemma make_engine_inv: "make_engine n t st l clk mem em pol = Inr s \<Longrightarrow> engine_inv s"
  using make_engine_Inr [of n t st l clk mem em pol s]
  by (simp add: inv_defs accounted_def index_of_def keys_tagged_def fun_eq_iff)

lemma reachable_inv: "engine_reachable s \<Longrightarrow> engine_inv s"
  by (induction rule: engine_reachable.induct) (erule make_engine_inv, erule engine_step_inv)

end
