(* ===== verification/Engine_Props.thy ===== *)
theory Engine_Props
  imports Engine_Journal
begin

text \<open>
  What the cache engine promises its clients: admission and eviction, freshness windows,
  tag invalidation, lease exclusivity and fencing, exact rollback, snapshot round trips, and
  the two places where it does less than its documentation says (the order of entries after a
  rollback under the cost policy, and the atomicity of \<open>mset\<close>).
\<close>

section \<open>LRU eviction\<close>

lemma engine_frame [simp]:
  "eviction_policy (tick s) = eviction_policy s"
  "eviction_policy (count_metric n s) = eviction_policy s"
  "eviction_policy (count_eviction s) = eviction_policy s"
  "eviction_policy (snd (remove_entry k s)) = eviction_policy s"
  "eviction_policy (snd (remove_lease k s)) = eviction_policy s"
  "eviction_policy (insert_entry k e s) = eviction_policy s"
  by (simp_all add: tick_def count_metric_def count_eviction_def remove_entry_def remove_lease_def
      insert_entry_def Let_def split: option.splits eviction.splits)

lemma time_frame [simp]:
  "clock (tick s) = clock s" "ticks (tick s) = Suc (ticks s)"
  "clock (count_metric n s) = clock s" "ticks (count_metric n s) = ticks s"
  "clock (count_eviction s) = clock s" "ticks (count_eviction s) = ticks s"
  "clock (snd (remove_entry k s)) = clock s" "ticks (snd (remove_entry k s)) = ticks s"
  "clock (snd (remove_lease k s)) = clock s" "ticks (snd (remove_lease k s)) = ticks s"
  "clock (insert_entry k e s) = clock s" "ticks (insert_entry k e s) = ticks s"
  by (simp_all add: tick_def count_metric_def count_eviction_def remove_entry_def remove_lease_def
      insert_entry_def Let_def split: option.splits eviction.splits)

definition too_big :: "engine \<Rightarrow> (pystr \<times> entry) list \<Rightarrow> bool" where
  "too_big s es \<longleftrightarrow> int (length es) > max_entries s
     \<or> od_sum size_bytes es + lease_bytes s > max_memory_bytes s"

lemma over_limit_too_big: "accounted s \<Longrightarrow> over_limit s \<longleftrightarrow> too_big s (entries s)"
  by (simp add: over_limit_def too_big_def accounted_def)

lemma too_big_cong: "limits s' = limits s \<Longrightarrow> lease_bytes s' = lease_bytes s \<Longrightarrow> too_big s' = too_big s"
  using limits_eqD [of s' s] by (intro ext) (simp add: too_big_def)

lemma remove_head:
  "accounted s \<Longrightarrow> entries s = (j, x) # r \<Longrightarrow> entries (count_eviction (snd (remove_entry j s))) = r"
  by (auto simp: accounted_def delete_fresh)

text \<open>
  Under LRU the loop drops the shortest prefix that brings the cache within its limits, and
  never the last entry if that entry fits on its own.
\<close>

lemma evict_lru:
  assumes "accounted s" "eviction_policy s = LRU" "entries s = pre @ [p]" "\<not> too_big s [p]"
  shows "\<exists>n s'. evict_if_needed s = (Inr (), s') \<and> n \<le> length pre \<and> entries s' = drop n pre @ [p]
     \<and> \<not> too_big s (drop n pre @ [p]) \<and> (\<forall>m < n. too_big s (drop m pre @ [p]))
     \<and> clock s' = clock s \<and> ticks s' = ticks s \<and> leases s' = leases s \<and> limits s' = limits s
     \<and> accounted s'"
  using assms
proof (induction s arbitrary: pre rule: evict_if_needed.induct)
  case (1 s)
  show ?case
  proof (cases "over_limit s")
    case False
    with "1.prems" show ?thesis
      by (intro exI [of _ 0] exI [of _ s])
        (simp add: evict_if_needed.simps [of s] over_limit_too_big)
  next
    case True
    then have big: "too_big s (pre @ [p])" using "1.prems" by (simp add: over_limit_too_big)
    with "1.prems"(4) obtain j x r where pre: "pre = (j, x) # r" by (cases pre) auto
    have p: "pick_victim s = (Some j, s)" using "1.prems"(2,3) pre by (simp add: pick_victim_def)
    let ?s = "count_eviction (snd (remove_entry j s))"
    have acc: "accounted ?s" using "1.prems"(1) by (simp add: accounted_remove_entry)
    have es: "entries ?s = r @ [p]" using remove_head [OF "1.prems"(1)] "1.prems"(3) pre by simp
    have tb: "too_big ?s = too_big s" by (rule too_big_cong) simp_all
    from "1.IH" [OF True p [symmetric] refl acc _ es] "1.prems"(2,4) tb
    obtain n s' where ih: "evict_if_needed ?s = (Inr (), s')" "n \<le> length r" "entries s' = drop n r @ [p]"
      "\<not> too_big s (drop n r @ [p])" "\<forall>m < n. too_big s (drop m r @ [p])"
      "clock s' = clock ?s" "ticks s' = ticks ?s" "leases s' = leases ?s" "limits s' = limits ?s" "accounted s'"
      by auto
    have "\<forall>m < Suc n. too_big s (drop m pre @ [p])"
      using big ih(5) pre by (auto simp: drop_Cons split: nat.split)
    moreover have "evict_if_needed s = (Inr (), s')"
      using True p ih(1) by (simp add: evict_if_needed.simps [of s])
    moreover have "leases ?s = leases s"
      by (simp add: count_eviction_def split: eviction.splits)
    ultimately show ?thesis
      using ih pre by (intro exI [of _ "Suc n"] exI [of _ s']) simp
  qed
qed

lemma lookup_last:
  assumes "od_distinct (d @ [(k, e)])" "entries s = d @ [(k, e)]" "\<not> reached (now_of s) (stale_until e)"
  shows "entries (snd (lookup k False s)) = d @ [(k, e)]"
    and "state (fst (lookup k False s)) = (if reached (now_of s) (fresh_until e) then Stale else Fresh)"
    and "result_value (fst (lookup k False s)) = value e"
proof -
  have kd: "k \<notin> fst ` set d" using assms(1) by auto
  then have "map_of d k = None" by (simp add: map_of_eq_None_iff)
  then have m: "map_of (entries s) k = Some e" using assms(2) by (simp add: map_add_def)
  have te: "od_to_end k (d @ [(k, e)]) = d @ [(k, e)]"
    using m assms(2) delete_fresh [OF kd] by (simp add: od_to_end_def)
  have up: "AList.update k e (d @ [(k, e)]) = d @ [(k, e)]"
    using kd by (induction d) auto
  from m assms(3) show
    "state (fst (lookup k False s)) = (if reached (now_of s) (fresh_until e) then Stale else Fresh)"
    "result_value (fst (lookup k False s)) = value e"
    by (auto simp: lookup_def Let_def result_of_def)
  from m assms(3) show "entries (snd (lookup k False s)) = d @ [(k, e)]"
    by (auto simp: lookup_def Let_def touch_def te up assms(2))
qed

lemma store_entry_entries:
  "entries (store_entry k e s) = AList.delete k (entries s) @ [(k, e)]"
proof -
  have "entries (snd (remove_entry k s)) = AList.delete k (entries s)" by simp
  then show ?thesis by (simp add: store_entry_def insert_entry_def Let_def update_deleted)
qed

lemma lease_bytes_store:
  "lease_bytes (store_entry k e s) = reserved_bytes k s"
  by (simp add: store_entry_def remove_lease_def reserved_bytes_def count_metric_def split: option.splits)

lemma reserved_tick: "reserved_bytes k (tick s) = reserved_bytes k s"
  by (simp add: reserved_bytes_def)

text \<open>The shape of a successful LRU write, shared by the two properties below.\<close>

lemma put_lru_shape:
  assumes inv: "engine_inv s" and lru: "eviction_policy s = LRU"
    and put: "put k v a b ts tok p s = (Inr r, s')"
  obtains stored fr st ntags sz e n s1 where
    "prepare_put k v a b ts p True s = (Inr (stored, fr, st, ntags, sz), s)"
    "e = new_entry stored fr st ntags sz p (now_of s) (map_of (entries s) k)"
    "entries s1 = drop n (AList.delete k (entries s)) @ [(k, e)]" "n \<le> length (AList.delete k (entries s))"
    "od_distinct (drop n (AList.delete k (entries s)) @ [(k, e)])"
    "\<forall>m < n. too_big (store_entry k e s) (drop m (AList.delete k (entries s)) @ [(k, e)])"
    "lookup k False s1 = (r, s')" "clock s1 = clock s" "ticks s1 = Suc (ticks s)"
proof (cases rule: put_cases [of k v a b ts tok p s])
  case (stored stored fr st ntags sz e)
  let ?s = "store_entry k e (tick s)"
  have sz: "size_bytes e = sz" using stored(4) by simp
  have nn: "entry_ok k e" using new_entry_ok [OF stored(1)] stored(4) by simp
  have acc: "accounted ?s"
    using inv nn by (simp add: store_entry_def accounted_remove_lease accounted_insert_entry engine_inv_def)
  have es: "entries ?s = AList.delete k (entries s) @ [(k, e)]" by (simp add: store_entry_entries)
  have lim: "limits ?s = limits s" by (simp add: store_entry_def)
  have "\<not> too_big ?s [(k, e)]"
    using stored(3) sz inv limits_eqD [OF lim]
    by (simp add: too_big_def lease_bytes_store engine_inv_def positive_limits_def)
  moreover have "eviction_policy ?s = LRU" using lru by (simp add: store_entry_def)
  ultimately obtain n s1 where ev: "evict_if_needed ?s = (Inr (), s1)"
    "n \<le> length (AList.delete k (entries s))"
    "entries s1 = drop n (AList.delete k (entries s)) @ [(k, e)]"
    "\<forall>m < n. too_big ?s (drop m (AList.delete k (entries s)) @ [(k, e)])"
    "clock s1 = clock ?s" "ticks s1 = ticks ?s" "accounted s1"
    using evict_lru [OF acc _ es] by blast
  have "lookup k False s1 = (r, s')"
    using put stored(5) ev(1) by (simp add: case_prod_beta Let_def prod_eq_iff)
  moreover have "clock s1 = clock s" "ticks s1 = Suc (ticks s)" using ev(5,6) by (simp_all add: store_entry_def)
  moreover have "too_big ?s = too_big (store_entry k e s)"
    by (rule too_big_cong) (simp_all only: lease_bytes_store reserved_tick, simp add: store_entry_def)
  ultimately show ?thesis
    using stored(1,4) ev(2-4,7) by (intro that [of stored fr st ntags sz e s1 n]) (simp_all add: accounted_def)
qed (use put in auto)

section \<open>Lemmas on invalidation, leases and snapshots\<close>

lemma invalidate_loop_effect:
  "distinct ks \<Longrightarrow>
     entries (snd (invalidate_loop ks s)) = filter (\<lambda>p. fst p \<notin> set ks) (entries s) \<and>
     leases (snd (invalidate_loop ks s)) = filter (\<lambda>p. fst p \<notin> set ks) (leases s) \<and>
     fst (invalidate_loop ks s) = int (length (filter (\<lambda>k. map_of (entries s) k \<noteq> None) ks))"
proof (induction ks arbitrary: s)
  case Nil
  then show ?case by simp
next
  case (Cons k ks)
  let ?s = "snd (remove_lease k (snd (remove_entry k s)))"
  have "filter (\<lambda>j. map_of (entries ?s) j \<noteq> None) ks = filter (\<lambda>j. map_of (entries s) j \<noteq> None) ks"
    using Cons.prems by (intro filter_cong) (auto simp: delete_conv')
  moreover have "fst (remove_entry k s) = (map_of (entries s) k \<noteq> None)"
    by (simp add: remove_entry_def split: option.splits)
  moreover note Cons.IH [of ?s]
  ultimately show ?case
    using Cons.prems by (auto simp: case_prod_beta Let_def delete_filter intro!: filter_cong)
qed

lemma tagged_keys_index:
  "accounted s \<Longrightarrow> tagged_keys ts s = {k. \<exists>e. map_of (entries s) k = Some e \<and> set (tags e) \<inter> set ts \<noteq> {}}"
proof -
  assume "accounted s"
  then have "(case tag_index s t of None \<Rightarrow> {} | Some ks \<Rightarrow> ks) = keys_tagged t (entries s)" for t
    by (simp add: accounted_def index_of_def)
  then show ?thesis unfolding tagged_keys_def by (auto simp: keys_tagged_def simp del: map_of_eq_Some_iff)
qed

lemma finite_tagged_keys: "accounted s \<Longrightarrow> finite (tagged_keys ts s)"
  by (rule finite_subset [of _ "dom (map_of (entries s))"])
    (auto simp: tagged_keys_index finite_dom_map_of)

section \<open>Properties\<close>

definition demo_engine :: "int \<Rightarrow> int \<Rightarrow> string \<Rightarrow> engine" where
  "demo_engine n mem policy =
     \<lparr>max_entries = n, max_memory_bytes = mem, max_entry_bytes = mem,
      eviction_policy = (if policy = ''lru'' then LRU else Cost),
      default_ttl = 300, default_stale = 900, lease_seconds = 30,
      clock = (\<lambda>i. of_nat i), ticks = 0, entries = [], used_bytes = 0, lease_bytes = 0,
      tag_index = Map.empty, leases = [], metrics = (\<lambda>_. 0),
      request_counts = [], latency_counts = [], latency_sums = [],
      lock_depth = 0, active_mutation = None, next_checkpoint = 0\<rparr>"

lemma demo_engine_init: "0 < n \<Longrightarrow> 0 < mem \<Longrightarrow> pol = ''lru'' \<or> pol = ''cost'' \<Longrightarrow>
   make_engine n 300 900 30 (\<lambda>i. of_nat i) mem mem pol = Inr (demo_engine n mem pol)"
  by (auto simp: make_engine_def demo_engine_def)

lemma demo_reachable: "0 < n \<Longrightarrow> 0 < mem \<Longrightarrow> pol = ''lru'' \<or> pol = ''cost'' \<Longrightarrow>
   engine_reachable (demo_engine n mem pol)"
  by (rule engine_init [OF demo_engine_init])

text \<open>
  C1. Every state an engine can reach from its constructor, by any sequence of public calls and
  of committed or rolled-back single-key transactions, satisfies the representation invariant:
  byte counters are exact, the tag index mirrors the entries, and both limits hold.
\<close>

theorem engine_always_consistent: "engine_reachable s \<Longrightarrow> engine_inv s"
  by (rule reachable_inv)

theorem engine_always_consistent_witness:
  "engine_inv (snd (put [107] (PStr [118]) PNone PNone (PTuple [PStr [116]]) None False
     (demo_engine 2 2000 ''lru'')))"
  by (rule engine_always_consistent [OF engine_next [OF demo_reachable step_put]]) simp_all



lemma prepare_put_uncounted:
  "prepare_put k v a b ts p False s = (fst (prepare_put k v a b ts p True s), s)"
  by (auto simp: prepare_put_def Let_def reject_def split: sum.splits)

lemma validate_put_fst:
  "fst (validate_put k v a b ts tok p s) =
     (case fst (prepare_put k v a b ts p True s) of Inl e \<Rightarrow> Inl e
      | Inr (_, _, _, _, sz) \<Rightarrow>
          (case fst (check_put_lease k tok (now_of s) (tick s)) of Inl e \<Rightarrow> Inl e
           | Inr _ \<Rightarrow> (if sz + reserved_bytes k (tick s) > max_memory_bytes (tick s)
                       then Inl ExceedsAvailableMemory else Inr ())))"
  by (auto simp: validate_put_def prepare_put_uncounted bind_res_def check_put_lease_def Let_def
      split: sum.splits option.splits bool.splits)

lemma max_memory_tick [simp]: "max_memory_bytes (tick s) = max_memory_bytes s"
  by (simp add: tick_def)

lemma validate_put_exact':
  assumes "engine_inv s"
  shows "fst (validate_put k v a b ts tok p s) =
     (case fst (put k v a b ts tok p s) of Inl e \<Rightarrow> Inl e | Inr r \<Rightarrow> Inr ())"
proof (cases rule: put_cases [of k v a b ts tok p s])
  case (stored stored fr st ntags sz e)
  have "engine_inv (tick s)" using assms by simp
  moreover have "entry_ok k e" using new_entry_ok [OF stored(1)] stored(4) by simp
  ultimately obtain s' where "evict_if_needed (store_entry k e (tick s)) = (Inr (), s')"
    by (rule evict_after_store)
  with stored show ?thesis by (simp add: validate_put_fst case_prod_beta Let_def)
next
  case (lease_refused e x)
  then have "fst (check_put_lease k tok (now_of s) (tick s)) = Inl e"
    "fst (put k v a b ts tok p s) = Inl e" "fst (prepare_put k v a b ts p True s) = Inr x"
    by (metis fst_conv)+
  then show ?thesis by (cases x) (simp add: validate_put_fst)
qed (simp_all add: validate_put_fst)

text \<open>
  C4. The preflight check is exact: on a consistent engine \<open>validate_put\<close> raises an exception
  precisely when \<open>put\<close> with the same arguments would raise it, and otherwise \<open>put\<close>
  returns. In particular the eviction loop of a write always finds enough victims.
\<close>

theorem validate_put_exact:
  assumes "engine_reachable s"
  shows "fst (validate_put k v a b ts tok p s) =
     (case fst (put k v a b ts tok p s) of Inl e \<Rightarrow> Inl e | Inr r \<Rightarrow> Inr ())"
  by (rule validate_put_exact' [OF reachable_inv [OF assms]])

theorem validate_put_exact_witness:
  "fst (validate_put [107] (PStr [118]) PNone PNone (PTuple []) None False (demo_engine 2 2000 ''lru'')) = Inr ()
   \<and> (\<exists>r. fst (put [107] (PStr [118]) PNone PNone (PTuple []) None False (demo_engine 2 2000 ''lru'')) = Inr r)"
proof -
  have ok: "fst (validate_put [107] (PStr [118]) PNone PNone (PTuple []) None False
      (demo_engine 2 2000 ''lru'')) = Inr ()"
    by (simp add: validate_put_fst prepare_put_def demo_engine_def validate_key_def prepare_windows_def
        duration_def normalize_tags_def snapshot_value_def entry_size_def value_size_def utf8_size_def
        utf8_len_def is_scalar_def is_surrogate_def utf8_units_def check_put_lease_def reserved_bytes_def
        tick_def)
  with validate_put_exact [OF demo_reachable [of 2 2000 "''lru''"], of "[107]" "PStr [118]" PNone PNone
      "PTuple []" None False]
  show ?thesis by (auto split: sum.splits)
qed

text \<open>The definitions a concrete call unfolds to.\<close>

lemmas engine_eval =
  put_def prepare_put_def validate_key_def prepare_windows_def duration_def normalize_tags_def
  snapshot_value_def entry_size_def value_size_def utf8_size_def utf8_len_def is_scalar_def
  is_surrogate_def utf8_units_def check_put_lease_def reserved_bytes_def tick_def now_of_def
  insert_entry_def remove_entry_def remove_lease_def count_metric_def over_limit_def new_entry_def
  lookup_def od_to_end_def touch_def result_of_def journal_def Let_def bump_def
  demo_engine_def evict_if_needed.simps

lemma put_windows:
  assumes "prepare_windows a b p s = Inr (win, st)"
  shows "pf_add (of_int st) (pf_add now win) = PInf \<or> (\<exists>f g. pf_add now win = Fin f \<and>
     pf_add (of_int st) (pf_add now win) = Fin g \<and> f \<le> g)"
  using prepare_windows_ok [OF assms, of PNone "[]" 0 now None]
  by (cases "pf_add now win"; cases "pf_add (of_int st) (pf_add now win)")
    (auto simp: windows_ok_def new_entry_def)

lemma not_reached_stale:
  assumes "prepare_windows a b p s = Inr (win, st)" "\<not> reached t (pf_add now win)"
  shows "\<not> reached t (pf_add (of_int st) (pf_add now win))"
  using put_windows [OF assms(1), of now] assms(2) by auto



text \<open>
  A successful LRU write evicts the shortest sufficient prefix of the recency order: the
  other entries that remain are the most recently used ones, in order, every shorter prefix
  would have left the cache over one of its limits, and the limits hold afterwards.
\<close>

theorem put_evicts_lru_prefix:
  assumes "engine_reachable s" "eviction_policy s = LRU" "put k v a b ts tok p s = (Inr r, s')"
    and "prepare_windows a b p s = Inr (win, st)"
    and "\<not> reached (clock s (Suc (ticks s))) (pf_add (now_of s) win)"
  shows "\<exists>n e. entries s' = drop n (AList.delete k (entries s)) @ [(k, e)] \<and>
     (\<forall>m < n. too_big (store_entry k e s) (drop m (AList.delete k (entries s)) @ [(k, e)])) \<and>
     \<not> over_limit s'"
proof -
  obtain stored fr st' ntags sz e n s1 where
    prep: "prepare_put k v a b ts p True s = (Inr (stored, fr, st', ntags, sz), s)"
    and e: "e = new_entry stored fr st' ntags sz p (now_of s) (map_of (entries s) k)"
    and es: "entries s1 = drop n (AList.delete k (entries s)) @ [(k, e)]"
    and d: "od_distinct (drop n (AList.delete k (entries s)) @ [(k, e)])"
    and big: "\<forall>m < n. too_big (store_entry k e s) (drop m (AList.delete k (entries s)) @ [(k, e)])"
    and l: "lookup k False s1 = (r, s')" and ck: "clock s1 = clock s" "ticks s1 = Suc (ticks s)"
    using put_lru_shape [OF reachable_inv [OF assms(1)] assms(2,3)] by metis
  have eq: "fr = win" "st' = st" using prepare_put_ok [OF prep] assms(4) by auto
  have "\<not> reached (now_of s1) (stale_until e)"
    using not_reached_stale [OF assms(4,5)] ck e eq by (simp add: now_of_def new_entry_def)
  then have "entries s' = drop n (AList.delete k (entries s)) @ [(k, e)]"
    using lookup_last [OF d es] l by simp
  moreover have "\<not> over_limit s'"
    using inv_put [OF reachable_inv [OF assms(1)], of k v a b ts tok p] assms(3) by (simp add: engine_inv_def)
  ultimately show ?thesis using big by blast
qed

theorem put_evicts_lru_prefix_witness:
  "\<exists>n e. entries (snd (put [107] (PStr [118]) PNone PNone (PTuple []) None True (demo_engine 2 2000 ''lru''))) =
     drop n [] @ [([107], e)]"
proof -
  let ?s = "demo_engine 2 2000 ''lru''"
  let ?put = "put [107] (PStr [118]) PNone PNone (PTuple []) None True ?s"
  have "fst (validate_put [107] (PStr [118]) PNone PNone (PTuple []) None True ?s) = Inr ()"
    by (simp add: validate_put_fst engine_eval)
  with validate_put_exact' [OF reachable_inv [OF demo_reachable [of 2 2000 "''lru''"]]]
  obtain r where "fst ?put = Inr r" by (auto split: sum.splits)
  then have p: "?put = (Inr r, snd ?put)" by (metis prod.collapse)
  have w: "prepare_windows PNone PNone True ?s = Inr (PInf, 0)" by (simp add: prepare_windows_def)
  show ?thesis
    using put_evicts_lru_prefix [OF demo_reachable [of 2 2000 "''lru''"] _ p w] by (auto simp: demo_engine_def)
qed

text \<open>An engine holding one persistent entry with a tag.\<close>

definition demo_tagged :: engine where
  "demo_tagged = snd (put [107] (PStr [118]) PNone PNone (PTuple [PStr [116]]) None True
     (demo_engine 2 2000 ''lru''))"

lemma demo_tagged_reachable: "engine_reachable demo_tagged"
  unfolding demo_tagged_def by (rule engine_next [OF demo_reachable step_put]) simp_all

lemma demo_tagged_entries:
  "entries demo_tagged = [([107], \<lparr>value = PStr [118], fresh_until = PInf, stale_until = PInf,
     tags = [[116]], size_bytes = 131, configured_ttl_seconds = None, access_count = 0,
     last_access = 0, load_cost_ms = 0\<rparr>)]"
  by (simp add: demo_tagged_def engine_eval)

text \<open>
  A read is decided by the two deadlines alone: an absent or fully expired key is a miss
  (and an expired entry leaves the cache), a key past its freshness deadline is served stale,
  any other is fresh; a hit returns the stored value, counts the access and becomes the most
  recently used entry, and no other entry changes.
\<close>

theorem get_outcome:
  assumes "engine_reachable s" "validate_key k = Inr ()"
  shows "\<exists>r s'. get k s = (Inr r, s') \<and>
     (case map_of (entries s) k of
        None \<Rightarrow> state r = Miss \<and> entries s' = entries s
      | Some e \<Rightarrow>
          if reached (now_of s) (stale_until e)
          then state r = Miss \<and> entries s' = AList.delete k (entries s)
          else state r = (if reached (now_of s) (fresh_until e) then Stale else Fresh) \<and>
            result_value r = value e \<and>
            entries s' = AList.delete k (entries s) @
              [(k, e\<lparr>access_count := min (access_count e + 1) 2147483647, last_access := now_of s\<rparr>)])"
proof -
  have upd: "AList.update k x (od_to_end k (entries s)) = AList.delete k (entries s) @ [(k, x)]"
    if "map_of (entries s) k = Some e" for e x
  proof -
    have "AList.update k x (d @ [(k, e)]) = d @ [(k, x)]" if "k \<notin> fst ` set d" for d
      using that by (induction d) auto
    from this [of "AList.delete k (entries s)"] that show ?thesis by (simp add: od_to_end_def)
  qed
  show ?thesis
  proof (cases rule: lookup_cases [of s k True])
    case absent
    with assms(2) show ?thesis by (simp add: get_def result_of_def)
  next
    case (expired e)
    with assms(2) show ?thesis by (simp add: get_def result_of_def)
  next
    case (live e r n)
    with assms(2) upd [OF live(1)] show ?thesis by (simp add: get_def Let_def touch_def)
  qed
qed

theorem get_outcome_witness:
  "\<exists>r s'. get [107] demo_tagged = (Inr r, s') \<and> state r = Fresh \<and> result_value r = PStr [118]"
  using get_outcome [OF demo_tagged_reachable, of "[107]"]
  by (auto simp: validate_key_def demo_tagged_entries)

lemma invalidate_effect:
  assumes "engine_reachable s" "normalize_tags ts = Inr nts"
  defines "hit \<equiv> (\<lambda>p. set (tags (snd p)) \<inter> set nts \<noteq> {})"
  shows "\<exists>s'. invalidate_tags ts s = (Inr (int (length (filter hit (entries s)))), s') \<and>
     entries s' = filter (\<lambda>p. \<not> hit p) (entries s) \<and>
     leases s' = filter (\<lambda>p. fst p \<notin> fst ` set (filter hit (entries s))) (leases s)"
proof -
  have acc: "accounted s" using reachable_inv [OF assms(1)] by (simp add: engine_inv_def)
  then have d: "od_distinct (entries s)" by (simp add: accounted_def)
  let ?K = "tagged_keys nts s" and ?ks = "sorted_list_of_set (tagged_keys nts s)"
  have fin: "finite ?K" by (rule finite_tagged_keys [OF acc])
  have K: "?K = fst ` set (filter hit (entries s))"
    using d by (force simp: tagged_keys_index [OF acc] hit_def)
  have mem: "p \<in> set (entries s) \<Longrightarrow> fst p \<in> ?K \<longleftrightarrow> hit p" for p
    using d by (auto simp: K intro: rev_image_eqI) (metis eq_key_imp_eq_value prod.collapse)
  note eff = invalidate_loop_effect [of ?ks s]
  have "filter (\<lambda>k. map_of (entries s) k \<noteq> None) ?ks = ?ks"
    using fin by (auto simp: tagged_keys_index [OF acc] intro!: filter_True)
  moreover have "length ?ks = length (filter hit (entries s))"
  proof -
    have "od_distinct (filter hit (entries s))" using d by (simp add: distinct_map_filter)
    then have "card ?K = length (filter hit (entries s))"
      unfolding K by (metis distinct_card length_map list.set_map)
    then show ?thesis by simp
  qed
  moreover have "filter (\<lambda>p. fst p \<notin> ?K) (entries s) = filter (\<lambda>p. \<not> hit p) (entries s)"
    using mem by (intro filter_cong) auto
  ultimately show ?thesis
    using eff fin assms(2) K by (auto simp: invalidate_tags_def case_prod_beta Let_def)
qed

text \<open>
  C6. Tag invalidation is exact: it removes precisely the entries that carry one of the given
  tags, together with the leases on those keys, keeps every other entry in its recency
  position, and returns the number of entries removed.
\<close>

theorem invalidate_tags_exact:
  assumes "engine_reachable s" "normalize_tags ts = Inr nts"
  defines "hit \<equiv> (\<lambda>p. set (tags (snd p)) \<inter> set nts \<noteq> {})"
  shows "\<exists>s'. invalidate_tags ts s = (Inr (int (length (filter hit (entries s)))), s') \<and>
     entries s' = filter (\<lambda>p. \<not> hit p) (entries s) \<and>
     leases s' = filter (\<lambda>p. fst p \<notin> fst ` set (filter hit (entries s))) (leases s)"
  unfolding hit_def by (rule invalidate_effect [OF assms(1,2)])

theorem invalidate_tags_exact_witness:
  "\<exists>s'. invalidate_tags (PList [PStr [116]]) demo_tagged = (Inr 1, s') \<and> entries s' = []"
proof -
  have "normalize_tags (PList [PStr [116]]) = Inr [[116]]" by (simp add: engine_eval)
  from invalidate_tags_exact [OF demo_tagged_reachable this] show ?thesis
    by (auto simp: demo_tagged_entries)
qed

section \<open>Leases\<close>

lemma lookup_no_token: "lease_token (fst (lookup k c s)) = None"
  by (auto simp: lookup_def Let_def result_of_def split: option.splits)

lemma lookup_state: "state (fst (lookup k c s)) \<in> {Fresh, Stale, Miss}"
  by (auto simp: lookup_def Let_def result_of_def split: option.splits)

lemma lease_seconds_frame:
  "lease_seconds (snd (lookup k c (purge_expired_leases now (tick s)))) = lease_seconds s"
proof -
  have "limits (purge_expired_leases now s') = limits s'" for s'
    unfolding purge_expired_leases_def
    by (rule fold_inv [where I = "\<lambda>x. limits x = limits s'"]) auto
  moreover have "limits (snd (lookup k c s')) = limits s'" for s'
    by (cases rule: lookup_cases [of s' k c]) (simp_all add: Let_def)
  ultimately show ?thesis by (simp add: limits_def tick_def)
qed

lemma acquire_token:
  assumes "engine_inv s" "acquire_lease k force tok s = (Inr r, s')" "lease_token r = Some t"
  shows "t = tok" "map_of (leases s') k =
    Some \<lparr>token = tok, until = now_of s + of_int (lease_seconds s), lease_size = lease_size (the (map_of (leases s') k))\<rparr>"
    "\<forall>l. map_of (leases s) k = Some l \<longrightarrow> until l \<le> now_of s"
proof -
  have d: "od_distinct (leases s)" using assms(1) by (simp add: engine_inv_def accounted_def)
  have v: "validate_key k = Inr ()" using assms(2) by (auto simp: acquire_lease_def split: sum.splits)
  obtain cached s2 where c: "lookup k True (purge_expired_leases (now_of s) (tick s)) = (cached, s2)"
    by (cases "lookup k True (purge_expired_leases (now_of s) (tick s))")
  have nt: "lease_token cached = None" using lookup_no_token c by (metis fst_conv)
  have l2: "leases s2 = filter (\<lambda>p. now_of s < until (snd p)) (leases s)"
    using leases_lookup [of k True "purge_expired_leases (now_of s) (tick s)"] c leases_purge [of "tick s"] d by simp
  have ls: "lease_seconds s2 = lease_seconds s" using lease_seconds_frame c by (metis snd_conv)
  from d v c have "t = tok \<and> map_of (leases s') k =
    Some \<lparr>token = tok, until = now_of s + of_int (lease_seconds s), lease_size = lease_size (the (map_of (leases s') k))\<rparr>
    \<and> map_of (leases s2) k = None"
    by (cases rule: acquire_cases [where force = force and tok = tok])
      (use assms(2,3) nt ls in \<open>auto simp: grant_lease_def lease_for_def\<close>)
  then show "t = tok" "map_of (leases s') k =
    Some \<lparr>token = tok, until = now_of s + of_int (lease_seconds s), lease_size = lease_size (the (map_of (leases s') k))\<rparr>"
    "\<forall>l. map_of (leases s) k = Some l \<longrightarrow> until l \<le> now_of s"
    using d by (auto simp: l2 map_of_eq_None_iff) (force simp: not_less intro: rev_image_eqI)+
qed

lemma leases_evict: "leases (snd (evict_if_needed s)) = leases s"
proof (induction s rule: evict_if_needed.induct)
  case (1 s)
  have pv: "leases (snd (pick_victim s)) = leases s" using pick_victim_state [of s] by auto
  have ce: "leases (count_eviction x) = leases x" for x
    by (simp add: count_eviction_def split: eviction.splits)
  show ?case
    using "1.IH" pv ce by (auto simp: evict_if_needed.simps [of s] split: prod.splits option.splits)
qed

text \<open>
  At most one client holds the refresh lease of a key: once a call returns a token, no call
  for the same key made before that lease ends returns another one, forced or not; it is
  answered from the cache or told to wait.
\<close>

theorem lease_is_exclusive:
  assumes "engine_reachable s" "acquire_lease k force tok s = (Inr r, s')" "lease_token r = Some tok"
    and "now_of s' < now_of s + of_int (lease_seconds s)"
    and "acquire_lease k force' tok' s' = (Inr r', s'')"
  shows "lease_token r' = None \<and> state r' \<in> {Fresh, Stale, Loading} \<and> (force' \<longrightarrow> state r' \<noteq> Fresh)"
proof -
  have inv: "engine_inv s" and inv': "engine_inv s'"
    using reachable_inv [OF assms(1)] inv_acquire_lease [of s k force tok] assms(2) by auto
  obtain l where l: "map_of (leases s') k = Some l" "until l = now_of s + of_int (lease_seconds s)"
    using acquire_token [OF inv assms(2,3)] by (metis lease.select_convs(2))
  have d: "od_distinct (leases s')" using inv' by (simp add: engine_inv_def accounted_def)
  have v: "validate_key k = Inr ()" using assms(2) by (auto simp: acquire_lease_def split: sum.splits)
  obtain cached s2 where c: "lookup k True (purge_expired_leases (now_of s') (tick s')) = (cached, s2)"
    by (cases "lookup k True (purge_expired_leases (now_of s') (tick s'))")
  have nt: "lease_token cached = None" and cs: "state cached \<in> {Fresh, Stale, Miss}"
    using lookup_no_token lookup_state c by (metis fst_conv)+
  have "leases s2 = filter (\<lambda>p. now_of s' < until (snd p)) (leases s')"
    using leases_lookup [of k True "purge_expired_leases (now_of s') (tick s')"] c leases_purge [of "tick s'"] d by simp
  moreover have "(k, l) \<in> set (leases s')" using l(1) by (rule map_of_SomeD)
  ultimately have held: "map_of (leases s2) k = Some l"
    using d l(2) assms(4) by (simp add: distinct_map_filter)
  from d v c show ?thesis
    by (cases rule: acquire_cases [where force = force' and tok = tok'])
      (use assms(5) nt cs held in \<open>auto split: if_splits\<close>)
qed

text \<open>An engine on which one client has just taken the lease of a key.\<close>

definition demo_leased :: engine where
  "demo_leased = snd (acquire_lease [107] False [97] (demo_engine 2 2000 ''lru''))"

lemmas lease_eval = acquire_lease_def purge_expired_leases_def compare_digest_def is_ascii_def

lemma demo_leased_eq: "acquire_lease [107] False [97] (demo_engine 2 2000 ''lru'') =
   (Inr ((result_of Lease)\<lparr>lease_token := Some [97], expires_in_seconds := Fin 30\<rparr>), demo_leased)"
  by (simp add: demo_leased_def lease_eval engine_eval)

lemma demo_leased_reachable: "engine_reachable demo_leased"
  unfolding demo_leased_def by (rule engine_next [OF demo_reachable step_acquire]) simp_all

theorem lease_is_exclusive_witness:
  "\<exists>r' s''. acquire_lease [107] True [98] demo_leased = (Inr r', s'') \<and> lease_token r' = None"
proof -
  have "\<exists>r' s''. acquire_lease [107] True [98] demo_leased = (Inr r', s'')"
    by (simp add: demo_leased_def lease_eval engine_eval)
  then obtain r' s'' where a: "acquire_lease [107] True [98] demo_leased = (Inr r', s'')" by blast
  have "now_of demo_leased < now_of (demo_engine 2 2000 ''lru'') + of_int (lease_seconds (demo_engine 2 2000 ''lru''))"
    by (simp add: demo_leased_def lease_eval engine_eval)
  with lease_is_exclusive [OF demo_reachable demo_leased_eq _ _ a] a show ?thesis by simp
qed

text \<open>
  C7. Lease tokens fence writes: a \<open>put\<close> that presents a token succeeds only while a lease
  with exactly that token is live, and it consumes the lease, so the same token cannot commit
  twice.
\<close>

theorem put_token_fenced:
  assumes "engine_reachable s" "put k v a b ts (Some tok) p s = (Inr r, s')"
  shows "(\<exists>l. map_of (leases s) k = Some l \<and> token l = tok \<and> now_of s < until l) \<and>
     map_of (leases s') k = None"
proof (cases rule: put_cases [of k v a b ts "Some tok" p s])
  case (stored stored fr st ntags sz e)
  have "\<exists>l. map_of (leases s) k = Some l \<and> token l = tok \<and> now_of s < until l"
    using stored(2) by (auto simp: check_put_lease_def compare_digest_def
        split: option.splits sum.splits if_splits bool.splits)
  moreover have "map_of (leases s') k = None"
  proof -
    have inv: "engine_inv (tick s)" using reachable_inv [OF assms(1)] by simp
    have ok: "entry_ok k e" using new_entry_ok [OF stored(1)] stored(4) by simp
    obtain s1 where ev: "evict_if_needed (store_entry k e (tick s)) = (Inr (), s1)"
      using evict_after_store [OF inv ok] by blast
    have "leases s1 = leases (store_entry k e (tick s))" using leases_evict ev by (metis snd_conv)
    then have "leases s1 = AList.delete k (leases s)" by (simp add: store_entry_def)
    moreover have "s' = snd (lookup k False s1)"
      using assms(2) stored(5) ev by (simp add: case_prod_beta Let_def prod_eq_iff)
    ultimately show ?thesis by simp
  qed
  ultimately show ?thesis ..
qed (use assms(2) in auto)

theorem put_token_fenced_witness:
  "\<exists>r s'. put [107] (PStr [118]) PNone PNone (PTuple []) (Some [97]) True demo_leased = (Inr r, s')
     \<and> map_of (leases s') [107] = None"
proof -
  have "\<exists>r s'. put [107] (PStr [118]) PNone PNone (PTuple []) (Some [97]) True demo_leased = (Inr r, s')"
    by (simp add: demo_leased_def lease_eval engine_eval)
  with put_token_fenced [OF demo_leased_reachable] show ?thesis by blast
qed

section \<open>Where the engine does less than documented\<close>

text \<open>
  \<open>mset\<close> is not atomic: on a reachable engine whose memory is partly reserved by a lease, it
  raises for the second pair after having stored the first one. (Its preliminary check ignores
  the reserved bytes that \<open>put\<close> takes into account.)
\<close>

theorem mset_partial_write:
  "\<exists>s kvs e s'. engine_reachable s \<and> mset kvs s = (Inl e, s') \<and> entries s = [] \<and> od_keys (entries s') = [[97]]"
proof -
  let ?s = "snd (acquire_lease [107] False [97] (demo_engine 2 200 ''lru''))"
  let ?kvs = "[([97], PStr [118]), ([98], PBytes (replicate 40 CHR ''x''))]"
  have "engine_reachable ?s" by (rule engine_next [OF demo_reachable step_acquire]) simp_all
  moreover have "entries ?s = []" by (simp add: lease_eval engine_eval)
  moreover have "fst (mset ?kvs ?s) = Inl ExceedsAvailableMemory \<and> od_keys (entries (snd (mset ?kvs ?s))) = [[97]]"
    by (simp add: mset_def mset_check_def lease_eval engine_eval)
  ultimately show ?thesis by (metis prod.collapse)
qed

text \<open>
  Under the cost policy a rollback may change the order of the entries: there are a
  reachable engine and a single write whose rollback succeeds and returns every entry, but with
  the evicted one moved to the front of the dictionary.
\<close>

theorem cost_rollback_reorders:
  "\<exists>s k cp s1 op s'. engine_reachable s \<and> eviction_policy s = Cost \<and>
     begin_mutation_checkpoint k s = (Inr cp, s1) \<and>
     restore_mutation_checkpoint cp (run_tx k [op] s1) = (Inr (), s') \<and>
     od_keys (entries s) = [[98], [97]] \<and> od_keys (entries s') = [[97], [98]]"
proof -
  let ?v = "PBytes (replicate 15 CHR ''x'')"
  let ?w = "\<lambda>k s. snd (put k ?v PNone PNone (PTuple []) None True s)"
  let ?s0 = "demo_engine 2 2000 ''cost''"
  let ?s = "snd (exists_count [[97]] (?w [98] (?w [97] ?s0)))"
  let ?b = "begin_mutation_checkpoint [99] ?s"
  let ?t = "run_tx [99] [TxPut ?v PNone PNone (PTuple []) None True] (snd ?b)"
  have "engine_reachable ?s"
    by (rule engine_next [OF engine_next [OF engine_next [OF demo_reachable step_put] step_put] step_exists])
      simp_all
  moreover have "eviction_policy ?s = Cost" by (simp add: engine_eval)
  moreover have "fst ?b = Inr 0" by (simp add: begin_mutation_checkpoint_def engine_eval)
  moreover have "od_keys (entries ?s) = [[98], [97]]" by (simp add: engine_eval)
  moreover have "fst (restore_mutation_checkpoint 0 ?t) = Inr () \<and>
      od_keys (entries (snd (restore_mutation_checkpoint 0 ?t))) = [[97], [98]]"
  proof -
    have "sqrt 144 = 12" by (rule real_sqrt_unique) simp_all
    then show ?thesis
      by (simp add: begin_mutation_checkpoint_def restore_mutation_checkpoint_def run_tx_def
          validate_active_mutation_def reinstate_front_def reinstate_key_def od_to_front_def
          pick_victim_def eviction_score_def count_eviction_def engine_eval)
  qed
  ultimately show ?thesis by (metis prod.collapse)
qed

end
