(* ===== verification/Engine_Snapshot.thy ===== *)
theory Engine_Snapshot
  imports Engine_Props
begin

text \<open>
  Snapshots of the engine: \<open>export_entries\<close> and \<open>restore_entries\<close> form a round trip
  on the live entries, and a rejected restore leaves the cache as it was.
\<close>

section \<open>Snapshots\<close>

definition live_at :: "real \<Rightarrow> (pystr \<times> entry) list \<Rightarrow> (pystr \<times> entry) list" where
  "live_at now es = filter (\<lambda>p. \<not> reached now (stale_until (snd p))) es"

lemma export_loop_items:
  "distinct ks \<Longrightarrow> fst (export_loop now ks s) =
     List.map_filter (\<lambda>k. case map_of (entries s) k of None \<Rightarrow> None
       | Some e \<Rightarrow> if reached now (stale_until e) then None else Some (export_one now k e)) ks"
proof (induction ks arbitrary: s)
  case Nil
  then show ?case by (simp add: map_filter_simps)
next
  case (Cons k ks)
  let ?f = "\<lambda>s k. case map_of (entries s) k of None \<Rightarrow> None
       | Some e \<Rightarrow> if reached now (stale_until e) then None else Some (export_one now k e)"
  have "map_of (AList.delete k (entries s)) x = map_of (entries s) x" if "x \<in> set ks" for x
    using that Cons.prems by (intro map_of_delete_other) auto
  then have "List.map_filter (?f (snd (remove_entry k s))) ks = List.map_filter (?f s) ks"
    by (intro map_filter_cong) simp
  with Cons show ?case
    by (auto simp: map_filter_simps case_prod_beta Let_def split: option.splits)
qed

lemma map_filter_keys:
  "od_distinct es \<Longrightarrow> List.map_filter (\<lambda>k. case map_of es k of None \<Rightarrow> None | Some e \<Rightarrow> f k e) (od_keys es)
     = List.map_filter (\<lambda>p. f (fst p) (snd p)) es"
proof -
  assume d: "od_distinct es"
  have "List.map_filter g (map fst xs) = List.map_filter (g \<circ> fst) xs"
    for g :: "'a \<Rightarrow> 'c option" and xs :: "('a \<times> 'b) list"
    by (induction xs) (auto simp: map_filter_simps split: option.split)
  moreover have "List.map_filter ((\<lambda>k. case map_of es k of None \<Rightarrow> None | Some e \<Rightarrow> f k e) \<circ> fst) es
     = List.map_filter (\<lambda>p. f (fst p) (snd p)) es"
    using d by (intro map_filter_cong) auto
  ultimately show ?thesis by simp
qed

lemma map_filter_if: "List.map_filter (\<lambda>p. if P p then None else Some (g p)) xs = map g (filter (\<lambda>p. \<not> P p) xs)"
  by (induction xs) (auto simp: map_filter_simps)

lemma export_all:
  assumes "od_distinct (entries s)"
  shows "fst (export_entries None s) = map (\<lambda>p. export_one (now_of s) (fst p) (snd p)) (live_at (now_of s) (entries s))"
  using map_filter_keys [OF assms, of "\<lambda>k e. if reached (now_of s) (stale_until e) then None
      else Some (export_one (now_of s) k e)"] assms
  by (simp add: export_entries_def export_loop_items live_at_def map_filter_if)

lemma sum_sizes_eq:
  "sum_sizes ts = (if \<forall>t \<in> set ts. utf8_len t \<noteq> None then Inr (sum_list (map (the \<circ> utf8_len) ts))
     else Inl UnicodeEncodeError)"
  by (induction ts) (auto simp: utf8_size_def comp_def split: option.splits)

lemma sum_sizes_sort: "distinct ts \<Longrightarrow> sum_sizes ts = Inr n \<Longrightarrow> sum_sizes (sort ts) = Inr n"
  by (auto simp: sum_sizes_eq comp_def sum_list_distinct_conv_sum_set split: if_splits)

text \<open>The windows of a live entry survive the export: what remains of them is positive.\<close>

definition window_of :: "real \<Rightarrow> entry \<Rightarrow> (real \<times> real) option" where
  "window_of now e = (case (fresh_until e, stale_until e) of
      (Fin f, Fin g) \<Rightarrow> Some (max 0 (f - now), max 0 (g - max now f)) | _ \<Rightarrow> None)"

lemma prepare_exported:
  assumes ok: "entry_ok k e" and live: "\<not> reached now (stale_until e)"
    and fit: "size_bytes e \<le> max_entry_bytes t" "size_bytes e \<le> max_memory_bytes t"
  shows "prepare_one t (export_one now k e) =
    Inr (Some (k, value e, sort (tags e), size_bytes e, window_of now e))"
proof -
  let ?i = "export_one now k e"
  have tags: "check_tags (map PStr (tags e)) = Inr (tags e)" "distinct (tags e)" "length (tags e) \<le> 100"
    and sz: "entry_size k (value e) (tags e) = Inr (size_bytes e)" using ok by (simp_all add: entry_ok_def)
  have nt: "normalize_tags (PTuple (map PStr (se_tags ?i))) = Inr (sort (tags e))"
    using tags by (auto simp: normalize_tags_def export_one_def check_tags_Inr Let_def)
  have es: "entry_size k (value e) (remdups (sort (tags e))) = Inr (size_bytes e)"
    using sz tags(2) sum_sizes_sort by (auto simp: entry_size_def distinct_remdups_id split: sum.splits)
  have snap: "snapshot_value (se_value ?i) = Inr (value e)"
    using ok by (simp add: export_one_def entry_ok_def Let_def)
  have rd: "remdups (sort (tags e)) = sort (tags e)" using tags(2) by (simp add: distinct_remdups_id)
  note es' = es [unfolded rd]
  have key: "se_key ?i = k" by (simp add: export_one_def Let_def)
  show ?thesis
  proof (cases "fresh_until e")
    case PInf
    then have "stale_until e = PInf" using ok by (cases "stale_until e") (auto simp: entry_ok_def windows_ok_def)
    with PInf show ?thesis using fit
      by (simp add: prepare_one_def nt snap key es' rd) (simp add: export_one_def Let_def window_of_def)
  next
    case (Fin f)
    then obtain g where g: "stale_until e = Fin g" "f \<le> g"
      using ok by (cases "stale_until e") (auto simp: entry_ok_def windows_ok_def)
    with live have "\<not> max 0 (f - now) + max 0 (g - max now f) \<le> 0" by auto
    moreover have "max now f \<le> g" using live g by auto
    ultimately show ?thesis using Fin g fit
      by (simp add: prepare_one_def nt snap key es' rd)
        (simp add: export_one_def Let_def window_of_def snapshot_duration_def)
  qed
qed

lemma fold_insert_fresh:
  assumes "od_distinct (entries t @ map (\<lambda>p. (fst p, E p)) ps)"
  shows "entries (fold (\<lambda>p. insert_entry (fst p) (E p)) ps t) = entries t @ map (\<lambda>p. (fst p, E p)) ps"
  using assms
proof (induction ps arbitrary: t)
  case Nil
  then show ?case by simp
next
  case (Cons p ps)
  have fr: "fst p \<notin> fst ` set (entries t)" using Cons.prems by auto
  then have none: "map_of (entries t) (fst p) = None" by (simp add: map_of_eq_None_iff)
  have "entries (insert_entry (fst p) (E p) t) = entries t @ [(fst p, E p)]"
    using update_fresh [OF fr, of "E p"] none by (simp add: insert_entry_def Let_def remove_entry_def)
  with Cons show ?case by simp
qed

lemma map_sum_list_map: "(\<And>x. x \<in> set xs \<Longrightarrow> f x = Inr (g x)) \<Longrightarrow> map_sum_list f xs = Inr (map g xs)"
  by (induction xs) auto

text \<open>What a client sees of an entry, relative to the time it looks.\<close>

definition remaining :: "real \<Rightarrow> entry \<Rightarrow> pyval \<times> int \<times> pystr set \<times> pyfloat \<times> pyfloat" where
  "remaining now e = (value e, size_bytes e, set (tags e), pf_gap (fresh_until e) (Fin now),
     pf_gap (stale_until e) (Fin now))"

lemma remaining_restored:
  assumes "entry_ok k e" "\<not> reached now (stale_until e)"
  shows "remaining now' (restored_entry now' (k, value e, sort (tags e), size_bytes e, window_of now e))
     = remaining now e"
proof (cases "fresh_until e")
  case PInf
  then have "stale_until e = PInf" using assms(1) by (cases "stale_until e") (auto simp: entry_ok_def windows_ok_def)
  with PInf show ?thesis by (simp add: remaining_def restored_entry_def window_of_def Let_def)
next
  case (Fin f)
  then obtain g where g: "stale_until e = Fin g" "f \<le> g"
    using assms(1) by (cases "stale_until e") (auto simp: entry_ok_def windows_ok_def)
  with Fin assms(2) show ?thesis
    by (simp add: remaining_def restored_entry_def window_of_def Let_def max_def)
qed

text \<open>
  C5. Export followed by restore into an empty engine with room for them loses nothing: the
  restore succeeds, every live entry arrives, in the same order, with its value, size, tags and
  exactly the remaining fresh and stale time it had at export, and nothing else arrives.
\<close>

theorem export_restore_roundtrip:
  assumes "engine_reachable s" "engine_reachable t" "entries t = []" "leases t = []"
    and "\<forall>p \<in> set (entries s). size_bytes (snd p) \<le> max_entry_bytes t"
    and "int (length (entries s)) \<le> max_entries t" "od_sum size_bytes (entries s) \<le> max_memory_bytes t"
  shows "\<exists>n t'. restore_entries (fst (export_entries None s)) t = (Inr n, t') \<and>
     n = int (length (live_at (now_of s) (entries s))) \<and>
     od_keys (entries t') = od_keys (live_at (now_of s) (entries s)) \<and>
     map (remaining (clock t (Suc (ticks t))) \<circ> snd) (entries t') =
       map (remaining (now_of s) \<circ> snd) (live_at (now_of s) (entries s))"
proof -
  let ?L = "live_at (now_of s) (entries s)"
  let ?g = "\<lambda>p. (fst p, value (snd p), sort (tags (snd p)), size_bytes (snd p), window_of (now_of s) (snd p))"
  have acc: "accounted s" using reachable_inv [OF assms(1)] by (simp add: engine_inv_def)
  have d: "od_distinct (entries s)" using acc by (simp add: accounted_def)
  have L: "p \<in> set ?L \<Longrightarrow> entry_ok (fst p) (snd p) \<and> \<not> reached (now_of s) (stale_until (snd p))
      \<and> size_bytes (snd p) \<le> max_entry_bytes t" for p
    using acc assms(5) by (auto simp: live_at_def accounted_def)
  have dL: "od_distinct ?L" using d by (simp add: live_at_def distinct_map_filter)
  have nonneg: "p \<in> set (entries s) \<Longrightarrow> 0 \<le> size_bytes (snd p)" for p
    using accounted_size [OF acc, of "fst p" "snd p"] by simp
  have le: "od_sum size_bytes (filter P es) \<le> od_sum size_bytes es"
    if "\<And>p. p \<in> set es \<Longrightarrow> 0 \<le> size_bytes (snd p)" for P and es :: "(pystr \<times> entry) list"
    using that by (induction es) fastforce+
  have sumL: "od_sum size_bytes ?L \<le> max_memory_bytes t"
    unfolding live_at_def by (rule order_trans [OF le assms(7)]) (rule nonneg)
  have lenL: "int (length ?L) \<le> max_entries t"
    unfolding live_at_def
    by (rule order_trans [OF _ assms(6)]) (simp add: length_filter_le)
  have mem: "p \<in> set ?L \<Longrightarrow> size_bytes (snd p) \<le> max_memory_bytes t" for p
  proof -
    assume p: "p \<in> set ?L"
    have "x \<in> set es \<Longrightarrow> (\<And>p. p \<in> set es \<Longrightarrow> 0 \<le> size_bytes (snd p)) \<Longrightarrow> size_bytes (snd x) \<le> od_sum size_bytes es"
      for x and es :: "(pystr \<times> entry) list"
    proof (induction es)
      case (Cons y es)
      have "0 \<le> od_sum size_bytes es" by (rule od_sum_nonneg) (use Cons.prems(2) in force)
      with Cons show ?case by fastforce
    qed simp
    from this [OF p] show ?thesis using sumL nonneg by (force simp: live_at_def)
  qed
  have items: "fst (export_entries None s) = map (\<lambda>p. export_one (now_of s) (fst p) (snd p)) ?L"
    by (rule export_all [OF d])
  have keys: "map se_key (fst (export_entries None s)) = od_keys ?L"
    by (simp add: items export_one_def Let_def)
  from this have dk: "distinct (map (se_key \<circ> (\<lambda>p. export_one (now_of s) (fst p) (snd p))) ?L)"
    using dL unfolding items map_map by argo
  have prep: "prepare_restore_entries t (fst (export_entries None s)) = Inr (map ?g ?L)"
  proof -
    have "map_sum_list (prepare_one t) (map (\<lambda>p. export_one (now_of s) (fst p) (snd p)) xs) =
        Inr (map (\<lambda>p. Some (?g p)) xs)" if "set xs \<subseteq> set ?L" for xs
      using that by (induction xs) (auto simp: prepare_exported L mem)
    moreover have "map_sum_list (\<lambda>item. validate_key (se_key item))
        (map (\<lambda>p. export_one (now_of s) (fst p) (snd p)) xs) = Inr (map (\<lambda>_. ()) xs)"
      if "set xs \<subseteq> set ?L" for xs
      using that by (induction xs) (auto simp: export_one_def Let_def dest!: L simp: entry_ok_def)
    moreover have "List.map_filter id (map (\<lambda>p. Some (?g p)) ?L) = map ?g ?L"
      by (simp add: List.map_filter_def comp_def filter_map)
    ultimately show ?thesis
      using dk unfolding items by (simp add: prepare_restore_entries_def)
  qed
  let ?t1 = "purge_expired_entries (now_of t) (tick t)"
  have t1: "?t1 = tick t" using assms(3) by (simp add: purge_expired_entries_def)
  have "used_bytes t = 0" using reachable_inv [OF assms(2)] assms(3,4) by (simp add: engine_inv_def accounted_def)
  moreover have "sum_list (map (\<lambda>(_, _, _, sz, _). sz) (map ?g ?L)) = od_sum size_bytes ?L"
    by (simp add: od_sum_def comp_def)
  moreover have "max_entries (tick t) = max_entries t" by (simp add: tick_def)
  moreover have "List.map_filter (\<lambda>p. map_of (entries (tick t)) (fst p)) (map ?g ?L) = []"
    using assms(3) by (simp add: List.map_filter_def)
  ultimately have cap: "validate_prepared_restore_capacity (tick t) (map ?g ?L) = Inr ()"
    using assms(3) sumL lenL by (simp add: validate_prepared_restore_capacity_def)
  let ?n = "clock t (Suc (ticks t))"
  let ?t' = "fold (\<lambda>p. insert_entry (fst p) (restored_entry ?n p)) (map ?g ?L) (tick (tick t))"
  have r: "restore_entries (fst (export_entries None s)) t = (Inr (int (length ?L)), ?t')"
    using prep cap t1 by (simp add: restore_entries_def now_of_def [of "tick t"])
  have es: "entries ?t' = map (\<lambda>p. (fst p, restored_entry ?n p)) (map ?g ?L)"
    using fold_insert_fresh [of "tick (tick t)" "restored_entry ?n" "map ?g ?L"] dL assms(3)
    by (simp add: comp_def)
  have "map (remaining ?n \<circ> snd) (entries ?t') = map (remaining (now_of s) \<circ> snd) ?L"
    unfolding es using L by (auto simp: remaining_restored)
  with r es show ?thesis by (simp add: comp_def)
qed

theorem export_restore_roundtrip_witness:
  "\<exists>n t'. restore_entries (fst (export_entries None demo_tagged)) (demo_engine 2 2000 ''lru'') = (Inr n, t')
     \<and> od_keys (entries t') = [[107]]"
  using export_restore_roundtrip [OF demo_tagged_reachable demo_reachable [of 2 2000 "''lru''"]]
  by (auto simp: demo_tagged_entries live_at_def demo_engine_def)

text \<open>
  A restore is all or nothing: when it raises, the cache holds exactly the unexpired entries
  it held before (or is untouched), with every lease, and no entry of the rejected snapshot.
\<close>

theorem restore_all_or_nothing:
  assumes "engine_reachable s" "restore_entries items s = (Inl e, s')"
  shows "(entries s' = entries s \<or> entries s' = live_at (now_of s) (entries s)) \<and> leases s' = leases s"
proof -
  let ?s = "purge_expired_entries (now_of s) (tick s)"
  have d: "od_distinct (entries s)"
    using reachable_inv [OF assms(1)] by (simp add: engine_inv_def accounted_def)
  have fold: "entries (fold (\<lambda>(key, e) s'. if reached now (stale_until e) then snd (remove_entry key s') else s') xs x)
      = filter (\<lambda>p. \<not> (\<exists>e. (fst p, e) \<in> set xs \<and> reached now (stale_until e))) (entries x)
    \<and> leases (fold (\<lambda>(key, e) s'. if reached now (stale_until e) then snd (remove_entry key s') else s') xs x)
      = leases x" for now xs x
  proof (induction xs arbitrary: x)
    case (Cons p xs)
    then show ?case by (cases p) (auto simp: delete_filter intro!: filter_cong)
  qed simp
  have "entries ?s = live_at (now_of s) (entries s)"
    unfolding purge_expired_entries_def live_at_def using fold [of "now_of s" "entries (tick s)" "tick s"] d
    by (simp, intro filter_cong) (auto dest: eq_key_imp_eq_value)
  moreover have "leases ?s = leases s"
    unfolding purge_expired_entries_def using fold [of "now_of s" "entries (tick s)" "tick s"] by simp
  ultimately show ?thesis
    using assms(2) by (auto simp: restore_entries_def Let_def split: sum.splits)
qed

theorem restore_all_or_nothing_witness:
  "\<exists>e s'. restore_entries [\<lparr>se_key = [], se_value = PNone, se_fresh_for = None, se_stale_for = None,
      se_tags = [], se_persistent = True\<rparr>] demo_tagged = (Inl e, s') \<and> leases s' = leases demo_tagged"
proof -
  have r: "restore_entries [\<lparr>se_key = [], se_value = PNone, se_fresh_for = None, se_stale_for = None,
      se_tags = [], se_persistent = True\<rparr>] demo_tagged = (Inl KeyLength, demo_tagged)"
    by (simp add: restore_entries_def prepare_restore_entries_def validate_key_def)
  from restore_all_or_nothing [OF demo_tagged_reachable r] r show ?thesis by blast
qed

end
