(* ===== verification/Coordination.thy ===== *)
theory Coordination
  imports Engine_Snapshot
begin

text \<open>
  The invalidation cursor, \<open>src/src/megacache/coordination.py\<close>. \<open>MutationClock\<close> wraps a
  storage backend and counts its mutations; clients drop their local copies when the cursor
  moves. Every method of the wrapper is the same shape: call the backend, then advance the
  cursor unless the result says that nothing happened. \<open>clocked\<close> is that shape.

  The contract the wrapper relies on is the locale \<open>reporting\<close>: a call whose result says
  \<open>nothing happened\<close> is quiet, that is, nothing but expiry happened to the stored data. It is
  interpreted on the engine, operation by operation.
\<close>

section \<open>The wrapper\<close>

record 's mutation_clock =
  backing :: 's
  generation :: int

definition make_clock :: "'s \<Rightarrow> 's mutation_clock" where
  "make_clock s = \<lparr>backing = s, generation = 0\<rparr>"

definition invalidation_cursor :: "'s mutation_clock \<Rightarrow> int" where
  "invalidation_cursor c = generation c"

definition mark_changed :: "'s mutation_clock \<Rightarrow> 's mutation_clock" where
  "mark_changed c = c\<lparr>generation := generation c + 1\<rparr>"

definition clocked ::
  "('a \<Rightarrow> bool) \<Rightarrow> ('s \<Rightarrow> ('e, 'a, 's) res) \<Rightarrow> 's mutation_clock \<Rightarrow> ('e, 'a, 's mutation_clock) res" where
  "clocked changed call c =
     (case call (backing c) of
        (Inl e, s) \<Rightarrow> (Inl e, c\<lparr>backing := s\<rparr>)
      | (Inr a, s) \<Rightarrow>
          (let c1 = c\<lparr>backing := s\<rparr> in (Inr a, if changed a then mark_changed c1 else c1)))"

type_synonym 'a cres = "(engine_error, 'a, engine mutation_clock) res"

definition clock_put ::
  "pystr \<Rightarrow> pyval \<Rightarrow> pyval \<Rightarrow> pyval \<Rightarrow> pyval \<Rightarrow> pystr option \<Rightarrow> bool \<Rightarrow> engine mutation_clock \<Rightarrow> cache_result cres" where
  "clock_put k v a b ts tok p = clocked (\<lambda>_. True) (put k v a b ts tok p)"

definition clock_mset :: "(pystr \<times> pyval) list \<Rightarrow> engine mutation_clock \<Rightarrow> unit cres" where
  "clock_mset kvs = clocked (\<lambda>_. True) (mset kvs)"

definition clock_delete :: "pystr \<Rightarrow> engine mutation_clock \<Rightarrow> bool cres" where
  "clock_delete k = clocked (\<lambda>deleted. deleted) (delete k)"

definition clock_delete_many :: "pystr list \<Rightarrow> engine mutation_clock \<Rightarrow> int cres" where
  "clock_delete_many ks = clocked (\<lambda>deleted. deleted \<noteq> 0) (delete_many ks)"

definition clock_expire :: "pystr \<Rightarrow> pyval \<Rightarrow> engine mutation_clock \<Rightarrow> bool cres" where
  "clock_expire k d = clocked (\<lambda>changed. changed) (expire k d)"

definition clock_flush :: "engine mutation_clock \<Rightarrow> int cres" where
  "clock_flush = clocked (\<lambda>removed. removed \<noteq> 0) (\<lambda>s. case flush s of (n, s') \<Rightarrow> (Inr n, s'))"

definition clock_invalidate_tags :: "pyval \<Rightarrow> engine mutation_clock \<Rightarrow> int cres" where
  "clock_invalidate_tags ts = clocked (\<lambda>removed. removed \<noteq> 0) (invalidate_tags ts)"

definition clock_restore_entries :: "storage_entry list \<Rightarrow> engine mutation_clock \<Rightarrow> int cres" where
  "clock_restore_entries items = clocked (\<lambda>restored. restored \<noteq> 0) (restore_entries items)"

text \<open>\<open>__getattr__\<close>: every other attribute is the backend's own.\<close>

definition clock_delegate :: "('s \<Rightarrow> 'a \<times> 's) \<Rightarrow> 's mutation_clock \<Rightarrow> 'a \<times> 's mutation_clock" where
  "clock_delegate call c = (case call (backing c) of (a, s) \<Rightarrow> (a, c\<lparr>backing := s\<rparr>))"

section \<open>The contract of a mutating call\<close>

locale reporting =
  fixes quiet :: "'s \<Rightarrow> 's \<Rightarrow> bool"
    and call :: "'x \<Rightarrow> 's \<Rightarrow> ('e, 'a, 's) res"
    and changed :: "'a \<Rightarrow> bool"
  assumes silent: "call x s = (Inr a, s') \<Longrightarrow> \<not> changed a \<Longrightarrow> quiet s s'"
begin

lemma quiet_step:
  assumes "clocked changed (call x) c = (Inr a, c')" "generation c' = generation c"
  shows "quiet (backing c) (backing c')"
proof -
  obtain s where r: "call x (backing c) = (Inr a, s)"
    and c': "c' = (let c1 = c\<lparr>backing := s\<rparr> in if changed a then mark_changed c1 else c1)"
    using assms(1) by (auto simp: clocked_def Let_def split: prod.splits sum.splits)
  have "\<not> changed a" using assms(2) c' by (auto simp: mark_changed_def Let_def)
  with silent [OF r] c' show ?thesis by simp
qed

end

lemma cursor_step:
  assumes "clocked changed call c = (r, c')"
  shows "generation c \<le> generation c' \<and> generation c' \<le> generation c + 1"
  using assms by (auto simp: clocked_def mark_changed_def Let_def split: prod.splits sum.splits if_splits)

text \<open>
  What a client may hold a copy of is the value of a key and its two deadlines. A quiet
  transition keeps it, except for entries that expired at one of the clock readings made
  meanwhile.
\<close>

definition engine_view :: "engine \<Rightarrow> pystr \<rightharpoonup> pyval \<times> pyfloat \<times> pyfloat" where
  "engine_view s k = map_option (\<lambda>e. (value e, fresh_until e, stale_until e)) (map_of (entries s) k)"

definition quiet :: "engine \<Rightarrow> engine \<Rightarrow> bool" where
  "quiet s s' \<longleftrightarrow> clock s' = clock s \<and> ticks s \<le> ticks s' \<and>
     (\<forall>k. engine_view s' k = engine_view s k \<or>
        engine_view s' k = None \<and> (\<exists>v f g i. engine_view s k = Some (v, f, g) \<and>
          ticks s \<le> i \<and> i < ticks s' \<and> reached (clock s i) g))"

lemma quiet_refl [simp]: "quiet s s"
  by (simp add: quiet_def)

lemma quiet_trans:
  assumes "quiet s t" "quiet t u"
  shows "quiet s u"
  unfolding quiet_def
proof (intro conjI allI)
  show "clock u = clock s" "ticks s \<le> ticks u" using assms by (auto simp: quiet_def)
  fix k
  have a: "engine_view t k = engine_view s k \<or> engine_view t k = None \<and>
      (\<exists>v f g i. engine_view s k = Some (v, f, g) \<and> ticks s \<le> i \<and> i < ticks t \<and> reached (clock s i) g)"
    and b: "engine_view u k = engine_view t k \<or> engine_view u k = None \<and>
      (\<exists>v f g i. engine_view t k = Some (v, f, g) \<and> ticks t \<le> i \<and> i < ticks u \<and> reached (clock t i) g)"
    and c: "clock t = clock s" "ticks s \<le> ticks t" "ticks t \<le> ticks u"
    using assms by (simp_all add: quiet_def)
  from b show "engine_view u k = engine_view s k \<or> engine_view u k = None \<and>
      (\<exists>v f g i. engine_view s k = Some (v, f, g) \<and> ticks s \<le> i \<and> i < ticks u \<and> reached (clock s i) g)"
  proof
    assume "engine_view u k = engine_view t k"
    with a c(3) show ?thesis by (metis order_less_le_trans)
  next
    assume "engine_view u k = None \<and>
      (\<exists>v f g i. engine_view t k = Some (v, f, g) \<and> ticks t \<le> i \<and> i < ticks u \<and> reached (clock t i) g)"
    with a c(1,2) show ?thesis by (metis option.distinct(1) order_trans)
  qed
qed

lemma quiet_frame:
  assumes "map_of (entries s') = map_of (entries s)" "clock s' = clock s" "ticks s \<le> ticks s'"
  shows "quiet s s'"
  using assms by (simp add: quiet_def engine_view_def)

lemma quiet_expired:
  assumes "map_of (entries s) k = Some e" "reached (clock s i) (stale_until e)" "ticks s \<le> i" "i < ticks s'"
    and "entries s' = AList.delete k (entries s)" "clock s' = clock s"
  shows "quiet s s'"
  using assms unfolding quiet_def by (auto simp: engine_view_def delete_conv')

lemma quiet_lookup: "quiet s (snd (lookup k c s))"
proof (cases rule: lookup_cases [of s k c])
  case absent
  then show ?thesis by (auto intro!: quiet_frame simp: count_metric_def tick_def)
next
  case (expired e)
  then show ?thesis
    by (intro quiet_expired [where k = k and e = e and i = "ticks s"])
      (auto simp: now_of_def count_metric_def tick_def remove_entry_def)
next
  case (live e r n)
  then have "engine_view (snd (lookup k c s)) = engine_view s"
    by (auto simp: engine_view_def fun_eq_iff touch_def count_metric_def Let_def)
  with live show ?thesis by (simp add: quiet_def tick_def count_metric_def Let_def)
qed

lemma quiet_purge:
  assumes "od_distinct (entries s)"
  shows "quiet s (purge_expired_entries (now_of s) (tick s))"
proof -
  let ?f = "\<lambda>(key, e) s'. if reached (now_of s) (stale_until e) then snd (remove_entry key s') else s'"
  have "quiet s (fold ?f xs x)"
    if "quiet s x" "ticks x = Suc (ticks s)" "set xs \<subseteq> set (entries s)" for xs x
    using that
  proof (induction xs arbitrary: x)
    case (Cons p xs)
    obtain k e where p: "p = (k, e)" by (cases p)
    have "map_of (entries s) k = Some e" using Cons.prems(3) p assms by simp
    then have v: "engine_view s k = Some (value e, fresh_until e, stale_until e)" by (simp add: engine_view_def)
    have "quiet s (?f p x)" using Cons.prems(1,2) v p
      by (auto simp: quiet_def engine_view_def delete_conv' now_of_def)
    then show ?case using Cons p by simp
  qed simp
  moreover have "quiet s (tick s)" by (intro quiet_frame) (auto simp: tick_def)
  ultimately show ?thesis unfolding purge_expired_entries_def by (simp add: tick_def)
qed

lemma time_remove [simp]:
  "clock (snd (remove_entry k s)) = clock s" "ticks (snd (remove_entry k s)) = ticks s"
  "clock (snd (remove_lease k s)) = clock s" "ticks (snd (remove_lease k s)) = ticks s"
  by (simp_all add: remove_entry_def remove_lease_def split: option.splits)

lemma delete_silent: "delete k s = (Inr False, s') \<Longrightarrow> quiet s s'"
  by (rule quiet_frame)
    (auto simp: delete_def remove_entry_def remove_lease_def Let_def split: sum.splits option.splits prod.splits)

lemma delete_many_silent:
  "fold_res delete ks s = (Inr bs, s') \<Longrightarrow> filter id bs = [] \<Longrightarrow> quiet s s'"
proof (induction ks arbitrary: s bs)
  case (Cons k ks)
  then obtain b bs' s1 where r: "delete k s = (Inr b, s1)" "fold_res delete ks s1 = (Inr bs', s')" "bs = b # bs'"
    by (auto simp: bind_res_Inr)
  with Cons.prems have b: "b = False" "filter id bs' = []" by (auto simp: id_def split: if_splits)
  with Cons.IH [OF r(2)] r(1) show ?case using delete_silent [of k s s1] quiet_trans by blast
qed simp

lemma invalidate_silent: "fst (invalidate_loop ks s) = 0 \<Longrightarrow> quiet s (snd (invalidate_loop ks s))"
proof (induction ks arbitrary: s)
  case (Cons k ks)
  let ?t = "snd (remove_lease k (snd (remove_entry k s)))"
  have "0 \<le> fst (invalidate_loop ks u)" for u
  proof (induction ks arbitrary: u)
    case (Cons a ks)
    then show ?case by (simp add: case_prod_beta Let_def add_nonneg_nonneg)
  qed simp
  then have "0 \<le> fst (invalidate_loop ks ?t)" .
  with Cons.prems have "\<not> fst (remove_entry k s)" and z: "fst (invalidate_loop ks ?t) = 0"
    by (simp_all add: case_prod_beta Let_def split: if_splits)
  then have "entries ?t = entries s" by (auto simp: remove_entry_def split: option.splits)
  then have "quiet s ?t" by (intro quiet_frame) simp_all
  with quiet_trans [OF this Cons.IH [OF z]] show ?case by (simp add: case_prod_beta Let_def)
qed simp

interpretation rep_delete: reporting quiet delete "\<lambda>deleted. deleted"
  by unfold_locales (use delete_silent in auto)

interpretation rep_delete_many: reporting quiet delete_many "\<lambda>n. n \<noteq> (0::int)"
  by unfold_locales (use delete_many_silent in \<open>auto simp: delete_many_def bind_res_Inr\<close>)

interpretation rep_expire: reporting quiet "case_prod expire" "\<lambda>changed. changed"
proof unfold_locales
  fix x s a s'
  assume r: "case_prod expire x s = (Inr a, s')" "\<not> a"
  obtain k d where x: "x = (k, d)" by (cases x)
  have "s' = snd (lookup k False s)"
    using r x by (auto simp: expire_def Let_def split: sum.splits prod.splits if_splits option.splits)
  then show "quiet s s'" by (simp add: quiet_lookup)
qed

interpretation rep_flush: reporting quiet "\<lambda>(_::unit) s. case flush s of (n, s') \<Rightarrow> (Inr n, s')" "\<lambda>n. n \<noteq> (0::int)"
  by unfold_locales (auto simp: flush_def count_metric_def intro!: quiet_frame)

interpretation rep_invalidate: reporting quiet invalidate_tags "\<lambda>n. n \<noteq> (0::int)"
proof unfold_locales
  fix ts s a s'
  assume "invalidate_tags ts s = (Inr a, s')" "\<not> a \<noteq> 0"
  then obtain ks where z: "fst (invalidate_loop ks s) = 0"
    and s': "s' = (snd (invalidate_loop ks s))\<lparr>metrics := bump ''invalidations_total'' 0 (metrics (snd (invalidate_loop ks s)))\<rparr>"
    by (auto simp: invalidate_tags_def case_prod_beta Let_def split: sum.splits)
  have "quiet (snd (invalidate_loop ks s)) s'" unfolding s' by (intro quiet_frame) simp_all
  with invalidate_silent [OF z] show "quiet s s'" by (rule quiet_trans)
qed

text \<open>A restore that restores nothing has only purged expired entries.\<close>

interpretation rep_restore: reporting
  "\<lambda>s s'. od_distinct (entries s) \<longrightarrow> quiet s s'" restore_entries "\<lambda>n. n \<noteq> (0::int)"
proof (unfold_locales, rule impI)
  fix items s a s'
  assume r: "restore_entries items s = (Inr a, s')" "\<not> a \<noteq> 0" and d: "od_distinct (entries s)"
  let ?p = "purge_expired_entries (now_of s) (tick s)"
  have "s' = tick ?p" using r by (auto simp: restore_entries_def Let_def split: sum.splits)
  moreover have "quiet ?p (tick ?p)" by (intro quiet_frame) (auto simp: tick_def)
  ultimately show "quiet s s'" using quiet_trans [OF quiet_purge [OF d]] by simp
qed

section \<open>Runs of the wrapper\<close>

text \<open>Any call a protocol adapter makes on the wrapper: the overridden methods and delegated reads.\<close>

datatype clock_call =
    CPut pystr pyval pyval pyval pyval "pystr option" bool
  | CMset "(pystr \<times> pyval) list"
  | CDelete pystr
  | CDeleteMany "pystr list"
  | CExpire pystr pyval
  | CFlush
  | CInvalidate pyval
  | CRestore "storage_entry list"
  | CGet pystr
  | CMget "pystr list"
  | CExists "pystr list"

definition succeeded :: "('e, 'a, 's) res \<Rightarrow> bool \<times> 's" where
  "succeeded r = (case r of (Inl _, s) \<Rightarrow> (False, s) | (Inr _, s) \<Rightarrow> (True, s))"

fun clock_run :: "clock_call \<Rightarrow> engine mutation_clock \<Rightarrow> bool \<times> engine mutation_clock" where
  "clock_run (CPut k v a b ts tok p) c = succeeded (clock_put k v a b ts tok p c)"
| "clock_run (CMset kvs) c = succeeded (clock_mset kvs c)"
| "clock_run (CDelete k) c = succeeded (clock_delete k c)"
| "clock_run (CDeleteMany ks) c = succeeded (clock_delete_many ks c)"
| "clock_run (CExpire k d) c = succeeded (clock_expire k d c)"
| "clock_run CFlush c = succeeded (clock_flush c)"
| "clock_run (CInvalidate ts) c = succeeded (clock_invalidate_tags ts c)"
| "clock_run (CRestore items) c = succeeded (clock_restore_entries items c)"
| "clock_run (CGet k) c = succeeded (clock_delegate (get k) c)"
| "clock_run (CMget ks) c = succeeded (clock_delegate (mget ks) c)"
| "clock_run (CExists ks) c = (True, snd (clock_delegate (exists_count ks) c))"

fun clock_runs :: "clock_call list \<Rightarrow> engine mutation_clock \<Rightarrow> bool \<times> engine mutation_clock" where
  "clock_runs [] c = (True, c)"
| "clock_runs (x # xs) c =
     (let (ok, c1) = clock_run x c; (oks, c2) = clock_runs xs c1 in (ok \<and> oks, c2))"

lemma succeeded_True: "succeeded r = (True, s) \<longleftrightarrow> (\<exists>a. r = (Inr a, s))"
  by (auto simp: succeeded_def split: prod.splits sum.splits)

lemma delegate_quiet:
  assumes "clock_delegate call c = (r, c')" "\<And>s. quiet s (snd (call s))"
  shows "quiet (backing c) (backing c') \<and> generation c' = generation c"
  using assms(2) [of "backing c"] assms(1) by (auto simp: clock_delegate_def split: prod.splits)

lemma quiet_get: "quiet s (snd (get k s))"
  by (auto simp: get_def case_prod_beta quiet_lookup split: sum.splits)

lemma quiet_mget: "quiet s (snd (mget ks s))"
  unfolding mget_def by (rule fold_res_inv) (auto intro: quiet_trans quiet_get)

lemma quiet_exists: "quiet s (snd (exists_count ks s))"
  by (induction ks arbitrary: s) (auto simp: case_prod_beta Let_def intro: quiet_trans [OF quiet_lookup])

lemma snd_succeeded [simp]: "snd (succeeded r) = snd r"
  by (simp add: succeeded_def split: prod.splits sum.splits)

lemma backing_clocked [simp]: "backing (snd (clocked changed call c)) = snd (call (backing c))"
  by (auto simp: clocked_def mark_changed_def Let_def split: prod.splits sum.splits)

lemma backing_delegate [simp]: "backing (snd (clock_delegate call c)) = snd (call (backing c))"
  by (simp add: clock_delegate_def split: prod.splits)

lemma generation_delegate [simp]: "generation (snd (clock_delegate call c)) = generation c"
  by (simp add: clock_delegate_def split: prod.splits)

lemma generation_clocked: "generation c \<le> generation (snd (clocked changed call c))"
  using cursor_step [of changed call c] by (metis prod.collapse)

lemmas clock_defs = clock_put_def clock_mset_def clock_delete_def clock_delete_many_def
  clock_expire_def clock_flush_def clock_invalidate_tags_def clock_restore_entries_def

lemma clock_run_backing: "engine_inv (backing c) \<Longrightarrow> engine_inv (backing (snd (clock_run x c)))"
  by (cases x) (simp_all add: clock_defs inv_intro case_prod_beta)

lemma clocked_always: "clocked (\<lambda>_. True) call c = (Inr a, c') \<Longrightarrow> generation c' \<noteq> generation c"
  by (auto simp: clocked_def mark_changed_def Let_def split: prod.splits sum.splits)

lemma clock_run_quiet:
  assumes "clock_run x c = (True, c')" "generation c' = generation c" "engine_inv (backing c)"
  shows "quiet (backing c) (backing c')"
proof -
  have d: "od_distinct (entries (backing c))" using assms(3) by (simp add: engine_inv_def accounted_def)
  show ?thesis
  proof (cases x)
    case (CExpire k t)
    with assms(1,2) rep_expire.quiet_step [of "(k, t)" c _ c'] show ?thesis
      by (auto simp: succeeded_True clock_expire_def)
  next
    case CFlush
    with assms(1,2) rep_flush.quiet_step [of c _ c'] show ?thesis
      by (auto simp: succeeded_True clock_flush_def)
  next
    case (CExists ks)
    with assms(1) delegate_quiet [of "exists_count ks" c] quiet_exists show ?thesis by fastforce
  qed (use assms(1,2) d in \<open>auto simp: succeeded_True clock_defs
      dest: clocked_always rep_delete.quiet_step rep_delete_many.quiet_step rep_invalidate.quiet_step
        rep_restore.quiet_step delegate_quiet [OF _ quiet_get] delegate_quiet [OF _ quiet_mget]\<close>)
qed

lemma clock_run_mono: "generation c \<le> generation (snd (clock_run x c))"
  by (cases x) (simp_all add: clock_defs generation_clocked)

lemma clock_runs_mono: "generation c \<le> generation (snd (clock_runs xs c))"
  by (induction xs arbitrary: c) (auto simp: case_prod_beta Let_def intro: order_trans [OF clock_run_mono])



text \<open>
  C9. The cursor misses the effect of a call that raises: on a reachable engine a multi-key write
  replaces the value of its first key and a multi-key delete removes its first key, both raise
  on a later key, and the cursor does not move, so a client keeps serving the old value.
\<close>

theorem raised_call_unseen:
  "(\<exists>c kvs c'. engine_reachable (backing c) \<and> clock_mset kvs c = (Inl ExceedsAvailableMemory, c') \<and>
      invalidation_cursor c' = invalidation_cursor c \<and>
      map_option value (map_of (entries (backing c)) [97]) = Some (PStr [111]) \<and>
      map_option value (map_of (entries (backing c')) [97]) = Some (PStr [118])) \<and>
   (\<exists>c ks c'. engine_reachable (backing c) \<and> clock_delete_many ks c = (Inl KeyLength, c') \<and>
      invalidation_cursor c' = invalidation_cursor c \<and>
      map_of (entries (backing c)) [107] \<noteq> None \<and> map_of (entries (backing c')) [107] = None)"
proof (rule conjI)
  let ?s = "snd (put [97] (PStr [111]) PNone PNone (PTuple []) None True
      (snd (acquire_lease [107] False [97] (demo_engine 2 200 ''lru''))))"
  let ?kvs = "[([97], PStr [118]), ([98], PBytes (replicate 40 CHR ''x''))]"
  have "engine_reachable ?s"
    by (rule engine_next [OF engine_next [OF demo_reachable step_acquire] step_put]) simp_all
  moreover have "map_option value (map_of (entries ?s) [97]) = Some (PStr [111])"
    by (simp add: lease_eval engine_eval)
  moreover have "fst (mset ?kvs ?s) = Inl ExceedsAvailableMemory \<and>
      map_option value (map_of (entries (snd (mset ?kvs ?s))) [97]) = Some (PStr [118])"
    by (simp add: mset_def mset_check_def lease_eval engine_eval)
  ultimately show "\<exists>c kvs c'. engine_reachable (backing c) \<and> clock_mset kvs c = (Inl ExceedsAvailableMemory, c') \<and>
      invalidation_cursor c' = invalidation_cursor c \<and>
      map_option value (map_of (entries (backing c)) [97]) = Some (PStr [111]) \<and>
      map_option value (map_of (entries (backing c')) [97]) = Some (PStr [118])"
    by (intro exI [of _ "make_clock ?s"] exI [of _ ?kvs] exI [of _ "make_clock (snd (mset ?kvs ?s))"])
      (auto simp: make_clock_def clock_mset_def clocked_def invalidation_cursor_def split: prod.splits)
  have "\<exists>c'. clock_delete_many [[107], []] (make_clock demo_tagged) = (Inl KeyLength, c') \<and>
      invalidation_cursor c' = invalidation_cursor (make_clock demo_tagged) \<and>
      map_of (entries (backing c')) [107] = None"
    by (auto simp: make_clock_def clock_delete_many_def clocked_def invalidation_cursor_def delete_many_def
        delete_def validate_key_def case_prod_beta Let_def count_metric_def)
  moreover have "engine_reachable (backing (make_clock demo_tagged)) \<and>
      map_of (entries (backing (make_clock demo_tagged))) [107] \<noteq> None"
    by (simp add: make_clock_def demo_tagged_reachable demo_tagged_entries)
  ultimately show "\<exists>c ks c'. engine_reachable (backing c) \<and> clock_delete_many ks c = (Inl KeyLength, c') \<and>
      invalidation_cursor c' = invalidation_cursor c \<and>
      map_of (entries (backing c)) [107] \<noteq> None \<and> map_of (entries (backing c')) [107] = None"
    by blast
qed

end
