(* ===== verification/Singleflight.thy ===== *)
theory Singleflight
  imports Engine_Props
begin

text \<open>
  Concurrent loading: \<open>CacheEngine.get_or_load\<close> and \<open>CacheEngine.coordinate\<close>
  (\<open>src/src/megacache/engine.py\<close>). A flight is the object that the first caller of a key (its
  leader) shares with later callers (its followers). Each critical section of the code, and
  each stretch between two of them, is one atomic step of one thread, so a run of the step
  relation is an interleaving of any number of callers.

  The flights themselves are an abstract machine (\<open>flight_step\<close>), whose invariant is proved
  once; the two methods are refined into it.
\<close>

section \<open>Flights\<close>

datatype load_error = FromEngine engine_error | FromLoader pystr | AssertionFailed

record 'a flight =
  fl_result :: "'a option"
  fl_error :: "load_error option"
  fl_event :: bool

definition new_flight :: "'a flight" where
  "new_flight = \<lparr>fl_result = None, fl_error = None, fl_event = False\<rparr>"

text \<open>The dictionary of open flights, and the flight objects that threads still refer to.\<close>

record 'a flights =
  fl_open :: "pystr \<rightharpoonup> nat"
  fl_obj :: "nat \<Rightarrow> 'a flight"
  fl_next :: nat

definition join_flight :: "pystr \<Rightarrow> 'a flights \<Rightarrow> bool \<times> nat \<times> 'a flights" where
  "join_flight key fs =
     (case fl_open fs key of
        Some f \<Rightarrow> (False, f, fs)
      | None \<Rightarrow> (True, fl_next fs,
          fs\<lparr>fl_open := (fl_open fs)(key \<mapsto> fl_next fs),
             fl_obj := (fl_obj fs)(fl_next fs := new_flight),
             fl_next := Suc (fl_next fs)\<rparr>))"

definition settle_flight :: "nat \<Rightarrow> load_error + 'a \<Rightarrow> 'a flights \<Rightarrow> 'a flights" where
  "settle_flight f r fs =
     fs\<lparr>fl_obj := (fl_obj fs)(f := (case r of
          Inl e \<Rightarrow> (fl_obj fs f)\<lparr>fl_error := Some e\<rparr>
        | Inr a \<Rightarrow> (fl_obj fs f)\<lparr>fl_result := Some a\<rparr>))\<rparr>"

definition close_flight :: "pystr \<Rightarrow> nat \<Rightarrow> 'a flights \<Rightarrow> 'a flights" where
  "close_flight key f fs =
     fs\<lparr>fl_open := (fl_open fs)(key := None),
        fl_obj := (fl_obj fs)(f := (fl_obj fs f)\<lparr>fl_event := True\<rparr>)\<rparr>"

definition flight_outcome :: "'a flight \<Rightarrow> load_error + 'a" where
  "flight_outcome fl =
     (case fl_error fl of Some e \<Rightarrow> Inl e
      | None \<Rightarrow> (case fl_result fl of Some a \<Rightarrow> Inr a | None \<Rightarrow> Inl AssertionFailed))"

datatype 'a phase =
    Outside
  | Leading pystr nat
  | Settled pystr nat "load_error + 'a"
  | Waiting pystr nat
  | Answered "nat option" "load_error + 'a"

record 'a flight_state =
  fs_flights :: "'a flights"
  fs_phase :: "nat \<Rightarrow> 'a phase"

inductive flight_step :: "'a flight_state \<Rightarrow> 'a flight_state \<Rightarrow> bool" where
  enter: "\<lbrakk>\<forall>k f r. ph t \<noteq> Leading k f \<and> ph t \<noteq> Settled k f r \<and> ph t \<noteq> Waiting k f;
     join_flight key fs = (leader, f, fs')\<rbrakk> \<Longrightarrow>
   flight_step \<lparr>fs_flights = fs, fs_phase = ph\<rparr>
     \<lparr>fs_flights = fs', fs_phase = ph(t := if leader then Leading key f else Waiting key f)\<rparr>"
| settle: "ph t = Leading key f \<Longrightarrow> r \<noteq> Inl AssertionFailed \<Longrightarrow>
   flight_step \<lparr>fs_flights = fs, fs_phase = ph\<rparr>
     \<lparr>fs_flights = settle_flight f r fs, fs_phase = ph(t := Settled key f r)\<rparr>"
| close: "ph t = Settled key f r \<Longrightarrow>
   flight_step \<lparr>fs_flights = fs, fs_phase = ph\<rparr>
     \<lparr>fs_flights = close_flight key f fs, fs_phase = ph(t := Answered (Some f) r)\<rparr>"
| wake: "ph t = Waiting key f \<Longrightarrow> fl_event (fl_obj fs f) \<Longrightarrow>
   flight_step \<lparr>fs_flights = fs, fs_phase = ph\<rparr>
     \<lparr>fs_flights = fs, fs_phase = ph(t := Answered (Some f) (flight_outcome (fl_obj fs f)))\<rparr>"
| direct: "\<forall>k f r. ph t \<noteq> Leading k f \<and> ph t \<noteq> Settled k f r \<and> ph t \<noteq> Waiting k f \<Longrightarrow>
   flight_step \<lparr>fs_flights = fs, fs_phase = ph\<rparr>
     \<lparr>fs_flights = fs, fs_phase = ph(t := Answered None r)\<rparr>"
| stutter: "flight_step s s"

inductive_cases flight_stepE: "flight_step s s'"

text \<open>The thread \<open>t\<close> is responsible for the open flight \<open>f\<close> of \<open>key\<close>.\<close>

fun holds :: "'a phase \<Rightarrow> pystr \<Rightarrow> nat \<Rightarrow> bool" where
  "holds (Leading k f) key g \<longleftrightarrow> k = key \<and> f = g"
| "holds (Settled k f r) key g \<longleftrightarrow> k = key \<and> f = g"
| "holds _ key g \<longleftrightarrow> False"

definition flight_inv :: "'a flight_state \<Rightarrow> bool" where
  "flight_inv s \<longleftrightarrow>
     (let fs = fs_flights s; ph = fs_phase s in
      (\<forall>t key f. holds (ph t) key f \<longrightarrow> fl_open fs key = Some f) \<and>
      (\<forall>key f. fl_open fs key = Some f \<longrightarrow> (\<exists>t. holds (ph t) key f)) \<and>
      (\<forall>t t' key f key'. holds (ph t) key f \<longrightarrow> holds (ph t') key' f \<longrightarrow> t = t') \<and>
      (\<forall>key f. fl_open fs key = Some f \<longrightarrow> f < fl_next fs \<and> \<not> fl_event (fl_obj fs f)) \<and>
      (\<forall>t key f. ph t = Leading key f \<longrightarrow>
          fl_result (fl_obj fs f) = None \<and> fl_error (fl_obj fs f) = None) \<and>
      (\<forall>t key f r. ph t = Settled key f r \<longrightarrow>
          flight_outcome (fl_obj fs f) = r \<and> (fl_result (fl_obj fs f) \<noteq> None \<or> fl_error (fl_obj fs f) \<noteq> None)) \<and>
      (\<forall>t key f. ph t = Waiting key f \<longrightarrow>
          f < fl_next fs \<and> (fl_open fs key = Some f \<or> fl_event (fl_obj fs f))) \<and>
      (\<forall>t f r. ph t = Answered (Some f) r \<longrightarrow>
          f < fl_next fs \<and> fl_event (fl_obj fs f) \<and> r = flight_outcome (fl_obj fs f)) \<and>
      (\<forall>f. fl_event (fl_obj fs f) \<longrightarrow>
          f < fl_next fs \<longrightarrow> fl_result (fl_obj fs f) \<noteq> None \<or> fl_error (fl_obj fs f) \<noteq> None))"


lemma holds_iff:
  "holds p key f \<longleftrightarrow> p = Leading key f \<or> (\<exists>r. p = Settled key f r)"
  by (cases p) auto

definition busy :: "'a phase \<Rightarrow> bool" where
  "busy p \<longleftrightarrow> (\<exists>k f r. p = Leading k f \<or> p = Settled k f r \<or> p = Waiting k f)"

lemma flight_invI:
  assumes "\<And>t key f. holds (ph t) key f \<Longrightarrow> fl_open fs key = Some f"
    and "\<And>t t' key key' f. holds (ph t) key f \<Longrightarrow> holds (ph t') key' f \<Longrightarrow> t = t'"
    and "\<And>key f. fl_open fs key = Some f \<Longrightarrow> f < fl_next fs \<and> \<not> fl_event (fl_obj fs f)"
    and "\<And>t key f. ph t = Leading key f \<Longrightarrow> fl_result (fl_obj fs f) = None \<and> fl_error (fl_obj fs f) = None"
    and "\<And>t key f r. ph t = Settled key f r \<Longrightarrow> flight_outcome (fl_obj fs f) = r \<and>
      (fl_result (fl_obj fs f) \<noteq> None \<or> fl_error (fl_obj fs f) \<noteq> None)"
    and "\<And>t key f. ph t = Waiting key f \<Longrightarrow> f < fl_next fs \<and> (fl_open fs key = Some f \<or> fl_event (fl_obj fs f))"
    and "\<And>t f r. ph t = Answered (Some f) r \<Longrightarrow>
      f < fl_next fs \<and> fl_event (fl_obj fs f) \<and> r = flight_outcome (fl_obj fs f)"
    and "\<And>f. fl_event (fl_obj fs f) \<Longrightarrow> f < fl_next fs \<Longrightarrow>
      fl_result (fl_obj fs f) \<noteq> None \<or> fl_error (fl_obj fs f) \<noteq> None"
    and "\<And>key f. fl_open fs key = Some f \<Longrightarrow> \<exists>t. holds (ph t) key f"
  shows "flight_inv \<lparr>fs_flights = fs, fs_phase = ph\<rparr>"
  unfolding flight_inv_def Let_def flight_state.select_convs using assms by blast

lemma flight_invD:
  assumes "flight_inv \<lparr>fs_flights = fs, fs_phase = ph\<rparr>"
  shows "holds (ph t) key f \<Longrightarrow> fl_open fs key = Some f"
    and "holds (ph t) key f \<Longrightarrow> holds (ph t') key' f \<Longrightarrow> t = t'"
    and "fl_open fs key = Some f \<Longrightarrow> f < fl_next fs \<and> \<not> fl_event (fl_obj fs f)"
    and "ph t = Leading key f \<Longrightarrow> fl_result (fl_obj fs f) = None \<and> fl_error (fl_obj fs f) = None"
    and "ph t = Settled key f r \<Longrightarrow> flight_outcome (fl_obj fs f) = r \<and>
      (fl_result (fl_obj fs f) \<noteq> None \<or> fl_error (fl_obj fs f) \<noteq> None)"
    and "ph t = Waiting key f \<Longrightarrow> f < fl_next fs \<and> (fl_open fs key = Some f \<or> fl_event (fl_obj fs f))"
    and "ph t = Answered (Some f) r \<Longrightarrow>
      f < fl_next fs \<and> fl_event (fl_obj fs f) \<and> r = flight_outcome (fl_obj fs f)"
    and "fl_event (fl_obj fs f) \<Longrightarrow> f < fl_next fs \<Longrightarrow>
      fl_result (fl_obj fs f) \<noteq> None \<or> fl_error (fl_obj fs f) \<noteq> None"
    and "fl_open fs key = Some f \<Longrightarrow> \<exists>t. holds (ph t) key f"
  using assms [unfolded flight_inv_def Let_def flight_state.select_convs] by - (elim conjE, metis)+

lemma held_old:
  assumes "flight_inv \<lparr>fs_flights = fs, fs_phase = ph\<rparr>" "holds (ph t) key f"
  shows "f < fl_next fs" "\<not> fl_event (fl_obj fs f)" "fl_open fs key = Some f"
  using flight_invD(1,3) [OF assms(1)] assms(2) by blast+

lemma inv_lead:
  assumes inv: "flight_inv \<lparr>fs_flights = fs, fs_phase = ph\<rparr>" and idle: "\<not> busy (ph t)"
    and none: "fl_open fs key = None"
  shows "flight_inv \<lparr>fs_flights = fs\<lparr>fl_open := (fl_open fs)(key \<mapsto> fl_next fs),
       fl_obj := (fl_obj fs)(fl_next fs := new_flight), fl_next := Suc (fl_next fs)\<rparr>,
     fs_phase = ph(t := Leading key (fl_next fs))\<rparr>"
proof -
  have nt: "\<not> holds (ph t) k f" for k f using idle by (auto simp: holds_iff busy_def)
  have old: "holds (ph u) k f \<Longrightarrow> f \<noteq> fl_next fs \<and> k \<noteq> key" for u k f
    using held_old [OF inv, of u k f] none by auto
  show ?thesis
  proof (rule flight_invI, goal_cases)
    case (1 u k f)
    then show ?case using flight_invD(1) [OF inv, of u k f] none by (auto split: if_splits)
  next
    case (2 u u' k k' f)
    then show ?case using flight_invD(2) [OF inv, of u k f u' k'] old [of u k f] old [of u' k' f]
      by (auto split: if_splits)
  next
    case (3 k f)
    then show ?case using flight_invD(3) [OF inv, of k f] by (auto simp: new_flight_def split: if_splits)
  next
    case (4 u k f)
    then show ?case using flight_invD(4) [OF inv, of u k f] by (auto simp: new_flight_def split: if_splits)
  next
    case (5 u k f r)
    then show ?case using flight_invD(5) [OF inv, of u k f r] old [of u k f] by (auto split: if_splits)
  next
    case (6 u k f)
    then show ?case using flight_invD(6) [OF inv, of u k f] none by (auto split: if_splits)
  next
    case (7 u f r)
    then show ?case using flight_invD(7) [OF inv, of u f r] by (auto split: if_splits)
  next
    case (8 f)
    then show ?case using flight_invD(8) [OF inv, of f] by (auto simp: new_flight_def split: if_splits)
  next
    case (9 k f)
    then show ?case using flight_invD(9) [OF inv, of k f] nt by (auto split: if_splits) (metis fun_upd_other)
  qed
qed

text \<open>A thread that is not responsible for a flight may change its phase freely.\<close>

lemma inv_phase:
  assumes inv: "flight_inv \<lparr>fs_flights = fs, fs_phase = ph\<rparr>"
    and t: "\<And>k f. \<not> holds (ph t) k f" and p: "\<And>k f. \<not> holds p k f"
    and w: "\<And>k f. p = Waiting k f \<Longrightarrow> fl_open fs k = Some f"
    and a: "\<And>f r. p = Answered (Some f) r \<Longrightarrow>
      f < fl_next fs \<and> fl_event (fl_obj fs f) \<and> r = flight_outcome (fl_obj fs f)"
  shows "flight_inv \<lparr>fs_flights = fs, fs_phase = ph(t := p)\<rparr>"
proof (rule flight_invI, goal_cases)
  case (1 u k f)
  then show ?case using flight_invD(1) [OF inv, of u k f] p by (auto split: if_splits)
next
  case (2 u u' k k' f)
  then show ?case using flight_invD(2) [OF inv, of u k f u' k'] p by (auto split: if_splits)
next
  case (3 k f)
  then show ?case using flight_invD(3) [OF inv, of k f] by blast
next
  case (4 u k f)
  then show ?case using flight_invD(4) [OF inv, of u k f] p [of k f] by (auto split: if_splits)
next
  case (5 u k f r)
  then show ?case using flight_invD(5) [OF inv, of u k f r] p [of k f] by (auto split: if_splits)
next
  case (6 u k f)
  then show ?case using flight_invD(6) [OF inv, of u k f] flight_invD(3) [OF inv, of k f] w
    by (auto split: if_splits)
next
  case (7 u f r)
  then show ?case using flight_invD(7) [OF inv, of u f r] a by (auto split: if_splits)
next
  case (8 f)
  then show ?case using flight_invD(8) [OF inv, of f] by blast
next
  case (9 k f)
  then show ?case using flight_invD(9) [OF inv, of k f] t by (metis fun_upd_other)
qed

lemma inv_settle:
  assumes inv: "flight_inv \<lparr>fs_flights = fs, fs_phase = ph\<rparr>" and t: "ph t = Leading key f"
  shows "flight_inv \<lparr>fs_flights = settle_flight f r fs, fs_phase = ph(t := Settled key f r)\<rparr>"
proof -
  have own: "u = t" if "holds (ph u) k f" for u k using flight_invD(2) [OF inv, of t key f u k] t that by simp
  note old = held_old [OF inv, of t key f]
  have e [simp]: "fl_event (fl_obj (settle_flight f r fs) g) = fl_event (fl_obj fs g)"
      "fl_open (settle_flight f r fs) = fl_open fs" "fl_next (settle_flight f r fs) = fl_next fs"
      "g \<noteq> f \<Longrightarrow> fl_obj (settle_flight f r fs) g = fl_obj fs g" for g
    by (auto simp: settle_flight_def split: sum.splits)
  have o: "flight_outcome (fl_obj (settle_flight f r fs) f) = r \<and>
      (fl_result (fl_obj (settle_flight f r fs) f) \<noteq> None \<or> fl_error (fl_obj (settle_flight f r fs) f) \<noteq> None)"
    using flight_invD(4) [OF inv t] by (auto simp: settle_flight_def flight_outcome_def split: sum.splits)
  show ?thesis
  proof (rule flight_invI, goal_cases)
    case (1 u k g)
    then show ?case using flight_invD(1) [OF inv, of u k g] flight_invD(1) [OF inv, of t key f] t
      by (auto split: if_splits)
  next
    case (2 u u' k k' g)
    then show ?case using flight_invD(2) [OF inv, of u k g u' k'] own t by (auto split: if_splits)
  next
    case (3 k g)
    then show ?case using flight_invD(3) [OF inv, of k g] by simp
  next
    case (4 u k g)
    then show ?case using flight_invD(4) [OF inv, of u k g] own [of u k] by (cases "g = f") (auto split: if_splits)
  next
    case (5 u k g q)
    then show ?case using flight_invD(5) [OF inv, of u k g q] own [of u k] o by (cases "g = f") (auto split: if_splits)
  next
    case (6 u k g)
    then show ?case using flight_invD(6) [OF inv, of u k g] by (auto split: if_splits)
  next
    case (7 u g q)
    then show ?case using flight_invD(7) [OF inv, of u g q] old t by (cases "g = f") (auto split: if_splits)
  next
    case (8 g)
    then show ?case using flight_invD(8) [OF inv, of g] old t by (cases "g = f") auto
  next
    case (9 k g)
    then obtain u where u: "holds (ph u) k g" using flight_invD(9) [OF inv, of k g] by auto
    show ?case
    proof (cases "u = t")
      case True
      then show ?thesis using u t by (intro exI [of _ t]) auto
    qed (use u in \<open>auto intro!: exI [of _ u]\<close>)
  qed
qed

lemma inv_close:
  assumes inv: "flight_inv \<lparr>fs_flights = fs, fs_phase = ph\<rparr>" and t: "ph t = Settled key f r"
  shows "flight_inv \<lparr>fs_flights = close_flight key f fs, fs_phase = ph(t := Answered (Some f) r)\<rparr>"
proof -
  have own: "u = t" if "holds (ph u) k f" for u k using flight_invD(2) [OF inv, of t key f u k] t that by simp
  note old = held_old [OF inv, of t key f]
  have key: "u = t" if "holds (ph u) key g" for u g
    using flight_invD(1) [OF inv that] old(3) t own that by auto
  have e [simp]: "fl_result (fl_obj (close_flight key f fs) g) = fl_result (fl_obj fs g)"
      "fl_error (fl_obj (close_flight key f fs) g) = fl_error (fl_obj fs g)"
      "flight_outcome (fl_obj (close_flight key f fs) g) = flight_outcome (fl_obj fs g)"
      "fl_open (close_flight key f fs) = (fl_open fs)(key := None)" "fl_next (close_flight key f fs) = fl_next fs"
      "fl_event (fl_obj (close_flight key f fs) g) \<longleftrightarrow> g = f \<or> fl_event (fl_obj fs g)" for g
    by (auto simp: close_flight_def flight_outcome_def split: option.splits)
  show ?thesis
  proof (rule flight_invI, goal_cases)
    case (1 u k g)
    then show ?case using flight_invD(1) [OF inv, of u k g] key [of u g] by (auto split: if_splits)
  next
    case (2 u u' k k' g)
    then show ?case using flight_invD(2) [OF inv, of u k g u' k'] by (auto split: if_splits)
  next
    case (3 k g)
    then show ?case using flight_invD(3) [OF inv, of k g] flight_invD(9) [OF inv, of k g] own t
      by (auto split: if_splits)
  next
    case (4 u k g)
    then show ?case using flight_invD(4) [OF inv, of u k g] by (auto split: if_splits)
  next
    case (5 u k g q)
    then show ?case using flight_invD(5) [OF inv, of u k g q] by (auto split: if_splits)
  next
    case (6 u k g)
    then show ?case using flight_invD(6) [OF inv, of u k g] old(3) t by (auto split: if_splits)
  next
    case (7 u g q)
    then show ?case using flight_invD(7) [OF inv, of u g q] flight_invD(5) [OF inv t] old t by (auto split: if_splits)
  next
    case (8 g)
    then show ?case using flight_invD(8) [OF inv, of g] flight_invD(5) [OF inv t] by auto
  next
    case (9 k g)
    then obtain u where u: "holds (ph u) k g" "k \<noteq> key" using flight_invD(9) [OF inv, of k g] by (auto split: if_splits)
    then have "u \<noteq> t" using t by auto
    with u show ?case by (auto intro!: exI [of _ u])
  qed
qed

lemma flight_step_inv: "flight_step s s' \<Longrightarrow> flight_inv s \<Longrightarrow> flight_inv s'"
proof (induction rule: flight_step.induct)
  case (enter ph t key fs leader f fs')
  then have nt: "\<not> busy (ph t)" by (auto simp: busy_def)
  show ?case
  proof (cases "fl_open fs key")
    case None
    with enter inv_lead [OF enter(3) nt None] show ?thesis by (auto simp: join_flight_def)
  next
    case (Some g)
    have "\<not> holds (ph t) k f" for k f using enter(1) by (auto simp: holds_iff)
    with enter Some inv_phase [OF enter(3), of t "Waiting key g"] show ?thesis
      by (auto simp: join_flight_def)
  qed
next
  case (settle ph t key f fs r)
  then show ?case by (intro inv_settle)
next
  case (close ph t key f r fs)
  then show ?case by (intro inv_close)
next
  case (wake ph t key f fs)
  then show ?case using flight_invD(6) [OF wake(3,1)] by (intro inv_phase) auto
next
  case (direct ph t fs r)
  then show ?case by (intro inv_phase) (auto simp: holds_iff)
qed

text \<open>No flight carries a failed assertion, so no answer does.\<close>

definition flight_clean :: "'a flight_state \<Rightarrow> bool" where
  "flight_clean s \<longleftrightarrow> (\<forall>f. fl_error (fl_obj (fs_flights s) f) \<noteq> Some AssertionFailed)"

lemma flight_step_clean: "flight_step s s' \<Longrightarrow> flight_clean s \<Longrightarrow> flight_clean s'"
  by (induction rule: flight_step.induct)
    (auto simp: flight_clean_def join_flight_def settle_flight_def close_flight_def new_flight_def
      split: option.splits sum.splits)

lemma outcome_clean:
  assumes "flight_clean s" "flight_inv s" "fs_phase s t = Answered (Some f) r"
  shows "r \<noteq> Inl AssertionFailed"
proof -
  obtain fs ph where s: "s = \<lparr>fs_flights = fs, fs_phase = ph\<rparr>" by (cases s) simp
  have "f < fl_next fs" "fl_event (fl_obj fs f)" "r = flight_outcome (fl_obj fs f)"
    using flight_invD(7) [OF assms(2) [unfolded s], of t f r] assms(3) s by simp_all
  moreover from this have "fl_result (fl_obj fs f) \<noteq> None \<or> fl_error (fl_obj fs f) \<noteq> None"
    using flight_invD(8) [OF assms(2) [unfolded s]] by simp
  ultimately show ?thesis using assms(1) s
    by (auto simp: flight_outcome_def flight_clean_def split: option.splits)
qed

text \<open>
  The contract of a method that shares work through flights: each of its steps is a step of
  the flights machine. What follows from it is proved here once.
\<close>

locale single_flight =
  fixes init :: "'s \<Rightarrow> bool" and step :: "'s \<Rightarrow> 's \<Rightarrow> bool" and abs :: "'s \<Rightarrow> 'a flight_state"
  assumes init_ok: "init s \<Longrightarrow> flight_inv (abs s) \<and> flight_clean (abs s)"
    and refines: "step s s' \<Longrightarrow> flight_step (abs s) (abs s')"
begin

lemma run_inv: "step\<^sup>*\<^sup>* s s' \<Longrightarrow> init s \<Longrightarrow> flight_inv (abs s') \<and> flight_clean (abs s')"
  by (induction rule: rtranclp_induct)
    (use init_ok refines flight_step_inv flight_step_clean in blast)+

lemma unique_leader:
  assumes "init s" "step\<^sup>*\<^sup>* s s'" "holds (fs_phase (abs s') t) key f" "holds (fs_phase (abs s') t') key f'"
  shows "t = t'"
proof -
  obtain fs ph where a: "abs s' = \<lparr>fs_flights = fs, fs_phase = ph\<rparr>" by (cases "abs s'") simp
  then have inv: "flight_inv \<lparr>fs_flights = fs, fs_phase = ph\<rparr>" using run_inv [OF assms(2,1)] by simp
  have "fl_open fs key = Some f" "fl_open fs key = Some f'"
    using flight_invD(1) [OF inv, of t key f] flight_invD(1) [OF inv, of t' key f'] assms(3,4) a by simp_all
  then show ?thesis using flight_invD(2) [OF inv, of t key f t' key] assms(3,4) a by simp
qed

lemma shared_answer:
  assumes "init s" "step\<^sup>*\<^sup>* s s'" "fs_phase (abs s') t = Answered (Some f) r"
    and "fs_phase (abs s') t' = Answered (Some f) r'"
  shows "r = r' \<and> r \<noteq> Inl AssertionFailed"
proof -
  obtain fs ph where a: "abs s' = \<lparr>fs_flights = fs, fs_phase = ph\<rparr>" by (cases "abs s'") simp
  then have inv: "flight_inv \<lparr>fs_flights = fs, fs_phase = ph\<rparr>" using run_inv [OF assms(2,1)] by simp
  have "r = r'" using flight_invD(7) [OF inv, of t f r] flight_invD(7) [OF inv, of t' f r'] assms(3,4) a by simp
  then show ?thesis using outcome_clean [OF _ _ assms(3)] run_inv [OF assms(2,1)] by simp
qed

lemma waiting_supported:
  assumes "init s" "step\<^sup>*\<^sup>* s s'" "fs_phase (abs s') t = Waiting key f"
  shows "fl_event (fl_obj (fs_flights (abs s')) f) \<or> (\<exists>t'. t' \<noteq> t \<and> holds (fs_phase (abs s') t') key f)"
proof -
  obtain fs ph where a: "abs s' = \<lparr>fs_flights = fs, fs_phase = ph\<rparr>" by (cases "abs s'") simp
  then have inv: "flight_inv \<lparr>fs_flights = fs, fs_phase = ph\<rparr>" using run_inv [OF assms(2,1)] by simp
  from flight_invD(6) [OF inv, of t key f] assms(3) a have "fl_open fs key = Some f \<or> fl_event (fl_obj fs f)" by simp
  then show ?thesis
  proof
    assume "fl_open fs key = Some f"
    then obtain t' where "holds (ph t') key f" using flight_invD(9) [OF inv] by blast
    moreover from this have "t' \<noteq> t" using assms(3) a by auto
    ultimately show ?thesis using a by auto
  qed (simp add: a)
qed

end

section \<open>get-or-load\<close>

record load_args =
  la_ttl :: pyval
  la_stale :: pyval
  la_tags :: pyval

text \<open>
  Where a caller stands: not called, about to run its loader, holding the loaded value,
  before the \<open>finally\<close> block, waiting for the event, or back with an answer (and the flight that
  gave it, if any).
\<close>

datatype caller =
    NotCalled
  | Loading pystr nat load_args
  | Storing pystr nat load_args pyval
  | Finally pystr nat "load_error + cache_result"
  | Awaiting pystr nat
  | Returned "nat option" "load_error + cache_result"

record loader_state =
  ls_engine :: engine
  ls_flights :: "cache_result flights"
  ls_callers :: "nat \<Rightarrow> caller"

fun at_rest :: "caller \<Rightarrow> bool" where
  "at_rest NotCalled = True"
| "at_rest (Returned _ _) = True"
| "at_rest _ = False"

text \<open>From the call to the end of the first critical section.\<close>

definition gl_enter :: "nat \<Rightarrow> pystr \<Rightarrow> load_args \<Rightarrow> loader_state \<Rightarrow> loader_state" where
  "gl_enter t key args s =
     (let back = (\<lambda>c. (ls_callers s)(t := c)) in
      case validate_key key of
        Inl e \<Rightarrow> s\<lparr>ls_callers := back (Returned None (Inl (FromEngine e)))\<rparr>
      | Inr _ \<Rightarrow>
          (let (cached, e1) = lookup key True (ls_engine s) in
           if state cached \<noteq> Miss then
             s\<lparr>ls_engine := e1, ls_callers := back (Returned None (Inr cached))\<rparr>
           else
             (let (leader, f, fs) = join_flight key (ls_flights s)
              in s\<lparr>ls_engine := (if leader then e1 else count_metric ''coalesced_total'' e1),
                   ls_flights := fs,
                   ls_callers := back (if leader then Loading key f args else Awaiting key f)\<rparr>)))"

text \<open>The loader returns or raises, outside every lock.\<close>

definition gl_loaded :: "nat \<Rightarrow> pystr + pyval \<Rightarrow> loader_state \<Rightarrow> loader_state" where
  "gl_loaded t r s =
     (case ls_callers s t of
        Loading key f args \<Rightarrow>
          (case r of
             Inr v \<Rightarrow> s\<lparr>ls_callers := (ls_callers s)(t := Storing key f args v)\<rparr>
           | Inl x \<Rightarrow>
               s\<lparr>ls_engine := count_metric ''load_errors_total'' (ls_engine s),
                 ls_flights := settle_flight f (Inl (FromLoader x)) (ls_flights s),
                 ls_callers := (ls_callers s)(t := Finally key f (Inl (FromLoader x)))\<rparr>)
      | _ \<Rightarrow> s)"

definition gl_store :: "nat \<Rightarrow> loader_state \<Rightarrow> loader_state" where
  "gl_store t s =
     (case ls_callers s t of
        Storing key f args v \<Rightarrow>
          (case put key v (la_ttl args) (la_stale args) (la_tags args) None False (ls_engine s) of
             (Inr r, e1) \<Rightarrow>
               s\<lparr>ls_engine := e1, ls_flights := settle_flight f (Inr r) (ls_flights s),
                 ls_callers := (ls_callers s)(t := Finally key f (Inr r))\<rparr>
           | (Inl x, e1) \<Rightarrow>
               s\<lparr>ls_engine := count_metric ''load_errors_total'' e1,
                 ls_flights := settle_flight f (Inl (FromEngine x)) (ls_flights s),
                 ls_callers := (ls_callers s)(t := Finally key f (Inl (FromEngine x)))\<rparr>)
      | _ \<Rightarrow> s)"

definition gl_finally :: "nat \<Rightarrow> loader_state \<Rightarrow> loader_state" where
  "gl_finally t s =
     (case ls_callers s t of
        Finally key f r \<Rightarrow>
          s\<lparr>ls_flights := close_flight key f (ls_flights s),
            ls_callers := (ls_callers s)(t := Returned (Some f) r)\<rparr>
      | _ \<Rightarrow> s)"

text \<open>\<open>flight.event.wait()\<close> blocks until the event is set.\<close>

definition gl_wake :: "nat \<Rightarrow> loader_state \<Rightarrow> loader_state" where
  "gl_wake t s =
     (case ls_callers s t of
        Awaiting key f \<Rightarrow>
          (if fl_event (fl_obj (ls_flights s) f)
           then s\<lparr>ls_callers := (ls_callers s)(t := Returned (Some f)
                    (flight_outcome (fl_obj (ls_flights s) f)))\<rparr>
           else s)
      | _ \<Rightarrow> s)"

inductive gl_step :: "loader_state \<Rightarrow> loader_state \<Rightarrow> bool" where
  gl_enter: "at_rest (ls_callers s t) \<Longrightarrow> gl_step s (gl_enter t key args s)"
| gl_loaded: "gl_step s (gl_loaded t r s)"
| gl_store: "gl_step s (gl_store t s)"
| gl_finally: "gl_step s (gl_finally t s)"
| gl_wake: "gl_step s (gl_wake t s)"
| gl_engine: "engine_step (ls_engine s) e \<Longrightarrow> gl_step s (s\<lparr>ls_engine := e\<rparr>)"

definition no_flights :: "'a flights" where
  "no_flights = \<lparr>fl_open = Map.empty, fl_obj = (\<lambda>_. new_flight), fl_next = 0\<rparr>"

definition gl_init :: "loader_state \<Rightarrow> bool" where
  "gl_init s \<longleftrightarrow> engine_reachable (ls_engine s) \<and> ls_flights s = no_flights \<and> ls_callers s = (\<lambda>_. NotCalled)"

text \<open>The refinement: what the machine of flights sees of a caller.\<close>

fun phase_of :: "caller \<Rightarrow> cache_result phase" where
  "phase_of NotCalled = Outside"
| "phase_of (Loading k f _) = Leading k f"
| "phase_of (Storing k f _ _) = Leading k f"
| "phase_of (Finally k f r) = Settled k f r"
| "phase_of (Awaiting k f) = Waiting k f"
| "phase_of (Returned f r) = Answered f r"

definition gl_abs :: "loader_state \<Rightarrow> cache_result flight_state" where
  "gl_abs s = \<lparr>fs_flights = ls_flights s, fs_phase = phase_of \<circ> ls_callers s\<rparr>"

lemma phase_upd: "phase_of \<circ> c(t := x) = (phase_of \<circ> c)(t := phase_of x)"
  by auto

lemma at_rest_phase:
  "at_rest c \<Longrightarrow> phase_of c \<noteq> Leading k f \<and> phase_of c \<noteq> Settled k f r \<and> phase_of c \<noteq> Waiting k f"
  by (cases c) auto

lemma gl_enter_refines:
  assumes "at_rest (ls_callers s t)"
  shows "flight_step (gl_abs s) (gl_abs (gl_enter t key args s))"
proof -
  note rest = at_rest_phase [OF assms]
  show ?thesis
    using flight_step.direct [of "phase_of \<circ> ls_callers s" t "ls_flights s"] rest
      flight_step.enter [of "phase_of \<circ> ls_callers s" t key "ls_flights s"]
    by (auto simp: gl_enter_def gl_abs_def Let_def phase_upd split: sum.splits prod.splits)
qed

lemma gl_refines: "gl_step s s' \<Longrightarrow> flight_step (gl_abs s) (gl_abs s')"
proof (induction rule: gl_step.induct)
  case (gl_enter s t key args)
  then show ?case by (rule gl_enter_refines)
next
  case (gl_loaded s t r)
  show ?case
    using flight_step.settle [of "phase_of \<circ> ls_callers s" t] flight_step.stutter
    by (cases "ls_callers s t"; cases r) (auto simp: gl_loaded_def gl_abs_def phase_upd fun_upd_idem)
next
  case (gl_store s t)
  show ?case
    using flight_step.settle [of "phase_of \<circ> ls_callers s" t] flight_step.stutter
    by (cases "ls_callers s t") (auto simp: gl_store_def gl_abs_def phase_upd split: prod.splits sum.splits)
next
  case (gl_finally s t)
  show ?case
    using flight_step.close [of "phase_of \<circ> ls_callers s" t] flight_step.stutter
    by (cases "ls_callers s t") (auto simp: gl_finally_def gl_abs_def phase_upd)
next
  case (gl_wake s t)
  show ?case
    using flight_step.wake [of "phase_of \<circ> ls_callers s" t] flight_step.stutter
    by (cases "ls_callers s t") (auto simp: gl_wake_def gl_abs_def phase_upd)
next
  case (gl_engine s e)
  then show ?case by (simp add: gl_abs_def flight_step.stutter)
qed

lemma abs_no_flights: "flight_inv \<lparr>fs_flights = no_flights, fs_phase = (\<lambda>_. Outside)\<rparr>"
  "flight_clean \<lparr>fs_flights = no_flights, fs_phase = (\<lambda>_. Outside)\<rparr>"
  by (simp_all add: flight_inv_def flight_clean_def no_flights_def new_flight_def)

interpretation gl: single_flight gl_init gl_step gl_abs
proof unfold_locales
  fix s s'
  show "gl_init s \<Longrightarrow> flight_inv (gl_abs s) \<and> flight_clean (gl_abs s)"
    using abs_no_flights by (simp add: gl_init_def gl_abs_def comp_def)
  show "gl_step s s' \<Longrightarrow> flight_step (gl_abs s) (gl_abs s')" by (rule gl_refines)
qed

section \<open>Coordination\<close>

text \<open>\<open>coordinate\<close> shares one run of an arbitrary operation; nothing is cached.\<close>

datatype co_caller =
    CoNotCalled
  | CoRunning pystr nat
  | CoFinally pystr nat "load_error + pyval"
  | CoAwaiting pystr nat
  | CoReturned "nat option" "load_error + pyval"

record co_state =
  co_engine :: engine
  co_flights :: "pyval flights"
  co_callers :: "nat \<Rightarrow> co_caller"

fun co_rest :: "co_caller \<Rightarrow> bool" where
  "co_rest CoNotCalled = True"
| "co_rest (CoReturned _ _) = True"
| "co_rest _ = False"

definition co_enter :: "nat \<Rightarrow> pystr \<Rightarrow> co_state \<Rightarrow> co_state" where
  "co_enter t key s =
     (let back = (\<lambda>c. (co_callers s)(t := c)) in
      case validate_key key of
        Inl e \<Rightarrow> s\<lparr>co_callers := back (CoReturned None (Inl (FromEngine e)))\<rparr>
      | Inr _ \<Rightarrow>
          (let (leader, f, fs) = join_flight key (co_flights s)
           in s\<lparr>co_engine := (if leader then co_engine s else count_metric ''coalesced_total'' (co_engine s)),
                co_flights := fs,
                co_callers := back (if leader then CoRunning key f else CoAwaiting key f)\<rparr>))"

definition co_ran :: "nat \<Rightarrow> pystr + pyval \<Rightarrow> co_state \<Rightarrow> co_state" where
  "co_ran t r s =
     (case co_callers s t of
        CoRunning key f \<Rightarrow>
          (let out = (case r of Inl x \<Rightarrow> Inl (FromLoader x) | Inr v \<Rightarrow> Inr v)
           in s\<lparr>co_flights := settle_flight f out (co_flights s),
                co_callers := (co_callers s)(t := CoFinally key f out)\<rparr>)
      | _ \<Rightarrow> s)"

definition co_finally :: "nat \<Rightarrow> co_state \<Rightarrow> co_state" where
  "co_finally t s =
     (case co_callers s t of
        CoFinally key f r \<Rightarrow>
          s\<lparr>co_flights := close_flight key f (co_flights s),
            co_callers := (co_callers s)(t := CoReturned (Some f) r)\<rparr>
      | _ \<Rightarrow> s)"

definition co_wake :: "nat \<Rightarrow> co_state \<Rightarrow> co_state" where
  "co_wake t s =
     (case co_callers s t of
        CoAwaiting key f \<Rightarrow>
          (if fl_event (fl_obj (co_flights s) f)
           then s\<lparr>co_callers := (co_callers s)(t := CoReturned (Some f)
                    (flight_outcome (fl_obj (co_flights s) f)))\<rparr>
           else s)
      | _ \<Rightarrow> s)"

inductive co_step :: "co_state \<Rightarrow> co_state \<Rightarrow> bool" where
  co_enter: "co_rest (co_callers s t) \<Longrightarrow> co_step s (co_enter t key s)"
| co_ran: "co_step s (co_ran t r s)"
| co_finally: "co_step s (co_finally t s)"
| co_wake: "co_step s (co_wake t s)"
| co_engine: "engine_step (co_engine s) e \<Longrightarrow> co_step s (s\<lparr>co_engine := e\<rparr>)"

definition co_init :: "co_state \<Rightarrow> bool" where
  "co_init s \<longleftrightarrow> engine_reachable (co_engine s) \<and> co_flights s = no_flights \<and> co_callers s = (\<lambda>_. CoNotCalled)"

fun co_phase_of :: "co_caller \<Rightarrow> pyval phase" where
  "co_phase_of CoNotCalled = Outside"
| "co_phase_of (CoRunning k f) = Leading k f"
| "co_phase_of (CoFinally k f r) = Settled k f r"
| "co_phase_of (CoAwaiting k f) = Waiting k f"
| "co_phase_of (CoReturned f r) = Answered f r"

definition co_abs :: "co_state \<Rightarrow> pyval flight_state" where
  "co_abs s = \<lparr>fs_flights = co_flights s, fs_phase = co_phase_of \<circ> co_callers s\<rparr>"

lemma co_phase_upd: "co_phase_of \<circ> c(t := x) = (co_phase_of \<circ> c)(t := co_phase_of x)"
  by auto

lemma co_rest_phase:
  "co_rest c \<Longrightarrow> co_phase_of c \<noteq> Leading k f \<and> co_phase_of c \<noteq> Settled k f r \<and> co_phase_of c \<noteq> Waiting k f"
  by (cases c) auto

lemma co_refines: "co_step s s' \<Longrightarrow> flight_step (co_abs s) (co_abs s')"
proof (induction rule: co_step.induct)
  case (co_enter s t key)
  note rest = co_rest_phase [OF co_enter]
  show ?case
    using flight_step.direct [of "co_phase_of \<circ> co_callers s" t "co_flights s"] rest
      flight_step.enter [of "co_phase_of \<circ> co_callers s" t key "co_flights s"]
    by (auto simp: co_enter_def co_abs_def Let_def co_phase_upd split: sum.splits prod.splits)
next
  case (co_ran s t r)
  show ?case
    using flight_step.settle [of "co_phase_of \<circ> co_callers s" t] flight_step.stutter
    by (cases "co_callers s t"; cases r) (auto simp: co_ran_def co_abs_def co_phase_upd Let_def)
next
  case (co_finally s t)
  show ?case
    using flight_step.close [of "co_phase_of \<circ> co_callers s" t] flight_step.stutter
    by (cases "co_callers s t") (auto simp: co_finally_def co_abs_def co_phase_upd)
next
  case (co_wake s t)
  show ?case
    using flight_step.wake [of "co_phase_of \<circ> co_callers s" t] flight_step.stutter
    by (cases "co_callers s t") (auto simp: co_wake_def co_abs_def co_phase_upd)
next
  case (co_engine s e)
  then show ?case by (simp add: co_abs_def flight_step.stutter)
qed

interpretation co: single_flight co_init co_step co_abs
proof unfold_locales
  fix s s'
  show "co_init s \<Longrightarrow> flight_inv (co_abs s) \<and> flight_clean (co_abs s)"
    using abs_no_flights by (simp add: co_init_def co_abs_def comp_def)
  show "co_step s s' \<Longrightarrow> flight_step (co_abs s) (co_abs s')" by (rule co_refines)
qed

section \<open>Properties\<close>

fun working_on :: "caller \<Rightarrow> pystr option" where
  "working_on (Loading k _ _) = Some k"
| "working_on (Storing k _ _ _) = Some k"
| "working_on (Finally k _ _) = Some k"
| "working_on _ = None"

lemma working_holds: "working_on c = Some k \<longleftrightarrow> (\<exists>f. holds (phase_of c) k f)"
  by (cases c) auto

text \<open>
  C10. Single flight: in every interleaving of any number of \<open>get_or_load\<close> calls with each other
  and with other engine calls, at most one caller at a time runs a loader for a given key or
  stores its result.
\<close>

theorem one_loader_per_key:
  assumes "gl_init s" "gl_step\<^sup>*\<^sup>* s s'"
    and "working_on (ls_callers s' t) = Some key" "working_on (ls_callers s' t') = Some key"
  shows "t = t'"
  using assms(3,4) gl.unique_leader [OF assms(1,2), of t key _ t']
  by (auto simp: working_holds gl_abs_def)

text \<open>
  Followers get the leader's answer: all callers served by one flight, its leader included,
  return the same result or raise the same error, and the assertion that a woken follower
  finds a result never fails.
\<close>

theorem flight_answers_agree:
  assumes "gl_init s" "gl_step\<^sup>*\<^sup>* s s'"
    and "ls_callers s' t = Returned (Some f) r" "ls_callers s' t' = Returned (Some f) r'"
  shows "r = r' \<and> r \<noteq> Inl AssertionFailed"
  using gl.shared_answer [OF assms(1,2), of t f r t' r'] assms(3,4) by (auto simp: gl_abs_def)

text \<open>
  The same holds for \<open>coordinate\<close>: one run per key at a time, and one answer per flight.
\<close>

theorem coordinate_single_run:
  assumes "co_init s" "co_step\<^sup>*\<^sup>* s s'"
  shows "(co_callers s' t = CoRunning key f \<longrightarrow> co_callers s' t' = CoRunning key f' \<longrightarrow> t = t') \<and>
     (co_callers s' t = CoReturned (Some g) r \<longrightarrow> co_callers s' t' = CoReturned (Some g) r' \<longrightarrow>
        r = r' \<and> r \<noteq> Inl AssertionFailed)"
  using co.unique_leader [OF assms, of t key f t' f'] co.shared_answer [OF assms, of t g r t' r']
  by (auto simp: co_abs_def)

lemma gl_leader_finishes:
  assumes "phase_of (ls_callers s t) = Leading key f \<or> (\<exists>r. phase_of (ls_callers s t) = Settled key f r)"
  shows "\<exists>s'. gl_step\<^sup>*\<^sup>* s s' \<and> fl_event (fl_obj (ls_flights s') f) \<and> (\<forall>u. u \<noteq> t \<longrightarrow> ls_callers s' u = ls_callers s u)"
proof -
  have fin: "\<exists>s'. gl_step\<^sup>*\<^sup>* s s' \<and> fl_event (fl_obj (ls_flights s') f) \<and> (\<forall>u. u \<noteq> t \<longrightarrow> ls_callers s' u = ls_callers s u)"
    if "ls_callers s t = Finally key f r" for s r
    using that gl_step.gl_finally [of s t]
    by (intro exI [of _ "gl_finally t s"]) (auto simp: gl_finally_def close_flight_def)
  have sto: "\<exists>s'. gl_step\<^sup>*\<^sup>* s s' \<and> fl_event (fl_obj (ls_flights s') f) \<and> (\<forall>u. u \<noteq> t \<longrightarrow> ls_callers s' u = ls_callers s u)"
    if "ls_callers s t = Storing key f a v" for s a v
  proof -
    let ?s = "gl_store t s"
    have "\<exists>r. ls_callers ?s t = Finally key f r" "\<forall>u. u \<noteq> t \<longrightarrow> ls_callers ?s u = ls_callers s u"
      using that by (auto simp: gl_store_def split: prod.splits sum.splits)
    with fin [of ?s] show ?thesis using gl_step.gl_store [of s t]
      by (metis converse_rtranclp_into_rtranclp)
  qed
  show ?thesis
  proof (cases "ls_callers s t")
    case (Loading k g a)
    let ?s = "gl_loaded t (Inr PNone) s"
    have "ls_callers ?s t = Storing key f a PNone" "\<forall>u. u \<noteq> t \<longrightarrow> ls_callers ?s u = ls_callers s u"
      using Loading assms by (auto simp: gl_loaded_def)
    with sto [of ?s a PNone] show ?thesis using gl_step.gl_loaded [of s t "Inr PNone"]
      by (metis converse_rtranclp_into_rtranclp)
  qed (use assms fin sto in auto)
qed

text \<open>
  C11. No follower is stranded: from every reachable state in which a caller waits, the steps of
  its leader (once its loader comes back) set the event and the caller returns.
\<close>

theorem followers_return:
  assumes "gl_init s0" "gl_step\<^sup>*\<^sup>* s0 s" "ls_callers s t = Awaiting key f"
  shows "\<exists>s' r. gl_step\<^sup>*\<^sup>* s s' \<and> ls_callers s' t = Returned (Some f) r"
proof -
  have "\<exists>s1. gl_step\<^sup>*\<^sup>* s s1 \<and> fl_event (fl_obj (ls_flights s1) f) \<and> ls_callers s1 t = Awaiting key f"
  proof (cases "fl_event (fl_obj (ls_flights s) f)")
    case True
    then show ?thesis using assms(3) by blast
  next
    case False
    then obtain t' where "t' \<noteq> t" "holds (phase_of (ls_callers s t')) key f"
      using gl.waiting_supported [OF assms(1,2), of t key f] assms(3) by (auto simp: gl_abs_def)
    then show ?thesis using gl_leader_finishes [of s t' key f] assms(3) by (auto simp: holds_iff)
  qed
  then obtain s1 where s1: "gl_step\<^sup>*\<^sup>* s s1" "fl_event (fl_obj (ls_flights s1) f)" "ls_callers s1 t = Awaiting key f"
    by blast
  have "ls_callers (gl_wake t s1) t = Returned (Some f) (flight_outcome (fl_obj (ls_flights s1) f))"
    using s1 by (simp add: gl_wake_def)
  with s1(1) gl_step.gl_wake [of s1 t] show ?thesis by (metis rtranclp.rtrancl_into_rtrancl)
qed

section \<open>A run with two callers\<close>

definition demo_args :: load_args where
  "demo_args = \<lparr>la_ttl = PInt 60, la_stale = PInt 5, la_tags = PTuple []\<rparr>"

definition demo_load :: loader_state where
  "demo_load = \<lparr>ls_engine = demo_engine 2 2000 ''lru'', ls_flights = no_flights, ls_callers = (\<lambda>_. NotCalled)\<rparr>"

definition demo_load2 :: loader_state where
  "demo_load2 = gl_enter 1 [107] demo_args (gl_enter 0 [107] demo_args demo_load)"

lemma demo_load_init: "gl_init demo_load"
  by (simp add: gl_init_def demo_load_def demo_reachable)

lemmas load_eval = gl_enter_def join_flight_def no_flights_def demo_load_def demo_load2_def

lemma demo_load2_callers:
  "ls_callers demo_load2 0 = Loading [107] 0 demo_args" "ls_callers demo_load2 1 = Awaiting [107] 0"
  by (simp_all add: load_eval engine_eval)

lemma demo_load2_run: "gl_step\<^sup>*\<^sup>* demo_load demo_load2"
proof -
  have "gl_step demo_load (gl_enter 0 [107] demo_args demo_load)"
    by (rule gl_step.gl_enter) (simp add: demo_load_def)
  moreover have "gl_step (gl_enter 0 [107] demo_args demo_load) demo_load2"
    unfolding demo_load2_def by (rule gl_step.gl_enter) (simp add: load_eval engine_eval)
  ultimately show ?thesis by (simp add: converse_rtranclp_into_rtranclp)
qed

theorem followers_return_witness:
  "\<exists>s' r. gl_step\<^sup>*\<^sup>* demo_load2 s' \<and> ls_callers s' 1 = Returned (Some 0) r"
  by (rule followers_return [OF demo_load_init demo_load2_run demo_load2_callers(2)])

theorem one_loader_per_key_witness: "\<exists>!t. working_on (ls_callers demo_load2 t) = Some [107]"
proof (rule ex1I)
  show "working_on (ls_callers demo_load2 0) = Some [107]" by (simp add: demo_load2_callers)
  fix t
  assume "working_on (ls_callers demo_load2 t) = Some [107]"
  then show "t = 0"
    using one_loader_per_key [OF demo_load_init demo_load2_run, of t "[107]" 0] demo_load2_callers by simp
qed

definition demo_load5 :: loader_state where
  "demo_load5 = gl_wake 1 (gl_finally 0 (gl_loaded 0 (Inl [120]) demo_load2))"

lemma demo_load5_run: "gl_step\<^sup>*\<^sup>* demo_load demo_load5"
proof -
  let ?a = "gl_loaded 0 (Inl [120]) demo_load2"
  have "gl_step demo_load2 ?a" "gl_step ?a (gl_finally 0 ?a)" "gl_step (gl_finally 0 ?a) demo_load5"
    unfolding demo_load5_def by (rule gl_step.intros)+
  with demo_load2_run show ?thesis by (meson rtranclp.rtrancl_into_rtrancl)
qed

lemma demo_load5_callers: "ls_callers demo_load5 0 = Returned (Some 0) (Inl (FromLoader [120]))"
  "\<exists>r. ls_callers demo_load5 1 = Returned (Some 0) r"
  using demo_load2_callers
  by (simp_all add: demo_load5_def gl_loaded_def gl_finally_def gl_wake_def close_flight_def settle_flight_def)

theorem flight_answers_agree_witness:
  "ls_callers demo_load5 1 = Returned (Some 0) (Inl (FromLoader [120]))"
  using flight_answers_agree [OF demo_load_init demo_load5_run demo_load5_callers(1)] demo_load5_callers(2)
  by auto

definition demo_co :: co_state where
  "demo_co = \<lparr>co_engine = demo_engine 2 2000 ''lru'', co_flights = no_flights, co_callers = (\<lambda>_. CoNotCalled)\<rparr>"

definition demo_co1 :: co_state where
  "demo_co1 = co_enter 0 [107] demo_co"

theorem coordinate_single_run_witness:
  "co_callers demo_co1 0 = CoRunning [107] 0 \<and> (\<nexists>f. co_callers demo_co1 1 = CoRunning [107] f)"
proof -
  have i: "co_init demo_co" by (simp add: co_init_def demo_co_def demo_reachable)
  have "co_step demo_co demo_co1"
    unfolding demo_co1_def by (rule co_step.co_enter) (simp add: demo_co_def)
  then have r: "co_step\<^sup>*\<^sup>* demo_co demo_co1" by blast
  have "co_callers demo_co1 0 = CoRunning [107] 0"
    by (simp add: demo_co1_def co_enter_def demo_co_def join_flight_def no_flights_def validate_key_def)
  then show ?thesis using coordinate_single_run [OF i r, of 0 "[107]" 0 1] by auto
qed

end
