(* ===== verification/Digest.thy ===== *)
theory Digest
  imports Engine
begin

text \<open>
  Bytes, hashes and the error type that the cluster theories share. SHA-256 is a parameter
  \<open>sha\<close> of every definition that uses it: nothing below depends on which function it is.
\<close>

datatype cluster_error =
    BadConsistency
  | ReplicasNotPositive
  | BadNodeId
  | BadStatus
  | BadIncarnation
  | EmptyRing
  | BadVirtualNodes
  | BadRingVersion
  | EmptyKey
  | BadClusterConfig string
  | DuplicateNode
  | UnknownNode
  | StaleIncarnation
  | NodeExists
  | NotRingMember
  | LastRingMember
  | Quorum string int int
  | Fence
  | Rebalance string
  | Snapshot string
  | Backpressure
  | TombstoneLimit
  | LeaseExpired
  | LeaseToken
  | LeasesExhausted
  | BadReplicaArgument
  | BadTtl
  | DuplicateSnapshotKeys
  | BackendFault
  | Storage engine_error

definition hex_text :: "bytes \<Rightarrow> pystr" where
  "hex_text bs = concat (map (\<lambda>c. [hex_digit (of_char c div 16), hex_digit (of_char c mod 16)]) bs)"

text \<open>\<open>int.from_bytes(bs, 'big')\<close>.\<close>

definition from_bytes :: "bytes \<Rightarrow> nat" where
  "from_bytes bs = foldl (\<lambda>a c. a * 256 + of_char c) 0 bs"

text \<open>
  \<open>json.dumps\<close> with its default \<open>ensure_ascii=True\<close>: every character of the text outside the
  printable ASCII range is escaped, beyond the basic plane as a surrogate pair.
\<close>

definition hex4 :: "nat \<Rightarrow> pystr" where
  "hex4 n = [92, 117, hex_digit (n div 4096 mod 16), hex_digit (n div 256 mod 16),
     hex_digit (n div 16 mod 16), hex_digit (n mod 16)]"

definition escape_ascii :: "nat \<Rightarrow> pystr" where
  "escape_ascii c =
     (if c \<le> 126 then [c]
      else if c < 65536 then hex4 c
      else hex4 (55296 + (c - 65536) div 1024) @ hex4 (56320 + (c - 65536) mod 1024))"

definition json_ascii :: "pyval \<Rightarrow> pystr option" where
  "json_ascii v = map_option (\<lambda>t. concat (map escape_ascii t)) (json_dumps v)"

text \<open>\<open>hashlib.sha256(json.dumps(v, separators=(',', ':')).encode('utf-8')).hexdigest()\<close>.\<close>

definition json_digest :: "(bytes \<Rightarrow> bytes) \<Rightarrow> pyval \<Rightarrow> pystr" where
  "json_digest sha v =
     (case json_ascii v of None \<Rightarrow> []
      | Some t \<Rightarrow> hex_text (sha (map char_of t)))"

text \<open>\<open>str.isspace\<close> of one character.\<close>

definition is_space :: "nat \<Rightarrow> bool" where
  "is_space c \<longleftrightarrow> c \<in> {9, 10, 11, 12, 13, 28, 29, 30, 31, 32, 133, 160, 5760, 8232, 8233, 8239, 8287, 12288}
     \<or> 8192 \<le> c \<and> c \<le> 8202"

definition ascii_lower :: "pystr \<Rightarrow> pystr" where
  "ascii_lower s = map (\<lambda>c. if 65 \<le> c \<and> c \<le> 90 then c + 32 else c) s"

end
