(* ===== verification/Ring.thy ===== *)
theory Ring
  imports Digest
begin

text \<open>
  Placement of keys on nodes: \<open>ConsistencyProfile\<close>, \<open>NodeIdentity\<close> and
  \<open>ConsistentHashRing\<close> of \<open>src/src/megacache/cluster.py\<close>.
\<close>

section \<open>Consistency profiles\<close>

datatype profile = ProfileOne | ProfileMajority | ProfileAll

text \<open>\<open>parse\<close> takes a profile or any value whose text names one.\<close>

definition parse_profile :: "profile + pyval \<Rightarrow> cluster_error + profile" where
  "parse_profile v =
     (case v of
        Inl p \<Rightarrow> Inr p
      | Inr (PStr s) \<Rightarrow>
          (let t = ascii_lower s in
           if t = lit ''one'' then Inr ProfileOne
           else if t = lit ''majority'' then Inr ProfileMajority
           else if t = lit ''all'' then Inr ProfileAll
           else Inl BadConsistency)
      | Inr _ \<Rightarrow> Inl BadConsistency)"

definition required :: "profile \<Rightarrow> int \<Rightarrow> cluster_error + int" where
  "required p replicas =
     (if replicas \<le> 0 then Inl ReplicasNotPositive
      else case p of ProfileOne \<Rightarrow> Inr 1 | ProfileAll \<Rightarrow> Inr replicas | ProfileMajority \<Rightarrow> Inr (replicas div 2 + 1))"

definition node_identity :: "pystr \<Rightarrow> cluster_error + unit" where
  "node_identity node_id =
     (case utf8_len node_id of
        None \<Rightarrow> Inl (Storage UnicodeEncodeError)
      | Some n \<Rightarrow>
          (if node_id = [] \<or> n > 128 \<or> list_ex is_space node_id then Inl BadNodeId else Inr ()))"

section \<open>The ring\<close>

type_synonym point = "nat \<times> pystr \<times> nat"

record ring =
  node_ids :: "pystr list"
  virtual_nodes :: int
  version :: int
  points :: "point list"
  fingerprint :: pystr

definition ring_namespace :: bytes where
  "ring_namespace = ''megacache-ring-v1''"

definition utf8_bytes :: "pystr \<Rightarrow> bytes" where
  "utf8_bytes s = (case encode_utf8 s of None \<Rightarrow> [] | Some bs \<Rightarrow> bs)"

definition hash_token :: "(bytes \<Rightarrow> bytes) \<Rightarrow> bytes \<Rightarrow> nat" where
  "hash_token sha payload = from_bytes (take 8 (sha payload))"

definition ring_points :: "(bytes \<Rightarrow> bytes) \<Rightarrow> pystr list \<Rightarrow> int \<Rightarrow> point list" where
  "ring_points sha nodes vn =
     concat (map (\<lambda>node_id. map (\<lambda>v.
        (hash_token sha (ring_namespace @ [CHR 0x00] @ utf8_bytes node_id @ [CHR 0x00]
            @ map char_of (digits10 v)), node_id, v)) [0..<nat vn]) nodes)"

definition make_ring ::
  "(bytes \<Rightarrow> bytes) \<Rightarrow> pystr list \<Rightarrow> int \<Rightarrow> int \<Rightarrow> cluster_error + ring" where
  "make_ring sha ids vn ver =
     (let nodes = sort (remdups ids) in
      if nodes = [] then Inl EmptyRing
      else case map_sum_list node_identity nodes of Inl e \<Rightarrow> Inl e
        | Inr _ \<Rightarrow>
            (if vn \<le> 0 then Inl BadVirtualNodes
             else if ver \<le> 0 then Inl BadRingVersion
             else
               (let ps = sort (ring_points sha nodes vn);
                    doc = PDict [(lit ''nodes'', PTuple (map PStr nodes)),
                                 (lit ''virtual_nodes'', PInt vn),
                                 (lit ''points'', PTuple (map (\<lambda>(t, n, v).
                                    PTuple [PInt (int t), PStr n, PInt (int v)]) ps))]
                in Inr \<lparr>node_ids = nodes, virtual_nodes = vn, version = ver, points = ps,
                        fingerprint = json_digest sha doc\<rparr>)))"

text \<open>\<open>bisect.bisect_right\<close> on a sorted sequence.\<close>

definition bisect_right :: "nat list \<Rightarrow> nat \<Rightarrow> nat" where
  "bisect_right ts t = length (takeWhile (\<lambda>x. x \<le> t) ts)"

fun walk :: "nat \<Rightarrow> pystr list \<Rightarrow> pystr list \<Rightarrow> pystr list" where
  "walk wanted owners [] = owners"
| "walk wanted owners (n # ns) =
     (if n \<in> set owners then walk wanted owners ns
      else if Suc (length owners) = wanted then owners @ [n]
      else walk wanted (owners @ [n]) ns)"

definition ring_order :: "ring \<Rightarrow> nat \<Rightarrow> pystr list" where
  "ring_order r tok =
     (let ps = points r; index = bisect_right (map fst ps) tok
      in map (\<lambda>offset. fst (snd (ps ! ((index + offset) mod length ps)))) [0..<length ps])"

definition owners :: "(bytes \<Rightarrow> bytes) \<Rightarrow> ring \<Rightarrow> pystr \<Rightarrow> int \<Rightarrow> cluster_error + pystr list" where
  "owners sha r key replica_count =
     (if key = [] then Inl EmptyKey
      else if replica_count \<le> 0 then Inl ReplicasNotPositive
      else case encode_utf8 key of
          None \<Rightarrow> Inl (Storage UnicodeEncodeError)
        | Some payload \<Rightarrow>
            (let wanted = min replica_count (int (length (node_ids r)))
             in Inr (walk (nat wanted) [] (ring_order r (hash_token sha payload)))))"

definition primary :: "(bytes \<Rightarrow> bytes) \<Rightarrow> ring \<Rightarrow> pystr \<Rightarrow> cluster_error + pystr" where
  "primary sha r key = (case owners sha r key 1 of Inl e \<Rightarrow> Inl e | Inr os \<Rightarrow> Inr (hd os))"

record ring_report =
  rr_version :: int
  rr_fingerprint :: pystr
  rr_virtual_nodes :: int
  rr_nodes :: "pystr list"
  rr_tokens :: int

definition describe :: "ring \<Rightarrow> ring_report" where
  "describe r = \<lparr>rr_version = version r, rr_fingerprint = fingerprint r,
     rr_virtual_nodes = virtual_nodes r, rr_nodes = node_ids r, rr_tokens = int (length (points r))\<rparr>"

section \<open>How the walk chooses\<close>

fun first_seen :: "'a list \<Rightarrow> 'a list" where
  "first_seen [] = []"
| "first_seen (x # xs) = x # filter (\<lambda>y. y \<noteq> x) (first_seen xs)"

lemma set_first_seen [simp]: "set (first_seen xs) = set xs"
  by (induction xs) auto

lemma distinct_first_seen [simp]: "distinct (first_seen xs)"
  by (induction xs) auto

lemma first_seen_filter: "first_seen (filter P xs) = filter P (first_seen xs)"
  by (induction xs) (auto simp: filter_filter conj_commute intro: filter_cong)

lemma walk_first_seen:
  "length acc < w \<Longrightarrow>
   walk w acc ns = acc @ take (w - length acc) (filter (\<lambda>x. x \<notin> set acc) (first_seen ns))"
proof (induction ns arbitrary: acc)
  case (Cons n ns)
  have f: "filter (\<lambda>x. x \<notin> set (acc @ [n])) (first_seen ns) =
      filter (\<lambda>x. x \<notin> set acc) (filter (\<lambda>y. y \<noteq> n) (first_seen ns))"
    by (auto simp: filter_filter intro: filter_cong)
  show ?case
  proof (cases "n \<in> set acc")
    case True
    then have "filter (\<lambda>x. x \<notin> set acc) (filter (\<lambda>y. y \<noteq> n) (first_seen ns)) =
        filter (\<lambda>x. x \<notin> set acc) (first_seen ns)" by (auto simp: filter_filter intro: filter_cong)
    with True Cons show ?thesis by simp
  next
    case False
    show ?thesis
    proof (cases "Suc (length acc) = w")
      case True
      then have "w - length acc = 1" by simp
      with True False show ?thesis by simp
    next
      case neq: False
      with Cons.prems have "w - length acc = Suc (w - Suc (length acc))" by simp
      with Cons.IH [of "acc @ [n]"] Cons.prems neq False f show ?thesis by simp
    qed
  qed
qed simp

lemma sorted_wrt_takeWhile:
  "sorted (map fst ps) \<Longrightarrow> takeWhile (\<lambda>x. x \<le> t) (map fst ps) = map fst (filter (\<lambda>p. fst p \<le> t) ps)
     \<and> take (length (takeWhile (\<lambda>x. x \<le> t) (map fst ps))) ps = filter (\<lambda>p. fst p \<le> t) ps
     \<and> drop (length (takeWhile (\<lambda>x. x \<le> t) (map fst ps))) ps = filter (\<lambda>p. t < fst p) ps"
proof (induction ps)
  case (Cons p ps)
  show ?case
  proof (cases "fst p \<le> t")
    case False
    then have "\<forall>q \<in> set ps. t < fst q" using Cons.prems by fastforce
    then have "filter (\<lambda>q. fst q \<le> t) ps = []" "filter (\<lambda>q. t < fst q) ps = ps"
      by (auto simp: filter_empty_conv not_le filter_id_conv)
    with False show ?thesis by simp
  qed (use Cons in auto)
qed simp

lemma ring_order_eq:
  assumes "sorted (map fst (points r))"
  shows "ring_order r t = map (fst \<circ> snd) (filter (\<lambda>p. t < fst p) (points r) @ filter (\<lambda>p. fst p \<le> t) (points r))"
proof (cases "points r = []")
  case False
  let ?ps = "points r" and ?i = "bisect_right (map fst (points r)) t"
  have le: "?i \<le> length ?ps" unfolding bisect_right_def by (metis length_map length_takeWhile_le)
  have "ring_order r t = map (fst \<circ> snd) (map (\<lambda>off. ?ps ! ((?i + off) mod length ?ps)) [0..<length ?ps])"
    by (simp add: ring_order_def Let_def)
  also have "map (\<lambda>off. ?ps ! ((?i + off) mod length ?ps)) [0..<length ?ps] = rotate ?i ?ps"
    using False by (intro nth_equalityI) (simp_all add: nth_rotate add.commute)
  also have "rotate ?i ?ps = drop ?i ?ps @ take ?i ?ps"
    using le by (cases "?i = length ?ps") (simp_all add: rotate_drop_take)
  also have "\<dots> = filter (\<lambda>p. t < fst p) ?ps @ filter (\<lambda>p. fst p \<le> t) ?ps"
    using sorted_wrt_takeWhile [OF assms, of t] unfolding bisect_right_def by argo
  finally show ?thesis .
qed (simp add: ring_order_def)

lemma make_ring_Inr:
  assumes "make_ring sha ids vn ver = Inr r"
  shows "node_ids r = sort (remdups ids)" "points r = sort (ring_points sha (sort (remdups ids)) vn)"
    "0 < vn" "ids \<noteq> []" "0 < ver" "version r = ver" "virtual_nodes r = vn"
  using assms by (auto simp: make_ring_def Let_def split: if_splits sum.splits)

lemma sorted_tokens:
  assumes "make_ring sha ids vn ver = Inr r"
  shows "sorted (map fst (points r))"
proof -
  have "sorted_wrt (\<lambda>p q. fst p \<le> fst q) ps" if "sorted ps" for ps :: "point list"
    using that by (rule sorted_wrt_mono_rel [rotated]) (auto simp: less_eq_prod_def)
  moreover have "sorted (points r)" using make_ring_Inr(2) [OF assms] by simp
  ultimately show ?thesis by (simp add: sorted_map)
qed

lemma set_ring_points: "0 < vn \<Longrightarrow> (fst \<circ> snd) ` set (ring_points sha nodes vn) = set nodes"
proof -
  assume "0 < vn"
  then have "0 < nat vn" by simp
  then have "\<exists>v. v < nat vn" by blast
  then show ?thesis by (force simp: ring_points_def image_iff)
qed

lemma ring_points_filter:
  "filter (\<lambda>p. fst (snd p) \<noteq> n) (ring_points sha nodes vn) = ring_points sha (filter (\<lambda>x. x \<noteq> n) nodes) vn"
  by (induction nodes) (auto simp: ring_points_def filter_map comp_def)

text \<open>The owners of a key are the first distinct nodes met from its place on the ring.\<close>

lemma owners_eq:
  assumes "make_ring sha ids vn ver = Inr r" "key \<noteq> []" "0 < rc" "encode_utf8 key = Some payload"
  shows "owners sha r key rc = Inr (take (nat (min rc (int (length (node_ids r)))))
     (first_seen (ring_order r (hash_token sha payload))))"
proof -
  have "node_ids r \<noteq> []" using make_ring_Inr(1,4) [OF assms(1)] by (metis remdups_eq_nil_iff set_empty set_sort)
  then have "0 < min rc (int (length (node_ids r)))" using assms(3) by simp
  then show ?thesis using assms walk_first_seen [of "[]"] by (simp add: owners_def Let_def)
qed

lemma set_ring_order:
  assumes "make_ring sha ids vn ver = Inr r"
  shows "set (ring_order r t) = set (node_ids r)"
proof -
  have "set (ring_order r t) = (fst \<circ> snd) ` set (points r)"
    unfolding ring_order_eq [OF sorted_tokens [OF assms]] set_map set_append set_filter
    by (rule arg_cong [of _ _ "(`) (fst \<circ> snd)"]) (auto simp: not_le)
  then show ?thesis using make_ring_Inr [OF assms] set_ring_points by simp
qed

lemma ring_order_without:
  assumes r: "make_ring sha ids vn ver = Inr r" and r': "make_ring sha (n # ids) vn ver' = Inr r'"
    and n: "n \<notin> set ids"
  shows "ring_order r t = filter (\<lambda>x. x \<noteq> n) (ring_order r' t)"
proof -
  have "filter (\<lambda>x. x \<noteq> n) (remdups (n # ids)) = remdups ids"
    using n by (auto simp: filter_id_conv)
  then have "filter (\<lambda>x. x \<noteq> n) (sort (remdups (n # ids))) = sort (remdups ids)"
    by (simp only: filter_sort)
  then have "points r = filter (\<lambda>p. fst (snd p) \<noteq> n) (points r')"
    using make_ring_Inr(2) [OF r] make_ring_Inr(2) [OF r'] by (simp only: filter_sort ring_points_filter)
  then show ?thesis
    unfolding ring_order_eq [OF sorted_tokens [OF r]] ring_order_eq [OF sorted_tokens [OF r']]
    by (simp add: filter_map comp_def conj_commute)
qed

section \<open>Properties\<close>

text \<open>
  C12. Every valid key has owners on every ring: the walk ends and returns as many distinct ring
  members as there are replicas to place, or all members when there are fewer, whatever the
  hash function does.
\<close>

theorem owners_complete:
  assumes "make_ring sha ids vn ver = Inr r" "key \<noteq> []" "encode_utf8 key \<noteq> None" "0 < rc"
  shows "\<exists>os. owners sha r key rc = Inr os \<and> distinct os \<and> set os \<subseteq> set ids \<and>
     int (length os) = min rc (int (card (set ids)))"
proof -
  obtain payload where p: "encode_utf8 key = Some payload" using assms(3) by blast
  let ?o = "first_seen (ring_order r (hash_token sha payload))"
  have s: "set ?o = set ids" using set_ring_order [OF assms(1)] make_ring_Inr(1) [OF assms(1)] by simp
  have len: "length ?o = card (set ids)" using s by (metis distinct_card distinct_first_seen)
  have nl: "length (node_ids r) = card (set ids)"
    using make_ring_Inr(1) [OF assms(1)] by (simp add: length_remdups_card_conv)
  show ?thesis
    using owners_eq [OF assms(1,2,4) p] s len nl assms(4) set_take_subset
    by (auto dest: in_set_takeD)
qed

text \<open>
  Consistent hashing moves little: when one node joins, the owners of every key in the new
  ring, without the new node, are a prefix of its owners in the old ring. At most one old owner
  is displaced, only by the new node, and keys the new node does not own keep their owners.
\<close>

theorem ring_join_moves_little:
  assumes "make_ring sha ids vn ver = Inr r" "make_ring sha (n # ids) vn ver' = Inr r'" "n \<notin> set ids"
    and "owners sha r key rc = Inr os" "owners sha r' key rc = Inr os'"
  shows "filter (\<lambda>x. x \<noteq> n) os' = take (length os' - (if n \<in> set os' then 1 else 0)) os \<and>
     (n \<notin> set os' \<longrightarrow> os' = os) \<and> length os \<le> length os'"
proof -
  have v: "key \<noteq> []" "0 < rc" "encode_utf8 key \<noteq> None"
    using assms(4) by (auto simp: owners_def split: if_splits option.splits)
  obtain payload where p: "encode_utf8 key = Some payload" using v(3) by blast
  let ?l' = "first_seen (ring_order r' (hash_token sha payload))"
  let ?l = "filter (\<lambda>x. x \<noteq> n) ?l'"
  let ?w = "nat (min rc (int (length (node_ids r))))" and ?w' = "nat (min rc (int (length (node_ids r'))))"
  have l: "first_seen (ring_order r (hash_token sha payload)) = ?l"
    using ring_order_without [OF assms(1-3)] by (simp add: first_seen_filter)
  have os: "os = take ?w ?l" "os' = take ?w' ?l'"
    using owners_eq [OF assms(1) v(1,2) p] owners_eq [OF assms(2) v(1,2) p] l assms(4,5) by simp_all
  have len: "length (node_ids r') = Suc (length (node_ids r))"
    using make_ring_Inr(1) [OF assms(1)] make_ring_Inr(1) [OF assms(2)] assms(3)
    by (simp add: length_remdups_card_conv)
  have ll: "length ?l' = length (node_ids r')" "length ?l = length (node_ids r)"
    using set_ring_order [OF assms(2)] set_ring_order [OF assms(1)] l make_ring_Inr(1) [OF assms(1)]
      make_ring_Inr(1) [OF assms(2)]
    by (metis distinct_card distinct_first_seen distinct_remdups distinct_sort set_first_seen)+
  have ww: "?w \<le> ?w'" "?w' \<le> Suc ?w" "?w' \<le> length ?l'" "?w \<le> length ?l" using len ll by auto
  have f: "filter (\<lambda>x. x \<noteq> n) os' = take (length (filter (\<lambda>x. x \<noteq> n) os')) ?l"
  proof -
    have "?l = filter (\<lambda>x. x \<noteq> n) os' @ filter (\<lambda>x. x \<noteq> n) (drop ?w' ?l')"
      using os(2) by (metis append_take_drop_id filter_append)
    then show ?thesis by (metis append_eq_conv_conj)
  qed
  have cnt: "length (filter (\<lambda>x. x \<noteq> n) os') = length os' - (if n \<in> set os' then 1 else 0)"
  proof -
    have "distinct os'" using os(2) by simp
    then have "filter (\<lambda>x. x \<noteq> n) os' = remove1 n os'"
      by (simp add: distinct_remove1_removeAll removeAll_filter_not_eq eq_commute [of n])
    then show ?thesis by (simp add: length_remove1)
  qed
  have lo: "length os' = ?w'" "length os = ?w" using os ww by simp_all
  have short: "length os' - (if n \<in> set os' then 1 else 0) \<le> ?w"
  proof (cases "n \<in> set os'")
    case False
    have "length (filter (\<lambda>x. x \<noteq> n) os') \<le> length ?l"
      using f by (metis length_take min.cobounded2 min.commute)
    then show ?thesis using cnt False lo ll len by simp
  next
    case True
    with lo(1) ww(2) show ?thesis by (simp only: if_True) linarith
  qed
  have a: "filter (\<lambda>x. x \<noteq> n) os' = take (length os' - (if n \<in> set os' then 1 else 0)) os"
    using f cnt os(1) short by (simp add: min_def)
  moreover have "os' = os" if "n \<notin> set os'"
  proof -
    have "filter (\<lambda>x. x \<noteq> n) os' = os'" using that by (auto simp: filter_id_conv)
    then have "os' = take (length os') os" using a that by simp
    moreover have "length os \<le> length os'" using lo ww by simp
    ultimately show ?thesis by simp
  qed
  moreover have "length os \<le> length os'" using ww(1) by (simp only: lo)
  ultimately show ?thesis by blast
qed

text \<open>Any two sets of owners of a key that each meet the majority requirement share an owner.\<close>

lemma majorities_meet:
  assumes "required ProfileMajority (int (length os)) = Inr m" "distinct os"
    and "A \<subseteq> set os" "B \<subseteq> set os" "m \<le> int (card A)" "m \<le> int (card B)"
  shows "A \<inter> B \<noteq> {}"
proof
  assume "A \<inter> B = {}"
  then have "card A + card B \<le> card (set os)"
    using assms(3,4) by (metis List.finite_set Un_subset_iff card_Un_disjoint card_mono finite_subset)
  then have "int (card A) + int (card B) \<le> int (length os)" using assms(2) by (simp add: distinct_card)
  then show False using assms(1,5,6) by (auto simp: required_def split: if_splits)
qed

section \<open>A ring of two nodes\<close>

text \<open>For the examples the hash function reverses its input.\<close>

lemma demo_ring:
  "0 < ver \<Longrightarrow> \<exists>r. make_ring rev [[97], [98]] 1 ver = Inr r"
  "0 < ver \<Longrightarrow> \<exists>r. make_ring rev [[99], [97], [98]] 1 ver = Inr r"
  by (simp_all add: make_ring_def Let_def node_identity_def utf8_len_ascii is_ascii_def is_space_def)

lemma encode_k: "encode_utf8 [107] = Some [char_of (107::nat)]"
  by (simp add: is_scalar_def is_surrogate_def utf8_units_def)

theorem owners_complete_witness:
  "\<exists>r os. make_ring rev [[97], [98]] 1 1 = Inr r \<and> owners rev r [107] 3 = Inr os \<and> length os = 2"
proof -
  obtain r where r: "make_ring rev [[97], [98]] 1 1 = Inr r" using demo_ring(1) [of 1] by auto
  with owners_complete [OF r, of "[107]" 3] encode_k show ?thesis by auto
qed

theorem ring_join_moves_little_witness:
  "\<exists>r r' os os'. make_ring rev [[97], [98]] 1 1 = Inr r \<and> make_ring rev [[99], [97], [98]] 1 2 = Inr r' \<and>
     owners rev r [107] 1 = Inr os \<and> owners rev r' [107] 1 = Inr os' \<and> (os' = os \<or> [99] \<in> set os')"
proof -
  obtain r r' where r: "make_ring rev [[97], [98]] 1 1 = Inr r" "make_ring rev [[99], [97], [98]] 1 2 = Inr r'"
    using demo_ring(1) [of 1] demo_ring(2) [of 2] by auto
  obtain os os' where "owners rev r [107] 1 = Inr os" "owners rev r' [107] 1 = Inr os'"
    using owners_eq [OF r(1) _ _ encode_k, of 1] owners_eq [OF r(2) _ _ encode_k, of 1] by auto
  with r ring_join_moves_little [OF r] show ?thesis by auto
qed

end
