(* ===== verification/Snapshot_Transfer.thy ===== *)
theory Snapshot_Transfer
  imports Ring
begin

text \<open>
  Version stamps and fences, and the transfer of a snapshot in checksummed chunks:
  \<open>VersionStamp\<close>, \<open>FenceToken\<close>, \<open>SnapshotSession\<close>, \<open>SnapshotReceiver\<close>, the chunking of
  \<open>_snapshot_session_locked\<close> and the transfer loop of \<open>_bootstrap_locked\<close> in
  \<open>src/src/megacache/cluster.py\<close>. The payload is a byte string; how records are written in it
  is not modelled here.
\<close>

section \<open>Versions and fences\<close>

datatype version_stamp = VersionStamp (vs_term: int) (vs_sequence: int) (vs_leader: pystr)

instantiation version_stamp :: linorder
begin

definition less_eq_version_stamp :: "version_stamp \<Rightarrow> version_stamp \<Rightarrow> bool" where
  "less_eq_version_stamp a b \<longleftrightarrow>
     (vs_term a, vs_sequence a, vs_leader a) \<le> (vs_term b, vs_sequence b, vs_leader b)"

definition less_version_stamp :: "version_stamp \<Rightarrow> version_stamp \<Rightarrow> bool" where
  "less_version_stamp a b \<longleftrightarrow>
     (vs_term a, vs_sequence a, vs_leader a) < (vs_term b, vs_sequence b, vs_leader b)"

instance
proof
  fix a b c :: version_stamp
  show "a < b \<longleftrightarrow> a \<le> b \<and> \<not> b \<le> a" unfolding less_eq_version_stamp_def less_version_stamp_def by (rule less_le_not_le)
  show "a \<le> a" by (simp add: less_eq_version_stamp_def)
  show "a \<le> b \<Longrightarrow> b \<le> c \<Longrightarrow> a \<le> c" unfolding less_eq_version_stamp_def by (rule order_trans)
  show "a \<le> b \<Longrightarrow> b \<le> a \<Longrightarrow> a = b"
    unfolding less_eq_version_stamp_def by (metis Pair_inject order_antisym version_stamp.expand)
  show "a \<le> b \<or> b \<le> a" unfolding less_eq_version_stamp_def by (rule linear)
qed

end

datatype fence_token = FenceToken (fence_term: int) (fence_leader: pystr)

section \<open>Sender\<close>

record chunk =
  ch_snapshot :: pystr
  ch_index :: int
  ch_payload :: bytes
  ch_checksum :: pystr

record manifest =
  mf_snapshot :: pystr
  mf_source :: pystr
  mf_ring_version :: int
  mf_fence :: fence_token
  mf_chunk_count :: int
  mf_entry_count :: int
  mf_total_bytes :: int
  mf_checksum :: pystr

record session =
  ss_manifest :: manifest
  ss_chunks :: "chunk list"
  ss_max_in_flight :: int
  ss_next :: nat
  ss_outstanding :: "int set"

definition next_chunk :: "session \<Rightarrow> (cluster_error, chunk option, session) res" where
  "next_chunk s =
     (if int (card (ss_outstanding s)) \<ge> ss_max_in_flight s then (Inl Backpressure, s)
      else if ss_next s \<ge> length (ss_chunks s) then (Inr None, s)
      else
        (let c = ss_chunks s ! ss_next s
         in (Inr (Some c), s\<lparr>ss_next := Suc (ss_next s),
                             ss_outstanding := insert (ch_index c) (ss_outstanding s)\<rparr>)))"

definition acknowledge :: "int \<Rightarrow> session \<Rightarrow> (cluster_error, unit, session) res" where
  "acknowledge i s =
     (if i \<notin> ss_outstanding s then (Inl (Snapshot ''unknown or duplicate chunk acknowledgement''), s)
      else (Inr (), s\<lparr>ss_outstanding := ss_outstanding s - {i}\<rparr>))"

definition session_complete :: "session \<Rightarrow> bool" where
  "session_complete s \<longleftrightarrow> ss_next s = length (ss_chunks s) \<and> ss_outstanding s = {}"

section \<open>Receiver\<close>

record receiver =
  rc_manifest :: manifest
  rc_max_payload :: int
  rc_chunks :: "int \<rightharpoonup> bytes"
  rc_received :: int

definition make_receiver :: "manifest \<Rightarrow> int \<Rightarrow> receiver" where
  "make_receiver m limit =
     \<lparr>rc_manifest = m, rc_max_payload = limit, rc_chunks = Map.empty, rc_received = 0\<rparr>"

definition receive :: "(bytes \<Rightarrow> bytes) \<Rightarrow> chunk \<Rightarrow> receiver \<Rightarrow> (cluster_error, unit, receiver) res" where
  "receive sha c r =
     (if ch_snapshot c \<noteq> mf_snapshot (rc_manifest r)
      then (Inl (Snapshot ''snapshot identifier does not match manifest''), r)
      else if ch_index c < 0 \<or> ch_index c \<ge> mf_chunk_count (rc_manifest r)
      then (Inl (Snapshot ''snapshot chunk index is out of range''), r)
      else if rc_chunks r (ch_index c) \<noteq> None
      then (Inl (Snapshot ''duplicate snapshot chunk''), r)
      else case compare_digest (hex_text (sha (ch_payload c))) (ch_checksum c) of
          Inl e \<Rightarrow> (Inl (Storage e), r)
        | Inr False \<Rightarrow> (Inl (Snapshot ''snapshot chunk checksum mismatch''), r)
        | Inr True \<Rightarrow>
            (let r1 = r\<lparr>rc_received := rc_received r + int (length (ch_payload c))\<rparr>
             in if rc_received r1 > rc_max_payload r1 \<or> rc_received r1 > mf_total_bytes (rc_manifest r1)
                then (Inl (Snapshot ''snapshot exceeds configured payload limit''), r1)
                else (Inr (), r1\<lparr>rc_chunks := (rc_chunks r1)(ch_index c \<mapsto> ch_payload c)\<rparr>)))"

text \<open>\<open>records\<close>, up to the point where the verified payload is split into records.\<close>

definition received_payload :: "(bytes \<Rightarrow> bytes) \<Rightarrow> receiver \<Rightarrow> cluster_error + bytes" where
  "received_payload sha r =
     (if int (card (dom (rc_chunks r))) \<noteq> mf_chunk_count (rc_manifest r)
      then Inl (Snapshot ''snapshot is incomplete'')
      else
        (let payload = concat (map (\<lambda>i. case rc_chunks r (int i) of None \<Rightarrow> [] | Some p \<Rightarrow> p)
               [0..<nat (mf_chunk_count (rc_manifest r))])
         in if int (length payload) \<noteq> mf_total_bytes (rc_manifest r)
            then Inl (Snapshot ''snapshot byte count mismatch'')
            else case compare_digest (hex_text (sha payload)) (mf_checksum (rc_manifest r)) of
                Inl e \<Rightarrow> Inl (Storage e)
              | Inr False \<Rightarrow> Inl (Snapshot ''snapshot checksum mismatch'')
              | Inr True \<Rightarrow> Inr payload))"

section \<open>Chunking and the transfer loop\<close>

function split_payload :: "nat \<Rightarrow> bytes \<Rightarrow> bytes list" where
  "split_payload n p = (if p = [] \<or> n = 0 then [] else take n p # split_payload n (drop n p))"
  by auto
termination by (relation "measure (\<lambda>(n, p). length p)") auto

declare split_payload.simps [simp del]

definition make_session ::
  "(bytes \<Rightarrow> bytes) \<Rightarrow> pystr \<Rightarrow> int \<Rightarrow> fence_token \<Rightarrow> int \<Rightarrow> int \<Rightarrow> int \<Rightarrow> bytes list \<Rightarrow> cluster_error + session" where
  "make_session sha source ring_version fence limit chunk_bytes max_in_flight encoded =
     (let payload = concat (map (\<lambda>b. b @ [CHR 0x0A]) encoded) in
      if int (length payload) > limit then Inl (Snapshot ''snapshot exceeds configured payload limit'')
      else
        (let parts = split_payload (nat chunk_bytes) payload;
             snapshot_id = hex_text (sha (utf8_bytes source @ map char_of (dump_int ring_version) @ payload));
             chunks = map (\<lambda>(i, p). \<lparr>ch_snapshot = snapshot_id, ch_index = int i, ch_payload = p,
                         ch_checksum = hex_text (sha p)\<rparr>) (enumerate 0 parts)
         in Inr \<lparr>ss_manifest = \<lparr>mf_snapshot = snapshot_id, mf_source = source,
                    mf_ring_version = ring_version, mf_fence = fence,
                    mf_chunk_count = int (length chunks), mf_entry_count = int (length encoded),
                    mf_total_bytes = int (length payload), mf_checksum = hex_text (sha payload)\<rparr>,
                  ss_chunks = chunks, ss_max_in_flight = max_in_flight, ss_next = 0,
                  ss_outstanding = {}\<rparr>))"

text \<open>The \<open>while True\<close> loop of the bootstrap: one chunk at a time, acknowledged when received.\<close>

function pump :: "(bytes \<Rightarrow> bytes) \<Rightarrow> session \<Rightarrow> receiver \<Rightarrow> cluster_error + session \<times> receiver" where
  "pump sha s r =
     (case next_chunk s of
        (Inl e, s1) \<Rightarrow> Inl e
      | (Inr None, s1) \<Rightarrow> Inr (s1, r)
      | (Inr (Some c), s1) \<Rightarrow>
          (case receive sha c r of
             (Inl e, r1) \<Rightarrow> Inl e
           | (Inr _, r1) \<Rightarrow>
               (case acknowledge (ch_index c) s1 of
                  (Inl e, s2) \<Rightarrow> Inl e
                | (Inr _, s2) \<Rightarrow> pump sha s2 r1)))"
  by pat_completeness auto
termination
  by (relation "measure (\<lambda>(sha, s, r). length (ss_chunks s) - ss_next s)")
    (auto simp: next_chunk_def acknowledge_def Let_def split: if_splits)

declare pump.simps [simp del]

section \<open>Correctness of the transfer\<close>

lemma concat_split: "0 < n \<Longrightarrow> concat (split_payload n p) = p"
  by (induction n p rule: split_payload.induct) (subst split_payload.simps, auto)

lemma of_char_bound: "(of_char c :: nat) < 256"
  by (metis of_char_mod_256 mod_less_divisor zero_less_numeral)

lemma of_char_div: "of_char c div 16 < (16::nat)"
  using of_char_bound [of c] by presburger

lemma hex_digit_ascii: "d < 16 \<Longrightarrow> hex_digit d < 128"
  by (simp add: hex_digit_def)

lemma is_ascii_hex [simp]: "is_ascii (hex_text bs)"
proof (induction bs)
  case (Cons c bs)
  have "of_char c div 16 < (16::nat)" by (rule of_char_div)
  with Cons show ?case by (simp add: hex_text_def is_ascii_def hex_digit_ascii)
qed (simp add: hex_text_def is_ascii_def)

lemma hex_digit_inj: "a < 16 \<Longrightarrow> b < 16 \<Longrightarrow> hex_digit a = hex_digit b \<Longrightarrow> a = b"
  by (auto simp: hex_digit_def split: if_splits)

lemma hex_text_inj: "hex_text a = hex_text b \<Longrightarrow> a = b"
proof (induction a arbitrary: b)
  case Nil
  then show ?case by (cases b) (auto simp: hex_text_def)
next
  case (Cons c a)
  then obtain d b' where b: "b = d # b'" by (cases b) (auto simp: hex_text_def)
  have h: "hex_digit (of_char c div 16) = hex_digit (of_char d div 16)"
      "hex_digit (of_char c mod 16) = hex_digit (of_char d mod 16)" "hex_text a = hex_text b'"
    using Cons.prems b by (simp_all add: hex_text_def)
  have "of_char c div 16 < (16::nat)" "of_char d div 16 < (16::nat)"
    by (rule of_char_div)+
  then have "of_char c div 16 = (of_char d div 16 :: nat)" "of_char c mod 16 = (of_char d mod 16 :: nat)"
    using hex_digit_inj [OF _ _ h(1)] hex_digit_inj [OF _ _ h(2)] by simp_all
  then have "(of_char c :: nat) = of_char d" by (metis div_mult_mod_eq)
  with b Cons.IH [OF h(3)] show ?case by simp
qed

text \<open>What a receiver holds after the chunks with the indices \<open>I\<close> of a session.\<close>

definition received :: "bytes list \<Rightarrow> nat set \<Rightarrow> receiver \<Rightarrow> bool" where
  "received parts I r \<longleftrightarrow> I \<subseteq> {..<length parts} \<and>
     (\<forall>i. rc_chunks r (int i) = (if i \<in> I then Some (parts ! i) else None)) \<and>
     (\<forall>i<0. rc_chunks r i = None) \<and> rc_received r = (\<Sum>i\<in>I. int (length (parts ! i)))"

lemma total_parts: "(\<Sum>i<length parts. int (length (parts ! i))) = int (length (concat parts))"
  by (simp add: length_concat sum_list_sum_nth atLeast0LessThan)

text \<open>A manifest that describes the given parts, and the chunk of each part.\<close>

definition sent :: "(bytes \<Rightarrow> bytes) \<Rightarrow> bytes list \<Rightarrow> manifest \<Rightarrow> int \<Rightarrow> bool" where
  "sent sha parts m limit \<longleftrightarrow> mf_chunk_count m = int (length parts) \<and>
     mf_total_bytes m = int (length (concat parts)) \<and> mf_total_bytes m \<le> limit \<and>
     mf_checksum m = hex_text (sha (concat parts))"

definition part :: "(bytes \<Rightarrow> bytes) \<Rightarrow> bytes list \<Rightarrow> manifest \<Rightarrow> nat \<Rightarrow> chunk" where
  "part sha parts m i = \<lparr>ch_snapshot = mf_snapshot m, ch_index = int i, ch_payload = parts ! i,
     ch_checksum = hex_text (sha (parts ! i))\<rparr>"

lemma sentD:
  assumes "sent sha parts m limit"
  shows "mf_chunk_count m = int (length parts)" "mf_total_bytes m = int (length (concat parts))"
    "mf_total_bytes m \<le> limit" "mf_checksum m = hex_text (sha (concat parts))"
  using assms by (simp_all add: sent_def)

lemma receive_part:
  assumes sent: "sent sha parts m limit" and "received parts I r" "i < length parts" "i \<notin> I" "rc_manifest r = m" "rc_max_payload r = limit"
  shows "\<exists>r'. receive sha (part sha parts m i) r = (Inr (), r') \<and> received parts (insert i I) r' \<and>
     rc_manifest r' = m \<and> rc_max_payload r' = limit"
proof -
  have fin: "finite I" using assms(2) by (auto simp: received_def intro: finite_subset)
  have "(\<Sum>j\<in>insert i I. int (length (parts ! j))) \<le> (\<Sum>j<length parts. int (length (parts ! j)))"
    using assms(2,3) by (intro sum_mono2) (auto simp: received_def)
  then have le: "rc_received r + int (length (parts ! i)) \<le> mf_total_bytes m"
    using assms(2,4) fin by (simp add: received_def sentD(2) [OF sent] total_parts)
  have "rc_chunks r (int i) = None" using assms(2,4) by (simp add: received_def)
  moreover have "received parts (insert i I) (r\<lparr>rc_received := rc_received r + int (length (parts ! i)),
      rc_chunks := (rc_chunks r)(int i \<mapsto> parts ! i)\<rparr>)"
    using assms(2,3,4) fin by (auto simp: received_def)
  ultimately show ?thesis
    using le sentD(3) [OF sent] sentD(1) [OF sent] assms(3,5,6)
    by (simp add: receive_def part_def compare_digest_def)
qed

lemma payload_of_all:
  assumes sent: "sent sha parts m limit" and "received parts {..<length parts} r" "rc_manifest r = m"
  shows "received_payload sha r = Inr (concat parts)"
proof -
  have "dom (rc_chunks r) = int ` {..<length parts}"
  proof (intro equalityI subsetI)
    fix i assume "i \<in> dom (rc_chunks r)"
    then have "0 \<le> i" using assms(2) by (metis domIff not_le received_def)
    then obtain j where "i = int j" using nonneg_int_cases by blast
    then show "i \<in> int ` {..<length parts}" using \<open>i \<in> dom (rc_chunks r)\<close> assms(2)
      by (auto simp: received_def split: if_splits)
  qed (use assms(2) in \<open>auto simp: received_def\<close>)
  then have "card (dom (rc_chunks r)) = length parts" by (simp add: card_image)
  moreover have "map (\<lambda>i. case rc_chunks r (int i) of None \<Rightarrow> [] | Some p \<Rightarrow> p) [0..<length parts] = parts"
    using assms(2) by (intro nth_equalityI) (auto simp: received_def)
  ultimately show ?thesis
    using assms(3) sentD(1) [OF sent] sentD(2) [OF sent] sentD(4) [OF sent] by (simp add: received_payload_def compare_digest_def)
qed

lemma received_all:
  assumes sent: "sent sha parts m limit" and "received parts I r" "distinct is" "set is \<inter> I = {}" "set is \<union> I = {..<length parts}"
    and "rc_manifest r = m" "rc_max_payload r = limit"
  shows "\<exists>r'. fold_res (\<lambda>i. receive sha (part sha parts m i)) is r = (Inr (map (\<lambda>_. ()) is), r') \<and>
     received_payload sha r' = Inr (concat parts)"
  using assms
proof (induction "is" arbitrary: I r)
  case Nil
  then show ?case using payload_of_all [OF sent] by simp
next
  case (Cons i is')
  then obtain r1 where r1: "receive sha (part sha parts m i) r = (Inr (), r1)" "received parts (insert i I) r1"
    "rc_manifest r1 = m" "rc_max_payload r1 = limit"
    using receive_part [OF sent, of I r i] by auto
  with Cons.IH [of "insert i I" r1] Cons.prems show ?case by auto
qed

lemma pump_parts:
  assumes sent: "sent sha parts m limit" and "ss_chunks s = map (part sha parts m) [0..<length parts]" "ss_outstanding s = {}" "0 < ss_max_in_flight s"
    and "ss_next s \<le> length parts" "received parts {..<ss_next s} r" "rc_manifest r = m" "rc_max_payload r = limit"
  shows "\<exists>s' r'. pump sha s r = Inr (s', r') \<and> session_complete s' \<and> received_payload sha r' = Inr (concat parts)"
  using assms
proof (induction "length parts - ss_next s" arbitrary: s r)
  case 0
  then have "next_chunk s = (Inr None, s)" by (simp add: next_chunk_def)
  moreover have "session_complete s" "ss_next s = length parts" using 0 by (simp_all add: session_complete_def)
  ultimately show ?case using 0 payload_of_all [OF sent, of r] by (subst pump.simps) simp
next
  case (Suc x)
  let ?i = "ss_next s"
  have i: "?i < length parts" using Suc by simp
  let ?s = "s\<lparr>ss_next := Suc ?i, ss_outstanding := {int ?i}\<rparr>"
  have n: "next_chunk s = (Inr (Some (part sha parts m ?i)), ?s)"
    using Suc.prems i by (simp add: next_chunk_def Let_def part_def)
  obtain r1 where r1: "receive sha (part sha parts m ?i) r = (Inr (), r1)" "received parts (insert ?i {..<?i}) r1"
    "rc_manifest r1 = m" "rc_max_payload r1 = limit"
    using receive_part [OF sent Suc.prems(6) i _ Suc.prems(7,8)] by auto
  let ?t = "?s\<lparr>ss_outstanding := {}\<rparr>"
  have a: "acknowledge (ch_index (part sha parts m ?i)) ?s = (Inr (), ?t)" by (simp add: acknowledge_def part_def)
  have "received parts {..<ss_next ?t} r1" using r1(2) by (simp add: lessThan_Suc)
  then have "\<exists>s' r'. pump sha ?t r1 = Inr (s', r') \<and> session_complete s' \<and> received_payload sha r' = Inr (concat parts)"
    using Suc r1(3,4) i by (intro Suc.hyps(1)) simp_all
  then show ?case by (subst pump.simps) (simp add: n r1(1) a)
qed


lemma make_session_Inr:
  assumes "make_session sha src rv fence limit cb mif encoded = Inr s" "0 < cb"
  obtains parts where "sent sha parts (ss_manifest s) limit"
    "concat parts = concat (map (\<lambda>b. b @ [CHR 0x0A]) encoded)"
    "ss_chunks s = map (part sha parts (ss_manifest s)) [0..<length parts]"
    "ss_next s = 0" "ss_outstanding s = {}" "ss_max_in_flight s = mif"
proof -
  let ?p = "concat (map (\<lambda>b. b @ [CHR 0x0A]) encoded)"
  let ?parts = "split_payload (nat cb) ?p"
  have c: "concat ?parts = ?p" using assms(2) concat_split by simp
  have m: "sent sha ?parts (ss_manifest s) limit"
    using assms c by (auto simp: sent_def make_session_def Let_def split: if_splits)
  have "ss_chunks s = map (part sha ?parts (ss_manifest s)) [0..<length ?parts]"
    using assms(1)
    by (auto simp: part_def make_session_def Let_def enumerate_eq_zip zip_map1 split: if_splits intro!: nth_equalityI)
  with m c assms(1) show ?thesis by (intro that [of ?parts]) (auto simp: make_session_def Let_def split: if_splits)
qed

section \<open>Properties\<close>

lemma received_none: "received parts {} (make_receiver m limit)"
  by (simp add: received_def make_receiver_def)

text \<open>
  C13. A snapshot transfer is exact: the bootstrap loop of a session against its receiver ends
  without an error (it never meets the back-pressure limit and no check fires), the session is
  complete and the receiver hands out precisely the bytes the sender encoded.
\<close>

theorem transfer_exact:
  assumes "make_session sha src rv fence limit chunk_bytes in_flight encoded = Inr s"
    and "0 < chunk_bytes" "0 < in_flight"
  shows "\<exists>s' r'. pump sha s (make_receiver (ss_manifest s) limit) = Inr (s', r') \<and> session_complete s' \<and>
     received_payload sha r' = Inr (concat (map (\<lambda>b. b @ [CHR 0x0A]) encoded))"
proof (rule make_session_Inr [OF assms(1,2)], goal_cases)
  case (1 parts)
  then show ?case
    using pump_parts [OF 1(1), of s "make_receiver (ss_manifest s) limit"] received_none assms(3)
    by (simp add: make_receiver_def)
qed

text \<open>
  Delivery order does not matter: a receiver that gets every chunk of a session once, in any
  order, accepts each of them and hands out the sender's bytes.
\<close>

theorem receive_any_order:
  assumes "make_session sha src rv fence limit chunk_bytes in_flight encoded = Inr s" "0 < chunk_bytes"
    and "distinct cs" "set cs = set (ss_chunks s)"
  shows "\<exists>r'. fold_res (receive sha) cs (make_receiver (ss_manifest s) limit) = (Inr (map (\<lambda>_. ()) cs), r') \<and>
     received_payload sha r' = Inr (concat (map (\<lambda>b. b @ [CHR 0x0A]) encoded))"
proof (rule make_session_Inr [OF assms(1,2)], goal_cases)
  case (1 parts)
  let ?part = "part sha parts (ss_manifest s)" and ?is = "map (\<lambda>c. nat (ch_index c)) cs"
  have set: "set cs = ?part ` {..<length parts}" using assms(4) 1(3) by auto
  have inv: "?part (nat (ch_index c)) = c" if "c \<in> set cs" for c using that set by (auto simp: part_def)
  have "inj_on (\<lambda>c. nat (ch_index c)) (set cs)" using inv by (intro inj_on_inverseI [of _ ?part])
  then have d: "distinct ?is" using assms(3) by (simp add: distinct_map)
  have "set ?is = {..<length parts}" using set by (auto simp: part_def image_image)
  moreover have "fold_res (receive sha) xs r = fold_res (\<lambda>i. receive sha (?part i)) (map (\<lambda>c. nat (ch_index c)) xs) r"
    if "set xs \<subseteq> set cs" for xs r
    using that by (induction xs arbitrary: r) (simp_all add: inv)
  ultimately show ?case
    using received_all [OF 1(1) received_none d] 1(2) by (auto simp: make_receiver_def comp_def)
qed

text \<open>
  Corruption is caught: whatever chunks a receiver got, a payload it hands out for a session's
  manifest has the length and the SHA-256 digest of the sender's payload.
\<close>

theorem transfer_integrity:
  assumes "make_session sha src rv fence limit chunk_bytes in_flight encoded = Inr s"
    and "rc_manifest r = ss_manifest s" "received_payload sha r = Inr p"
    and "payload = concat (map (\<lambda>b. b @ [CHR 0x0A]) encoded)"
  shows "length p = length payload \<and> sha p = sha payload"
proof -
  have m: "mf_total_bytes (rc_manifest r) = int (length payload)" "mf_checksum (rc_manifest r) = hex_text (sha payload)"
    using assms(1,2,4) by (auto simp: make_session_def Let_def split: if_splits)
  have "int (length p) = mf_total_bytes (rc_manifest r) \<and> hex_text (sha p) = mf_checksum (rc_manifest r)"
    using assms(3) by (auto simp: received_payload_def compare_digest_def Let_def split: if_splits sum.splits bool.splits)
  then show ?thesis using hex_text_inj m by simp
qed

section \<open>A transfer of two records in three chunks\<close>

definition demo_session :: session where
  "demo_session = (case make_session rev [97] 1 (FenceToken 1 [97]) 100 2 1 [''ab'', ''c''] of
     Inr s \<Rightarrow> s | Inl _ \<Rightarrow> undefined)"

lemma demo_session_eq: "make_session rev [97] 1 (FenceToken 1 [97]) 100 2 1 [''ab'', ''c''] = Inr demo_session"
  by (simp add: demo_session_def make_session_def Let_def)

theorem transfer_exact_witness:
  "\<exists>s' r'. pump rev demo_session (make_receiver (ss_manifest demo_session) 100) = Inr (s', r') \<and>
     received_payload rev r' = Inr (''ab'' @ [CHR 0x0A] @ ''c'' @ [CHR 0x0A])"
  using transfer_exact [OF demo_session_eq] by auto

theorem receive_any_order_witness:
  "\<exists>r'. fold_res (receive rev) (rev (ss_chunks demo_session)) (make_receiver (ss_manifest demo_session) 100) =
      (Inr (map (\<lambda>_. ()) (rev (ss_chunks demo_session))), r') \<and>
     received_payload rev r' = Inr (''ab'' @ [CHR 0x0A] @ ''c'' @ [CHR 0x0A])"
proof -
  have "distinct (rev (ss_chunks demo_session))"
    by (simp add: demo_session_def make_session_def Let_def split_payload.simps)
  then show ?thesis using receive_any_order [OF demo_session_eq, of "rev (ss_chunks demo_session)"] by auto
qed

theorem transfer_integrity_witness:
  "\<exists>s' r' p. pump rev demo_session (make_receiver (ss_manifest demo_session) 100) = Inr (s', r') \<and>
     received_payload rev r' = Inr p \<and> length p = 5"
proof -
  have "\<exists>s' r'. pump rev demo_session (make_receiver (ss_manifest demo_session) 100) = Inr (s', r') \<and>
      rc_manifest r' = ss_manifest demo_session \<and> (\<exists>p. received_payload rev r' = Inr p)"
    by (simp add: demo_session_def make_session_def Let_def split_payload.simps pump.simps next_chunk_def
        receive_def acknowledge_def make_receiver_def compare_digest_def received_payload_def upt_rec)
  then obtain s' r' p where w: "pump rev demo_session (make_receiver (ss_manifest demo_session) 100) = Inr (s', r')"
    "rc_manifest r' = ss_manifest demo_session" "received_payload rev r' = Inr p" by blast
  from transfer_integrity [OF demo_session_eq w(2,3) refl] have "length p = 5" by simp
  with w show ?thesis by blast
qed

end
