(* ===== verification/Cluster.thy ===== *)
theory Cluster
  imports Snapshot_Transfer
begin

text \<open>
  The coordinator of an in-process cluster, \<open>ClusterStorage\<close> in
  \<open>src/src/megacache/cluster.py\<close>: its state, membership and leadership, leases, the replica
  catalogue and the read path. Writes are in \<open>Cluster_Write\<close>.

  \<^item> Every node holds a cache engine. A backend may also fail in ways the engine does not:
    \<open>cn_faults\<close> says which calls on the node raise an exception that is neither a
    \<open>ValueError\<close> nor a \<open>TypeError\<close>, before doing anything.
  \<^item> \<open>self._clock()\<close> is again a stream of readings, one per call.
  \<^item> Ring members are always known nodes (this is proved), so \<open>self._nodes[node_id]\<close> never
    raises for them and \<open>healthy\<close> is simply false for an unknown node.
  \<^item> Loops over Python sets take the elements in sorted order.
\<close>

section \<open>State\<close>

datatype node_status = Active | Joining | Draining | Down | Drained | Removing | Removed

record cnode =
  cn_storage :: engine
  cn_status :: node_status
  cn_heartbeat :: real
  cn_incarnation :: int
  cn_faults :: "nat \<Rightarrow> bool"
  cn_calls :: nat

record replica_metadata =
  md_version :: version_stamp
  md_deleted :: bool
  md_tags :: "pystr list"

record cluster_lease =
  cl_token :: pystr
  cl_until :: real
  cl_fence :: fence_token

record cluster =
  c_sha :: "bytes \<Rightarrow> bytes"
  c_clock :: "nat \<Rightarrow> real"
  c_ticks :: nat
  c_nodes :: "(pystr \<times> cnode) list"
  c_replica_count :: int
  c_virtual_nodes :: int
  c_consistency :: profile
  c_heartbeat_timeout :: real
  c_lease_seconds :: int
  c_snapshot_limit :: int
  c_snapshot_chunk :: int
  c_snapshot_in_flight :: int
  c_max_leases :: int
  c_max_lease_memory :: int
  c_max_tombstones :: int
  c_max_hot :: int
  c_ring :: ring
  c_leader :: pystr
  c_term :: int
  c_sequence :: int
  c_metadata :: "pystr \<Rightarrow> pystr \<rightharpoonup> replica_metadata"
  c_known :: "pystr set"
  c_catalog :: "pystr set"
  c_hot :: "pystr \<rightharpoonup> pystr set"
  c_watermark :: "version_stamp option"
  c_key_tags :: "pystr \<rightharpoonup> pystr list"
  c_tag_keys :: "pystr \<rightharpoonup> pystr set"
  c_leases :: "(pystr \<times> cluster_lease) list"
  c_lease_bytes :: int
  c_metrics :: "string \<Rightarrow> int"

type_synonym 'a cres = "(cluster_error, 'a, cluster) res"

record cluster_config =
  cf_replica_count :: int
  cf_virtual_nodes :: int
  cf_consistency :: "profile + pyval"
  cf_heartbeat_timeout :: pyfloat
  cf_lease_seconds :: int
  cf_snapshot_limit :: int
  cf_snapshot_chunk :: int
  cf_snapshot_in_flight :: int
  cf_max_leases :: int
  cf_max_lease_memory :: int
  cf_max_tombstones :: int
  cf_max_hot :: int

definition make_node :: "pystr \<Rightarrow> engine \<Rightarrow> node_status \<Rightarrow> real \<Rightarrow> int \<Rightarrow> (nat \<Rightarrow> bool) \<Rightarrow> cluster_error + pystr \<times> cnode" where
  "make_node node_id st status heartbeat incarnation faults =
     (case node_identity node_id of Inl e \<Rightarrow> Inl e
      | Inr _ \<Rightarrow>
          (if incarnation \<le> 0 then Inl BadIncarnation
           else Inr (node_id, \<lparr>cn_storage = st, cn_status = status, cn_heartbeat = heartbeat,
                  cn_incarnation = incarnation, cn_faults = faults, cn_calls = 0\<rparr>)))"

definition ring_status :: "node_status \<Rightarrow> bool" where
  "ring_status st \<longleftrightarrow> st = Active \<or> st = Draining \<or> st = Down"

definition make_cluster ::
  "(bytes \<Rightarrow> bytes) \<Rightarrow> (nat \<Rightarrow> real) \<Rightarrow> (pystr \<times> cnode) list \<Rightarrow> cluster_config \<Rightarrow> cluster_error + cluster" where
  "make_cluster sha clk ns cf =
     (if ns = [] then Inl (BadClusterConfig ''a cluster requires at least one node'')
      else if cf_replica_count cf \<le> 0 then Inl (BadClusterConfig ''replica_count must be greater than zero'')
      else case cf_heartbeat_timeout cf of
        PInf \<Rightarrow> Inl (BadClusterConfig ''cluster timeouts must be greater than zero'')
      | Fin timeout \<Rightarrow>
      (if timeout \<le> 0 \<or> cf_lease_seconds cf \<le> 0
       then Inl (BadClusterConfig ''cluster timeouts must be greater than zero'')
       else if cf_snapshot_limit cf \<le> 0 \<or> cf_snapshot_chunk cf \<le> 0 \<or> cf_snapshot_in_flight cf \<le> 0
         \<or> cf_max_leases cf \<le> 0 \<or> cf_max_lease_memory cf \<le> 0 \<or> cf_max_tombstones cf \<le> 0 \<or> cf_max_hot cf \<le> 0
       then Inl (BadClusterConfig ''cluster capacity limits must be greater than zero'')
       else if cf_snapshot_chunk cf > cf_snapshot_limit cf
       then Inl (BadClusterConfig ''snapshot chunk size cannot exceed the payload limit'')
       else if \<not> od_distinct ns then Inl DuplicateNode
       else
         (let now = clk 0;
              nodes = map (\<lambda>(i, n). (i, n\<lparr>cn_heartbeat := now\<rparr>)) ns;
              ring_nodes = map fst (filter (\<lambda>(i, n). ring_status (cn_status n)) nodes)
          in if ring_nodes = [] then Inl (BadClusterConfig ''a cluster requires an active ring member'')
             else case parse_profile (cf_consistency cf) of Inl e \<Rightarrow> Inl e
               | Inr prof \<Rightarrow>
             (case make_ring sha ring_nodes (cf_virtual_nodes cf) 1 of Inl e \<Rightarrow> Inl e
              | Inr rg \<Rightarrow>
                  (let up = sort (map fst (filter (\<lambda>(i, n). ring_status (cn_status n) \<and> cn_status n \<noteq> Down) nodes))
                   in if up = [] then Inl (BadClusterConfig ''a cluster requires a healthy node'')
                      else Inr \<lparr>c_sha = sha, c_clock = clk, c_ticks = 1, c_nodes = nodes,
                        c_replica_count = cf_replica_count cf, c_virtual_nodes = cf_virtual_nodes cf,
                        c_consistency = prof, c_heartbeat_timeout = timeout,
                        c_lease_seconds = cf_lease_seconds cf, c_snapshot_limit = cf_snapshot_limit cf,
                        c_snapshot_chunk = cf_snapshot_chunk cf,
                        c_snapshot_in_flight = cf_snapshot_in_flight cf,
                        c_max_leases = cf_max_leases cf, c_max_lease_memory = cf_max_lease_memory cf,
                        c_max_tombstones = cf_max_tombstones cf, c_max_hot = cf_max_hot cf,
                        c_ring = rg, c_leader = hd up, c_term = 1, c_sequence = 0,
                        c_metadata = (\<lambda>_. Map.empty), c_known = {}, c_catalog = {},
                        c_hot = Map.empty, c_watermark = None, c_key_tags = Map.empty,
                        c_tag_keys = Map.empty, c_leases = [], c_lease_bytes = 0,
                        c_metrics = (\<lambda>_. 0)\<rparr>)))))"

section \<open>Access to nodes\<close>

definition c_now :: "cluster \<Rightarrow> real" where
  "c_now s = c_clock s (c_ticks s)"

definition c_tick :: "cluster \<Rightarrow> cluster" where
  "c_tick s = s\<lparr>c_ticks := Suc (c_ticks s)\<rparr>"

definition c_count :: "string \<Rightarrow> int \<Rightarrow> cluster \<Rightarrow> cluster" where
  "c_count name n s = s\<lparr>c_metrics := bump name n (c_metrics s)\<rparr>"

definition set_node :: "pystr \<Rightarrow> cnode \<Rightarrow> cluster \<Rightarrow> cluster" where
  "set_node i n s = s\<lparr>c_nodes := AList.update i n (c_nodes s)\<rparr>"

definition find_node :: "pystr \<Rightarrow> cluster \<Rightarrow> cluster_error + cnode" where
  "find_node i s = (case map_of (c_nodes s) i of None \<Rightarrow> Inl UnknownNode | Some n \<Rightarrow> Inr n)"

text \<open>A call on the engine of a node that cannot fail otherwise (checkpoints).\<close>

definition on_engine :: "pystr \<Rightarrow> (engine \<Rightarrow> 'a eres) \<Rightarrow> cluster \<Rightarrow> 'a cres" where
  "on_engine i op s =
     (case map_of (c_nodes s) i of
        None \<Rightarrow> (Inl UnknownNode, s)
      | Some n \<Rightarrow>
          (case op (cn_storage n) of
             (Inl e, st) \<Rightarrow> (Inl (Storage e), set_node i (n\<lparr>cn_storage := st\<rparr>) s)
           | (Inr a, st) \<Rightarrow> (Inr a, set_node i (n\<lparr>cn_storage := st\<rparr>) s)))"

text \<open>A call on the backend of a node, which may also fail.\<close>

definition on_node :: "pystr \<Rightarrow> (engine \<Rightarrow> 'a eres) \<Rightarrow> cluster \<Rightarrow> 'a cres" where
  "on_node i op s =
     (case map_of (c_nodes s) i of
        None \<Rightarrow> (Inl UnknownNode, s)
      | Some n \<Rightarrow>
          (let s1 = set_node i (n\<lparr>cn_calls := Suc (cn_calls n)\<rparr>) s
           in if cn_faults n (cn_calls n) then (Inl BackendFault, s1) else on_engine i op s1))"

definition total :: "(engine \<Rightarrow> 'a \<times> engine) \<Rightarrow> engine \<Rightarrow> 'a eres" where
  "total op st = (case op st of (a, st') \<Rightarrow> (Inr a, st'))"

text \<open>\<open>except (ValueError, TypeError)\<close> and \<open>except Exception\<close>.\<close>

fun value_error :: "cluster_error \<Rightarrow> bool" where
  "value_error BackendFault = False"
| "value_error (Storage MutationActive) = False"
| "value_error (Storage NoVictim) = False"
| "value_error (Storage KeyMissing) = False"
| "value_error _ = True"

section \<open>Health and leadership\<close>

definition serving :: "node_status \<Rightarrow> bool" where
  "serving st \<longleftrightarrow> st = Active \<or> st = Joining \<or> st = Draining"

definition healthy :: "pystr \<Rightarrow> cluster \<Rightarrow> bool \<times> cluster" where
  "healthy i s =
     (case map_of (c_nodes s) i of
        None \<Rightarrow> (False, s)
      | Some n \<Rightarrow>
          (if serving (cn_status n)
           then (c_now s - cn_heartbeat n \<le> c_heartbeat_timeout s, c_tick s) else (False, s)))"

fun available_owners :: "pystr list \<Rightarrow> cluster \<Rightarrow> pystr list \<times> cluster" where
  "available_owners [] s = ([], s)"
| "available_owners (i # is) s =
     (let (up, s1) = healthy i s; (rest, s2) = available_owners is s1
      in (if up then i # rest else rest, s2))"

definition fence_of :: "cluster \<Rightarrow> fence_token" where
  "fence_of s = FenceToken (c_term s) (c_leader s)"

definition elect_leader :: "cluster \<Rightarrow> cluster" where
  "elect_leader s =
     (let (up, s1) = available_owners (node_ids (c_ring s)) s; candidates = sort up
      in if c_leader s1 \<in> set candidates then s1
         else c_count ''leadership_changes_total'' 1
           (s1\<lparr>c_term := c_term s1 + 1, c_leases := [], c_lease_bytes := 0,
               c_leader := (if candidates = [] then c_leader s1 else hd candidates)\<rparr>))"

definition expired_heartbeat :: "real \<Rightarrow> cluster \<Rightarrow> cnode \<Rightarrow> bool" where
  "expired_heartbeat now s n \<longleftrightarrow> serving (cn_status n) \<and> now - cn_heartbeat n > c_heartbeat_timeout s"

definition detect_failures :: "cluster \<Rightarrow> pystr list \<times> cluster" where
  "detect_failures s =
     (let now = c_now s; s1 = c_tick s;
          failed = map fst (filter (\<lambda>(i, n). expired_heartbeat now s n) (c_nodes s));
          s2 = c_count ''node_failures_total'' (int (length failed))
                 (s1\<lparr>c_nodes := map (\<lambda>(i, n). (i, if expired_heartbeat now s n then n\<lparr>cn_status := Down\<rparr> else n))
                       (c_nodes s1)\<rparr>)
      in (sort failed, if failed = [] then s2 else elect_leader s2))"

definition assert_fence :: "fence_token \<Rightarrow> cluster \<Rightarrow> unit cres" where
  "assert_fence f s = (if f \<noteq> fence_of s then (Inl Fence, s) else (Inr (), s))"

definition leadership :: "cluster \<Rightarrow> fence_token \<times> cluster" where
  "leadership s = (let s1 = snd (detect_failures s) in (fence_of s1, s1))"

section \<open>Leases\<close>

definition lease_footprint :: "pystr \<Rightarrow> pystr \<Rightarrow> cluster_error + int" where
  "lease_footprint key tok =
     (case utf8_len key of None \<Rightarrow> Inl (Storage UnicodeEncodeError)
      | Some n \<Rightarrow> Inr (n + int (length tok) + 96))"

text \<open>Removing a lease cannot fail: its key was encoded when the lease was granted.\<close>

definition drop_lease :: "pystr \<Rightarrow> cluster \<Rightarrow> bool \<times> cluster" where
  "drop_lease key s =
     (case map_of (c_leases s) key of
        None \<Rightarrow> (False, s)
      | Some l \<Rightarrow>
          (True, s\<lparr>c_leases := AList.delete key (c_leases s),
                   c_lease_bytes := c_lease_bytes s
                     - (case lease_footprint key (cl_token l) of Inl _ \<Rightarrow> 0 | Inr n \<Rightarrow> n)\<rparr>))"

definition purge_leases :: "real \<Rightarrow> cluster \<Rightarrow> cluster" where
  "purge_leases now s =
     fold (\<lambda>(key, l) s'. if cl_until l \<le> now then snd (drop_lease key s') else s') (c_leases s) s"

definition validate_lease :: "pystr \<Rightarrow> pystr \<Rightarrow> cluster \<Rightarrow> unit cres" where
  "validate_lease key tok s =
     (let now = c_now s; s1 = c_tick s in
      case map_of (c_leases s1) key of
        None \<Rightarrow> (Inl LeaseExpired, snd (drop_lease key s1))
      | Some l \<Rightarrow>
          (if cl_until l \<le> now then (Inl LeaseExpired, snd (drop_lease key s1))
           else bind_res (assert_fence (cl_fence l) s1) (\<lambda>_ s2.
             case compare_digest (cl_token l) tok of
               Inl e \<Rightarrow> (Inl (Storage e), s2)
             | Inr False \<Rightarrow> (Inl LeaseToken, s2)
             | Inr True \<Rightarrow> (Inr (), s2))))"

section \<open>Catalogue of replicas\<close>

definition next_version :: "cluster \<Rightarrow> version_stamp \<times> cluster" where
  "next_version s =
     (let s1 = s\<lparr>c_sequence := c_sequence s + 1\<rparr>
      in (VersionStamp (c_term s1) (c_sequence s1) (c_leader s1), s1))"

definition set_metadata :: "pystr \<Rightarrow> pystr \<Rightarrow> replica_metadata option \<Rightarrow> cluster \<Rightarrow> cluster" where
  "set_metadata i key md s =
     s\<lparr>c_metadata := (c_metadata s)(i := (c_metadata s i)(key := md))\<rparr>"

text \<open>\<open>max(values, key=...)\<close>: the first of the largest.\<close>

fun max_first :: "('a \<Rightarrow> 'b::linorder) \<Rightarrow> 'a \<Rightarrow> 'a list \<Rightarrow> 'a" where
  "max_first k best [] = best"
| "max_first k best (x # xs) = max_first k (if k best < k x then x else best) xs"

definition latest_metadata :: "pystr \<Rightarrow> cluster \<Rightarrow> replica_metadata option" where
  "latest_metadata key s =
     (case List.map_filter (\<lambda>i. c_metadata s i key) (od_keys (c_nodes s)) of
        [] \<Rightarrow> None
      | v # vs \<Rightarrow> Some (max_first md_version v vs))"

definition exported :: "pystr \<Rightarrow> pystr \<Rightarrow> cluster \<Rightarrow> storage_entry list cres" where
  "exported i key s = on_node i (total (export_entries (Some [key]))) s"

definition node_has_record :: "pystr \<Rightarrow> pystr \<Rightarrow> replica_metadata \<Rightarrow> cluster \<Rightarrow> bool cres" where
  "node_has_record i key expected s =
     (case c_metadata s i key of
        None \<Rightarrow> (Inr False, s)
      | Some md \<Rightarrow>
          (if md_version md \<noteq> md_version expected then (Inr False, s)
           else bind_res (exported i key s) (\<lambda>es s1.
             (Inr (if md_deleted md then es = [] else es \<noteq> []), s1))))"

definition replace_key_tags :: "pystr \<Rightarrow> pystr list \<Rightarrow> cluster \<Rightarrow> cluster" where
  "replace_key_tags key ts s =
     (let old = (case c_key_tags s key of None \<Rightarrow> [] | Some ts' \<Rightarrow> ts');
          normalized = sort (remdups ts)
      in s\<lparr>c_tag_keys := tag_all key normalized (untag key old (c_tag_keys s)),
           c_key_tags := (c_key_tags s)(key := (if normalized = [] then None else Some normalized))\<rparr>)"

definition ring_owners :: "pystr \<Rightarrow> cluster \<Rightarrow> pystr list cres" where
  "ring_owners key s = (owners (c_sha s) (c_ring s) key (c_replica_count s), s)"

fun all_hold :: "pystr list \<Rightarrow> pystr \<Rightarrow> replica_metadata \<Rightarrow> cluster \<Rightarrow> bool cres" where
  "all_hold [] key expected s = (Inr True, s)"
| "all_hold (i # is) key expected s =
     (let (up, s1) = healthy i s in
      if \<not> up then (Inr False, s1)
      else bind_res (node_has_record i key expected s1) (\<lambda>b s2.
        if b then all_hold is key expected s2 else (Inr False, s2)))"

definition collect_tombstone :: "pystr \<Rightarrow> version_stamp \<Rightarrow> cluster \<Rightarrow> cluster" where
  "collect_tombstone key v s =
     (let s1 = s\<lparr>c_metadata := (\<lambda>i. (c_metadata s i)(key := None)),
                 c_watermark := (case c_watermark s of
                     None \<Rightarrow> Some v | Some w \<Rightarrow> Some (if v > w then v else w)),
                 c_catalog := c_catalog s - {key}, c_known := c_known s - {key}\<rparr>
      in snd (drop_lease key (replace_key_tags key [] s1)))"

definition gc_one :: "pystr \<Rightarrow> cluster \<Rightarrow> int cres" where
  "gc_one key s =
     (case latest_metadata key s of
        None \<Rightarrow> (Inr 0, s)
      | Some latest \<Rightarrow>
          (if \<not> md_deleted latest then (Inr 0, s)
           else bind_res (ring_owners key s) (\<lambda>os s1.
             bind_res (all_hold os key latest s1) (\<lambda>all s2.
               if all then (Inr 1, collect_tombstone key (md_version latest) s2) else (Inr 0, s2)))))"

definition gc_tombstones :: "pystr list option \<Rightarrow> cluster \<Rightarrow> int cres" where
  "gc_tombstones ks s =
     (let selected = (case ks of None \<Rightarrow> sorted_list_of_set (c_catalog s) | Some ks' \<Rightarrow> rev (remdups (rev ks')))
      in bind_res (fold_res gc_one selected s) (\<lambda>ns s1.
           let removed = sum_list ns
           in (Inr removed, if removed \<noteq> 0 then c_count ''tombstones_collected_total'' removed s1 else s1)))"

definition tombstone_count :: "cluster \<Rightarrow> int" where
  "tombstone_count s =
     int (card {key \<in> c_catalog s. \<exists>md. latest_metadata key s = Some md \<and> md_deleted md})"

section \<open>Membership calls\<close>

definition new_incarnation :: "int option \<Rightarrow> cnode \<Rightarrow> cluster_error + cnode" where
  "new_incarnation incarnation n =
     (case incarnation of
        None \<Rightarrow> Inr n
      | Some inc \<Rightarrow> (if inc < cn_incarnation n then Inl StaleIncarnation else Inr (n\<lparr>cn_incarnation := inc\<rparr>)))"

definition heartbeat :: "pystr \<Rightarrow> int option \<Rightarrow> cluster \<Rightarrow> unit cres" where
  "heartbeat i incarnation s =
     (case find_node i s of Inl e \<Rightarrow> (Inl e, s)
      | Inr n \<Rightarrow>
     (case new_incarnation incarnation n of Inl e \<Rightarrow> (Inl e, s)
      | Inr n1 \<Rightarrow>
          (let n2 = n1\<lparr>cn_heartbeat := c_now s,
                 cn_status := (if cn_status n1 = Down
                    then (if i \<in> set (node_ids (c_ring s)) then Active else Joining) else cn_status n1)\<rparr>;
               s1 = elect_leader (c_count ''heartbeats_total'' 1 (set_node i n2 (c_tick s)))
           in bind_res (gc_tombstones None s1) (\<lambda>_ s2. (Inr (), s2)))))"

definition mark_node_down :: "pystr \<Rightarrow> cluster \<Rightarrow> unit cres" where
  "mark_node_down i s =
     (case find_node i s of Inl e \<Rightarrow> (Inl e, s)
      | Inr n \<Rightarrow>
          (Inr (), elect_leader (c_count ''node_failures_total'' 1 (set_node i (n\<lparr>cn_status := Down\<rparr>) s))))"

section \<open>Reads\<close>

type_synonym response = "pystr \<times> cache_result \<times> replica_metadata option"

definition attempt :: "string \<Rightarrow> 'a cres \<Rightarrow> cluster" where
  "attempt metric r = (case r of (Inr _, s) \<Rightarrow> s | (Inl _, s) \<Rightarrow> c_count metric 1 s)"

definition prune_hot_replica :: "pystr \<Rightarrow> pystr \<Rightarrow> cluster \<Rightarrow> cluster" where
  "prune_hot_replica key i s =
     (let s1 = (case c_hot s key of None \<Rightarrow> s
                | Some replicas \<Rightarrow>
                    s\<lparr>c_hot := (c_hot s)(key := (if replicas - {i} = {} then None else Some (replicas - {i})))\<rparr>);
          s2 = set_metadata i key None s1
      in attempt ''hot_replication_errors_total'' (on_node i (delete key) s2))"

text \<open>The loop over the hot replicas of a key: stale or unhealthy ones are pruned.\<close>

fun hot_responses :: "pystr list \<Rightarrow> pystr \<Rightarrow> replica_metadata option \<Rightarrow> cluster \<Rightarrow> response list cres" where
  "hot_responses [] key latest s = (Inr [], s)"
| "hot_responses (i # is) key latest s =
     (let md = c_metadata s i key; (up, s1) = healthy i s in
      if \<not> up \<or> latest = None \<or> md \<noteq> latest \<or> md_deleted (the md)
      then hot_responses is key latest (prune_hot_replica key i s1)
      else case on_node i (get key) s1 of
          (Inl e, s2) \<Rightarrow> (if value_error e then hot_responses is key latest s2 else (Inl e, s2))
        | (Inr r, s2) \<Rightarrow>
            (if state r = Miss then hot_responses is key latest (prune_hot_replica key i s2)
             else bind_res (hot_responses is key latest s2) (\<lambda>rs s3. (Inr ((i, r, md) # rs), s3))))"

text \<open>The loop over the available owners; the profile \<open>one\<close> stops at the first answer.\<close>

fun owner_responses :: "profile \<Rightarrow> pystr list \<Rightarrow> pystr \<Rightarrow> cluster \<Rightarrow> response list cres" where
  "owner_responses p [] key s = (Inr [], s)"
| "owner_responses p (i # is) key s =
     (case on_node i (get key) s of
        (Inl e, s1) \<Rightarrow> (if value_error e then owner_responses p is key s1 else (Inl e, s1))
      | (Inr r, s1) \<Rightarrow>
          (let answer = (i, r, c_metadata s1 i key) in
           if p = ProfileOne then (Inr [answer], s1)
           else bind_res (owner_responses p is key s1) (\<lambda>rs s2. (Inr (answer # rs), s2))))"

definition response_rank :: "response \<Rightarrow> version_stamp \<times> int" where
  "response_rank x =
     (case x of (i, r, md) \<Rightarrow>
        ((case md of None \<Rightarrow> VersionStamp 0 0 i | Some m \<Rightarrow> md_version m),
         (if (\<exists>m. md = Some m \<and> md_deleted m) then 2 else if state r \<noteq> Miss then 1 else 0)))"

definition needs_repair :: "replica_metadata \<Rightarrow> response \<Rightarrow> bool" where
  "needs_repair wm x =
     (case x of (i, r, md) \<Rightarrow>
        (case md of
           None \<Rightarrow> True
         | Some m \<Rightarrow>
             \<not> md_version m > md_version wm \<and>
             \<not> (md_version m = md_version wm \<and>
                (md_deleted wm \<and> state r = Miss \<or> \<not> md_deleted wm \<and> state r \<noteq> Miss))))"

fun repair_loop ::
  "pystr \<Rightarrow> pystr \<Rightarrow> replica_metadata \<Rightarrow> storage_entry option \<Rightarrow> response list \<Rightarrow> cluster \<Rightarrow> unit cres" where
  "repair_loop key wid wm entry [] s = (Inr (), s)"
| "repair_loop key wid wm entry (x # xs) s =
     (if fst x = wid \<or> \<not> needs_repair wm x then repair_loop key wid wm entry xs s
      else
        (let i = fst x;
             r = (case entry of
                    None \<Rightarrow> (case on_node i (delete key) s of (Inl e, s1) \<Rightarrow> (Inl e, s1) | (Inr _, s1) \<Rightarrow> (Inr (), s1))
                  | Some e \<Rightarrow> (case on_node i (restore_entries [e]) s of (Inl e, s1) \<Rightarrow> (Inl e, s1) | (Inr _, s1) \<Rightarrow> (Inr (), s1)))
         in case r of
              (Inr _, s1) \<Rightarrow>
                repair_loop key wid wm entry xs
                  (c_count ''read_repairs_total'' 1 (set_metadata i key (Some wm) s1))
            | (Inl e, s1) \<Rightarrow>
                (if value_error e then repair_loop key wid wm entry xs (c_count ''read_repair_errors_total'' 1 s1)
                 else (Inl e, s1))))"

definition read_repair :: "pystr \<Rightarrow> response \<Rightarrow> response list \<Rightarrow> cluster \<Rightarrow> unit cres" where
  "read_repair key winner responses s =
     (case winner of (wid, wr, wmd) \<Rightarrow>
        (case wmd of
           None \<Rightarrow> (Inr (), s)
         | Some wm \<Rightarrow>
             bind_res (if \<not> md_deleted wm \<and> state wr \<noteq> Miss
                       then (case exported wid key s of (Inl e, s1) \<Rightarrow> (Inl e, s1)
                             | (Inr es, s1) \<Rightarrow> (Inr (if es = [] then None else Some (hd es)), s1))
                       else (Inr None, s))
               (\<lambda>entry s1. repair_loop key wid wm entry responses s1)))"

definition read_locked ::
  "pystr \<Rightarrow> profile \<Rightarrow> cluster \<Rightarrow> (cache_result \<times> pystr \<times> replica_metadata option) cres" where
  "read_locked key p s =
     (let s1 = snd (detect_failures s) in
      bind_res (ring_owners key s1) (\<lambda>os s2.
      let (avail, s3) = available_owners os s2 in
      bind_res (lift_sum (required p (int (length os))) s3) (\<lambda>req s4.
      if int (length avail) < req then (Inl (Quorum ''read'' req (int (length avail))), s4)
      else
        bind_res (hot_responses (sorted_list_of_set (case c_hot s4 key of None \<Rightarrow> {} | Some hs \<Rightarrow> hs)) key
            (latest_metadata key s4) s4) (\<lambda>hot s5.
        bind_res (owner_responses p avail key s5) (\<lambda>own s6.
        if int (length own) < req then (Inl (Quorum ''read'' req (int (length own))), s6)
        else case hot @ own of
            [] \<Rightarrow> (Inl (Quorum ''read'' req 0), s6)
          | x # xs \<Rightarrow>
              (let winner = max_first response_rank x xs;
                   (wid, wr, wmd) = winner;
                   result = (if (\<exists>m. wmd = Some m \<and> md_deleted m) then result_of Miss else wr)
               in bind_res (if p \<noteq> ProfileOne
                            then bind_res (read_repair key winner (x # xs) s6) (\<lambda>_ s7.
                                   bind_res (gc_tombstones (Some [key]) s7) (\<lambda>_ s8. (Inr (), s8)))
                            else (Inr (), s6))
                    (\<lambda>_ s9. (Inr (result, wid, wmd),
                       if state result = Miss \<and> p \<noteq> ProfileOne
                       then replace_key_tags key [] (s9\<lparr>c_known := c_known s9 - {key}\<rparr>) else s9))))))))"

definition select_profile :: "(profile + pyval) option \<Rightarrow> cluster \<Rightarrow> cluster_error + profile" where
  "select_profile c s = (case c of None \<Rightarrow> Inr (c_consistency s) | Some v \<Rightarrow> parse_profile v)"

definition check_key :: "pystr \<Rightarrow> cluster \<Rightarrow> unit cres" where
  "check_key key s = (case validate_key key of Inl e \<Rightarrow> (Inl (Storage e), s) | Inr _ \<Rightarrow> (Inr (), s))"

definition cluster_get :: "pystr \<Rightarrow> (profile + pyval) option \<Rightarrow> cluster \<Rightarrow> cache_result cres" where
  "cluster_get key c s =
     bind_res (check_key key s) (\<lambda>_ s1.
     bind_res (lift_sum (select_profile c s1) s1) (\<lambda>p s2.
     bind_res (read_locked key p s2) (\<lambda>(r, _, _) s3. (Inr r, s3))))"

definition cluster_mget :: "pystr list \<Rightarrow> cluster \<Rightarrow> cache_result list cres" where
  "cluster_mget ks s = fold_res (\<lambda>key. cluster_get key None) ks s"

definition cluster_exists :: "pystr list \<Rightarrow> cluster \<Rightarrow> int cres" where
  "cluster_exists ks s =
     bind_res (cluster_mget ks s) (\<lambda>rs s1. (Inr (int (length (filter (\<lambda>r. state r \<noteq> Miss) rs))), s1))"

definition cluster_ttl :: "pystr \<Rightarrow> cluster \<Rightarrow> int cres" where
  "cluster_ttl key s =
     bind_res (read_locked key (c_consistency s) s) (\<lambda>(r, i, _) s1.
       if state r = Miss then (Inr (-2), s1) else on_node i (ttl key) s1)"

definition cluster_size :: "cluster \<Rightarrow> int cres" where
  "cluster_size s = cluster_exists (sorted_list_of_set (c_known s)) s"

definition cluster_keys :: "cluster \<Rightarrow> pystr list cres" where
  "cluster_keys s =
     (let ks = sorted_list_of_set (c_known s)
      in bind_res (cluster_mget ks s) (\<lambda>rs s1.
           (Inr (map fst (filter (\<lambda>(k, r). state r \<noteq> Miss) (zip ks rs))), s1)))"

fun export_selected :: "pystr list \<Rightarrow> cluster \<Rightarrow> storage_entry list cres" where
  "export_selected [] s = (Inr [], s)"
| "export_selected (key # ks) s =
     bind_res (read_locked key (c_consistency s) s) (\<lambda>(r, i, _) s1.
     bind_res (if state r = Miss then (Inr [], s1) else exported i key s1) (\<lambda>es s2.
     bind_res (export_selected ks s2) (\<lambda>rest s3. (Inr ((if es = [] then [] else [hd es]) @ rest), s3))))"

definition cluster_export_entries :: "pystr list option \<Rightarrow> cluster \<Rightarrow> storage_entry list cres" where
  "cluster_export_entries ks s =
     bind_res (case ks of None \<Rightarrow> cluster_keys s | Some ks' \<Rightarrow> (Inr ks', s)) (\<lambda>sel s1. export_selected sel s1)"

end
