(* ===== verification/Cluster_Write.thy ===== *)
theory Cluster_Write
  imports Cluster
begin

text \<open>
  The write paths of \<open>ClusterStorage\<close> (\<open>src/src/megacache/cluster.py\<close>): checkpoints of the
  backends, quorum writes and deletes, multi-key writes, restores, leases and hot replicas.
\<close>

section \<open>Backend checkpoints\<close>

datatype backend_checkpoint = NativeCheckpoint engine_checkpoint | MutationCheckpoint nat

type_synonym checkpoints = "(pystr \<times> backend_checkpoint) list"

definition prevalidate :: "pystr list \<Rightarrow> (engine \<Rightarrow> unit eres) \<Rightarrow> cluster \<Rightarrow> unit list cres" where
  "prevalidate is v s = fold_res (\<lambda>i. on_node i v) is s"

definition capture_native :: "pystr \<Rightarrow> cluster \<Rightarrow> (pystr \<times> backend_checkpoint) cres" where
  "capture_native i s =
     bind_res (on_engine i (\<lambda>st. (Inr (checkpoint st), st)) s) (\<lambda>cp s1. (Inr (i, NativeCheckpoint cp), s1))"

definition capture_backends :: "pystr list \<Rightarrow> cluster \<Rightarrow> checkpoints cres" where
  "capture_backends is s = fold_res capture_native is s"

definition restore_one :: "pystr \<times> backend_checkpoint \<Rightarrow> cluster \<Rightarrow> unit cres" where
  "restore_one icp s =
     (case icp of
        (i, MutationCheckpoint cp) \<Rightarrow> on_engine i (restore_mutation_checkpoint cp) s
      | (i, NativeCheckpoint cp) \<Rightarrow> on_engine i (\<lambda>st. (Inr (), restore_checkpoint cp st)) s)"

definition restore_backends :: "checkpoints \<Rightarrow> cluster \<Rightarrow> unit list cres" where
  "restore_backends cps s = fold_res restore_one cps s"

definition commit_one :: "pystr \<times> backend_checkpoint \<Rightarrow> cluster \<Rightarrow> unit cres" where
  "commit_one icp s =
     (case icp of
        (i, MutationCheckpoint cp) \<Rightarrow> on_engine i (commit_mutation_checkpoint cp) s
      | (i, NativeCheckpoint cp) \<Rightarrow> (Inr (), s))"

definition commit_backends :: "checkpoints \<Rightarrow> cluster \<Rightarrow> unit list cres" where
  "commit_backends cps s = fold_res commit_one cps s"

text \<open>One journal per node; when one cannot be opened the others are undone.\<close>

fun capture_loop :: "pystr list \<Rightarrow> pystr \<Rightarrow> checkpoints \<Rightarrow> cluster \<Rightarrow> checkpoints cres" where
  "capture_loop [] key cps s = (Inr cps, s)"
| "capture_loop (i # is) key cps s =
     (case on_engine i (begin_mutation_checkpoint key) s of
        (Inr cp, s1) \<Rightarrow> capture_loop is key (cps @ [(i, MutationCheckpoint cp)]) s1
      | (Inl e, s1) \<Rightarrow> bind_res (restore_backends cps s1) (\<lambda>_ s2. (Inl e, s2)))"

definition capture_mutations :: "pystr list \<Rightarrow> pystr list \<Rightarrow> cluster \<Rightarrow> checkpoints cres" where
  "capture_mutations is ks s =
     (if length ks \<noteq> 1 then capture_backends is s else capture_loop is (hd ks) [] s)"

section \<open>Quorum writes\<close>

definition put_metadata_back :: "pystr \<Rightarrow> (pystr \<Rightarrow> replica_metadata option) \<Rightarrow> pystr list \<Rightarrow> cluster \<Rightarrow> cluster" where
  "put_metadata_back key old is s = fold (\<lambda>i. set_metadata i key (old i)) is s"

text \<open>Undo of a failed write: backends, metadata of the key on the targets, sequence number.\<close>

definition undo_write ::
  "pystr \<Rightarrow> (pystr \<Rightarrow> replica_metadata option) \<Rightarrow> pystr list \<Rightarrow> int \<Rightarrow> checkpoints \<Rightarrow> cluster_error \<Rightarrow> cluster \<Rightarrow> 'a cres" where
  "undo_write key old is old_sequence cps e s =
     bind_res (restore_backends cps s) (\<lambda>_ s1.
       (Inl e, (put_metadata_back key old is s1)\<lparr>c_sequence := old_sequence\<rparr>))"

text \<open>
  The loop over the targets. A backend that rejects the write aborts it everywhere; one that
  fails is rolled back alone and the loop goes on without it.
\<close>

fun write_loop ::
  "(engine \<Rightarrow> cache_result eres) \<Rightarrow> pystr \<Rightarrow> replica_metadata \<Rightarrow> (pystr \<Rightarrow> replica_metadata option) \<Rightarrow>
   pystr list \<Rightarrow> int \<Rightarrow> pystr list \<Rightarrow> checkpoints \<Rightarrow> (pystr \<times> cache_result) list \<Rightarrow> cluster \<Rightarrow>
   (checkpoints \<times> (pystr \<times> cache_result) list) cres" where
  "write_loop w key md old targets oldseq [] cps done s = (Inr (cps, done), s)"
| "write_loop w key md old targets oldseq (i # is) cps done s =
     (case on_node i w s of
        (Inr r, s1) \<Rightarrow>
          write_loop w key md old targets oldseq is cps (done @ [(i, r)]) (set_metadata i key (Some md) s1)
      | (Inl e, s1) \<Rightarrow>
          bind_res (restore_backends (filter (\<lambda>icp. fst icp = i) cps) s1) (\<lambda>_ s2.
            let s3 = set_metadata i key (old i) s2; cps' = AList.delete i cps in
            if value_error e then undo_write key old targets oldseq cps' e s3
            else write_loop w key md old targets oldseq is cps' done s3))"

definition replicate_put ::
  "pystr \<Rightarrow> pyval \<Rightarrow> pyval \<Rightarrow> pyval \<Rightarrow> pystr list \<Rightarrow> bool \<Rightarrow> profile \<Rightarrow> cluster \<Rightarrow> cache_result cres" where
  "replicate_put key v ttl_s stale_s ts persistent p s =
     bind_res (ring_owners key s) (\<lambda>os s1.
     let (avail, s2) = available_owners os s1; tv = PTuple (map PStr ts) in
     bind_res (lift_sum (required p (int (length os))) s2) (\<lambda>req s3.
     if int (length avail) < req then (Inl (Quorum ''write'' req (int (length avail))), s3)
     else
       bind_res (prevalidate avail (validate_put key v ttl_s stale_s tv None persistent) s3) (\<lambda>_ s4.
       bind_res (capture_mutations avail [key] s4) (\<lambda>cps s5.
       let old = (\<lambda>i. c_metadata s5 i key); oldseq = c_sequence s5; (ver, s6) = next_version s5;
           md = \<lparr>md_version = ver, md_deleted = False, md_tags = sort (remdups ts)\<rparr> in
       bind_res (write_loop (put key v ttl_s stale_s tv None persistent) key md old avail oldseq avail cps [] s6)
         (\<lambda>(cps', done) s7.
           if int (length done) < req
           then undo_write key old avail oldseq cps' (Quorum ''write'' req (int (length done))) s7
           else bind_res (commit_backends cps' s7) (\<lambda>_ s8.
             (Inr (snd (hd done)), c_count ''replicated_writes_total'' 1 s8)))))))"

definition cluster_put ::
  "pystr \<Rightarrow> pyval \<Rightarrow> pyval \<Rightarrow> pyval \<Rightarrow> pyval \<Rightarrow> pystr option \<Rightarrow> bool \<Rightarrow> (profile + pyval) option \<Rightarrow>
   fence_token option \<Rightarrow> cluster \<Rightarrow> cache_result cres" where
  "cluster_put key v ttl_s stale_s ts tok persistent c fence s =
     bind_res (check_key key s) (\<lambda>_ s1.
     case normalize_tags ts of Inl e \<Rightarrow> (Inl (Storage e), s1)
     | Inr nts \<Rightarrow>
         (let s2 = snd (detect_failures s1);
              selected = (case fence of None \<Rightarrow> fence_of s2 | Some f \<Rightarrow> f) in
          bind_res (assert_fence selected s2) (\<lambda>_ s3.
          bind_res (case tok of None \<Rightarrow> (Inr (), s3) | Some t \<Rightarrow> validate_lease key t s3) (\<lambda>_ s4.
          bind_res (lift_sum (select_profile c s4) s4) (\<lambda>p s5.
          bind_res (replicate_put key v ttl_s stale_s nts persistent p s5) (\<lambda>r s6.
            (Inr r, (replace_key_tags key nts (snd (drop_lease key s6)))
                      \<lparr>c_known := insert key (c_known s6), c_catalog := insert key (c_catalog s6)\<rparr>)))))))"

section \<open>Multi-key writes\<close>

text \<open>What \<open>mset\<close>, deletes and restores put back when they fail.\<close>

definition put_catalog_back :: "cluster \<Rightarrow> cluster \<Rightarrow> cluster" where
  "put_catalog_back old s =
     s\<lparr>c_sequence := c_sequence old, c_known := c_known old, c_catalog := c_catalog old,
       c_key_tags := c_key_tags old, c_tag_keys := c_tag_keys old, c_metrics := c_metrics old\<rparr>"

definition put_leases_back :: "cluster \<Rightarrow> cluster \<Rightarrow> cluster" where
  "put_leases_back old s = s\<lparr>c_leases := c_leases old, c_lease_bytes := c_lease_bytes old\<rparr>"

definition mset_availability :: "pystr \<times> pyval \<Rightarrow> cluster \<Rightarrow> pystr list cres" where
  "mset_availability kv s =
     (let (key, v) = kv in
      bind_res (check_key key s) (\<lambda>_ s1.
      bind_res (ring_owners key s1) (\<lambda>os s2.
      let (avail, s3) = available_owners os s2 in
      bind_res (lift_sum (required (c_consistency s3) (int (length os))) s3) (\<lambda>req s4.
      if int (length avail) < req then (Inl (Quorum ''write'' req (int (length avail))), s4)
      else bind_res (prevalidate avail (validate_put key v PNone PNone (PTuple []) None True) s4)
             (\<lambda>_ s5. (Inr avail, s5))))))"

definition mset_one :: "pystr \<times> pyval \<Rightarrow> cluster \<Rightarrow> unit cres" where
  "mset_one kv s =
     (let (key, v) = kv in
      bind_res (replicate_put key v PNone PNone [] True (c_consistency s) s) (\<lambda>_ s1.
        let s2 = replace_key_tags key [] s1;
            s3 = s2\<lparr>c_known := insert key (c_known s2), c_catalog := insert key (c_catalog s2)\<rparr>
        in (Inr (), snd (drop_lease key s3))))"

definition cluster_mset :: "(pystr \<times> pyval) list \<Rightarrow> cluster \<Rightarrow> unit cres" where
  "cluster_mset kvs s =
     bind_res (fold_res mset_availability kvs s) (\<lambda>avails s1.
     let by_key = map_of (rev (zip (map fst kvs) avails));
         ids = sorted_list_of_set (set (concat (List.map_filter by_key (map fst kvs)))) in
     bind_res (capture_backends ids s1) (\<lambda>cps s2.
     case fold_res mset_one kvs s2 of
       (Inr _, s3) \<Rightarrow> (Inr (), s3)
     | (Inl e, s3) \<Rightarrow>
         bind_res (restore_backends cps s3) (\<lambda>_ s4.
           (Inl e, put_leases_back s2 (put_catalog_back s2
              (s4\<lparr>c_metadata := (\<lambda>i. if i \<in> set ids then c_metadata s2 i else c_metadata s4 i)\<rparr>))))))"

section \<open>Deletes\<close>

text \<open>The owners of each key, its available owners and its quorum; and the risky tombstones.\<close>

type_synonym target = "pystr \<times> pystr list \<times> pystr list \<times> int"

definition delete_target :: "profile \<Rightarrow> pystr \<Rightarrow> cluster \<Rightarrow> (target \<times> int) cres" where
  "delete_target p key s =
     bind_res (ring_owners key s) (\<lambda>os s1.
     let (avail, s2) = available_owners os s1 in
     bind_res (lift_sum (required p (int (length os))) s2) (\<lambda>req s3.
     if int (length avail) < req then (Inl (Quorum ''delete'' req (int (length avail))), s3)
     else (Inr ((key, os, avail, req),
             if (latest_metadata key s3 = None \<or> (\<exists>m. latest_metadata key s3 = Some m \<and> \<not> md_deleted m))
                \<and> length avail < length os then 1 else 0), s3)))"

text \<open>The deletes on one node: all storage calls, then the tombstones.\<close>

definition delete_on_node :: "pystr \<Rightarrow> (pystr \<times> version_stamp) list \<Rightarrow> cluster \<Rightarrow> unit cres" where
  "delete_on_node i kvs s =
     bind_res (fold_res (\<lambda>(key, _). on_node i (delete key)) kvs s) (\<lambda>_ s1.
       (Inr (), fold (\<lambda>(key, ver). set_metadata i key
          (Some \<lparr>md_version = ver, md_deleted = True, md_tags = []\<rparr>)) kvs s1))"

fun delete_loop ::
  "(pystr \<times> version_stamp) list \<Rightarrow> target list \<Rightarrow> (pystr \<Rightarrow> pystr \<Rightarrow> replica_metadata option) \<Rightarrow>
   pystr list \<Rightarrow> checkpoints \<Rightarrow> pystr list \<Rightarrow> cluster \<Rightarrow>
   (cluster_error option \<times> checkpoints \<times> pystr list) \<times> cluster" where
  "delete_loop versions targets old [] cps done s = ((None, cps, done), s)"
| "delete_loop versions targets old (i # is) cps done s =
     (let mine = filter (\<lambda>(key, _). \<exists>t \<in> set targets. fst t = key \<and> i \<in> set (fst (snd (snd t)))) versions in
      case delete_on_node i mine s of
        (Inr _, s1) \<Rightarrow> delete_loop versions targets old is cps (done @ [i]) s1
      | (Inl e, s1) \<Rightarrow>
          (case restore_backends (filter (\<lambda>icp. fst icp = i) cps) s1 of
             (Inl e', s2) \<Rightarrow> ((Some e', AList.delete i cps, done), s2)
           | (Inr _, s2) \<Rightarrow>
               (let s3 = fold (\<lambda>(key, _). set_metadata i key (old i key)) versions s2;
                    cps' = AList.delete i cps
                in if value_error e then ((Some e, cps', done), s3)
                   else delete_loop versions targets old is cps' done s3)))"

definition drop_hot_copies :: "pystr \<Rightarrow> cluster \<Rightarrow> cluster" where
  "drop_hot_copies key s =
     (let s1 = fold (\<lambda>i s'. case on_node i (delete key) s' of
                  (Inr _, s'') \<Rightarrow> set_metadata i key None s''
                | (Inl _, s'') \<Rightarrow> c_count ''hot_replication_errors_total'' 1 s'')
                (sorted_list_of_set (case c_hot s key of None \<Rightarrow> {} | Some hs \<Rightarrow> hs)) s
      in s1\<lparr>c_hot := (c_hot s1)(key := None)\<rparr>)"

definition forget_key :: "pystr \<Rightarrow> cluster \<Rightarrow> cluster" where
  "forget_key key s =
     (let s1 = replace_key_tags key [] s;
          s2 = s1\<lparr>c_known := c_known s1 - {key}, c_catalog := insert key (c_catalog s1)\<rparr>
      in snd (drop_lease key (drop_hot_copies key s2)))"

definition quorum_of :: "pystr list \<Rightarrow> target \<Rightarrow> cluster \<Rightarrow> unit cres" where
  "quorum_of done t s =
     (case t of (key, os, avail, req) \<Rightarrow>
        (let n = int (length (filter (\<lambda>i. i \<in> set avail) done))
         in if n < req then (Inl (Quorum ''delete'' req n), s) else (Inr (), s)))"

fun fresh_versions :: "'a list \<Rightarrow> cluster \<Rightarrow> version_stamp list \<times> cluster" where
  "fresh_versions [] s = ([], s)"
| "fresh_versions (_ # ks) s =
     (let (v, s1) = next_version s; (vs, s2) = fresh_versions ks s1 in (v # vs, s2))"

text \<open>The body of the transaction, between the checkpoints and their commit or rollback.\<close>

definition delete_body ::
  "profile \<Rightarrow> pystr list \<Rightarrow> target list \<Rightarrow> (pystr \<Rightarrow> pystr \<Rightarrow> replica_metadata option) \<Rightarrow> pystr list \<Rightarrow>
   checkpoints \<Rightarrow> cluster \<Rightarrow> ((cluster_error + int) \<times> checkpoints) \<times> cluster" where
  "delete_body p selected targets old ids cps s =
     (case fold_res (\<lambda>key s'. bind_res (read_locked key p s') (\<lambda>(r, _, _) s''. (Inr (state r \<noteq> Miss), s''))) selected s of
        (Inl e, s1) \<Rightarrow> ((Inl e, cps), s1)
      | (Inr existed, s1) \<Rightarrow>
          (let (vs, s2) = fresh_versions selected s1;
               ((err, cps', done), s3) = delete_loop (zip selected vs) targets old ids cps [] s2
           in case err of
                Some e \<Rightarrow> ((Inl e, cps'), s3)
              | None \<Rightarrow>
                  (case bind_res (fold_res (quorum_of done) targets s3) (\<lambda>_ s4.
                          bind_res (gc_tombstones (Some selected) (fold forget_key selected s4)) (\<lambda>_ s5.
                            if tombstone_count s5 > c_max_tombstones s5 then (Inl TombstoneLimit, s5)
                            else (Inr (int (length (filter id existed))), s5))) of
                     (r, s6) \<Rightarrow> ((r, cps'), s6))))"

definition delete_keys ::
  "pystr list \<Rightarrow> profile \<Rightarrow> cluster \<Rightarrow> int cres" where
  "delete_keys ks p s =
     bind_res (fold_res check_key ks s) (\<lambda>_ s1.
     let selected = rev (remdups (rev ks)) in
     if selected = [] then (Inr 0, s1)
     else
       bind_res (gc_tombstones None s1) (\<lambda>_ s2.
       let retained = tombstone_count s2 in
       bind_res (fold_res (delete_target p) selected s2) (\<lambda>trs s3.
       if retained + sum_list (map snd trs) > c_max_tombstones s3 then (Inl TombstoneLimit, s3)
       else
         (let targets = map fst trs;
              ids = sorted_list_of_set (set (concat (map (\<lambda>(_, _, avail, _). avail) targets)));
              old = (\<lambda>i key. c_metadata s3 i key) in
          bind_res (capture_mutations ids selected s3) (\<lambda>cps s4.
          case delete_body p selected targets old ids cps s4 of
            ((Inl e, cps'), s5) \<Rightarrow>
              bind_res (restore_backends cps' s5) (\<lambda>_ s6.
                (Inl e, put_leases_back s4 (put_catalog_back s4
                   (s6\<lparr>c_metadata := (\<lambda>i key. if i \<in> set (od_keys (c_nodes s6)) \<and> key \<in> set selected
                          then old i key else c_metadata s6 i key),
                       c_watermark := c_watermark s4\<rparr>))))
          | ((Inr n, cps'), s5) \<Rightarrow>
              bind_res (commit_backends cps' s5) (\<lambda>_ s6.
                (Inr n, c_count ''replicated_deletes_total'' (int (length selected)) s6)))))))"

definition cluster_delete ::
  "pystr \<Rightarrow> (profile + pyval) option \<Rightarrow> fence_token option \<Rightarrow> cluster \<Rightarrow> bool cres" where
  "cluster_delete key c fence s =
     bind_res (check_key key s) (\<lambda>_ s1.
     let s2 = snd (detect_failures s1);
         selected = (case fence of None \<Rightarrow> fence_of s2 | Some f \<Rightarrow> f) in
     bind_res (assert_fence selected s2) (\<lambda>_ s3.
     bind_res (lift_sum (select_profile c s3) s3) (\<lambda>p s4.
     bind_res (delete_keys [key] p s4) (\<lambda>n s5. (Inr (n \<noteq> 0), s5)))))"

definition cluster_delete_many :: "pystr list \<Rightarrow> cluster \<Rightarrow> int cres" where
  "cluster_delete_many ks s =
     (let s1 = snd (detect_failures s) in
      bind_res (assert_fence (fence_of s1) s1) (\<lambda>_ s2. delete_keys ks (c_consistency s2) s2))"

definition cluster_invalidate_tags :: "pyval \<Rightarrow> cluster \<Rightarrow> int cres" where
  "cluster_invalidate_tags ts s =
     (case normalize_tags ts of Inl e \<Rightarrow> (Inl (Storage e), s)
      | Inr nts \<Rightarrow>
          (let selected = sorted_list_of_set (\<Union>t\<in>set nts. case c_tag_keys s t of None \<Rightarrow> {} | Some ks \<Rightarrow> ks)
           in if selected = [] then (Inr 0, s)
              else bind_res (delete_keys selected (c_consistency s) s) (\<lambda>n s1.
                (Inr n, c_count ''invalidations_total'' n s1))))"

section \<open>Expiry, flush and leases\<close>

definition cluster_expire :: "pystr \<Rightarrow> pyval \<Rightarrow> cluster \<Rightarrow> bool cres" where
  "cluster_expire key ttl_s s =
     (case ttl_s of
        PInt n \<Rightarrow>
          (if n \<le> 0 then (Inl BadTtl, s)
           else bind_res (read_locked key (c_consistency s) s) (\<lambda>(r, i, _) s1.
             if state r = Miss then (Inr False, s1)
             else bind_res (exported i key s1) (\<lambda>es s2.
               if es = [] then (Inr False, s2)
               else bind_res (replicate_put key (se_value (hd es)) (PInt n) (PInt 0) (se_tags (hd es)) False
                        (c_consistency s2) s2) (\<lambda>_ s3. (Inr True, s3)))))
      | _ \<Rightarrow> (Inl BadTtl, s))"

fun flush_nodes :: "pystr list \<Rightarrow> cluster \<Rightarrow> unit cres" where
  "flush_nodes [] s = (Inr (), s)"
| "flush_nodes (i # is) s =
     (case find_node i s of Inl e \<Rightarrow> (Inl e, s)
      | Inr n \<Rightarrow>
          (if cn_status n = Removed then flush_nodes is s
           else bind_res (on_node i (total flush) s) (\<lambda>_ s1.
             flush_nodes is (s1\<lparr>c_metadata := (c_metadata s1)(i := Map.empty)\<rparr>))))"

definition cluster_flush :: "cluster \<Rightarrow> int cres" where
  "cluster_flush s =
     (let s1 = snd (detect_failures s);
          (up, s2) = available_owners (node_ids (c_ring s1)) s1 in
      if length up \<noteq> length (node_ids (c_ring s1))
      then (Inl (Quorum ''flush'' (int (length (node_ids (c_ring s1)))) (int (length up))), s2)
      else bind_res (cluster_size s2) (\<lambda>removed s3.
           bind_res (flush_nodes (od_keys (c_nodes s3)) s3) (\<lambda>_ s4.
             let (v, s5) = next_version s4
             in (Inr removed, s5\<lparr>c_watermark := Some v, c_known := {}, c_catalog := {}, c_hot := Map.empty,
                   c_key_tags := Map.empty, c_tag_keys := Map.empty, c_leases := [], c_lease_bytes := 0\<rparr>))))"

text \<open>The random token is an argument, and the clock is read before the lock is taken.\<close>

definition cluster_acquire_lease :: "pystr \<Rightarrow> bool \<Rightarrow> pystr \<Rightarrow> cluster \<Rightarrow> cache_result cres" where
  "cluster_acquire_lease key force tok s =
     bind_res (check_key key s) (\<lambda>_ s0.
     let now = c_now s0; s1 = purge_leases now (snd (detect_failures (c_tick s0))) in
     bind_res (cluster_get key None s1) (\<lambda>result s2.
     if state result = Fresh \<and> \<not> force then (Inr result, s2)
     else
       bind_res (ring_owners key s2) (\<lambda>os s3.
       bind_res (lift_sum (required (c_consistency s3) (int (length os))) s3) (\<lambda>req s4.
       let (avail, s5) = available_owners os s4 in
       if int (length avail) < req then (Inl (Quorum ''lease'' req (int (length avail))), s5)
       else
         (let held = (case map_of (c_leases s5) key of
                None \<Rightarrow> None
              | Some l \<Rightarrow> (if cl_until l > now \<and> cl_fence l = fence_of s5 then Some l else None))
          in case held of
               Some l \<Rightarrow>
                 (Inr (if state result = Stale then result
                       else (result_of Loading)\<lparr>retry_after_seconds := Fin (max 0 (cl_until l - now))\<rparr>),
                  c_count ''coalesced_total'' 1 s5)
             | None \<Rightarrow>
                 (case lease_footprint key tok of Inl e \<Rightarrow> (Inl e, s5)
                  | Inr sz \<Rightarrow>
                      (if int (length (c_leases s5)) \<ge> c_max_leases s5
                          \<or> c_lease_bytes s5 + sz > c_max_lease_memory s5
                       then (Inl LeasesExhausted, c_count ''rejected_leases_total'' 1 s5)
                       else
                         (Inr (if state result = Stale
                               then (result_of StaleLease)\<lparr>result_value := result_value result,
                                  stale_for_seconds := stale_for_seconds result, lease_token := Some tok,
                                  expires_in_seconds := Fin (of_int (c_lease_seconds s5))\<rparr>
                               else (result_of Lease)\<lparr>lease_token := Some tok,
                                  expires_in_seconds := Fin (of_int (c_lease_seconds s5))\<rparr>),
                          c_count ''leases_total'' 1
                            (s5\<lparr>c_leases := AList.update key \<lparr>cl_token = tok,
                                   cl_until = now + of_int (c_lease_seconds s5), cl_fence = fence_of s5\<rparr> (c_leases s5),
                                c_lease_bytes := c_lease_bytes s5 + sz\<rparr>)))))))))"

definition cluster_release_lease :: "pystr \<Rightarrow> pystr \<Rightarrow> cluster \<Rightarrow> bool cres" where
  "cluster_release_lease key tok s =
     bind_res (check_key key s) (\<lambda>_ s1.
     case map_of (c_leases s1) key of None \<Rightarrow> (Inr False, s1)
     | Some l \<Rightarrow>
         (case compare_digest (cl_token l) tok of
            Inl e \<Rightarrow> (Inl (Storage e), s1)
          | Inr False \<Rightarrow> (Inr False, s1)
          | Inr True \<Rightarrow> (case drop_lease key s1 of (b, s2) \<Rightarrow> (Inr b, s2))))"

definition cluster_renew_lease :: "pystr \<Rightarrow> pystr \<Rightarrow> cluster \<Rightarrow> bool cres" where
  "cluster_renew_lease key tok s =
     bind_res (check_key key s) (\<lambda>_ s0.
     let now = c_now s0; s1 = c_tick s0 in
     case map_of (c_leases s1) key of None \<Rightarrow> (Inr False, snd (drop_lease key s1))
     | Some l \<Rightarrow>
         (if cl_until l \<le> now then (Inr False, snd (drop_lease key s1))
          else bind_res (assert_fence (cl_fence l) s1) (\<lambda>_ s2.
            case compare_digest (cl_token l) tok of
              Inl e \<Rightarrow> (Inl (Storage e), s2)
            | Inr False \<Rightarrow> (Inr False, s2)
            | Inr True \<Rightarrow>
                (Inr True, c_count ''lease_renewals_total'' 1
                   (s2\<lparr>c_leases := AList.update key (l\<lparr>cl_until := now + of_int (c_lease_seconds s2)\<rparr>) (c_leases s2)\<rparr>)))))"

section \<open>Restores and hot replicas\<close>

definition restore_target :: "storage_entry \<Rightarrow> cluster \<Rightarrow> (storage_entry \<times> pystr list \<times> int) cres" where
  "restore_target e s =
     bind_res (ring_owners (se_key e) s) (\<lambda>os s1.
     let (avail, s2) = available_owners os s1 in
     bind_res (lift_sum (required (c_consistency s2) (int (length os))) s2) (\<lambda>req s3.
     if int (length avail) < req then (Inl (Quorum ''restore'' req (int (length avail))), s3)
     else (Inr (e, avail, req), s3)))"

text \<open>\<open>node_entries\<close>: a dictionary of the entries per node, nodes in the order they first occur.\<close>

definition entries_per_node :: "(storage_entry \<times> pystr list \<times> int) list \<Rightarrow> (pystr \<times> storage_entry list) list" where
  "entries_per_node ts =
     map (\<lambda>i. (i, map fst (filter (\<lambda>(_, avail, _). i \<in> set avail) ts)))
       (rev (remdups (rev (concat (map (\<lambda>(_, avail, _). avail) ts)))))"

fun restore_loop ::
  "(pystr \<times> version_stamp) list \<Rightarrow> (pystr \<Rightarrow> pystr \<rightharpoonup> replica_metadata) \<Rightarrow> checkpoints \<Rightarrow>
   (pystr \<times> storage_entry list) list \<Rightarrow> pystr list \<Rightarrow> cluster \<Rightarrow> pystr list cres" where
  "restore_loop versions old cps [] done s = (Inr done, s)"
| "restore_loop versions old cps ((i, es) # rest) done s =
     (case on_node i (restore_entries es) s of
        (Inr _, s1) \<Rightarrow>
          restore_loop versions old cps rest (done @ [i])
            (fold (\<lambda>e. set_metadata i (se_key e)
               (map_option (\<lambda>v. \<lparr>md_version = v, md_deleted = False, md_tags = sort (remdups (se_tags e))\<rparr>)
                  (map_of versions (se_key e)))) es s1)
      | (Inl e, s1) \<Rightarrow>
          bind_res (restore_backends (filter (\<lambda>icp. fst icp = i) cps) s1) (\<lambda>_ s2.
            let s3 = s2\<lparr>c_metadata := (c_metadata s2)(i := old i)\<rparr> in
            if value_error e then (Inl e, s3) else restore_loop versions old cps rest done s3))"

definition restore_quorum :: "pystr list \<Rightarrow> storage_entry \<times> pystr list \<times> int \<Rightarrow> cluster \<Rightarrow> unit cres" where
  "restore_quorum done t s =
     (case t of (e, avail, req) \<Rightarrow>
        (let n = int (length (filter (\<lambda>i. i \<in> set avail) done))
         in if n < req then (Inl (Quorum ''restore'' req n), s) else (Inr (), s)))"

definition cluster_restore_entries :: "storage_entry list \<Rightarrow> cluster \<Rightarrow> int cres" where
  "cluster_restore_entries es s =
     bind_res (fold_res (\<lambda>e. check_key (se_key e)) es s) (\<lambda>_ s1.
     if \<not> distinct (map se_key es) then (Inl DuplicateSnapshotKeys, s1)
     else
       bind_res (fold_res restore_target es s1) (\<lambda>ts s2.
       let per = entries_per_node ts in
       bind_res (fold_res (\<lambda>(i, sel). on_node i (validate_restore_entries sel)) per s2) (\<lambda>_ s3.
       bind_res (capture_backends (map fst per) s3) (\<lambda>cps s4.
       let (vs, s5) = fresh_versions es s4;
           body = bind_res (restore_loop (zip (map se_key es) vs) (c_metadata s4) cps per [] s5) (\<lambda>done s6.
             bind_res (fold_res (restore_quorum done) ts s6) (\<lambda>_ s7.
               (Inr (), fold (\<lambda>e s'. let s'' = replace_key_tags (se_key e) (se_tags e) s' in
                  s''\<lparr>c_known := insert (se_key e) (c_known s''), c_catalog := insert (se_key e) (c_catalog s'')\<rparr>) es s7)))
       in case body of
            (Inr _, s8) \<Rightarrow> (Inr (int (length es)), s8)
          | (Inl e, s8) \<Rightarrow>
              bind_res (restore_backends cps s8) (\<lambda>_ s9.
                (Inl e, put_catalog_back s4
                   (s9\<lparr>c_metadata := (\<lambda>i. if i \<in> fst ` set per then c_metadata s4 i else c_metadata s9 i)\<rparr>)))))))"

fun hot_candidates :: "pystr list \<Rightarrow> pystr set \<Rightarrow> cluster \<Rightarrow> pystr list \<times> cluster" where
  "hot_candidates [] os s = ([], s)"
| "hot_candidates (i # is) os s =
     (let active = (\<exists>n. map_of (c_nodes s) i = Some n \<and> cn_status n = Active) in
      if i \<in> os \<or> \<not> active then hot_candidates is os s
      else
        (let (up, s1) = healthy i s; (rest, s2) = hot_candidates is os s1
         in (if up then i # rest else rest, s2)))"

fun copy_hot :: "pystr \<Rightarrow> storage_entry list \<Rightarrow> replica_metadata \<Rightarrow> pystr list \<Rightarrow> cluster \<Rightarrow> int cres" where
  "copy_hot key es md [] s = (Inr 0, s)"
| "copy_hot key es md (i # is) s =
     (case on_node i (restore_entries es) s of
        (Inr _, s1) \<Rightarrow>
          (let s2 = set_metadata i key (Some md) s1;
               s3 = s2\<lparr>c_hot := (c_hot s2)(key \<mapsto> insert i (case c_hot s2 key of None \<Rightarrow> {} | Some hs \<Rightarrow> hs))\<rparr>
           in bind_res (copy_hot key es md is s3) (\<lambda>n s4. (Inr (n + 1), s4)))
      | (Inl e, s1) \<Rightarrow>
          (if value_error e then copy_hot key es md is (c_count ''hot_replication_errors_total'' 1 s1)
           else (Inl e, s1)))"

definition replicate_hot_key :: "pystr \<Rightarrow> pyval \<Rightarrow> cluster \<Rightarrow> int cres" where
  "replicate_hot_key key extra s =
     bind_res (check_key key s) (\<lambda>_ s1.
     case extra of
       PInt n \<Rightarrow>
         (if n < 0 then (Inl BadReplicaArgument, s1)
          else if n = 0 then (Inr 0, s1)
          else bind_res (read_locked key (c_consistency s1) s1) (\<lambda>(r, i, md) s2.
            case md of None \<Rightarrow> (Inr 0, s2)
            | Some m \<Rightarrow>
                (if state r = Miss \<or> md_deleted m then (Inr 0, s2)
                 else bind_res (exported i key s2) (\<lambda>es s3.
                   if es = [] then (Inr 0, s3)
                   else bind_res (ring_owners key s3) (\<lambda>os s4.
                     let (cands, s5) = hot_candidates (sort (od_keys (c_nodes s4))) (set os) s4 in
                     if c_hot s5 key = None \<and> int (card (dom (c_hot s5))) \<ge> c_max_hot s5
                     then (Inr 0, c_count ''hot_replication_limit_total'' 1 s5)
                     else bind_res (copy_hot key es m (take (nat n) cands) s5) (\<lambda>added s6.
                       (Inr added, if added \<noteq> 0 then c_count ''hot_replications_total'' added s6 else s6)))))))
     | _ \<Rightarrow> (Inl BadReplicaArgument, s1))"

definition release_one :: "pystr \<Rightarrow> pystr set \<Rightarrow> pystr \<Rightarrow> int \<times> cluster \<Rightarrow> int \<times> cluster" where
  "release_one key os i ns =
     (let (removed, s) = ns in
      if i \<in> os then (removed, s)
      else case on_node i (delete key) s of
          (Inr b, s1) \<Rightarrow> (removed + (if b then 1 else 0), set_metadata i key None s1)
        | (Inl _, s1) \<Rightarrow> (removed, c_count ''hot_replication_errors_total'' 1 s1))"

definition release_hot_key :: "pystr \<Rightarrow> cluster \<Rightarrow> int cres" where
  "release_hot_key key s =
     bind_res (check_key key s) (\<lambda>_ s1.
     bind_res (ring_owners key s1) (\<lambda>os s2.
       let hs = sorted_list_of_set (case c_hot s2 key of None \<Rightarrow> {} | Some hs \<Rightarrow> hs);
           s3 = s2\<lparr>c_hot := (c_hot s2)(key := None)\<rparr>;
           (removed, s4) = fold (release_one key (set os)) hs (0, s3)
       in (Inr removed, s4)))"

end
