(* ===== verification/Cluster_Inv.thy ===== *)
theory Cluster_Inv
  imports Cluster_Write Engine_Snapshot
begin

text \<open>
  What every call of the coordinator keeps: the configuration, the ring, the set of nodes, and
  the order of terms. The relation \<open>progress\<close> is reflexive and transitive; the rules for such
  relations are proved once, in a locale, and used for every call.
\<close>

section \<open>Relations kept by sequences of calls\<close>

locale kept =
  fixes R :: "'s \<Rightarrow> 's \<Rightarrow> bool"
  assumes refl [simp, intro]: "R s s" and trans: "R s t \<Longrightarrow> R t u \<Longrightarrow> R s u"
begin

lemma bind_kept:
  assumes "R s (snd r)" "\<And>a s1. r = (Inr a, s1) \<Longrightarrow> R s1 (snd (f a s1))"
  shows "R s (snd (bind_res r f))"
  using assms trans by (cases r; cases "fst r") (auto simp: bind_res_def)

lemma trans_rev: "R t u \<Longrightarrow> R s t \<Longrightarrow> R s u"
  by (rule trans)

lemma ret_kept: "R s s' \<Longrightarrow> R s (snd (x, s'))"
  by simp

lemma pair_kept:
  "R s (snd p) \<Longrightarrow> (\<And>a s1. p = (a, s1) \<Longrightarrow> R s1 (snd (f a s1))) \<Longrightarrow> R s (snd (case p of (a, s1) \<Rightarrow> f a s1))"
  using trans by (cases p) auto

lemma pair_kept':
  "R s (snd p) \<Longrightarrow> (\<And>a s1. p = (a, s1) \<Longrightarrow> R s1 (f a s1)) \<Longrightarrow> R s (case p of (a, s1) \<Rightarrow> f a s1)"
  using trans by (cases p) auto

lemma sum_kept:
  "(\<And>e. x = Inl e \<Longrightarrow> R s (snd (f e))) \<Longrightarrow> (\<And>a. x = Inr a \<Longrightarrow> R s (snd (g a))) \<Longrightarrow>
   R s (snd (case x of Inl e \<Rightarrow> f e | Inr a \<Rightarrow> g a))"
  by (cases x) auto

lemma option_kept:
  "(x = None \<Longrightarrow> R s (snd a)) \<Longrightarrow> (\<And>y. x = Some y \<Longrightarrow> R s (snd (f y))) \<Longrightarrow>
   R s (snd (case x of None \<Rightarrow> a | Some y \<Rightarrow> f y))"
  by (cases x) auto

lemma if_kept: "(P \<Longrightarrow> R s (snd a)) \<Longrightarrow> (\<not> P \<Longrightarrow> R s (snd b)) \<Longrightarrow> R s (snd (if P then a else b))"
  by simp

lemma bool_kept: "R s (snd a) \<Longrightarrow> R s (snd b) \<Longrightarrow> R s (snd (case x of True \<Rightarrow> a | False \<Rightarrow> b))"
  by (cases x) auto

lemma prod_kept: "(\<And>a b. x = (a, b) \<Longrightarrow> R s (snd (f a b s))) \<Longrightarrow> R s (snd ((case x of (a, b) \<Rightarrow> f a b) s))"
  by (cases x) auto

lemma list_kept:
  "R s (snd a) \<Longrightarrow> (\<And>y ys. x = y # ys \<Longrightarrow> R s (snd (f y ys))) \<Longrightarrow> R s (snd (case x of [] \<Rightarrow> a | y # ys \<Rightarrow> f y ys))"
  by (cases x) auto

lemma data_kept: "(\<And>a b. x = (a, b) \<Longrightarrow> R s (snd (f a b))) \<Longrightarrow> R s (snd (case x of (a, b) \<Rightarrow> f a b))"
  by (cases x) auto

lemmas steps = bind_kept ret_kept pair_kept sum_kept option_kept if_kept bool_kept prod_kept list_kept data_kept

lemma fold_res_kept:
  assumes "\<And>x s. x \<in> set xs \<Longrightarrow> R s (snd (f x s))"
  shows "R s (snd (fold_res f xs s))"
  using assms
proof (induction xs arbitrary: s)
  case (Cons x xs)
  show ?case
    unfolding fold_res.simps by (intro bind_kept Cons) simp_all
qed simp

lemma fold_kept:
  assumes "\<And>x s. x \<in> set xs \<Longrightarrow> R s (f x s)"
  shows "R s (fold f xs s)"
  using assms
proof (induction xs arbitrary: s)
  case (Cons x xs)
  then show ?case using trans [of s "f x s"] by simp
qed simp

end

section \<open>Progress\<close>

definition progress :: "cluster \<Rightarrow> cluster \<Rightarrow> bool" where
  "progress s s' \<longleftrightarrow>
     c_sha s' = c_sha s \<and> c_clock s' = c_clock s \<and> c_replica_count s' = c_replica_count s \<and>
     c_consistency s' = c_consistency s \<and> c_heartbeat_timeout s' = c_heartbeat_timeout s \<and>
     c_lease_seconds s' = c_lease_seconds s \<and> c_ring s' = c_ring s \<and>
     od_keys (c_nodes s') = od_keys (c_nodes s) \<and> c_ticks s \<le> c_ticks s' \<and>
     c_term s \<le> c_term s' \<and> (c_term s' = c_term s \<longrightarrow> c_leader s' = c_leader s)"

interpretation pr: kept progress
  by unfold_locales (auto simp: progress_def)

named_theorems progress_intro \<open>how a call at the end of a run extends the relation\<close>

lemma od_keys_update_present: "k \<in> fst ` set d \<Longrightarrow> od_keys (AList.update k v d) = od_keys d"
  by (induction d) auto

lemma progress_set_node: "map_of (c_nodes s) i \<noteq> None \<Longrightarrow> progress s (set_node i n s)"
  by (auto simp: progress_def set_node_def map_of_eq_None_iff od_keys_update_present)

lemma progress_tick [THEN pr.trans_rev, progress_intro]: "progress s (c_tick s)"
  by (simp add: progress_def c_tick_def)

lemma progress_count [THEN pr.trans_rev, progress_intro]: "progress s (c_count m n s)"
  by (simp add: progress_def c_count_def)

lemma progress_set_metadata [THEN pr.trans_rev, progress_intro]: "progress s (set_metadata i k md s)"
  by (simp add: progress_def set_metadata_def)

lemma progress_on_engine [THEN pr.trans_rev, progress_intro]: "progress s (snd (on_engine i op s))"
  by (auto simp: on_engine_def intro!: progress_set_node split: option.splits prod.splits sum.splits)

lemma progress_on_node [THEN pr.trans_rev, progress_intro]: "progress s (snd (on_node i op s))"
proof (cases "map_of (c_nodes s) i")
  case (Some n)
  let ?s = "set_node i (n\<lparr>cn_calls := Suc (cn_calls n)\<rparr>) s"
  have "progress s ?s" using Some by (intro progress_set_node) simp
  then show ?thesis using progress_on_engine [of s ?s i op] Some
    by (simp add: on_node_def Let_def)
qed (simp add: on_node_def)

lemma progress_healthy [THEN pr.trans_rev, progress_intro]: "progress s (snd (healthy i s))"
  by (auto simp: healthy_def intro: progress_intro pr.refl split: option.splits)

lemma progress_available [THEN pr.trans_rev, progress_intro]: "progress s (snd (available_owners is s))"
  by (induction "is" arbitrary: s)
    (auto simp: Let_def case_prod_beta intro: pr.trans [OF progress_healthy [OF pr.refl]])

lemma progress_elect [THEN pr.trans_rev, progress_intro]: "progress s (elect_leader s)"
proof -
  let ?s = "snd (available_owners (node_ids (c_ring s)) s)"
  have "progress s ?s" by (rule progress_available [OF pr.refl])
  moreover have "progress ?s (elect_leader s)"
    by (auto simp: elect_leader_def case_prod_beta Let_def progress_def c_count_def)
  ultimately show ?thesis by (rule pr.trans)
qed

lemma progress_detect [THEN pr.trans_rev, progress_intro]: "progress s (snd (detect_failures s))"
proof -
  have "progress s (c_count m n ((c_tick s)\<lparr>c_nodes := map (\<lambda>(i, x). (i, f x)) (c_nodes (c_tick s))\<rparr>))" for m n f
    by (auto simp: progress_def c_count_def c_tick_def case_prod_beta comp_def)
  then show ?thesis
    unfolding detect_failures_def Let_def by (auto intro: progress_elect)
qed

lemma progress_drop_lease [THEN pr.trans_rev, progress_intro]: "progress s (snd (drop_lease k s))"
  by (auto simp: drop_lease_def progress_def split: option.splits)

lemma progress_assert_fence [THEN pr.trans_rev, progress_intro]: "progress s (snd (assert_fence f s))"
  by (simp add: assert_fence_def)

lemma progress_purge [THEN pr.trans_rev, progress_intro]: "progress s (purge_leases now s)"
  unfolding purge_leases_def by (rule pr.fold_kept) (auto simp: progress_drop_lease [OF pr.refl])

lemma progress_next_version [THEN pr.trans_rev, progress_intro]: "progress s (snd (next_version s))"
  by (simp add: next_version_def progress_def Let_def)

lemma progress_replace_tags [THEN pr.trans_rev, progress_intro]: "progress s (replace_key_tags k ts s)"
  by (simp add: replace_key_tags_def progress_def Let_def)

lemma progress_exported [THEN pr.trans_rev, progress_intro]: "progress s (snd (exported i k s))"
  by (simp add: exported_def progress_on_node [OF pr.refl])

lemma progress_lift [THEN pr.trans_rev, progress_intro]: "progress s (snd (lift_sum r s))"
  by simp

lemma progress_ring_owners [THEN pr.trans_rev, progress_intro]: "progress s (snd (ring_owners k s))"
  by (simp add: ring_owners_def)

lemma progress_check_key [THEN pr.trans_rev, progress_intro]: "progress s (snd (check_key k s))"
  by (simp add: check_key_def split: sum.splits)

lemma progress_fields [progress_intro]:
  "progress s t \<Longrightarrow> progress s (t\<lparr>c_known := a\<rparr>)" "progress s t \<Longrightarrow> progress s (t\<lparr>c_catalog := b\<rparr>)"
  "progress s t \<Longrightarrow> progress s (t\<lparr>c_hot := h\<rparr>)" "progress s t \<Longrightarrow> progress s (t\<lparr>c_metadata := m\<rparr>)"
  "progress s t \<Longrightarrow> progress s (t\<lparr>c_watermark := w\<rparr>)" "progress s t \<Longrightarrow> progress s (t\<lparr>c_sequence := q\<rparr>)"
  "progress s t \<Longrightarrow> progress s (t\<lparr>c_leases := l\<rparr>)" "progress s t \<Longrightarrow> progress s (t\<lparr>c_lease_bytes := n\<rparr>)"
  "progress s t \<Longrightarrow> progress s (t\<lparr>c_key_tags := kt\<rparr>)" "progress s t \<Longrightarrow> progress s (t\<lparr>c_tag_keys := tk\<rparr>)"
  "progress s t \<Longrightarrow> progress s (t\<lparr>c_metrics := me\<rparr>)"
  by (simp_all add: progress_def)

lemma progress_has_record [THEN pr.trans_rev, progress_intro]: "progress s (snd (node_has_record i k md s))"
  unfolding node_has_record_def by (intro pr.steps progress_intro pr.refl)

lemma progress_all_hold [THEN pr.trans_rev, progress_intro]: "progress s (snd (all_hold is k md s))"
proof (induction "is" arbitrary: s)
  case (Cons i "is")
  show ?case unfolding all_hold.simps Let_def by (intro pr.steps progress_intro pr.refl Cons)
qed simp

lemma progress_collect [THEN pr.trans_rev, progress_intro]: "progress s (collect_tombstone k v s)"
  unfolding collect_tombstone_def Let_def by (intro progress_intro pr.refl)

lemma progress_gc_one [THEN pr.trans_rev, progress_intro]: "progress s (snd (gc_one k s))"
  unfolding gc_one_def by (intro pr.steps progress_intro pr.refl)

lemma progress_gc [THEN pr.trans_rev, progress_intro]: "progress s (snd (gc_tombstones ks s))"
  unfolding gc_tombstones_def Let_def
  by (intro pr.steps pr.fold_res_kept progress_gc_one pr.refl) (auto intro: progress_intro pr.refl)

lemma progress_heartbeat [THEN pr.trans_rev, progress_intro]: "progress s (snd (heartbeat i inc s))"
proof -
  have set: "progress s (set_node i n (c_tick s))" if "map_of (c_nodes s) i = Some n'" for n n'
    using that pr.trans [OF progress_tick [OF pr.refl] progress_set_node] by (simp add: c_tick_def)
  show ?thesis
    unfolding heartbeat_def find_node_def Let_def
    by (auto intro!: pr.bind_kept progress_intro set pr.refl split: option.splits sum.splits)
qed

lemma progress_mark_down [THEN pr.trans_rev, progress_intro]: "progress s (snd (mark_node_down i s))"
  by (auto simp: mark_node_down_def find_node_def intro!: progress_intro progress_set_node pr.refl split: option.splits)

lemma progress_validate_lease [THEN pr.trans_rev, progress_intro]: "progress s (snd (validate_lease k tok s))"
  unfolding validate_lease_def Let_def
  by (rule pr.trans [OF progress_tick [OF pr.refl]]) (intro pr.steps progress_intro pr.refl)

lemma progress_attempt: "progress s (snd r) \<Longrightarrow> progress s (attempt m r)"
  by (auto simp: attempt_def intro: progress_count split: prod.splits sum.splits)

lemma progress_prune [THEN pr.trans_rev, progress_intro]: "progress s (prune_hot_replica k i s)"
  unfolding prune_hot_replica_def Let_def
  by (intro progress_attempt progress_intro) (auto intro: progress_intro pr.refl split: option.splits)

lemma progress_hot_responses [THEN pr.trans_rev, progress_intro]: "progress s (snd (hot_responses is k md s))"
proof (induction "is" arbitrary: s)
  case (Cons i "is")
  show ?case unfolding hot_responses.simps Let_def
    by (intro pr.steps progress_intro pr.refl Cons pr.trans [OF progress_prune [OF pr.refl] Cons])
qed simp

lemma progress_owner_responses [THEN pr.trans_rev, progress_intro]: "progress s (snd (owner_responses p is k s))"
proof (induction "is" arbitrary: s)
  case (Cons i "is")
  show ?case unfolding owner_responses.simps Let_def by (intro pr.steps progress_intro pr.refl Cons)
qed simp

lemma progress_repair_loop [THEN pr.trans_rev, progress_intro]: "progress s (snd (repair_loop k wid wm e xs s))"
proof (induction xs arbitrary: s)
  case (Cons x xs)
  show ?case unfolding repair_loop.simps Let_def
    by (intro pr.steps progress_intro pr.refl Cons pr.trans [OF _ Cons])
qed simp

lemma progress_read_repair [THEN pr.trans_rev, progress_intro]: "progress s (snd (read_repair k w rs s))"
  unfolding read_repair_def by (cases w) (simp, intro pr.steps progress_intro pr.refl)

lemma progress_if [progress_intro]:
  "progress s t \<Longrightarrow> progress s u \<Longrightarrow> progress s (if b then t else u)"
  by simp

lemma progress_read [THEN pr.trans_rev, progress_intro]: "progress s (snd (read_locked k p s))"
proof -
  have d: "progress s (snd (detect_failures s))" by (rule progress_detect [OF pr.refl])
  show ?thesis
    unfolding read_locked_def Let_def
    by (rule pr.trans [OF d]) (intro pr.steps progress_intro pr.refl)
qed

lemma progress_get [THEN pr.trans_rev, progress_intro]: "progress s (snd (cluster_get k c s))"
  unfolding cluster_get_def by (intro pr.steps progress_intro pr.refl)

lemma progress_mget [THEN pr.trans_rev, progress_intro]: "progress s (snd (cluster_mget ks s))"
  unfolding cluster_mget_def by (intro pr.fold_res_kept progress_intro pr.refl)

lemma progress_exists [THEN pr.trans_rev, progress_intro]: "progress s (snd (cluster_exists ks s))"
  unfolding cluster_exists_def by (intro pr.steps progress_intro pr.refl)

lemma progress_ttl [THEN pr.trans_rev, progress_intro]: "progress s (snd (cluster_ttl k s))"
  unfolding cluster_ttl_def by (intro pr.steps progress_intro pr.refl)

lemma progress_size [THEN pr.trans_rev, progress_intro]: "progress s (snd (cluster_size s))"
  unfolding cluster_size_def by (intro progress_intro pr.refl)

lemma progress_keys [THEN pr.trans_rev, progress_intro]: "progress s (snd (cluster_keys s))"
  unfolding cluster_keys_def Let_def by (intro pr.steps progress_intro pr.refl)

lemma progress_export_selected [THEN pr.trans_rev, progress_intro]: "progress s (snd (export_selected ks s))"
proof (induction ks arbitrary: s)
  case (Cons k ks)
  show ?case unfolding export_selected.simps by (intro pr.steps progress_intro pr.refl Cons)
qed simp

lemma progress_export [THEN pr.trans_rev, progress_intro]: "progress s (snd (cluster_export_entries ks s))"
  unfolding cluster_export_entries_def by (intro pr.steps progress_intro pr.refl)

section \<open>Writes\<close>

lemma progress_prevalidate [THEN pr.trans_rev, progress_intro]: "progress s (snd (prevalidate is v s))"
  unfolding prevalidate_def by (intro pr.fold_res_kept progress_intro pr.refl)

lemma progress_capture_backends [THEN pr.trans_rev, progress_intro]: "progress s (snd (capture_backends is s))"
  unfolding capture_backends_def capture_native_def by (intro pr.fold_res_kept pr.steps progress_intro pr.refl)

lemma progress_restore_one [THEN pr.trans_rev, progress_intro]: "progress s (snd (restore_one icp s))"
  unfolding restore_one_def by (cases icp; cases "snd icp") (auto intro: progress_intro pr.refl)

lemma progress_restore_backends [THEN pr.trans_rev, progress_intro]: "progress s (snd (restore_backends cps s))"
  unfolding restore_backends_def by (intro pr.fold_res_kept progress_intro pr.refl)

lemma progress_commit_backends [THEN pr.trans_rev, progress_intro]: "progress s (snd (commit_backends cps s))"
proof -
  have "progress s (snd (commit_one icp s))" for icp s
    unfolding commit_one_def by (cases icp; cases "snd icp") (auto intro: progress_intro pr.refl)
  then show ?thesis unfolding commit_backends_def by (intro pr.fold_res_kept)
qed

lemma progress_capture_loop [THEN pr.trans_rev, progress_intro]: "progress s (snd (capture_loop is k cps s))"
proof (induction "is" arbitrary: s cps)
  case (Cons i "is")
  show ?case unfolding capture_loop.simps by (intro pr.steps progress_intro pr.refl Cons)
qed simp

lemma progress_capture_mutations [THEN pr.trans_rev, progress_intro]: "progress s (snd (capture_mutations is ks s))"
  unfolding capture_mutations_def by (intro pr.steps progress_intro pr.refl)

lemma progress_metadata_back [THEN pr.trans_rev, progress_intro]: "progress s (put_metadata_back k old is s)"
  unfolding put_metadata_back_def by (intro pr.fold_kept progress_intro pr.refl)

lemma progress_undo [THEN pr.trans_rev, progress_intro]: "progress s (snd (undo_write k old is q cps e s))"
  unfolding undo_write_def by (intro pr.steps progress_intro pr.refl)

lemma progress_write_loop [THEN pr.trans_rev, progress_intro]:
  "progress s (snd (write_loop w k md old ts q is cps don s))"
proof (induction "is" arbitrary: s cps don)
  case (Cons i "is")
  show ?case unfolding write_loop.simps Let_def
    by (intro pr.steps progress_intro pr.refl Cons pr.trans [OF progress_set_metadata [OF pr.refl] Cons])
qed simp

lemma progress_replicate [THEN pr.trans_rev, progress_intro]: "progress s (snd (replicate_put k v a b ts ps p s))"
  unfolding replicate_put_def Let_def by (intro pr.steps progress_intro pr.refl)

lemma progress_put [THEN pr.trans_rev, progress_intro]: "progress s (snd (cluster_put k v a b ts tok ps c f s))"
proof -
  have d: "progress s (snd (detect_failures s))" for s by (rule progress_detect [OF pr.refl])
  show ?thesis unfolding cluster_put_def Let_def
    by (intro pr.steps progress_intro pr.refl pr.trans [OF d])
qed

lemma progress_catalog_back [THEN pr.trans_rev, progress_intro]: "progress s (put_catalog_back old s)"
  by (simp add: put_catalog_back_def progress_def)

lemma progress_leases_back [THEN pr.trans_rev, progress_intro]: "progress s (put_leases_back old s)"
  by (simp add: put_leases_back_def progress_def)

lemma progress_mset [THEN pr.trans_rev, progress_intro]: "progress s (snd (cluster_mset kvs s))"
proof -
  have a: "progress s (snd (mset_availability kv s))" for kv s
    unfolding mset_availability_def Let_def by (cases kv) (simp, intro pr.steps progress_intro pr.refl)
  have b: "progress s (snd (mset_one kv s))" for kv s
    unfolding mset_one_def Let_def by (cases kv) (simp, intro pr.steps progress_intro pr.refl)
  show ?thesis unfolding cluster_mset_def Let_def
    by (intro pr.steps pr.fold_res_kept a b progress_intro pr.refl)
qed

lemma progress_delete_on_node [THEN pr.trans_rev, progress_intro]: "progress s (snd (delete_on_node i kvs s))"
  unfolding delete_on_node_def
  by (intro pr.steps pr.fold_res_kept pr.fold_kept) (auto intro: progress_intro pr.refl split: prod.splits)

lemma progress_delete_loop [THEN pr.trans_rev, progress_intro]:
  "progress s (snd (delete_loop vs ts old is cps don s))"
proof (induction "is" arbitrary: s cps don)
  case (Cons i "is")
  have m: "progress s (fold (\<lambda>(key, _). set_metadata i key (old i key)) vs s)" for s
    by (rule pr.fold_kept) (auto intro: progress_intro pr.refl)
  show ?case unfolding delete_loop.simps Let_def
    by (intro pr.steps progress_intro pr.refl Cons pr.trans [OF m Cons] m)
qed simp

lemma progress_forget [THEN pr.trans_rev, progress_intro]: "progress s (forget_key k s)"
proof -
  have h: "progress s (drop_hot_copies k s)" for s
    unfolding drop_hot_copies_def Let_def
  proof (rule progress_fields(3), rule pr.fold_kept)
    fix i s'
    show "progress s' (case on_node i (delete k) s' of (Inl e, s'') \<Rightarrow> c_count ''hot_replication_errors_total'' 1 s''
        | (Inr x, s'') \<Rightarrow> set_metadata i k None s'')"
      using progress_on_node [OF pr.refl [of s'], of i "delete k"]
      by (auto intro: progress_intro split: prod.splits sum.splits)
  qed
  show ?thesis unfolding forget_key_def Let_def
    by (rule progress_drop_lease, rule pr.trans [OF _ h]) (intro progress_intro pr.refl)
qed

lemma progress_fresh_versions [THEN pr.trans_rev, progress_intro]: "progress s (snd (fresh_versions ks s))"
proof (induction ks arbitrary: s)
  case (Cons k ks)
  show ?case unfolding fresh_versions.simps Let_def by (intro pr.steps progress_intro pr.refl Cons)
qed simp

lemma progress_quorum_of [THEN pr.trans_rev, progress_intro]: "progress s (snd (quorum_of don t s))"
  by (auto simp: quorum_of_def Let_def split: prod.splits)

lemma progress_delete_body [THEN pr.trans_rev, progress_intro]:
  "progress s (snd (delete_body p sel ts old ids cps s))"
proof -
  have f: "progress s (fold forget_key sel s)" for s by (intro pr.fold_kept progress_intro pr.refl)
  show ?thesis
    unfolding delete_body_def Let_def
    by (intro pr.steps pr.fold_res_kept progress_intro pr.refl f)
qed

lemma progress_delete_target [THEN pr.trans_rev, progress_intro]: "progress s (snd (delete_target p k s))"
  unfolding delete_target_def Let_def by (intro pr.steps progress_intro pr.refl)

lemma progress_delete_keys [THEN pr.trans_rev, progress_intro]: "progress s (snd (delete_keys ks p s))"
  unfolding delete_keys_def Let_def
  by (intro pr.steps pr.fold_res_kept progress_intro pr.refl)

lemma progress_delete [THEN pr.trans_rev, progress_intro]: "progress s (snd (cluster_delete k c f s))"
proof -
  have d: "progress s (snd (detect_failures s))" for s by (rule progress_detect [OF pr.refl])
  show ?thesis unfolding cluster_delete_def Let_def
    by (intro pr.steps progress_intro pr.refl pr.trans [OF d])
qed

lemma progress_delete_many [THEN pr.trans_rev, progress_intro]: "progress s (snd (cluster_delete_many ks s))"
  unfolding cluster_delete_many_def Let_def
  by (rule pr.trans [OF progress_detect [OF pr.refl]]) (intro pr.steps progress_intro pr.refl)

lemma progress_invalidate [THEN pr.trans_rev, progress_intro]: "progress s (snd (cluster_invalidate_tags ts s))"
  unfolding cluster_invalidate_tags_def Let_def by (intro pr.steps progress_intro pr.refl)

lemma progress_expire [THEN pr.trans_rev, progress_intro]: "progress s (snd (cluster_expire k d s))"
  unfolding cluster_expire_def by (cases d) (simp_all, (intro impI conjI pr.steps progress_intro pr.refl)?)

lemma progress_flush_nodes [THEN pr.trans_rev, progress_intro]: "progress s (snd (flush_nodes is s))"
proof (induction "is" arbitrary: s)
  case (Cons i "is")
  show ?case unfolding flush_nodes.simps
    by (intro pr.steps progress_intro pr.refl Cons pr.trans [OF progress_fields(4) [OF pr.refl] Cons])
qed simp

lemma progress_flush [THEN pr.trans_rev, progress_intro]: "progress s (snd (cluster_flush s))"
  unfolding cluster_flush_def Let_def
  by (rule pr.trans [OF progress_detect [OF pr.refl]]) (intro pr.steps progress_intro pr.refl)

lemma progress_acquire [THEN pr.trans_rev, progress_intro]: "progress s (snd (cluster_acquire_lease k force tok s))"
proof -
  have d: "progress s (purge_leases now (snd (detect_failures (c_tick s))))" for s now
    by (intro progress_intro pr.refl)
  show ?thesis unfolding cluster_acquire_lease_def Let_def
    by (intro pr.steps progress_intro pr.refl pr.trans [OF d])
qed

lemma progress_release [THEN pr.trans_rev, progress_intro]: "progress s (snd (cluster_release_lease k tok s))"
  unfolding cluster_release_lease_def by (intro pr.steps progress_intro pr.refl)

lemma progress_renew [THEN pr.trans_rev, progress_intro]: "progress s (snd (cluster_renew_lease k tok s))"
  unfolding cluster_renew_lease_def Let_def
  by (intro pr.steps progress_intro pr.refl pr.trans [OF progress_tick [OF pr.refl]])

lemma progress_restore_loop [THEN pr.trans_rev, progress_intro]:
  "progress s (snd (restore_loop vs old cps per don s))"
proof (induction per arbitrary: s don)
  case (Cons x per)
  obtain i es where x: "x = (i, es)" by (cases x)
  have m: "progress s (fold (\<lambda>e. set_metadata i (se_key e) (f e)) es' s)" for s f es'
    by (intro pr.fold_kept progress_intro pr.refl)
  show ?case unfolding x restore_loop.simps Let_def
    by (intro pr.steps progress_intro pr.refl Cons pr.trans [OF m Cons]
        pr.trans [OF progress_fields(4) [OF pr.refl] Cons])
qed simp

lemma progress_restore_quorum [THEN pr.trans_rev, progress_intro]: "progress s (snd (restore_quorum don t s))"
  by (auto simp: restore_quorum_def Let_def split: prod.splits)

lemma progress_restore [THEN pr.trans_rev, progress_intro]: "progress s (snd (cluster_restore_entries es s))"
proof -
  have a: "progress s (snd (restore_target e s))" for e s
    unfolding restore_target_def Let_def by (intro pr.steps progress_intro pr.refl)
  have v: "progress s (snd ((case x of (i, sel) \<Rightarrow> on_node i (validate_restore_entries sel)) s))" for x s
    by (cases x) (simp add: progress_on_node [OF pr.refl])
  have f: "progress s (fold (\<lambda>e s'. replace_key_tags (se_key e) (se_tags e) s'
      \<lparr>c_known := insert (se_key e) (c_known (replace_key_tags (se_key e) (se_tags e) s')),
       c_catalog := insert (se_key e) (c_catalog (replace_key_tags (se_key e) (se_tags e) s'))\<rparr>) es s)" for s
    by (intro pr.fold_kept progress_intro pr.refl)
  show ?thesis unfolding cluster_restore_entries_def Let_def
    by (intro pr.steps pr.fold_res_kept a v f progress_intro pr.refl)
qed

lemma progress_hot_candidates [THEN pr.trans_rev, progress_intro]: "progress s (snd (hot_candidates is os s))"
proof (induction "is" arbitrary: s)
  case (Cons i "is")
  show ?case unfolding hot_candidates.simps Let_def by (intro pr.steps progress_intro pr.refl Cons)
qed simp

lemma progress_copy_hot [THEN pr.trans_rev, progress_intro]: "progress s (snd (copy_hot k es md is s))"
proof (induction "is" arbitrary: s)
  case (Cons i "is")
  have c: "progress s ((set_metadata i k md' s)\<lparr>c_hot := h\<rparr>)" "progress s (c_count m n s)" for s md' h m n
    by (intro progress_intro pr.refl)+
  show ?case unfolding copy_hot.simps Let_def
    by (intro pr.steps progress_intro pr.refl Cons pr.trans [OF c(1) Cons] pr.trans [OF c(2) Cons])
qed simp

lemma progress_replicate_hot [THEN pr.trans_rev, progress_intro]: "progress s (snd (replicate_hot_key k x s))"
  unfolding replicate_hot_key_def Let_def
  by (cases x) (simp_all, (intro impI conjI pr.steps progress_intro pr.refl)+)

lemma progress_release_hot [THEN pr.trans_rev, progress_intro]: "progress s (snd (release_hot_key k s))"
proof -
  have r: "progress (snd ns) (snd (release_one k os i ns))" for os i ns
    unfolding release_one_def Let_def by (cases ns) (simp, intro impI conjI pr.steps progress_intro pr.refl)
  have f: "progress s (snd (fold (release_one k os) hs ns))" if "progress s (snd ns)" for os hs ns s
    using that
  proof (induction hs arbitrary: ns)
    case (Cons i hs)
    then show ?case using pr.trans [OF Cons.prems r] by simp
  qed simp
  have h: "progress s (s\<lparr>c_hot := h\<rparr>)" for s h by (intro progress_intro pr.refl)
  show ?thesis unfolding release_hot_key_def Let_def
    by (intro pr.steps progress_intro pr.refl f)
qed

section \<open>Runs of the coordinator\<close>

text \<open>
  Every call a client or an operator makes on a cluster whose membership is not being changed.
  Each call holds the coordinator's lock, so a run is a sequence of calls.
\<close>

inductive cluster_step :: "cluster \<Rightarrow> cluster \<Rightarrow> bool" where
  cs_leadership: "cluster_step s (snd (leadership s))"
| cs_detect: "cluster_step s (snd (detect_failures s))"
| cs_fence: "cluster_step s (snd (assert_fence f s))"
| cs_heartbeat: "cluster_step s (snd (heartbeat i inc s))"
| cs_down: "cluster_step s (snd (mark_node_down i s))"
| cs_get: "cluster_step s (snd (cluster_get k c s))"
| cs_mget: "cluster_step s (snd (cluster_mget ks s))"
| cs_exists: "cluster_step s (snd (cluster_exists ks s))"
| cs_ttl: "cluster_step s (snd (cluster_ttl k s))"
| cs_size: "cluster_step s (snd (cluster_size s))"
| cs_keys: "cluster_step s (snd (cluster_keys s))"
| cs_export: "cluster_step s (snd (cluster_export_entries sel s))"
| cs_put: "cluster_step s (snd (cluster_put k v a b ts tok ps c fence s))"
| cs_mset: "cluster_step s (snd (cluster_mset kvs s))"
| cs_delete: "cluster_step s (snd (cluster_delete k c fence s))"
| cs_delete_many: "cluster_step s (snd (cluster_delete_many ks s))"
| cs_invalidate: "cluster_step s (snd (cluster_invalidate_tags ts s))"
| cs_expire: "cluster_step s (snd (cluster_expire k d s))"
| cs_flush: "cluster_step s (snd (cluster_flush s))"
| cs_acquire: "cluster_step s (snd (cluster_acquire_lease k force tk s))"
| cs_release: "cluster_step s (snd (cluster_release_lease k tk s))"
| cs_renew: "cluster_step s (snd (cluster_renew_lease k tk s))"
| cs_restore: "cluster_step s (snd (cluster_restore_entries es s))"
| cs_hot: "cluster_step s (snd (replicate_hot_key k x s))"
| cs_release_hot: "cluster_step s (snd (release_hot_key k s))"

lemma progress_leadership: "progress s (snd (leadership s))"
  by (simp add: leadership_def Let_def progress_detect [OF pr.refl])

lemma progress_step: "cluster_step s s' \<Longrightarrow> progress s s'"
  by (induction rule: cluster_step.induct) (intro progress_leadership progress_intro pr.refl)+

lemma progress_run: "cluster_step\<^sup>*\<^sup>* s s' \<Longrightarrow> progress s s'"
  by (induction rule: rtranclp_induct) (auto intro: pr.trans [OF _ progress_step])

end
