(* ===== verification/Cluster_Txn.thy ===== *)
theory Cluster_Txn
  imports Cluster_Inv
begin

text \<open>
  Atomicity of quorum writes. A locale states the contract of a journalled store: what is done
  after a journal is opened can be undone. The cache engine is its interpretation (one per
  key), and the coordinator's write loop is proved over it, for every pattern of backend
  faults: a write that raises leaves every backend and the catalogue as they were, and one that
  returns has reached a quorum.
\<close>

section \<open>Journalled stores\<close>

definition tx_phase ::
  "('s \<Rightarrow> 'c \<Rightarrow> 's \<Rightarrow> bool) \<Rightarrow> ('s \<Rightarrow> 's \<Rightarrow> bool) \<Rightarrow> ('s \<Rightarrow> bool) \<Rightarrow> 's \<Rightarrow> 'c option \<Rightarrow> 's \<Rightarrow> bool" where
  "tx_phase inside same ok e0 j e =
     (case j of None \<Rightarrow> same e0 e \<and> ok e | Some c \<Rightarrow> \<exists>e1. same e0 e1 \<and> ok e1 \<and> inside e1 c e)"

locale journal_contract =
  fixes start :: "'s \<Rightarrow> ('e, 'c, 's) res"
    and undo :: "'c \<Rightarrow> 's \<Rightarrow> ('e, unit, 's) res"
    and inside :: "'s \<Rightarrow> 'c \<Rightarrow> 's \<Rightarrow> bool"
    and same :: "'s \<Rightarrow> 's \<Rightarrow> bool"
    and ok :: "'s \<Rightarrow> bool"
    and work :: "'s \<Rightarrow> 's \<Rightarrow> bool"
  assumes same_refl: "same s s"
    and same_trans: "same s t \<Longrightarrow> same t u \<Longrightarrow> same s u"
    and start_inside: "ok s \<Longrightarrow> start s = (Inr c, s') \<Longrightarrow> inside s c s'"
    and start_fail: "start s = (Inl x, s') \<Longrightarrow> s' = s"
    and work_inside: "inside s c t \<Longrightarrow> work t t' \<Longrightarrow> inside s c t'"
    and undo_inside: "inside s c t \<Longrightarrow> \<exists>t'. undo c t = (Inr (), t') \<and> same s t' \<and> ok t'"
begin

lemma phase_start:
  "tx_phase inside same ok e0 None e \<Longrightarrow> start e = (Inr c, e') \<Longrightarrow> tx_phase inside same ok e0 (Some c) e'"
  using start_inside by (auto simp: tx_phase_def)

lemma phase_start_fail:
  "tx_phase inside same ok e0 None e \<Longrightarrow> start e = (Inl x, e') \<Longrightarrow> tx_phase inside same ok e0 None e'"
  using start_fail by (auto simp: tx_phase_def)

lemma phase_work: "tx_phase inside same ok e0 (Some c) e \<Longrightarrow> work e e' \<Longrightarrow> tx_phase inside same ok e0 (Some c) e'"
  using work_inside by (auto simp: tx_phase_def)

lemma phase_same:
  "tx_phase inside same ok e0 None e \<Longrightarrow> same e e' \<Longrightarrow> ok e' \<Longrightarrow> tx_phase inside same ok e0 None e'"
  using same_trans by (auto simp: tx_phase_def)

lemma phase_undo:
  assumes "tx_phase inside same ok e0 (Some c) e"
  shows "\<exists>e'. undo c e = (Inr (), e') \<and> tx_phase inside same ok e0 None e'"
proof -
  obtain e1 where e1: "same e0 e1" "inside e1 c e" using assms by (auto simp: tx_phase_def)
  obtain e' where "undo c e = (Inr (), e')" "same e1 e'" "ok e'" using undo_inside [OF e1(2)] by blast
  then show ?thesis using same_trans [OF e1(1)] by (auto simp: tx_phase_def)
qed

lemma phase_init: "ok e \<Longrightarrow> tx_phase inside same ok e None e"
  using same_refl by (simp add: tx_phase_def)

end

definition idle :: "engine \<Rightarrow> bool" where
  "idle e \<longleftrightarrow> engine_inv e \<and> active_mutation e = None"

lemma same_store_refl: "same_store e e"
  by (simp add: same_store_def)

lemma same_store_trans: "same_store a b \<Longrightarrow> same_store b c \<Longrightarrow> same_store a c"
  by (simp add: same_store_def)

lemma begin_fail: "begin_mutation_checkpoint key e = (Inl x, e') \<Longrightarrow> e' = e"
  by (auto simp: begin_mutation_checkpoint_def Let_def split: sum.splits if_splits)

lemma restore_in_tx:
  assumes "in_tx key e0 c e"
  shows "\<exists>e'. restore_mutation_checkpoint c e = (Inr (), e') \<and> same_store e0 e' \<and> idle e'"
proof -
  have inv: "engine_inv e0" using assms by (simp add: in_tx_def)
  show ?thesis
    using rollback [OF assms] same_store_inv [OF inv] unfolding idle_def by metis
qed

interpretation jc: journal_contract "begin_mutation_checkpoint key" restore_mutation_checkpoint
    "in_tx key" same_store idle "\<lambda>e e'. \<exists>op. e' = tx_step key op e" for key
  by unfold_locales
    (auto simp: same_store_refl idle_def[abs_def] intro: same_store_trans begin_in_tx in_tx_step
      dest: begin_fail restore_in_tx [unfolded idle_def])

abbreviation backend_phase :: "pystr \<Rightarrow> engine \<Rightarrow> nat option \<Rightarrow> engine \<Rightarrow> bool" where
  "backend_phase key \<equiv> tx_phase (in_tx key) same_store idle"


lemma tx_phase_idle [simp]: "tx_phase inside same ok e0 None e \<longleftrightarrow> same e0 e \<and> ok e"
  by (simp add: tx_phase_def)

section \<open>The backends of a cluster\<close>

text \<open>Everything but the backends and the clock.\<close>

definition core :: "cluster \<Rightarrow> cluster" where
  "core s = s\<lparr>c_nodes := [], c_ticks := 0\<rparr>"

lemma core_simps [simp]:
  "core (set_node i n s) = core s" "core (c_tick s) = core s"
  by (simp_all add: core_def set_node_def c_tick_def)

lemma core_metadata: "core s = core s' \<Longrightarrow> c_metadata s = c_metadata s'"
  and core_sequence: "core s = core s' \<Longrightarrow> c_sequence s = c_sequence s'"
  and core_leader: "core s = core s' \<Longrightarrow> c_leader s = c_leader s'"
  and core_term: "core s = core s' \<Longrightarrow> c_term s = c_term s'"
  by (auto simp: core_def elim: cluster.cases dest: arg_cong [where f = c_metadata] arg_cong [where f = c_sequence]
      arg_cong [where f = c_leader] arg_cong [where f = c_term])

definition same_node :: "cnode \<Rightarrow> cnode \<Rightarrow> bool" where
  "same_node n n' \<longleftrightarrow> cn_status n' = cn_status n \<and> cn_heartbeat n' = cn_heartbeat n \<and>
     cn_incarnation n' = cn_incarnation n \<and> cn_faults n' = cn_faults n"

text \<open>Node by node, a relation between the backend at the start and the backend now.\<close>

definition backends :: "(pystr \<Rightarrow> engine \<Rightarrow> engine \<Rightarrow> bool) \<Rightarrow> cluster \<Rightarrow> cluster \<Rightarrow> bool" where
  "backends P s0 s \<longleftrightarrow> od_keys (c_nodes s) = od_keys (c_nodes s0) \<and>
     (\<forall>i n0. map_of (c_nodes s0) i = Some n0 \<longrightarrow>
        (\<exists>n. map_of (c_nodes s) i = Some n \<and> same_node n0 n \<and> P i (cn_storage n0) (cn_storage n)))"

definition untouched :: "cluster \<Rightarrow> cluster \<Rightarrow> bool" where
  "untouched s0 s \<longleftrightarrow> backends (\<lambda>_ e0 e. same_store e0 e \<and> idle e) s0 s"

text \<open>No backend is inside a transaction, and the ring was built from known nodes.\<close>

definition cluster_ok :: "cluster \<Rightarrow> bool" where
  "cluster_ok s \<longleftrightarrow> (\<forall>i n. map_of (c_nodes s) i = Some n \<longrightarrow> idle (cn_storage n)) \<and>
     (\<exists>ids vn ver. make_ring (c_sha s) ids vn ver = Inr (c_ring s) \<and> set ids \<subseteq> set (od_keys (c_nodes s)))"

lemma untouched_refl: "cluster_ok s \<Longrightarrow> untouched s s"
  by (simp add: untouched_def backends_def cluster_ok_def same_node_def same_store_refl)

lemma backends_frame [simp]:
  "backends P s0 (c_tick s) = backends P s0 s"
  "backends P s0 (set_metadata i key md s) = backends P s0 s"
  "backends P s0 (c_count m k s) = backends P s0 s"
  "backends P s0 (s\<lparr>c_sequence := q\<rparr>) = backends P s0 s"
  by (simp_all add: backends_def c_tick_def set_metadata_def c_count_def)

lemma backends_cong: "backends P s0 s \<Longrightarrow> (\<And>i e0 e. P i e0 e \<Longrightarrow> Q i e0 e) \<Longrightarrow> backends Q s0 s"
  unfolding backends_def by blast

lemma backends_node:
  assumes "backends P s0 s" "i \<in> set (od_keys (c_nodes s0))"
  obtains n0 n where "map_of (c_nodes s0) i = Some n0" "map_of (c_nodes s) i = Some n" "same_node n0 n"
    "P i (cn_storage n0) (cn_storage n)"
proof -
  have "i \<in> fst ` set (c_nodes s0)" using assms(2) by simp
  then obtain n0 where "map_of (c_nodes s0) i = Some n0" by (metis map_of_eq_None_iff not_None_eq)
  then show ?thesis using assms(1) that unfolding backends_def by blast
qed

lemma backends_set:
  assumes "backends P s0 s" "map_of (c_nodes s0) i = Some n0" "map_of (c_nodes s) i = Some n"
    "same_node n0 n'" "Q (cn_storage n0) (cn_storage n')"
  shows "backends (P(i := Q)) s0 (set_node i n' s)"
proof -
  have "i \<in> fst ` set (c_nodes s)" using assms(3) by (metis map_of_eq_None_iff option.distinct(1))
  then show ?thesis
    using assms by (auto simp: backends_def set_node_def od_keys_update_present update_conv')
qed

lemma on_engine_run:
  "map_of (c_nodes s) i = Some n \<Longrightarrow> op (cn_storage n) = (r, e) \<Longrightarrow>
     on_engine i op s = (map_sum Storage id r, set_node i (n\<lparr>cn_storage := e\<rparr>) s)"
  by (cases r) (simp_all add: on_engine_def)

lemma backends_on_engine:
  assumes b: "backends P s0 s" and i: "i \<in> set (od_keys (c_nodes s0))"
  obtains e0 e where "P i e0 e" "fst (on_engine i op s) = map_sum Storage id (fst (op e))"
    "core (snd (on_engine i op s)) = core s"
    "\<forall>Q. Q e0 (snd (op e)) \<longrightarrow> backends (P(i := Q)) s0 (snd (on_engine i op s))"
proof -
  obtain n0 n where n: "map_of (c_nodes s0) i = Some n0" "map_of (c_nodes s) i = Some n" "same_node n0 n"
    "P i (cn_storage n0) (cn_storage n)" by (rule backends_node [OF b i])
  obtain r e where op: "op (cn_storage n) = (r, e)" by (cases "op (cn_storage n)")
  have run: "on_engine i op s = (map_sum Storage id r, set_node i (n\<lparr>cn_storage := e\<rparr>) s)"
    by (rule on_engine_run [where n = n]) (use n(2) op in auto)
  show ?thesis
  proof (rule that [OF n(4)])
    show "fst (on_engine i op s) = map_sum Storage id (fst (op (cn_storage n)))"
      "core (snd (on_engine i op s)) = core s" using run op by simp_all
    show "\<forall>Q. Q (cn_storage n0) (snd (op (cn_storage n))) \<longrightarrow> backends (P(i := Q)) s0 (snd (on_engine i op s))"
      using backends_set [OF b n(1,2), of "n\<lparr>cn_storage := e\<rparr>"] run op n(3) by (simp add: same_node_def)
  qed
qed

text \<open>A call on a backend either faults, and then leaves it alone, or runs.\<close>

lemma backends_on_node:
  assumes b: "backends P s0 s" and i: "i \<in> set (od_keys (c_nodes s0))"
  obtains (fault) s' where "on_node i op s = (Inl BackendFault, s')" "backends P s0 s'" "core s' = core s"
  | (run) e0 e where "P i e0 e" "fst (on_node i op s) = map_sum Storage id (fst (op e))"
    "core (snd (on_node i op s)) = core s"
    "\<forall>Q. Q e0 (snd (op e)) \<longrightarrow> backends (P(i := Q)) s0 (snd (on_node i op s))"
proof -
  obtain n0 n where n: "map_of (c_nodes s0) i = Some n0" "map_of (c_nodes s) i = Some n" "same_node n0 n"
    "P i (cn_storage n0) (cn_storage n)" by (rule backends_node [OF b i])
  let ?s = "set_node i (n\<lparr>cn_calls := Suc (cn_calls n)\<rparr>) s"
  have b1: "backends P s0 ?s"
    using backends_set [OF b n(1,2), of "n\<lparr>cn_calls := Suc (cn_calls n)\<rparr>" "P i"] n(3,4) by (simp add: same_node_def)
  show ?thesis
  proof (cases "cn_faults n (cn_calls n)")
    case True
    then show ?thesis using n(2) b1 by (intro fault [of ?s]) (simp_all add: on_node_def)
  next
    case False
    then have eq: "on_node i op s = on_engine i op ?s" using n(2) by (simp add: on_node_def)
    show ?thesis
      by (rule backends_on_engine [OF b1 i, of op]) (use eq run in auto)
  qed
qed


section \<open>Undoing, committing and opening journals\<close>

definition journals :: "(pystr \<times> nat) list \<Rightarrow> checkpoints" where
  "journals cs = map (\<lambda>(i, c). (i, MutationCheckpoint c)) cs"

lemma journals_simps [simp]:
  "journals [] = []" "journals ((i, c) # cs) = (i, MutationCheckpoint c) # journals cs"
  "journals (cs @ cs') = journals cs @ journals cs'"
  by (simp_all add: journals_def)

lemma journals_filter: "filter (\<lambda>icp. fst icp = i) (journals cs) = journals (filter (\<lambda>c. fst c = i) cs)"
  by (induction cs) auto

lemma journals_delete: "AList.delete i (journals cs) = journals (AList.delete i cs)"
  by (induction cs) auto

text \<open>\<open>is_open key P i c\<close>: backend \<open>i\<close> has an open journal \<open>c\<close> on the key.\<close>

definition is_open :: "pystr \<Rightarrow> (pystr \<Rightarrow> engine \<Rightarrow> engine \<Rightarrow> bool) \<Rightarrow> pystr \<Rightarrow> nat \<Rightarrow> bool" where
  "is_open key P i c \<longleftrightarrow> (\<forall>e0 e. P i e0 e \<longrightarrow> backend_phase key e0 (Some c) e)"

abbreviation idle_phase :: "pystr \<Rightarrow> engine \<Rightarrow> engine \<Rightarrow> bool" where
  "idle_phase i e0 e \<equiv> same_store e0 e \<and> idle e"

lemma restore_backends_undo:
  assumes "backends P s0 s" "distinct (map fst cs)"
    "\<And>i c. (i, c) \<in> set cs \<Longrightarrow> i \<in> set (od_keys (c_nodes s0)) \<and> is_open key P i c"
  shows "\<exists>us s'. restore_backends (journals cs) s = (Inr us, s') \<and> core s' = core s \<and>
     backends (\<lambda>i. if i \<in> fst ` set cs then idle_phase i else P i) s0 s'"
  using assms
proof (induction cs arbitrary: P s)
  case Nil
  then show ?case by (simp add: restore_backends_def)
next
  case (Cons ic cs)
  obtain i c where ic: "ic = (i, c)" by (cases ic)
  have i: "i \<in> set (od_keys (c_nodes s0))" "is_open key P i c" using Cons.prems(3) ic by auto
  let ?r = "on_engine i (restore_mutation_checkpoint c) s"
  obtain e0 e where e: "P i e0 e" "fst ?r = map_sum Storage id (fst (restore_mutation_checkpoint c e))"
      "core (snd ?r) = core s"
    and Q: "\<forall>Q. Q e0 (snd (restore_mutation_checkpoint c e)) \<longrightarrow> backends (P(i := Q)) s0 (snd ?r)"
    by (rule backends_on_engine [OF Cons.prems(1) i(1), of "restore_mutation_checkpoint c"])
  have "\<exists>e'. restore_mutation_checkpoint c e = (Inr (), e') \<and> backend_phase key e0 None e'"
    by (rule jc.phase_undo) (use i(2) e(1) in \<open>simp add: is_open_def\<close>)
  then have r: "?r = (Inr (), snd ?r)" and b: "backends (P(i := idle_phase i)) s0 (snd ?r)"
    using e(2) Q [rule_format, of "idle_phase i"] by (auto simp: prod_eq_iff)
  have op: "j \<in> set (od_keys (c_nodes s0)) \<and> is_open key (P(i := idle_phase i)) j d" if "(j, d) \<in> set cs" for j d
  proof -
    have "j \<noteq> i" using Cons.prems(2) that ic by force
    then show ?thesis using Cons.prems(3) [of j d] that by (auto simp: is_open_def)
  qed
  have "distinct (map fst cs)" using Cons.prems(2) by simp
  from Cons.IH [OF b this op]
  obtain us s' where "restore_backends (journals cs) (snd ?r) = (Inr us, s')" "core s' = core s"
    "backends (\<lambda>j. if j \<in> fst ` set cs then idle_phase j else (P(i := idle_phase i)) j) s0 s'"
    using e(3) by auto
  moreover from this(3) have "backends (\<lambda>j. if j \<in> fst ` set (ic # cs) then idle_phase j else P j) s0 s'"
    by (rule backends_cong) (auto simp: ic split: if_splits)
  ultimately show ?case
    using r ic by (auto simp: restore_backends_def restore_one_def bind_res_def split: prod.splits)
qed

lemma commit_backends_done:
  assumes "backends P s0 s" "distinct (map fst cs)"
    "\<And>i c. (i, c) \<in> set cs \<Longrightarrow> i \<in> set (od_keys (c_nodes s0)) \<and> is_open key P i c"
  shows "\<exists>us s'. commit_backends (journals cs) s = (Inr us, s') \<and> core s' = core s \<and>
     backends (\<lambda>i e0 e. if i \<in> fst ` set cs
        then \<exists>e1 c. (i, c) \<in> set cs \<and> P i e0 e1 \<and> commit_mutation_checkpoint c e1 = (Inr (), e) else P i e0 e) s0 s'"
  using assms
proof (induction cs arbitrary: P s)
  case Nil
  then show ?case by (simp add: commit_backends_def)
next
  case (Cons ic cs)
  obtain i c where ic: "ic = (i, c)" by (cases ic)
  have i: "i \<in> set (od_keys (c_nodes s0))" "is_open key P i c" using Cons.prems(3) ic by auto
  let ?r = "on_engine i (commit_mutation_checkpoint c) s"
  let ?Q = "\<lambda>e0 e. \<exists>e1. P i e0 e1 \<and> commit_mutation_checkpoint c e1 = (Inr (), e)"
  obtain e0 e where e: "P i e0 e" "fst ?r = map_sum Storage id (fst (commit_mutation_checkpoint c e))"
      "core (snd ?r) = core s"
    and Q: "\<forall>Q. Q e0 (snd (commit_mutation_checkpoint c e)) \<longrightarrow> backends (P(i := Q)) s0 (snd ?r)"
    by (rule backends_on_engine [OF Cons.prems(1) i(1), of "commit_mutation_checkpoint c"])
  have "backend_phase key e0 (Some c) e" using i(2) e(1) by (simp add: is_open_def)
  then have cm: "commit_mutation_checkpoint c e = (Inr (), snd (commit_mutation_checkpoint c e))"
    by (auto simp: tx_phase_def in_tx_def commit_mutation_checkpoint_def validate_active_mutation_def)
  then have r: "?r = (Inr (), snd ?r)" using e(2) by (metis prod.collapse fst_conv map_sum.simps(2) id_apply)
  have b: "backends (P(i := ?Q)) s0 (snd ?r)" using e(1) cm by (intro Q [rule_format]) blast
  have op: "j \<in> set (od_keys (c_nodes s0)) \<and> is_open key (P(i := ?Q)) j d" if "(j, d) \<in> set cs" for j d
  proof -
    have "j \<noteq> i" using Cons.prems(2) that ic by force
    then show ?thesis using Cons.prems(3) [of j d] that by (auto simp: is_open_def)
  qed
  have "distinct (map fst cs)" using Cons.prems(2) by simp
  from Cons.IH [OF b this op]
  obtain us s' where s': "commit_backends (journals cs) (snd ?r) = (Inr us, s')" "core s' = core s"
    "backends (\<lambda>j e0 e. if j \<in> fst ` set cs
        then \<exists>e1 c. (j, c) \<in> set cs \<and> (P(i := ?Q)) j e0 e1 \<and> commit_mutation_checkpoint c e1 = (Inr (), e)
        else (P(i := ?Q)) j e0 e) s0 s'"
    using e(3) by auto
  have "i \<notin> fst ` set cs" using Cons.prems(2) ic by simp
  then have "backends (\<lambda>j e0 e. if j \<in> fst ` set (ic # cs)
        then \<exists>e1 c. (j, c) \<in> set (ic # cs) \<and> P j e0 e1 \<and> commit_mutation_checkpoint c e1 = (Inr (), e) else P j e0 e) s0 s'"
    by (intro backends_cong [OF s'(3)]) (auto simp: ic split: if_splits)
  moreover have "commit_backends (journals (ic # cs)) s = (Inr (() # us), s')"
    using r ic s'(1) by (auto simp: commit_backends_def commit_one_def bind_res_def split: prod.splits)
  ultimately show ?case using s'(2) by blast
qed


text \<open>Reads of the clock and validations leave the backends alone.\<close>

lemma core_available [simp]: "core (snd (available_owners is s)) = core s"
  by (induction "is" arbitrary: s) (auto simp: Let_def case_prod_beta healthy_def split: option.splits)

lemma backends_available [simp]: "backends P s0 (snd (available_owners is s)) = backends P s0 s"
  by (induction "is" arbitrary: s) (auto simp: Let_def case_prod_beta healthy_def split: option.splits)

lemma available_subset: "set (fst (available_owners is s)) \<subseteq> set is"
  by (induction "is" arbitrary: s) (auto simp: Let_def case_prod_beta split: if_splits)

lemma available_distinct: "distinct is \<Longrightarrow> distinct (fst (available_owners is s))"
  using available_subset by (induction "is" arbitrary: s) (fastforce simp: Let_def case_prod_beta)+

lemma validate_put_same: "same_store e (snd (validate_put k v a b ts tok p e))"
  "idle e \<Longrightarrow> idle (snd (validate_put k v a b ts tok p e))"
proof -
  have "snd (validate_put k v a b ts tok p e) = e \<or> snd (validate_put k v a b ts tok p e) = tick e"
  proof -
    obtain r e1 where r: "prepare_put k v a b ts p False e = (r, e1)" by (cases "prepare_put k v a b ts p False e")
    then have [simp]: "e1 = e" using prepare_put_state [of k v a b ts p False e] by (auto simp: reject_def)
    show ?thesis
      by (cases r) (auto simp: validate_put_def r bind_res_def Let_def case_prod_beta split: sum.split)
  qed
  then show "same_store e (snd (validate_put k v a b ts tok p e))"
    "idle e \<Longrightarrow> idle (snd (validate_put k v a b ts tok p e))"
    by (auto simp: same_store_def idle_def tick_def limits_def inv_defs accounted_def)
qed

lemma const_upd [simp]: "(\<lambda>_. q)(i := q) = (\<lambda>_. q)"
  by (simp add: fun_eq_iff)

lemma prevalidate_untouched:
  assumes "untouched s0 s" "set is \<subseteq> set (od_keys (c_nodes s0))"
  shows "untouched s0 (snd (prevalidate is (validate_put k v a b ts tok p) s))
     \<and> core (snd (prevalidate is (validate_put k v a b ts tok p) s)) = core s"
  using assms unfolding prevalidate_def
proof (induction "is" arbitrary: s)
  case (Cons i js)
  let ?r = "on_node i (validate_put k v a b ts tok p) s"
  have "untouched s0 (snd ?r) \<and> core (snd ?r) = core s"
  proof (cases rule: backends_on_node [OF Cons.prems(1) [unfolded untouched_def], of i "validate_put k v a b ts tok p", case_names mem fault run])
    case (run e0 e)
    have "backends (idle_phase(i := idle_phase i)) s0 (snd ?r)"
      by (rule run(4) [rule_format])
        (use run(1) validate_put_same [of e] same_store_trans in blast)
    then show ?thesis using run(3) by (simp add: untouched_def)
  qed (use Cons.prems in \<open>auto simp: untouched_def\<close>)
  then show ?case
    using Cons.IH [of "snd ?r"] Cons.prems
    by (cases ?r; cases "fst ?r") (auto simp: bind_res_def split: prod.splits sum.splits)
qed simp


text \<open>A backend whose journal was just opened, and one that has then accepted the write.\<close>

definition opened :: "pystr \<Rightarrow> nat \<Rightarrow> engine \<Rightarrow> engine \<Rightarrow> bool" where
  "opened key c e0 e \<longleftrightarrow> (\<exists>e1. same_store e0 e1 \<and> idle e1 \<and> begin_mutation_checkpoint key e1 = (Inr c, e))"

definition written :: "(engine \<Rightarrow> cache_result eres) \<Rightarrow> pystr \<Rightarrow> nat \<Rightarrow> engine \<Rightarrow> engine \<Rightarrow> bool" where
  "written w key c e0 e \<longleftrightarrow> (\<exists>e1 r. opened key c e0 e1 \<and> w e1 = (Inr r, e))"

definition key_write :: "pystr \<Rightarrow> (engine \<Rightarrow> cache_result eres) \<Rightarrow> bool" where
  "key_write key w \<longleftrightarrow> (\<forall>e. \<exists>op. snd (w e) = tx_step key op e)"

lemma key_write_put: "key_write key (put key v a b ts tok p)"
proof -
  have "snd (put key v a b ts tok p e) = tx_step key (TxPut v a b ts tok p) e" for e by simp
  then show ?thesis unfolding key_write_def by blast
qed

lemma opened_phase: "opened key c e0 e \<Longrightarrow> backend_phase key e0 (Some c) e"
  unfolding opened_def by (auto intro: jc.phase_start)

lemma written_phase: "key_write key w \<Longrightarrow> opened key c e0 e1 \<Longrightarrow> backend_phase key e0 (Some c) (snd (w e1))"
  unfolding key_write_def by (rule jc.phase_work [OF opened_phase]) blast+

lemma open_opened: "(\<And>e0 e. P i e0 e \<Longrightarrow> opened key c e0 e) \<Longrightarrow> is_open key P i c"
  by (auto simp: is_open_def intro: opened_phase)

lemma open_written: "key_write key w \<Longrightarrow> (\<And>e0 e. P i e0 e \<Longrightarrow> written w key c e0 e) \<Longrightarrow> is_open key P i c"
  using written_phase [of key w] by (fastforce simp: is_open_def written_def)

definition opened_at :: "pystr \<Rightarrow> (pystr \<times> nat) list \<Rightarrow> pystr \<Rightarrow> engine \<Rightarrow> engine \<Rightarrow> bool" where
  "opened_at key cs i = (case map_of cs i of None \<Rightarrow> idle_phase i | Some c \<Rightarrow> opened key c)"

lemma opened_at_open:
  "distinct (map fst cs) \<Longrightarrow> (i, c) \<in> set cs \<Longrightarrow> is_open key (opened_at key cs) i c"
  by (rule open_opened) (simp add: opened_at_def)

lemma opened_at_snoc:
  assumes "i \<notin> fst ` set cs"
  shows "opened_at key (cs @ [(i, c)]) = (opened_at key cs)(i := opened key c)"
proof
  have "map_of cs i = None" using assms by (simp add: map_of_eq_None_iff)
  then show "opened_at key (cs @ [(i, c)]) j = ((opened_at key cs)(i := opened key c)) j" for j
    by (cases "map_of cs j") (auto simp: opened_at_def map_add_def)
qed

lemma capture_loop_cases:
  assumes "backends (opened_at key cs) s0 s" "distinct (map fst cs @ is)"
    "set (map fst cs) \<union> set is \<subseteq> set (od_keys (c_nodes s0))"
  obtains (fail) x s' where "capture_loop is key (journals cs) s = (Inl x, s')" "untouched s0 s'" "core s' = core s"
  | (all_open) cs' s' where "capture_loop is key (journals cs) s = (Inr (journals cs'), s')" "core s' = core s"
      "backends (opened_at key cs') s0 s'" "map fst cs' = map fst cs @ is"
proof -
  have "(\<exists>x s'. capture_loop is key (journals cs) s = (Inl x, s') \<and> untouched s0 s' \<and> core s' = core s) \<or>
    (\<exists>cs' s'. capture_loop is key (journals cs) s = (Inr (journals cs'), s') \<and> core s' = core s \<and>
      backends (opened_at key cs') s0 s' \<and> map fst cs' = map fst cs @ is)"
    using assms
  proof (induction "is" arbitrary: cs s)
    case (Cons i js)
    let ?r = "on_engine i (begin_mutation_checkpoint key) s"
    have i: "i \<in> set (od_keys (c_nodes s0))" using Cons.prems(3) by simp
    have fresh: "opened_at key cs i = idle_phase i"
      using Cons.prems(2) by (simp add: opened_at_def map_of_eq_None_iff [THEN iffD2])
    obtain e0 e where e: "opened_at key cs i e0 e" "fst ?r = map_sum Storage id (fst (begin_mutation_checkpoint key e))"
        "core (snd ?r) = core s"
      and Q: "\<forall>Q. Q e0 (snd (begin_mutation_checkpoint key e)) \<longrightarrow> backends ((opened_at key cs)(i := Q)) s0 (snd ?r)"
      by (rule backends_on_engine [OF Cons.prems(1) i])
    show ?case
    proof (cases "fst (begin_mutation_checkpoint key e)")
      case (Inl x)
      then have "snd (begin_mutation_checkpoint key e) = e"
        using begin_fail [of key e x] by (metis prod.collapse)
      then have b: "backends ((opened_at key cs)(i := opened_at key cs i)) s0 (snd ?r)"
        using Q e(1) by auto
      have op: "j \<in> set (od_keys (c_nodes s0)) \<and> is_open key (opened_at key cs) j d" if "(j, d) \<in> set cs" for j d
      proof
        have "j \<in> set (map fst cs)" using that by force
        then show "j \<in> set (od_keys (c_nodes s0))" using Cons.prems(3) by blast
        show "is_open key (opened_at key cs) j d" by (rule opened_at_open [OF _ that]) (use Cons.prems(2) in simp)
      qed
      obtain us s' where s': "restore_backends (journals cs) (snd ?r) = (Inr us, s')" "core s' = core (snd ?r)"
          "backends (\<lambda>i. if i \<in> fst ` set cs then idle_phase i else opened_at key cs i) s0 s'"
        using restore_backends_undo [of "opened_at key cs" s0 "snd ?r" cs key] b op Cons.prems(2) by auto
      from s'(3) have "untouched s0 s'" unfolding untouched_def
        by (rule backends_cong) (auto simp: opened_at_def map_of_eq_None_iff [THEN iffD2] split: if_splits)
      moreover have "?r = (Inl (Storage x), snd ?r)" using e(2) Inl by (simp add: prod_eq_iff)
      ultimately show ?thesis
        using s'(1,2) e(3) by (auto simp: bind_res_def split: prod.splits)
    next
      case (Inr c)
      let ?cs = "cs @ [(i, c)]"
      have "opened key c e0 (snd (begin_mutation_checkpoint key e))"
        using e(1) fresh Inr unfolding opened_def by (metis prod.collapse)
      then have "backends ((opened_at key cs)(i := opened key c)) s0 (snd ?r)" using Q by blast
      then have "backends (opened_at key ?cs) s0 (snd ?r)"
        using Cons.prems(2) by (simp add: opened_at_snoc)
      from Cons.IH [OF this] Cons.prems(2,3)
      have "(\<exists>x s'. capture_loop js key (journals ?cs) (snd ?r) = (Inl x, s') \<and> untouched s0 s' \<and> core s' = core s) \<or>
        (\<exists>cs' s'. capture_loop js key (journals ?cs) (snd ?r) = (Inr (journals cs'), s') \<and> core s' = core s \<and>
          backends (opened_at key cs') s0 s' \<and> map fst cs' = map fst cs @ i # js)"
        using e(3) by auto
      moreover have "?r = (Inr c, snd ?r)" using e(2) Inr by (simp add: prod_eq_iff)
      ultimately show ?thesis by (auto split: prod.splits)
    qed
  qed auto
  then show ?thesis using fail all_open by blast
qed


section \<open>The write loop\<close>

definition written_at ::
  "(engine \<Rightarrow> cache_result eres) \<Rightarrow> pystr \<Rightarrow> (pystr \<times> nat) list \<Rightarrow> pystr set \<Rightarrow> pystr \<Rightarrow> engine \<Rightarrow> engine \<Rightarrow> bool" where
  "written_at w key cs D i = (case map_of cs i of None \<Rightarrow> idle_phase i
     | Some c \<Rightarrow> if i \<in> D then written w key c else opened key c)"

definition stamped :: "pystr \<Rightarrow> replica_metadata \<Rightarrow> pystr set \<Rightarrow> int \<Rightarrow> cluster \<Rightarrow> cluster" where
  "stamped key md D q s = s\<lparr>c_metadata := (\<lambda>i k. if k = key \<and> i \<in> D then Some md else c_metadata s i k), c_sequence := q\<rparr>"

lemma stamped_none: "core (stamped key md {} (c_sequence s) s) = core s"
  by (simp add: stamped_def core_def)

lemma core_set_metadata: "core (set_metadata i key m s) = set_metadata i key m (core s)"
  by (simp add: core_def set_metadata_def)

lemma core_stamped: "core (stamped key md D q s) = stamped key md D q (core s)"
  by (simp add: core_def stamped_def cong: if_cong)

lemma stamp_one:
  "core s = core (stamped key md D q sb) \<Longrightarrow> core (set_metadata i key (Some md) s) = core (stamped key md (insert i D) q sb)"
  by (simp add: core_set_metadata core_stamped) (auto simp: set_metadata_def stamped_def fun_eq_iff)

lemma stamp_back:
  "core s = core (stamped key md D q sb) \<Longrightarrow> i \<notin> D \<Longrightarrow>
     core (set_metadata i key (c_metadata sb i key) s) = core (stamped key md D q sb)"
  by (simp add: core_set_metadata core_stamped) (auto simp: set_metadata_def stamped_def fun_eq_iff core_def)

lemma put_metadata_back_stamped:
  "core s = core (stamped key md D q sb) \<Longrightarrow>
     core (put_metadata_back key (\<lambda>i. c_metadata sb i key) is s) = core (stamped key md (D - set is) q sb)"
  unfolding put_metadata_back_def
proof (induction "is" arbitrary: s D)
  case (Cons i js)
  have "core (set_metadata i key (c_metadata sb i key) s) = core (stamped key md (D - {i}) q sb)"
    using Cons.prems by (simp add: core_set_metadata core_stamped) (auto simp: set_metadata_def stamped_def fun_eq_iff core_def)
  moreover have "D - {i} - set js = D - set (i # js)" by auto
  ultimately show ?case using Cons.IH by simp
qed simp

lemma written_at_open:
  assumes "key_write key w" "distinct (map fst cs)" "(i, c) \<in> set cs"
  shows "is_open key (written_at w key cs D) i c"
proof (cases "i \<in> D")
  case True
  then show ?thesis using assms by (intro open_written [where w = w]) (auto simp: written_at_def)
next
  case False
  then show ?thesis using assms by (intro open_opened) (auto simp: written_at_def)
qed

text \<open>Undoing the whole write: backends, metadata and sequence number.\<close>

lemma undo_write_undoes:
  assumes b: "backends (written_at w key cs D) s0 s" and w: "key_write key w" and cs: "distinct (map fst cs)"
    "fst ` set cs \<subseteq> set (od_keys (c_nodes s0))"
    and c: "core s = core (stamped key md D q sb)" and D: "D \<subseteq> set targets"
  shows "\<exists>s'. undo_write key (\<lambda>i. c_metadata sb i key) targets (c_sequence sb) (journals cs) x s = (Inl x, s')
     \<and> untouched s0 s' \<and> core s' = core sb"
proof -
  have op: "i \<in> set (od_keys (c_nodes s0)) \<and> is_open key (written_at w key cs D) i c" if "(i, c) \<in> set cs" for i c
    using written_at_open [OF w cs(1) that] cs(2) that by force
  obtain us s1 where s1: "restore_backends (journals cs) s = (Inr us, s1)" "core s1 = core s"
    "backends (\<lambda>i. if i \<in> fst ` set cs then idle_phase i else written_at w key cs D i) s0 s1"
    using restore_backends_undo [OF b cs(1), where key = key] op by blast
  let ?s2 = "put_metadata_back key (\<lambda>i. c_metadata sb i key) targets s1"
  have "backends P s0 (fold (\<lambda>i. set_metadata i key (f i)) js s) = backends P s0 s" for P f js and s
    by (induction js arbitrary: s) auto
  then have "backends (\<lambda>i. if i \<in> fst ` set cs then idle_phase i else written_at w key cs D i) s0 ?s2"
    using s1(3) by (simp add: put_metadata_back_def)
  then have "untouched s0 ?s2" unfolding untouched_def
    by (rule backends_cong) (auto simp: written_at_def map_of_eq_None_iff [THEN iffD2] split: if_splits)
  moreover have "core ?s2 = core (stamped key md {} q sb)"
    using put_metadata_back_stamped [of s1 key md D q sb targets] s1(2) c D by (simp add: Diff_eq_empty_iff [THEN iffD2])
  then have "core (?s2\<lparr>c_sequence := c_sequence sb\<rparr>) = core sb"
    by (cases sb; cases ?s2) (simp add: core_def stamped_def)
  ultimately show ?thesis
    using s1(1) by (simp add: undo_write_def bind_res_def untouched_def)
qed


lemma written_at_done:
  assumes "map_of cs i = Some c"
  shows "(written_at w key cs D)(i := written w key c) = written_at w key cs (insert i D)"
  using assms by (auto simp: written_at_def fun_eq_iff split: option.splits)

lemma written_at_pending:
  assumes "map_of cs i = Some c" "i \<notin> D"
  shows "written_at w key cs D i = opened key c"
  using assms by (simp add: written_at_def)

lemma drop_one:
  assumes b: "backends P s0 s" and P: "P = (written_at w key cs D)(i := Q)" and "i \<notin> D"
    and Q: "\<And>e0 e. Q e0 e \<Longrightarrow> backend_phase key e0 (Some c) e"
    and cs: "distinct (map fst cs)" "(i, c) \<in> set cs" "i \<in> set (od_keys (c_nodes s0))"
  shows "\<exists>us s'. restore_backends (filter (\<lambda>icp. fst icp = i) (journals cs)) s = (Inr us, s') \<and> core s' = core s
     \<and> backends (written_at w key (AList.delete i cs) D) s0 s'"
proof -
  have f: "filter (\<lambda>x. fst x = i) cs = [(i, c)]"
    using cs(1,2) by (induction cs) (force simp: filter_empty_conv)+
  have "\<exists>us s'. restore_backends (journals [(i, c)]) s = (Inr us, s') \<and> core s' = core s \<and>
     backends (\<lambda>j. if j \<in> fst ` set [(i, c)] then idle_phase j else P j) s0 s'"
    by (rule restore_backends_undo [OF b, where key = key]) (use Q cs(3) in \<open>auto simp: P is_open_def\<close>)
  then obtain us s' where s': "restore_backends (journals [(i, c)]) s = (Inr us, s')" "core s' = core s"
     "backends (\<lambda>j. if j \<in> fst ` set [(i, c)] then idle_phase j else P j) s0 s'" by blast
  have "backends (written_at w key (AList.delete i cs) D) s0 s'"
    by (rule backends_cong [OF s'(3)]) (auto simp: P written_at_def delete_conv' split: if_splits)
  then show ?thesis using s' f by (simp add: journals_filter)
qed

text \<open>What the loop leaves: everything undone, or the backends that accepted the write.\<close>

definition loop_left ::
  "(engine \<Rightarrow> cache_result eres) \<Rightarrow> pystr \<Rightarrow> replica_metadata \<Rightarrow> int \<Rightarrow> cluster \<Rightarrow> cluster \<Rightarrow> pystr list \<Rightarrow>
   (checkpoints \<times> (pystr \<times> cache_result) list) cres \<Rightarrow> bool" where
  "loop_left w key md q s0 sb targets r \<longleftrightarrow>
     (case r of
        (Inl _, s') \<Rightarrow> untouched s0 s' \<and> core s' = core sb
      | (Inr (cps, acc), s') \<Rightarrow>
          (\<exists>cs. cps = journals cs \<and> distinct (map fst cs) \<and> fst ` set cs = fst ` set acc \<and>
             fst ` set acc \<subseteq> set targets \<and> distinct (map fst acc) \<and>
             backends (written_at w key cs (fst ` set acc)) s0 s' \<and>
             core s' = core (stamped key md (fst ` set acc) q sb)))"

lemma write_loop_left:
  assumes "key_write key w" "backends (written_at w key cs (fst ` set acc)) s0 s"
    "core s = core (stamped key md (fst ` set acc) q sb)"
    "distinct (map fst cs)" "fst ` set cs = fst ` set acc \<union> set is" "fst ` set acc \<inter> set is = {}"
    "distinct is" "distinct (map fst acc)" "fst ` set acc \<union> set is \<subseteq> set targets" "set targets \<subseteq> set (od_keys (c_nodes s0))"
  shows "loop_left w key md q s0 sb targets
     (write_loop w key md (\<lambda>i. c_metadata sb i key) targets (c_sequence sb) is (journals cs) acc s)"
  using assms
proof (induction "is" arbitrary: cs acc s)
  case Nil
  then show ?case by (auto simp: loop_left_def)
next
  case (Cons i js)
  let ?D = "fst ` set acc" and ?r = "on_node i w s" and ?old = "\<lambda>i. c_metadata sb i key"
  have i: "i \<in> set (od_keys (c_nodes s0))" "i \<notin> ?D" using Cons.prems by auto
  have "i \<in> fst ` set cs" unfolding Cons.prems(5) by simp
  then obtain c where c: "(i, c) \<in> set cs" by auto
  then have mc: "map_of cs i = Some c" using Cons.prems(4) by simp
  have sub: "fst ` set (AList.delete i cs) \<subseteq> set (od_keys (c_nodes s0))"
    using Cons.prems(5,9,10) by (auto simp: delete_keys)
  have del: "fst ` set (AList.delete i cs) = ?D \<union> set js"
    using Cons.prems(5,7) i(2) by (auto simp: delete_keys)
  have dd: "distinct (map fst (AList.delete i cs))" by (rule distinct_delete) (rule Cons.prems)
  have abort: "loop_left w key md q s0 sb targets
       (write_loop w key md ?old targets (c_sequence sb) (i # js) (journals cs) acc s)"
    if r: "?r = (Inl x, s1)" and core1: "core s1 = core s"
      and b1: "backends ((written_at w key cs ?D)(i := Q)) s0 s1"
      and Q: "\<And>e0 e. Q e0 e \<Longrightarrow> backend_phase key e0 (Some c) e" for x s1 Q
  proof -
    obtain us s2 where s2: "restore_backends (filter (\<lambda>icp. fst icp = i) (journals cs)) s1 = (Inr us, s2)"
        "core s2 = core s1" "backends (written_at w key (AList.delete i cs) ?D) s0 s2"
      using drop_one [OF b1 refl i(2) Q Cons.prems(4) c i(1)] by blast
    let ?s3 = "set_metadata i key (?old i) s2"
    have c3: "core ?s3 = core (stamped key md ?D q sb)"
      by (rule stamp_back) (use s2(2) core1 Cons.prems(3) i(2) in simp_all)
    have b3: "backends (written_at w key (AList.delete i cs) ?D) s0 ?s3" using s2(3) by simp
    show ?thesis
    proof (cases "value_error x")
      case True
      have "\<exists>s'. undo_write key ?old targets (c_sequence sb) (journals (AList.delete i cs)) x ?s3 =
          ((Inl x, s') :: (checkpoints \<times> (pystr \<times> cache_result) list) cres) \<and> untouched s0 s' \<and> core s' = core sb"
        by (rule undo_write_undoes [OF b3 Cons.prems(1) dd sub c3]) (use Cons.prems(9) in auto)
      then show ?thesis
        using True r s2(1) by (auto simp: loop_left_def bind_res_def journals_delete)
    next
      case False
      have "loop_left w key md q s0 sb targets
         (write_loop w key md ?old targets (c_sequence sb) js (journals (AList.delete i cs)) acc ?s3)"
        by (rule Cons.IH [OF Cons.prems(1) b3 c3 dd]) (use Cons.prems del in auto)
      then show ?thesis using False r s2(1) by (simp add: bind_res_def journals_delete)
    qed
  qed
  show ?case
  proof (cases rule: backends_on_node [OF Cons.prems(2) i(1), of w, case_names fault run])
    case (fault s1)
    have "(written_at w key cs ?D)(i := opened key c) = written_at w key cs ?D"
      by (simp add: fun_upd_idem written_at_pending [OF mc i(2)])
    then show ?thesis using abort [OF fault(1,3), where Q = "opened key c"] fault(2) opened_phase by simp
  next
    case (run e0 e)
    have e: "opened key c e0 e" using run(1) mc i(2) by (simp add: written_at_def)
    show ?thesis
    proof (cases "fst (w e)")
      case (Inl x)
      then have r: "?r = (Inl (Storage x), snd ?r)" using run(2) by (simp add: prod_eq_iff)
      show ?thesis
        by (rule abort [OF r run(3), where Q = "\<lambda>e0. backend_phase key e0 (Some c)"])
          (use run(4) written_phase [OF Cons.prems(1) e] in auto)
    next
      case (Inr a)
      then have r: "?r = (Inr a, snd ?r)" using run(2) by (simp add: prod_eq_iff)
      have "written w key c e0 (snd (w e))" using e Inr unfolding written_def by (metis prod.collapse)
      then have "backends ((written_at w key cs ?D)(i := written w key c)) s0 (snd ?r)" using run(4) by blast
      then have b: "backends (written_at w key cs (fst ` set (acc @ [(i, a)]))) s0 (set_metadata i key (Some md) (snd ?r))"
        by (simp add: written_at_done [OF mc])
      have "core (set_metadata i key (Some md) (snd ?r)) = core (stamped key md (fst ` set (acc @ [(i, a)])) q sb)"
        using stamp_one [of "snd ?r" key md ?D q sb i] run(3) Cons.prems(3) by simp
      then have "loop_left w key md q s0 sb targets (write_loop w key md ?old targets (c_sequence sb) js (journals cs)
          (acc @ [(i, a)]) (set_metadata i key (Some md) (snd ?r)))"
        by (intro Cons.IH [OF Cons.prems(1) b]) (use Cons.prems i(2) in auto)
      then show ?thesis using r by (cases ?r) auto
    qed
  qed
qed


section \<open>Quorum writes are atomic\<close>

lemma owners_known:
  assumes "make_ring sha ids vn ver = Inr rg" "owners sha rg key rc = Inr os"
  shows "set os \<subseteq> set ids \<and> distinct os"
proof -
  obtain payload where "key \<noteq> []" "0 < rc" "encode_utf8 key = Some payload"
    using assms(2) by (auto simp: owners_def split: if_splits option.splits)
  from owners_eq [OF assms(1) this] assms(2)
  obtain n where "os = take n (first_seen (ring_order rg (hash_token sha payload)))" by auto
  then show ?thesis
    using set_ring_order [OF assms(1)] make_ring_Inr(1) [OF assms(1)] by (auto dest!: in_set_takeD)
qed

text \<open>A backend that ran the write in a transaction and committed it.\<close>

definition accepted :: "(engine \<Rightarrow> cache_result eres) \<Rightarrow> pystr \<Rightarrow> engine \<Rightarrow> engine \<Rightarrow> bool" where
  "accepted w key e0 e \<longleftrightarrow> (\<exists>e1 c. written w key c e0 e1 \<and> commit_mutation_checkpoint c e1 = (Inr (), e))"

definition put_outcome ::
  "pystr \<Rightarrow> (engine \<Rightarrow> cache_result eres) \<Rightarrow> pystr list \<Rightarrow> profile \<Rightarrow> cluster \<Rightarrow> cluster \<Rightarrow> bool" where
  "put_outcome key w ts p s s' \<longleftrightarrow>
     (\<exists>os req W. owners (c_sha s) (c_ring s) key (c_replica_count s) = Inr os \<and>
        required p (int (length os)) = Inr req \<and> W \<subseteq> set os \<and> req \<le> int (card W) \<and>
        core s' = core (c_count ''replicated_writes_total'' 1
          (stamped key \<lparr>md_version = VersionStamp (c_term s) (c_sequence s + 1) (c_leader s),
                        md_deleted = False, md_tags = sort (remdups ts)\<rparr> W (c_sequence s + 1) s)) \<and>
        backends (\<lambda>i. if i \<in> W then accepted w key else idle_phase i) s s')"

lemma core_count: "core (c_count m n s) = c_count m n (core s)"
  by (simp add: core_def c_count_def)


text \<open>The transaction of \<open>replicate_put\<close>, from its first journal to commit or rollback.\<close>

definition write_txn ::
  "(engine \<Rightarrow> cache_result eres) \<Rightarrow> pystr \<Rightarrow> pystr list \<Rightarrow> int \<Rightarrow> pystr list \<Rightarrow> cluster \<Rightarrow> cache_result cres" where
  "write_txn w key ts req av s =
     bind_res (capture_loop av key [] s) (\<lambda>cps s5.
       let old = (\<lambda>i. c_metadata s5 i key); oldseq = c_sequence s5; (ver, s6) = next_version s5;
           md = \<lparr>md_version = ver, md_deleted = False, md_tags = sort (remdups ts)\<rparr> in
       bind_res (write_loop w key md old av oldseq av cps [] s6)
         (\<lambda>(cps', done) s7.
           if int (length done) < req
           then undo_write key old av oldseq cps' (Quorum ''write'' req (int (length done))) s7
           else bind_res (commit_backends cps' s7) (\<lambda>_ s8.
             (Inr (snd (hd done)), c_count ''replicated_writes_total'' 1 s8))))"

definition put_stamp :: "pystr list \<Rightarrow> cluster \<Rightarrow> replica_metadata" where
  "put_stamp ts s = \<lparr>md_version = VersionStamp (c_term s) (c_sequence s + 1) (c_leader s),
     md_deleted = False, md_tags = sort (remdups ts)\<rparr>"

lemma stamped_core: "core s = core s' \<Longrightarrow> core (stamped key md D q s) = core (stamped key md D q s')"
  by (simp add: core_stamped)

lemma loop_after_capture:
  assumes cap: "capture_loop av key [] s4 = (Inr cps, s5)" and s4: "untouched s s4" "core s4 = core s"
    and av: "distinct av" "set av \<subseteq> set (od_keys (c_nodes s))" and w: "key_write key w"
  shows "loop_left w key (put_stamp ts s) (c_sequence s + 1) s s5 av
     (write_loop w key (put_stamp ts s) (\<lambda>i. c_metadata s5 i key) av (c_sequence s5) av cps [] (snd (next_version s5)))
     \<and> core s5 = core s"
proof -
  have b4: "backends (opened_at key []) s s4"
    by (rule backends_cong [OF s4(1) [unfolded untouched_def]]) (simp add: opened_at_def)
  show ?thesis
  proof (cases rule: capture_loop_cases [OF b4, of av, case_names d s fail all_open])
    case (all_open cs s')
    then have cs: "cps = journals cs" and s': "s5 = s'" and c5: "core s5 = core s" using cap s4(2) by auto
    have b5: "backends (written_at w key cs {}) s (snd (next_version s5))"
      unfolding next_version_def Let_def snd_conv backends_frame
      by (rule backends_cong [OF all_open(3) [folded s']]) (auto simp: written_at_def opened_at_def split: option.splits)
    have "core (snd (next_version s5)) = core (stamped key (put_stamp ts s) {} (c_sequence s + 1) s5)"
      using core_sequence [OF c5] by (simp add: next_version_def stamped_def core_def Let_def)
    then have "loop_left w key (put_stamp ts s) (c_sequence s + 1) s s5 av
       (write_loop w key (put_stamp ts s) (\<lambda>i. c_metadata s5 i key) av (c_sequence s5) av (journals cs) [] (snd (next_version s5)))"
      by (intro write_loop_left [OF w])
        (use b5 all_open(4) av in \<open>auto simp flip: set_map\<close>)
    then show ?thesis using cs c5 by simp
  qed (use cap av in auto)
qed

lemma write_txn_left:
  assumes s4: "untouched s s4" "core s4 = core s"
    and av: "distinct av" "set av \<subseteq> set (od_keys (c_nodes s))" and w: "key_write key w"
  shows "case write_txn w key ts req av s4 of
      (Inl _, s') \<Rightarrow> core s' = core s \<and> untouched s s'
    | (Inr _, s') \<Rightarrow> \<exists>W \<subseteq> set av. req \<le> int (card W) \<and>
        core s' = core (c_count ''replicated_writes_total'' 1 (stamped key (put_stamp ts s) W (c_sequence s + 1) s)) \<and>
        backends (\<lambda>i. if i \<in> W then accepted w key else idle_phase i) s s'"
proof (cases "capture_loop av key [] s4")
  case (Pair c s5)
  show ?thesis
  proof (cases c)
    case (Inl x)
    have b4: "backends (opened_at key []) s s4"
      by (rule backends_cong [OF s4(1) [unfolded untouched_def]]) (simp add: opened_at_def)
    show ?thesis
      by (cases rule: capture_loop_cases [OF b4, of av, case_names d s fail all_open])
        (use Inl Pair av s4(2) in \<open>auto simp: write_txn_def\<close>)
  next
    case (Inr cps)
    note left = loop_after_capture [OF Pair [unfolded Inr] s4 av w, of ts]
    let ?wl = "write_loop w key (put_stamp ts s) (\<lambda>i. c_metadata s5 i key) av (c_sequence s5) av cps [] (snd (next_version s5))"
    have c5: "core s5 = core s" using left by simp
    have "fst (next_version s5) = VersionStamp (c_term s) (c_sequence s + 1) (c_leader s)"
      using core_sequence [OF c5] core_term [OF c5] core_leader [OF c5] by (simp add: next_version_def)
    then have txn: "write_txn w key ts req av s4 = bind_res ?wl
         (\<lambda>(cps', done) s7.
           if int (length done) < req
           then undo_write key (\<lambda>i. c_metadata s5 i key) av (c_sequence s5) cps' (Quorum ''write'' req (int (length done))) s7
           else bind_res (commit_backends cps' s7) (\<lambda>_ s8.
             (Inr (snd (hd done)), c_count ''replicated_writes_total'' 1 s8)))"
      using Pair Inr by (simp add: write_txn_def put_stamp_def case_prod_beta Let_def)
    show ?thesis
    proof (cases ?wl)
      case wl: (Pair r s7)
      show ?thesis
      proof (cases r)
        case (Inl x)
        then show ?thesis unfolding txn wl using left c5 wl by (simp add: loop_left_def)
      next
        case rr: (Inr ca)
        obtain cps' acc where ca: "ca = (cps', acc)" by (cases ca)
        then obtain cs where cs: "cps' = journals cs" "distinct (map fst cs)" "fst ` set cs = fst ` set acc"
            "fst ` set acc \<subseteq> set av" "distinct (map fst acc)"
          and b: "backends (written_at w key cs (fst ` set acc)) s s7"
          and c7: "core s7 = core (stamped key (put_stamp ts s) (fst ` set acc) (c_sequence s + 1) s5)"
          using left wl rr by (auto simp: loop_left_def)
        have sub: "fst ` set cs \<subseteq> set (od_keys (c_nodes s))" using cs(3,4) av(2) by auto
        show ?thesis
        proof (cases "int (length acc) < req")
          case True
          have "\<exists>s'. undo_write key (\<lambda>i. c_metadata s5 i key) av (c_sequence s5) (journals cs)
              (Quorum ''write'' req (int (length acc))) s7 = ((Inl (Quorum ''write'' req (int (length acc))), s') :: cache_result cres)
              \<and> untouched s s' \<and> core s' = core s5"
            by (rule undo_write_undoes [OF b w cs(2) sub c7 cs(4)])
          then show ?thesis unfolding txn wl rr ca cs(1) using True c5 by auto
        next
          case False
          have op: "i \<in> set (od_keys (c_nodes s)) \<and> is_open key (written_at w key cs (fst ` set acc)) i c" if "(i, c) \<in> set cs" for i c
            using written_at_open [OF w cs(2) that] sub that by force
          obtain us s8 where s8: "commit_backends (journals cs) s7 = (Inr us, s8)" "core s8 = core s7"
            "backends (\<lambda>i e0 e. if i \<in> fst ` set cs
              then \<exists>e1 c. (i, c) \<in> set cs \<and> written_at w key cs (fst ` set acc) i e0 e1 \<and> commit_mutation_checkpoint c e1 = (Inr (), e)
              else written_at w key cs (fst ` set acc) i e0 e) s s8"
            using commit_backends_done [OF b cs(2), where key = key] op by blast
          have "backends (\<lambda>i. if i \<in> fst ` set acc then accepted w key else idle_phase i) s s8"
            by (rule backends_cong [OF s8(3)])
              (use cs(2,3) in \<open>auto simp: written_at_def accepted_def map_of_eq_None_iff [THEN iffD2] split: if_splits; force\<close>)
          moreover have "core (c_count ''replicated_writes_total'' 1 s8) =
              core (c_count ''replicated_writes_total'' 1 (stamped key (put_stamp ts s) (fst ` set acc) (c_sequence s + 1) s))"
            using s8(2) c7 stamped_core [OF c5] by (simp add: core_count)
          moreover have "req \<le> int (card (fst ` set acc))"
            using False distinct_card [OF cs(5)] by simp
          ultimately show ?thesis
            unfolding txn wl rr ca cs(1) using False s8(1) cs(4) by (auto intro!: exI [of _ "fst ` set acc"])
        qed
      qed
    qed
  qed
qed

lemma replicate_put_left:
  assumes ok: "cluster_ok s"
  shows "case replicate_put key v ttl_s stale_s ts pers p s of
      (Inl _, s') \<Rightarrow> core s' = core s \<and> untouched s s'
    | (Inr _, s') \<Rightarrow> put_outcome key (put key v ttl_s stale_s (PTuple (map PStr ts)) None pers) ts p s s'"
proof (cases "owners (c_sha s) (c_ring s) key (c_replica_count s)")
  case (Inl x)
  then show ?thesis using untouched_refl [OF ok] by (simp add: replicate_put_def ring_owners_def bind_res_def)
next
  case (Inr os)
  obtain ids vn ver where ring: "make_ring (c_sha s) ids vn ver = Inr (c_ring s)" "set ids \<subseteq> set (od_keys (c_nodes s))"
    using ok by (auto simp: cluster_ok_def)
  have os: "set os \<subseteq> set (od_keys (c_nodes s))" "distinct os" using owners_known [OF ring(1) Inr] ring(2) by auto
  let ?w = "put key v ttl_s stale_s (PTuple (map PStr ts)) None pers"
    and ?val = "validate_put key v ttl_s stale_s (PTuple (map PStr ts)) None pers"
  obtain av s2 where av: "available_owners os s = (av, s2)" by (cases "available_owners os s")
  then have s2: "core s2 = core s" "untouched s s2"
    using untouched_refl [OF ok] core_available [of os s] backends_available [of _ s os s] by (auto simp: untouched_def)
  have avs: "set av \<subseteq> set os" "distinct av" "set av \<subseteq> set (od_keys (c_nodes s))"
    using available_subset [of os s] available_distinct [OF os(2), of s] av os(1) by auto
  show ?thesis
  proof (cases "required p (int (length os))")
    case (Inl x)
    then show ?thesis using Inr s2 av by (simp add: replicate_put_def ring_owners_def bind_res_def lift_sum_def)
  next
    case req: (Inr req)
    show ?thesis
    proof (cases "int (length av) < req")
      case True
      then show ?thesis using Inr s2 av req by (simp add: replicate_put_def ring_owners_def bind_res_def lift_sum_def)
    next
      case False
      obtain pv s4 where pv: "prevalidate av ?val s2 = (pv, s4)" by (cases "prevalidate av ?val s2")
      then have s4: "untouched s s4" "core s4 = core s"
        using prevalidate_untouched [OF s2(2) avs(3)] s2(1) by (metis snd_conv)+
      have top: "replicate_put key v ttl_s stale_s ts pers p s = bind_res (pv, s4) (\<lambda>_. write_txn ?w key ts req av)"
        using Inr av req False pv
        by (simp add: replicate_put_def write_txn_def [abs_def] ring_owners_def bind_res_def lift_sum_def capture_mutations_def)
      show ?thesis
      proof (cases pv)
        case (Inl x)
        then show ?thesis unfolding top using s4 by (simp add: bind_res_def)
      next
        case pvr: (Inr u)
        have "case write_txn ?w key ts req av s4 of (Inl _, s') \<Rightarrow> core s' = core s \<and> untouched s s'
          | (Inr _, s') \<Rightarrow> \<exists>W \<subseteq> set av. req \<le> int (card W) \<and>
            core s' = core (c_count ''replicated_writes_total'' 1 (stamped key (put_stamp ts s) W (c_sequence s + 1) s)) \<and>
            backends (\<lambda>i. if i \<in> W then accepted ?w key else idle_phase i) s s'"
          by (rule write_txn_left [OF s4 avs(2,3) key_write_put])
        then show ?thesis unfolding top pvr
          using Inr req avs(1) by (auto simp: put_outcome_def put_stamp_def split: sum.splits prod.splits)
      qed
    qed
  qed
qed


section \<open>Properties\<close>


text \<open>
  C15. A write that returns has been committed by a quorum: at least the required number of the
  key's owners ran the engine's \<open>put\<close> in a transaction and committed it, exactly these carry the
  new version (the current term, the next sequence number, the current leader), and no other
  backend and no other metadata changed.
\<close>

theorem put_reaches_quorum:
  assumes "cluster_ok s" "replicate_put key v ttl_s stale_s ts pers p s = (Inr r, s')"
  shows "put_outcome key (put key v ttl_s stale_s (PTuple (map PStr ts)) None pers) ts p s s'"
  using replicate_put_left [OF assms(1), of key v ttl_s stale_s ts pers p] assms(2) by simp

section \<open>A small cluster\<close>

abbreviation small_engine :: engine where
  "small_engine \<equiv> demo_engine 4 4000 ''lru''"

definition demo_node :: "pystr \<Rightarrow> (nat \<Rightarrow> bool) \<Rightarrow> pystr \<times> cnode" where
  "demo_node i faults = (i, \<lparr>cn_storage = small_engine, cn_status = Active, cn_heartbeat = 0,
     cn_incarnation = 1, cn_faults = faults, cn_calls = 0\<rparr>)"

definition demo_cluster :: "(pystr \<times> cnode) list \<Rightarrow> cluster" where
  "demo_cluster ns = \<lparr>c_sha = (\<lambda>_. []), c_clock = (\<lambda>_. 0), c_ticks = 1, c_nodes = ns,
      c_replica_count = 2, c_virtual_nodes = 1, c_consistency = ProfileMajority, c_heartbeat_timeout = 15,
      c_lease_seconds = 30, c_snapshot_limit = 1000, c_snapshot_chunk = 100, c_snapshot_in_flight = 2,
      c_max_leases = 10, c_max_lease_memory = 1000, c_max_tombstones = 10, c_max_hot = 10,
      c_ring = (case make_ring (\<lambda>_. []) (map fst ns) 1 1 of Inr r \<Rightarrow> r), c_leader = [97], c_term = 1, c_sequence = 0,
      c_metadata = (\<lambda>_. Map.empty), c_known = {}, c_catalog = {}, c_hot = Map.empty, c_watermark = None,
      c_key_tags = Map.empty, c_tag_keys = Map.empty, c_leases = [], c_lease_bytes = 0, c_metrics = (\<lambda>_. 0)\<rparr>"

abbreviation two_nodes :: "(nat \<Rightarrow> bool) \<Rightarrow> (nat \<Rightarrow> bool) \<Rightarrow> cluster" where
  "two_nodes f g \<equiv> demo_cluster [demo_node [97] f, demo_node [98] g]"

lemma two_ring:
  "\<exists>r. make_ring (\<lambda>_. []) [[97], [98]] 1 1 = Inr r"
  "node_ids (c_ring (two_nodes f g)) = [[97], [98]]"
  "points (c_ring (two_nodes f g)) = [(0, [97], 0), (0, [98], 0)]"
  by (simp_all add: demo_cluster_def demo_node_def make_ring_def Let_def node_identity_def utf8_len_ascii
      is_ascii_def is_space_def ring_points_def hash_token_def from_bytes_def less_prod_def less_eq_prod_def)

lemma two_owners:
  "owners (c_sha (two_nodes f g)) (c_ring (two_nodes f g)) [107] (c_replica_count (two_nodes f g)) = Inr [[97], [98]]"
proof -
  have "ring_order (c_ring (two_nodes f g)) t = [[97], [98]]" for t
    by (simp add: ring_order_def two_ring bisect_right_def upt_rec numeral_2_eq_2 mod_Suc)
  then have "owners (\<lambda>_. []) (c_ring (two_nodes f g)) [107] 2 = Inr [[97], [98]]"
    unfolding owners_def encode_k by (simp add: two_ring numeral_2_eq_2)
  then show ?thesis by (simp add: demo_cluster_def)
qed

lemma small_engine_idle: "idle small_engine"
  using reachable_inv [OF demo_reachable [of 4 4000 "''lru''"]] by (simp add: idle_def demo_engine_def)

lemma two_ok: "cluster_ok (two_nodes f g)"
  using small_engine_idle two_ring(1) by (force simp: cluster_ok_def demo_cluster_def demo_node_def)

lemma small_validate:
  "validate_put [107] (PStr [118]) PNone PNone (PTuple []) None True small_engine = (Inr (), tick small_engine)"
  by (simp add: validate_put_def engine_eval)

lemma small_begin:
  "begin_mutation_checkpoint [107] (tick small_engine) = (Inr 0, snd (begin_mutation_checkpoint [107] (tick small_engine)))"
  by (simp add: begin_mutation_checkpoint_def validate_key_def demo_engine_def tick_def)

lemma small_write:
  obtains r e1 e2 e3 e4 e5 where "begin_mutation_checkpoint [107] (tick small_engine) = (Inr 0, e1)"
   "put [107] (PStr [118]) PNone PNone (PTuple []) None True e1 = (Inr r, e2)"
   "commit_mutation_checkpoint 0 e2 = (Inr (), e3)" "restore_mutation_checkpoint 0 e2 = (Inr (), e4)"
   "restore_mutation_checkpoint 0 e1 = (Inr (), e5)"
proof -
  let ?e1 = "snd (begin_mutation_checkpoint [107] (tick small_engine))"
  have inv: "engine_inv (tick small_engine)" using small_engine_idle by (simp add: idle_def)
  have tx: "in_tx [107] (tick small_engine) 0 ?e1" by (rule begin_in_tx [OF inv small_begin])
  let ?put = "put [107] (PStr [118]) PNone PNone (PTuple []) None True ?e1"
  have tx2: "in_tx [107] (tick small_engine) 0 (snd ?put)" by (rule in_tx_put [OF tx])
  have "fst (validate_put [107] (PStr [118]) PNone PNone (PTuple []) None True ?e1) = Inr ()"
    by (simp add: validate_put_fst engine_eval begin_mutation_checkpoint_def)
  with validate_put_exact' [OF inv_begin [OF inv]]
  obtain r where "fst ?put = Inr r" by (auto split: sum.splits)
  moreover have "fst (commit_mutation_checkpoint 0 (snd ?put)) = Inr ()"
    using tx2 by (auto simp: in_tx_def commit_mutation_checkpoint_def validate_active_mutation_def)
  ultimately show ?thesis
    using small_begin restore_in_tx [OF tx] restore_in_tx [OF tx2] that by (metis prod.collapse)
qed

lemmas write_eval = replicate_put_def ring_owners_def lift_sum_def required_def prevalidate_def Let_def two_owners
  healthy_def serving_def c_now_def c_tick_def on_node_def on_engine_def set_node_def capture_mutations_def
  next_version_def set_metadata_def restore_backends_def restore_one_def undo_write_def put_metadata_back_def
  commit_backends_def commit_one_def

abbreviation small_put :: "cluster \<Rightarrow> cache_result cres" where
  "small_put \<equiv> replicate_put [107] (PStr [118]) PNone PNone [] True ProfileMajority"

text \<open>The second backend faults when it is written; without faults the write returns.\<close>

lemma small_put_results:
  "\<exists>e. fst (small_put (two_nodes (\<lambda>_. False) (\<lambda>n. 0 < n))) = Inl e"
  "\<exists>r. fst (small_put (two_nodes (\<lambda>_. False) (\<lambda>_. False))) = Inr r"
proof -
  obtain r e1 e2 e3 e4 e5 where e: "begin_mutation_checkpoint [107] (tick small_engine) = (Inr 0, e1)"
   "put [107] (PStr [118]) PNone PNone (PTuple []) None True e1 = (Inr r, e2)"
   "commit_mutation_checkpoint 0 e2 = (Inr (), e3)" "restore_mutation_checkpoint 0 e2 = (Inr (), e4)"
   "restore_mutation_checkpoint 0 e1 = (Inr (), e5)" by (rule small_write)
  show "\<exists>e. fst (small_put (two_nodes (\<lambda>_. False) (\<lambda>n. 0 < n))) = Inl e"
    by (simp add: write_eval, (simp add: demo_cluster_def demo_node_def write_eval small_validate e)+)
  show "\<exists>r. fst (small_put (two_nodes (\<lambda>_. False) (\<lambda>_. False))) = Inr r"
    by (simp add: write_eval, (simp add: demo_cluster_def demo_node_def write_eval small_validate e)+)
qed


theorem put_reaches_quorum_witness:
  "\<exists>r s'. small_put (two_nodes (\<lambda>_. False) (\<lambda>_. False)) = (Inr r, s') \<and>
     put_outcome [107] (put [107] (PStr [118]) PNone PNone (PTuple (map PStr [])) None True) [] ProfileMajority
       (two_nodes (\<lambda>_. False) (\<lambda>_. False)) s'"
  using small_put_results(2) put_reaches_quorum [OF two_ok] by (metis prod.collapse)

end
