(* ===== verification/Cluster_Props.thy ===== *)
theory Cluster_Props
  imports Cluster_Txn
begin

text \<open>
  Properties of the coordinator: leadership and fencing over every run, reads that meet the
  last write, and the conditions under which a tombstone may be forgotten.
\<close>

section \<open>Leadership and fencing\<close>


lemma fence_moved:
  assumes "cluster_step\<^sup>*\<^sup>* s t" "c_term s < c_term t"
  shows "fence_of s \<noteq> fence_of (snd (detect_failures t))"
  using progress_detect [OF pr.refl [of t]] assms(2) by (auto simp: fence_of_def progress_def)

text \<open>
  A fence obtained before an election cannot write after it: the write raises a fence error,
  and the only thing the call has done is to look for failed nodes.
\<close>

theorem stale_fence_rejected:
  assumes "cluster_step\<^sup>*\<^sup>* s t" "c_term s < c_term t" "validate_key key = Inr ()" "normalize_tags ts = Inr nts"
  shows "cluster_put key v ttl_s stale_s ts tok pers c (Some (fence_of s)) t = (Inl Fence, snd (detect_failures t))"
  using fence_moved [OF assms(1,2)] assms(3,4) by (simp add: cluster_put_def check_key_def assert_fence_def)

section \<open>Reads meet the last write\<close>

text \<open>Versions known at the start of a read, and who may change them before the winner is chosen.\<close>

lemma max_first_in: "max_first k x xs \<in> set (x # xs)"
  by (induction k x xs rule: max_first.induct) auto

lemma max_first_ge: "y \<in> set (x # xs) \<Longrightarrow> k y \<le> k (max_first k x xs)"
  by (induction k x xs arbitrary: y rule: max_first.induct) (fastforce intro: order.trans)+

lemma metadata_set_node [simp]: "c_metadata (set_node i n s) = c_metadata s"
  by (simp add: set_node_def)

lemma metadata_on_engine [simp]: "c_metadata (snd (on_engine i op s)) = c_metadata s"
  by (auto simp: on_engine_def split: option.splits prod.splits sum.splits)

lemma metadata_on_node [simp]: "c_metadata (snd (on_node i op s)) = c_metadata s"
  by (auto simp: on_node_def Let_def split: option.splits)

lemma metadata_available [simp]: "c_metadata (snd (available_owners is s)) = c_metadata s"
  using core_metadata [OF core_available] .

lemma hot_available [simp]: "c_hot (snd (available_owners is s)) = c_hot s"
  using arg_cong [OF core_available [of "is" s], of c_hot] by (simp add: core_def)

lemma elect_leader_frame [simp]:
  "c_metadata (elect_leader s) = c_metadata s" "c_hot (elect_leader s) = c_hot s"
  by (simp_all add: elect_leader_def c_count_def case_prod_beta Let_def)

lemma detect_frame [simp]:
  "c_metadata (snd (detect_failures s)) = c_metadata s" "c_hot (snd (detect_failures s)) = c_hot s"
  by (simp_all add: detect_failures_def Let_def c_count_def c_tick_def)

lemma metadata_attempt: "c_metadata (attempt m r) = c_metadata (snd r)"
  by (auto simp: attempt_def c_count_def split: prod.splits sum.splits)

lemma prune_metadata:
  "j \<noteq> i \<Longrightarrow> c_metadata (prune_hot_replica key i s) j = c_metadata s j"
  by (simp add: prune_hot_replica_def Let_def metadata_attempt set_metadata_def split: option.splits)

lemma hot_responses_metadata:
  assumes "hot_responses is key latest s = (Inr rs, s')"
  shows "(\<forall>j. j \<notin> set is \<longrightarrow> c_metadata s' j = c_metadata s j) \<and>
     (\<forall>(i, r, md) \<in> set rs. md = latest \<and> latest \<noteq> None)"
  using assms
proof (induction "is" arbitrary: s rs)
  case (Cons i js)
  let ?s1 = "snd (healthy i s)"
  have m1: "c_metadata ?s1 = c_metadata s" by (simp add: healthy_def c_tick_def split: option.splits)
  show ?case
  proof (cases "\<not> fst (healthy i s) \<or> latest = None \<or> c_metadata s i key \<noteq> latest \<or> md_deleted (the (c_metadata s i key))")
    case True
    then have "hot_responses js key latest (prune_hot_replica key i ?s1) = (Inr rs, s')"
      using Cons.prems by (auto simp: case_prod_beta)
    from Cons.IH [OF this] show ?thesis using prune_metadata [of _ i key ?s1] m1 by auto
  next
    case False
    obtain r s2 where g: "on_node i (get key) ?s1 = (r, s2)" by (cases "on_node i (get key) ?s1")
    then have m2: "c_metadata s2 = c_metadata s" using metadata_on_node [of i "get key" ?s1] m1 by simp
    have unf: "hot_responses (i # js) key latest s = (case (r, s2) of
        (Inl e, s2) \<Rightarrow> (if value_error e then hot_responses js key latest s2 else (Inl e, s2))
      | (Inr r, s2) \<Rightarrow> (if state r = Miss then hot_responses js key latest (prune_hot_replica key i s2)
           else bind_res (hot_responses js key latest s2) (\<lambda>rs s3. (Inr ((i, r, c_metadata s i key) # rs), s3))))"
      using False g by (auto simp: case_prod_beta)
    show ?thesis
    proof (cases r)
      case (Inl e)
      then have "hot_responses js key latest s2 = (Inr rs, s')" using Cons.prems unf by (auto split: if_splits)
      from Cons.IH [OF this] show ?thesis using m2 by auto
    next
      case (Inr x)
      show ?thesis
      proof (cases "state x = Miss")
        case True
        then have "hot_responses js key latest (prune_hot_replica key i s2) = (Inr rs, s')"
          using Cons.prems unf Inr by simp
        from Cons.IH [OF this] show ?thesis using prune_metadata [of _ i key s2] m2 by auto
      next
        case nm: False
        then obtain rs' where rs: "hot_responses js key latest s2 = (Inr rs', s')" "rs = (i, x, c_metadata s i key) # rs'"
          using Cons.prems unf Inr by (auto simp: bind_res_def split: prod.splits sum.splits)
        from Cons.IH [OF rs(1)] show ?thesis using m2 rs(2) False by auto
      qed
    qed
  qed
qed auto

lemma owner_responses_metadata:
  assumes "owner_responses p is key s = (Inr rs, s')" "p \<noteq> ProfileOne" "distinct is"
  shows "set (map fst rs) \<subseteq> set is \<and> distinct (map fst rs) \<and> (\<forall>(i, r, md) \<in> set rs. md = c_metadata s i key)"
  using assms
proof (induction "is" arbitrary: s rs)
  case (Cons i js)
  obtain r s1 where g: "on_node i (get key) s = (r, s1)" by (cases "on_node i (get key) s")
  then have m: "c_metadata s1 = c_metadata s" using metadata_on_node [of i "get key" s] by simp
  show ?case
  proof (cases r)
    case (Inl e)
    then have "owner_responses p js key s1 = (Inr rs, s')" using Cons.prems(1) g by (auto split: if_splits)
    from Cons.IH [OF this] Cons.prems(2,3) show ?thesis using m by auto
  next
    case (Inr x)
    then obtain rs' where rs: "owner_responses p js key s1 = (Inr rs', s')" "rs = (i, x, c_metadata s1 i key) # rs'"
      using Cons.prems(1,2) g by (auto simp: bind_res_def split: prod.splits sum.splits)
    from Cons.IH [OF rs(1)] Cons.prems(2,3) show ?thesis using m rs(2) by auto
  qed
qed auto


text \<open>The part of a read after the answers are in.\<close>

definition read_tail ::
  "pystr \<Rightarrow> profile \<Rightarrow> int \<Rightarrow> response list \<Rightarrow> response list \<Rightarrow> cluster \<Rightarrow> (cache_result \<times> pystr \<times> replica_metadata option) cres" where
  "read_tail key p req hot own s6 =
     (if int (length own) < req then (Inl (Quorum ''read'' req (int (length own))), s6)
        else case hot @ own of
            [] \<Rightarrow> (Inl (Quorum ''read'' req 0), s6)
          | x # xs \<Rightarrow>
              (let winner = max_first response_rank x xs;
                   (wid, wr, wmd) = winner;
                   result = (if (\<exists>m. wmd = Some m \<and> md_deleted m) then result_of Miss else wr)
               in bind_res (if p \<noteq> ProfileOne
                            then bind_res (read_repair key winner (x # xs) s6) (\<lambda>_ s7.
                                   bind_res (gc_tombstones (Some [key]) s7) (\<lambda>_ s8. (Inr (), s8)))
                            else (Inr (), s6))
                    (\<lambda>_ s9. (Inr (result, wid, wmd),
                       if state result = Miss \<and> p \<noteq> ProfileOne
                       then replace_key_tags key [] (s9\<lparr>c_known := c_known s9 - {key}\<rparr>) else s9))))"

lemma read_locked_tail:
  "read_locked key p s =
     (let s1 = snd (detect_failures s) in
      bind_res (ring_owners key s1) (\<lambda>os s2.
      let (avail, s3) = available_owners os s2 in
      bind_res (lift_sum (required p (int (length os))) s3) (\<lambda>req s4.
      if int (length avail) < req then (Inl (Quorum ''read'' req (int (length avail))), s4)
      else
        bind_res (hot_responses (sorted_list_of_set (case c_hot s4 key of None \<Rightarrow> {} | Some hs \<Rightarrow> hs)) key
            (latest_metadata key s4) s4) (\<lambda>hot s5.
        bind_res (owner_responses p avail key s5) (read_tail key p req hot)))))"
  unfolding read_locked_def read_tail_def [abs_def] ..

lemma read_tail_Inr:
  assumes "read_tail key p req hot own s = (Inr (x, wid, wmd), s')"
  obtains y ys wr where "req \<le> int (length own)" "hot @ own = y # ys" "max_first response_rank y ys = (wid, wr, wmd)"
    "x = (if (\<exists>m. wmd = Some m \<and> md_deleted m) then result_of Miss else wr)"
proof -
  have len: "req \<le> int (length own)" using assms by (auto simp: read_tail_def split: if_splits)
  show ?thesis
  proof (cases "hot @ own")
    case Nil
    then show ?thesis using assms len by (simp add: read_tail_def)
  next
    case (Cons y ys)
    obtain wid' wr wmd' where w: "max_first response_rank y ys = (wid', wr, wmd')" by (cases "max_first response_rank y ys")
    then have "wid' = wid" "wmd' = wmd" "x = (if (\<exists>m. wmd' = Some m \<and> md_deleted m) then result_of Miss else wr)"
      using assms len Cons by (auto simp: read_tail_def Let_def bind_res_Inr)
    then show ?thesis using that [OF len Cons] w by simp
  qed
qed

text \<open>What a quorum read has seen when it returns: the winner among at least a quorum of owners.\<close>

lemma read_locked_seen:
  assumes r: "read_locked key p s = (Inr (x, wid, wmd), s')" and p: "p \<noteq> ProfileOne"
    and os: "owners (c_sha s) (c_ring s) key (c_replica_count s) = Inr os" "distinct os"
    and hot: "\<And>hs. c_hot s key = Some hs \<Longrightarrow> hs \<inter> set os = {}" "\<And>hs. c_hot s key = Some hs \<Longrightarrow> finite hs"
  obtains req seen wr where "required p (int (length os)) = Inr req"
    "req \<le> int (card {i \<in> set os. \<exists>r. (i, r, c_metadata s i key) \<in> set seen})"
    "(wid, wr, wmd) \<in> set seen" "\<forall>y \<in> set seen. response_rank y \<le> response_rank (wid, wr, wmd)"
    "\<forall>(i, r, md) \<in> set seen. md = latest_metadata key s \<or> md = c_metadata s i key"
    "x = (if (\<exists>m. wmd = Some m \<and> md_deleted m) then result_of Miss else wr)"
proof -
  let ?s1 = "snd (detect_failures s)"
  have pr1: "progress s ?s1" by (rule progress_detect [OF pr.refl])
  then have os1: "ring_owners key ?s1 = (Inr os, ?s1)" using os(1) by (simp add: ring_owners_def progress_def)
  obtain av s3 where av: "available_owners os ?s1 = (av, s3)" by (cases "available_owners os ?s1")
  then have s3: "c_metadata s3 = c_metadata s" "c_hot s3 = c_hot s"
    using metadata_available [of os ?s1] hot_available [of os ?s1] by auto
  have avs: "distinct av" "set av \<subseteq> set os"
    using available_distinct [OF os(2), of ?s1] available_subset [of os ?s1] av by auto
  have nodes: "od_keys (c_nodes s3) = od_keys (c_nodes s)"
    using progress_available [OF pr1, of os] av by (simp add: progress_def)
  then have lat: "latest_metadata key s3 = latest_metadata key s" by (simp add: latest_metadata_def s3)
  define hs where "hs = sorted_list_of_set (case c_hot s3 key of None \<Rightarrow> {} | Some hs \<Rightarrow> hs)"
  have hs: "set hs \<inter> set os = {}" using hot s3(2) by (auto simp: hs_def split: option.splits)
  have r': "bind_res (required p (int (length os)), s3) (\<lambda>req s4.
      if int (length av) < req then (Inl (Quorum ''read'' req (int (length av))), s4)
      else bind_res (hot_responses (sorted_list_of_set (case c_hot s4 key of None \<Rightarrow> {} | Some hs \<Rightarrow> hs)) key
            (latest_metadata key s4) s4) (\<lambda>hot s5. bind_res (owner_responses p av key s5) (read_tail key p req hot)))
      = (Inr (x, wid, wmd), s')"
    using r by (simp add: read_locked_tail Let_def os1 av lift_sum_def)
  then obtain req where req: "required p (int (length os)) = Inr req"
    by (auto simp: bind_res_Inr)
  with r' lat obtain h s5 own s6 where h: "hot_responses hs key (latest_metadata key s) s3 = (Inr h, s5)"
    and own: "owner_responses p av key s5 = (Inr own, s6)"
    and tail: "read_tail key p req h own s6 = (Inr (x, wid, wmd), s')"
    by (auto simp: bind_res_Inr hs_def split: if_splits)
  obtain y ys wr where len: "req \<le> int (length own)" and w: "h @ own = y # ys" "max_first response_rank y ys = (wid, wr, wmd)"
      "x = (if (\<exists>m. wmd = Some m \<and> md_deleted m) then result_of Miss else wr)"
    using tail by (rule read_tail_Inr)
  have hm: "\<forall>j. j \<notin> set hs \<longrightarrow> c_metadata s5 j = c_metadata s j" "\<forall>(i, r, md) \<in> set h. md = latest_metadata key s"
    using hot_responses_metadata [OF h] s3(1) by auto
  have om: "set (map fst own) \<subseteq> set av" "distinct (map fst own)" "\<forall>(i, r, md) \<in> set own. md = c_metadata s5 i key"
    using owner_responses_metadata [OF own p avs(1)] by auto
  have o: "fst y \<in> set os \<and> (\<exists>r. y = (fst y, r, c_metadata s (fst y) key))" if "y \<in> set own" for y
  proof -
    have "fst y \<in> set os" using om(1) avs(2) that by auto
    moreover from this have "c_metadata s5 (fst y) = c_metadata s (fst y)" using hs hm(1) by auto
    ultimately show ?thesis using om(3) that by (cases y) fastforce
  qed
  have "set (map fst own) \<subseteq> {i \<in> set os. \<exists>r. (i, r, c_metadata s i key) \<in> set (h @ own)}"
    using o by force
  then have "card (set (map fst own)) \<le> card {i \<in> set os. \<exists>r. (i, r, c_metadata s i key) \<in> set (h @ own)}"
    by (intro card_mono) auto
  then have "req \<le> int (card {i \<in> set os. \<exists>r. (i, r, c_metadata s i key) \<in> set (h @ own)})"
    using len distinct_card [OF om(2)] by simp
  moreover have "(wid, wr, wmd) \<in> set (h @ own)" using max_first_in [of response_rank y ys] w by simp
  moreover have "\<forall>z \<in> set (h @ own). response_rank z \<le> response_rank (wid, wr, wmd)"
    using max_first_ge [of _ y ys response_rank] w by simp
  moreover have "\<forall>(i, r, md) \<in> set (h @ own). md = latest_metadata key s \<or> md = c_metadata s i key"
    using hm(2) o by fastforce
  ultimately show ?thesis using that [OF req _ _ _ _ w(3)] by blast
qed


lemma rank_le_version: "response_rank y \<le> response_rank z \<Longrightarrow> fst (response_rank y) \<le> fst (response_rank z)"
  by (auto simp: less_eq_prod_def)

lemma rank_version: "fst (response_rank (i, r, md)) = (case md of None \<Rightarrow> VersionStamp 0 0 i | Some m \<Rightarrow> md_version m)"
  by (simp add: response_rank_def)

lemma latest_metadata_held: "latest_metadata key s = Some m \<Longrightarrow> \<exists>i. c_metadata s i key = Some m"
proof -
  assume a: "latest_metadata key s = Some m"
  then obtain v vs where l: "List.map_filter (\<lambda>i. c_metadata s i key) (od_keys (c_nodes s)) = v # vs" "m = max_first md_version v vs"
    by (auto simp: latest_metadata_def split: list.splits)
  then have "m \<in> set (List.map_filter (\<lambda>i. c_metadata s i key) (od_keys (c_nodes s)))"
    using max_first_in [of md_version v vs] by simp
  then show ?thesis by (auto simp: List.map_filter_def)
qed

definition quorum_holds :: "pystr \<Rightarrow> pystr list \<Rightarrow> replica_metadata \<Rightarrow> cluster \<Rightarrow> bool" where
  "quorum_holds key os md s \<longleftrightarrow>
     (\<exists>W \<subseteq> set os. int (length os) div 2 + 1 \<le> int (card W) \<and> (\<forall>i \<in> W. c_metadata s i key = Some md)) \<and>
     (\<forall>i m. c_metadata s i key = Some m \<longrightarrow> m = md \<or> md_version m < md_version md) \<and> 0 < vs_term (md_version md)"

definition hot_apart :: "pystr \<Rightarrow> pystr list \<Rightarrow> cluster \<Rightarrow> bool" where
  "hot_apart key os s \<longleftrightarrow> (\<forall>hs. c_hot s key = Some hs \<longrightarrow> hs \<inter> set os = {} \<and> finite hs)"

lemma quorum_read:
  assumes r: "read_locked key p s = (Inr (x, wid, wmd), s')" and p: "p \<noteq> ProfileOne"
    and os: "owners (c_sha s) (c_ring s) key (c_replica_count s) = Inr os" "distinct os"
    and q: "quorum_holds key os md s" and hot: "hot_apart key os s"
  shows "wmd = Some md \<and> (md_deleted md \<longrightarrow> state x = Miss)"
proof -
  obtain req seen wr where seen: "required p (int (length os)) = Inr req"
    "req \<le> int (card {i \<in> set os. \<exists>r. (i, r, c_metadata s i key) \<in> set seen})"
    "(wid, wr, wmd) \<in> set seen" "\<forall>y \<in> set seen. response_rank y \<le> response_rank (wid, wr, wmd)"
    "\<forall>(i, r, md) \<in> set seen. md = latest_metadata key s \<or> md = c_metadata s i key"
    "x = (if (\<exists>m. wmd = Some m \<and> md_deleted m) then result_of Miss else wr)"
    by (rule read_locked_seen [OF r p os]) (use hot in \<open>auto simp: hot_apart_def\<close>)
  obtain W where W: "W \<subseteq> set os" "int (length os) div 2 + 1 \<le> int (card W)" "\<forall>i \<in> W. c_metadata s i key = Some md"
    and mx: "\<forall>i m. c_metadata s i key = Some m \<longrightarrow> m = md \<or> md_version m < md_version md" and pos: "0 < vs_term (md_version md)"
    using q by (auto simp: quorum_holds_def)
  have n: "0 < int (length os)" using seen(1) by (auto simp: required_def split: if_splits)
  then have m: "required ProfileMajority (int (length os)) = Inr (int (length os) div 2 + 1)" by (simp add: required_def)
  have "int (length os) div 2 + 1 \<le> int (length os)" using n by linarith
  then have "int (length os) div 2 + 1 \<le> req" using seen(1) p n by (cases p) (auto simp: required_def)
  then have "W \<inter> {i \<in> set os. \<exists>r. (i, r, c_metadata s i key) \<in> set seen} \<noteq> {}"
    using seen(2) W by (intro majorities_meet [OF m os(2)]) auto
  then obtain i r where i: "(i, r, Some md) \<in> set seen" using W(3) by auto
  then have ge: "md_version md \<le> fst (response_rank (wid, wr, wmd))"
    using rank_le_version [OF seen(4) [rule_format, OF i]] by (simp add: rank_version)
  have low: "VersionStamp 0 0 j < md_version md" for j
    using pos by (cases "md_version md") (simp add: less_version_stamp_def)
  obtain w where w: "wmd = Some w" using ge low [of wid] by (cases wmd) (auto simp: rank_version dest: leD)
  have "\<exists>j. c_metadata s j key = Some w" using seen(3,5) w latest_metadata_held [of key s w] by force
  then have "w = md" using mx ge w by (auto simp: rank_version dest: leD)
  then show ?thesis using w seen(6) by (simp add: result_of_def)
qed


text \<open>
  C17. A quorum read is decided by the newest version: when a majority of the owners of a key hold
  the same newest metadata, every majority or all-replica read that returns is decided by it, and
  a newest tombstone makes the read a miss even if other owners still hold the old value.
\<close>

theorem quorum_read_latest:
  assumes "read_locked key p s = (Inr (x, wid, wmd), s')" "p \<noteq> ProfileOne"
    "owners (c_sha s) (c_ring s) key (c_replica_count s) = Inr os" "distinct os"
    "quorum_holds key os md s" "hot_apart key os s"
  shows "wmd = Some md \<and> (md_deleted md \<longrightarrow> state x = Miss)"
  by (rule quorum_read [OF assms])


section \<open>Forgetting a delete\<close>

lemma metadata_healthy [simp]: "c_metadata (snd (healthy i s)) = c_metadata s"
  by (auto simp: healthy_def c_tick_def split: option.splits)

lemma on_node_metadata: "on_node i op s = (r, s') \<Longrightarrow> c_metadata s' = c_metadata s"
  by (metis metadata_on_node snd_conv)

lemma has_record_True:
  assumes "node_has_record i key md s = (Inr True, s')"
  shows "(\<exists>m. c_metadata s i key = Some m \<and> md_version m = md_version md) \<and> c_metadata s' = c_metadata s"
  using assms
  by (auto simp: node_has_record_def bind_res_Inr exported_def split: option.splits if_splits dest: on_node_metadata)

lemma all_hold_True:
  assumes "all_hold os key md s = (Inr True, s')"
  shows "(\<forall>i \<in> set os. \<exists>m. c_metadata s i key = Some m \<and> md_version m = md_version md) \<and> c_metadata s' = c_metadata s"
  using assms
proof (induction os arbitrary: s)
  case (Cons i os)
  obtain s2 where h: "node_has_record i key md (snd (healthy i s)) = (Inr True, s2)" and rest: "all_hold os key md s2 = (Inr True, s')"
    using Cons.prems by (auto simp: case_prod_beta bind_res_Inr split: if_splits)
  show ?case using has_record_True [OF h] Cons.IH [OF rest] by simp
qed simp

text \<open>
  C19. A tombstone is forgotten only when it can no longer be needed: the newest metadata of the
  key is a delete and every owner of the key already carries that version. The forgotten version
  stays below the watermark, which keeps older snapshots from bringing the key back.
\<close>

theorem tombstone_kept_until_everywhere:
  assumes "gc_one key s = (Inr n, s')" "n \<noteq> 0"
  shows "\<exists>latest os w. latest_metadata key s = Some latest \<and> md_deleted latest \<and>
     owners (c_sha s) (c_ring s) key (c_replica_count s) = Inr os \<and>
     (\<forall>i \<in> set os. \<exists>m. c_metadata s i key = Some m \<and> md_version m = md_version latest) \<and>
     c_watermark s' = Some w \<and> md_version latest \<le> w \<and> (\<forall>i. c_metadata s' i key = None)"
proof -
  obtain latest os s2 where l: "latest_metadata key s = Some latest" "md_deleted latest"
      "owners (c_sha s) (c_ring s) key (c_replica_count s) = Inr os"
    and a: "all_hold os key latest s = (Inr True, s2)" and s': "s' = collect_tombstone key (md_version latest) s2"
    using assms by (auto simp: gc_one_def ring_owners_def bind_res_Inr split: option.splits if_splits)
  have "c_watermark s' = Some (case c_watermark s2 of None \<Rightarrow> md_version latest
       | Some w \<Rightarrow> if md_version latest > w then md_version latest else w)" "\<forall>i. c_metadata s' i key = None"
    by (auto simp: s' collect_tombstone_def drop_lease_def replace_key_tags_def Let_def split: option.splits)
  moreover have "md_version latest \<le> (case c_watermark s2 of None \<Rightarrow> md_version latest
       | Some w \<Rightarrow> if md_version latest > w then md_version latest else w)" by (auto split: option.splits)
  ultimately show ?thesis using l all_hold_True [OF a] by blast
qed

section \<open>Witnesses\<close>

abbreviation healthy_two :: cluster where
  "healthy_two \<equiv> two_nodes (\<lambda>_. False) (\<lambda>_. False)"

lemmas node_eval = healthy_def serving_def c_now_def c_tick_def c_count_def set_node_def find_node_def
  elect_leader_def detect_failures_def expired_heartbeat_def two_ring

lemma two_fields [simp]:
  "c_nodes (two_nodes f g) = [([97], snd (demo_node [97] f)), ([98], snd (demo_node [98] g))]" "c_term (two_nodes f g) = 1"
  "c_leader (two_nodes f g) = [97]" "c_clock (two_nodes f g) = (\<lambda>_. 0)" "c_heartbeat_timeout (two_nodes f g) = 15"
  "c_hot (two_nodes f g) = Map.empty" "c_metadata (two_nodes f g) = (\<lambda>_. Map.empty)" "c_sequence (two_nodes f g) = 0"
  by (simp_all add: demo_cluster_def demo_node_def)

lemma node_fields [simp]:
  "cn_status (snd (demo_node i f)) = Active" "cn_heartbeat (snd (demo_node i f)) = 0"
  "cn_storage (snd (demo_node i f)) = small_engine" "cn_faults (snd (demo_node i f)) = f" "cn_calls (snd (demo_node i f)) = 0"
  by (simp_all add: demo_node_def)

lemma leader_down:
  "c_term (snd (mark_node_down [97] healthy_two)) = 2" "c_leader (snd (mark_node_down [97] healthy_two)) = [98]"
  by (simp_all add: mark_node_down_def node_eval)

lemma step_down: "cluster_step\<^sup>*\<^sup>* healthy_two (snd (mark_node_down [97] healthy_two))"
  by (rule r_into_rtranclp) (rule cs_down)


theorem stale_fence_rejected_witness:
  "cluster_put [107] (PStr [118]) PNone PNone (PTuple []) None True None (Some (FenceToken 1 [97])) (snd (mark_node_down [97] healthy_two))
     = (Inl Fence, snd (detect_failures (snd (mark_node_down [97] healthy_two))))"
proof -
  have "fence_of healthy_two = FenceToken 1 [97]" by (simp add: fence_of_def)
  moreover have "normalize_tags (PTuple []) = Inr []" by (simp add: normalize_tags_def)
  moreover have "validate_key [107] = Inr ()" by (simp add: validate_key_def)
  ultimately show ?thesis using stale_fence_rejected [OF step_down] leader_down(1) by simp
qed


text \<open>A key deleted on both nodes: the tombstone decides the read.\<close>

definition demo_tombstone :: replica_metadata where
  "demo_tombstone = \<lparr>md_version = VersionStamp 1 1 [97], md_deleted = True, md_tags = []\<rparr>"

definition deleted_two :: cluster where
  "deleted_two = healthy_two\<lparr>c_metadata := (\<lambda>i. if i = [97] \<or> i = [98] then [[107] \<mapsto> demo_tombstone] else Map.empty)\<rparr>"

lemma deleted_fields [simp]:
  "c_nodes deleted_two = c_nodes healthy_two" "c_clock deleted_two = (\<lambda>_. 0)" "c_heartbeat_timeout deleted_two = 15"
  "c_hot deleted_two = Map.empty" "c_sha deleted_two = c_sha healthy_two" "c_ring deleted_two = c_ring healthy_two"
  "c_replica_count deleted_two = c_replica_count healthy_two"
  "c_metadata deleted_two [97] = [[107] \<mapsto> demo_tombstone]" "c_metadata deleted_two [98] = [[107] \<mapsto> demo_tombstone]"
  by (simp_all add: deleted_two_def)

lemma small_get: "get [107] small_engine = (Inr (result_of Miss), snd (get [107] small_engine))"
  by (simp add: get_def validate_key_def lookup_def demo_engine_def bind_res_def count_metric_def Let_def)


lemma small_export:
  "export_entries (Some [[107]]) (snd (get [107] small_engine)) = ([], snd (export_entries (Some [[107]]) (snd (get [107] small_engine))))"
  by (simp add: get_def validate_key_def lookup_def demo_engine_def count_metric_def Let_def export_entries_def
      tick_def now_of_def export_loop.simps export_one_def purge_expired_entries_def)

lemmas read_eval = read_locked_def ring_owners_def two_owners lift_sum_def required_def Let_def on_node_def on_engine_def
  read_repair_def needs_repair_def gc_tombstones_def gc_one_def node_has_record_def exported_def total_def node_eval
  List.map_filter_def

lemma deleted_read: "\<exists>x w wmd s'. read_locked [107] ProfileMajority deleted_two = (Inr (x, w, wmd), s')"
proof -
  obtain e1 where g: "get [107] small_engine = (Inr (result_of Miss), e1)" using small_get by blast
  obtain e2 where x: "export_entries (Some [[107]]) e1 = ([], e2)" using small_export g by auto
  show ?thesis
    by (simp add: read_eval, (simp add: read_eval g x latest_metadata_def demo_tombstone_def result_of_def)+)
qed


theorem quorum_read_latest_witness:
  "\<exists>x w s'. read_locked [107] ProfileMajority deleted_two = (Inr (x, w, Some demo_tombstone), s') \<and> state x = Miss"
proof -
  obtain x w wmd s' where r: "read_locked [107] ProfileMajority deleted_two = (Inr (x, w, wmd), s')"
    using deleted_read by blast
  have "quorum_holds [107] [[97], [98]] demo_tombstone deleted_two"
    by (auto simp: quorum_holds_def deleted_two_def demo_tombstone_def intro!: exI [of _ "{[97], [98]}"])
  moreover have "hot_apart [107] [[97], [98]] deleted_two" by (simp add: hot_apart_def)
  ultimately show ?thesis
    using quorum_read_latest [OF r, of "[[97], [98]]" demo_tombstone] r two_owners by (simp add: demo_tombstone_def)
qed

text \<open>The cluster after the write: both nodes hold the same engine and the new version.\<close>

definition after_write :: "engine \<Rightarrow> cluster" where
  "after_write e = healthy_two\<lparr>c_ticks := 3,
     c_nodes := [([97], (snd (demo_node [97] (\<lambda>_. False)))\<lparr>cn_storage := e, cn_calls := 2\<rparr>),
                 ([98], (snd (demo_node [98] (\<lambda>_. False)))\<lparr>cn_storage := e, cn_calls := 2\<rparr>)],
     c_sequence := 1,
     c_metadata := (\<lambda>i. if i = [97] \<or> i = [98] then [[107] \<mapsto> put_stamp [] healthy_two] else Map.empty),
     c_metrics := bump ''replicated_writes_total'' 1 (\<lambda>_. 0)\<rparr>"

lemma small_after:
  obtains r e where "small_put healthy_two = (Inr r, after_write e)"
proof -
  obtain r e1 e2 e3 e4 e5 where e: "begin_mutation_checkpoint [107] (tick small_engine) = (Inr 0, e1)"
   "put [107] (PStr [118]) PNone PNone (PTuple []) None True e1 = (Inr r, e2)"
   "commit_mutation_checkpoint 0 e2 = (Inr (), e3)" "restore_mutation_checkpoint 0 e2 = (Inr (), e4)"
   "restore_mutation_checkpoint 0 e1 = (Inr (), e5)" by (rule small_write)
  have "small_put healthy_two = (Inr r, after_write e3)"
    by (simp add: write_eval, (simp add: demo_cluster_def demo_node_def write_eval small_validate e)+,
       (simp add: after_write_def demo_cluster_def demo_node_def put_stamp_def c_count_def fun_eq_iff)?)
  then show ?thesis by (rule that)
qed


lemma after_fields [simp]:
  "c_nodes (after_write e) = [([97], (snd (demo_node [97] (\<lambda>_. False)))\<lparr>cn_storage := e, cn_calls := 2\<rparr>),
                 ([98], (snd (demo_node [98] (\<lambda>_. False)))\<lparr>cn_storage := e, cn_calls := 2\<rparr>)]"
  "c_clock (after_write e) = (\<lambda>_. 0)" "c_heartbeat_timeout (after_write e) = 15" "c_hot (after_write e) = Map.empty"
  "c_sha (after_write e) = c_sha healthy_two" "c_ring (after_write e) = c_ring healthy_two"
  "c_replica_count (after_write e) = c_replica_count healthy_two"
  "c_metadata (after_write e) [97] = [[107] \<mapsto> put_stamp [] healthy_two]"
  "c_metadata (after_write e) [98] = [[107] \<mapsto> put_stamp [] healthy_two]"
  by (simp_all add: after_write_def)

lemma live_stamp [simp]: "\<not> md_deleted (put_stamp ts s)"
  by (simp add: put_stamp_def)

lemma after_read: "\<exists>x. fst (read_locked [107] ProfileMajority (after_write e)) = Inr x"
proof -
  obtain x e6 where g: "get [107] e = (Inr x, e6)" by (simp add: get_def validate_key_def case_prod_beta)
  obtain es e7 where ex: "export_entries (Some [[107]]) e6 = (es, e7)" by (cases "export_entries (Some [[107]]) e6")
  obtain b e8 where d: "delete [107] e6 = (Inr b, e8)" by (simp add: delete_def validate_key_def case_prod_beta Let_def)
  show ?thesis
  proof (cases "state x = Miss")
    case True
    then show ?thesis
      by (simp add: read_eval, (simp add: read_eval set_metadata_def g ex d latest_metadata_def)+)
  next
    case False
    then show ?thesis
      by (simp add: read_eval, (simp add: read_eval set_metadata_def g ex d latest_metadata_def)+)
  qed
qed



theorem tombstone_kept_until_everywhere_witness:
  "\<exists>s'. gc_one [107] (deleted_two\<lparr>c_nodes := [([97], (snd (demo_node [97] (\<lambda>_. False)))\<lparr>cn_storage := snd (get [107] small_engine)\<rparr>),
        ([98], (snd (demo_node [98] (\<lambda>_. False)))\<lparr>cn_storage := snd (get [107] small_engine)\<rparr>)]\<rparr>) = (Inr 1, s')
     \<and> (\<forall>i. c_metadata s' i [107] = None)"
proof -
  obtain e1 where g: "get [107] small_engine = (Inr (result_of Miss), e1)" using small_get by blast
  obtain e2 where x: "export_entries (Some [[107]]) e1 = ([], e2)" using small_export g by auto
  let ?s = "deleted_two\<lparr>c_nodes := [([97], (snd (demo_node [97] (\<lambda>_. False)))\<lparr>cn_storage := e1\<rparr>),
        ([98], (snd (demo_node [98] (\<lambda>_. False)))\<lparr>cn_storage := e1\<rparr>)]\<rparr>"
  have "fst (gc_one [107] ?s) = Inr 1"
    by (simp add: read_eval latest_metadata_def, (simp add: read_eval x latest_metadata_def demo_tombstone_def)?)
  then have "gc_one [107] ?s = (Inr 1, snd (gc_one [107] ?s))" by (metis prod.collapse)
  from tombstone_kept_until_everywhere [OF this] this show ?thesis unfolding g snd_conv by auto
qed

end
