(* ===== verification/Cluster_Rebalance.thy ===== *)
theory Cluster_Rebalance
  imports Cluster_Props
begin

text \<open>
  Snapshots between nodes, joining and leaving nodes, and rebalancing: the rest of the state
  changing calls of \<open>ClusterStorage\<close> (\<open>src/src/megacache/cluster.py\<close>).

  The JSON text of one snapshot record is not modelled: \<open>enc\<close> and \<open>dec\<close> stand for
  \<open>_encode_snapshot_record\<close> and \<open>_decode_snapshot_record\<close>, and \<open>None\<close> is their
  \<open>SnapshotError\<close>. No property below assumes anything of them, so a receiver is judged against
  every record a sender can produce.
\<close>

section \<open>Creating a snapshot\<close>

record snapshot_record =
  sr_entry :: "storage_entry option"
  sr_key :: pystr
  sr_version :: version_stamp
  sr_deleted :: bool

definition record_of :: "pystr \<Rightarrow> (pystr \<rightharpoonup> storage_entry) \<Rightarrow> (pystr \<rightharpoonup> replica_metadata) \<Rightarrow> pystr \<Rightarrow> snapshot_record option" where
  "record_of i es mds key =
     (case mds key of
        None \<Rightarrow>
          (case es key of None \<Rightarrow> None
           | Some e \<Rightarrow> Some \<lparr>sr_entry = Some e, sr_key = key, sr_version = VersionStamp 0 0 i, sr_deleted = False\<rparr>)
      | Some md \<Rightarrow> Some \<lparr>sr_entry = es key, sr_key = key, sr_version = md_version md,
                         sr_deleted = (md_deleted md \<or> es key = None)\<rparr>)"

definition encode_records :: "(snapshot_record \<Rightarrow> bytes option) \<Rightarrow> snapshot_record list \<Rightarrow> cluster_error + bytes list" where
  "encode_records enc rs =
     map_sum_list (\<lambda>r. case enc r of None \<Rightarrow> Inl (Snapshot ''snapshot value is not serializable'') | Some b \<Rightarrow> Inr b) rs"

definition create_snapshot ::
  "(snapshot_record \<Rightarrow> bytes option) \<Rightarrow> pystr \<Rightarrow> pystr list option \<Rightarrow> cluster \<Rightarrow> session cres" where
  "create_snapshot enc i ks s =
     bind_res (lift_sum (find_node i s) s) (\<lambda>_ s1.
     bind_res (case ks of
         None \<Rightarrow> bind_res (on_node i (total keys) s1) (\<lambda>ks' s2.
                  (Inr (sorted_list_of_set (set ks' \<union> dom (c_metadata s2 i))), s2))
       | Some ks' \<Rightarrow> (Inr (rev (remdups (rev ks'))), s1)) (\<lambda>selected s2.
     bind_res (on_node i (total (export_entries (Some selected))) s2) (\<lambda>es s3.
     let entries = map_of (rev (map (\<lambda>e. (se_key e, e)) es));
         records = List.map_filter (record_of i entries (c_metadata s3 i)) selected in
     bind_res (lift_sum (encode_records enc records) s3) (\<lambda>encoded s4.
       lift_sum (make_session (c_sha s4) i (version (c_ring s4)) (fence_of s4) (c_snapshot_limit s4)
         (c_snapshot_chunk s4) (c_snapshot_in_flight s4) encoded) s4))))"

section \<open>Receiving a snapshot\<close>

text \<open>\<open>bytes.splitlines()\<close>: lines end at a line feed, a carriage return, or both.\<close>

fun split_lines :: "bytes \<Rightarrow> bytes \<Rightarrow> bytes list" where
  "split_lines acc [] = (if acc = [] then [] else [acc])"
| "split_lines acc (c # cs) =
     (if c = CHR 0x0A then acc # split_lines [] cs
      else if c = CHR 0x0D then
        acc # (case cs of [] \<Rightarrow> [] | d # ds \<Rightarrow> split_lines [] (if d = CHR 0x0A then ds else cs))
      else split_lines (acc @ [c]) cs)"

definition received_records ::
  "(bytes \<Rightarrow> bytes) \<Rightarrow> (bytes \<Rightarrow> snapshot_record option) \<Rightarrow> receiver \<Rightarrow> cluster_error + snapshot_record list" where
  "received_records sha dec r =
     (case received_payload sha r of Inl e \<Rightarrow> Inl e
      | Inr payload \<Rightarrow>
          (case map_sum_list (\<lambda>line. case dec line of
                    None \<Rightarrow> Inl (Snapshot ''snapshot record is malformed'') | Some x \<Rightarrow> Inr x)
                  (filter (\<lambda>line. line \<noteq> []) (split_lines [] payload)) of
             Inl e \<Rightarrow> Inl e
           | Inr records \<Rightarrow>
               (if int (length records) \<noteq> mf_entry_count (rc_manifest r)
                then Inl (Snapshot ''snapshot entry count mismatch'') else Inr records)))"

definition incoming_deleted :: "snapshot_record \<Rightarrow> bool" where
  "incoming_deleted r \<longleftrightarrow> sr_deleted r \<or> sr_entry r = None"

text \<open>Which records a node takes: never an older version, never one that was collected.\<close>

definition accept_record :: "pystr \<Rightarrow> fence_token \<Rightarrow> snapshot_record \<Rightarrow> cluster \<Rightarrow> bool cres" where
  "accept_record i fence r s =
     (if vs_term (sr_version r) > fence_term fence \<or>
         vs_term (sr_version r) = fence_term fence \<and> vs_leader (sr_version r) \<noteq> fence_leader fence
      then (Inl (Snapshot ''snapshot record is not bound to its leadership fence''), s)
      else
        (let current = c_metadata s i (sr_key r); latest = latest_metadata (sr_key r) s in
         if current = None \<and> latest = None \<and> (\<exists>w. c_watermark s = Some w \<and> sr_version r \<le> w) then (Inr False, s)
         else if (\<exists>m. current = Some m \<and> md_version m > sr_version r) then (Inr False, s)
         else if (\<exists>m. latest = Some m \<and> md_version m > sr_version r) then (Inr False, s)
         else if (\<exists>m. latest = Some m \<and> md_version m = sr_version r \<and> md_deleted m \<noteq> incoming_deleted r) then (Inr False, s)
         else case current of
             Some m \<Rightarrow>
               (if md_version m = sr_version r then
                  (if md_deleted m \<noteq> incoming_deleted r then (Inr False, s)
                   else if md_deleted m then (Inr True, s)
                   else bind_res (node_has_record i (sr_key r) m s) (\<lambda>b s1. (Inr (\<not> b), s1)))
                else (Inr True, s))
           | None \<Rightarrow> (Inr True, s)))"

fun accept_records :: "pystr \<Rightarrow> fence_token \<Rightarrow> snapshot_record list \<Rightarrow> cluster \<Rightarrow> snapshot_record list cres" where
  "accept_records i fence [] s = (Inr [], s)"
| "accept_records i fence (r # rs) s =
     bind_res (accept_record i fence r s) (\<lambda>b s1.
     bind_res (accept_records i fence rs s1) (\<lambda>acc s2. (Inr (if b then r # acc else acc), s2)))"

definition store_record :: "pystr \<Rightarrow> snapshot_record \<Rightarrow> cluster \<Rightarrow> unit cres" where
  "store_record i r s =
     bind_res (if incoming_deleted r
               then bind_res (on_node i (delete (sr_key r)) s) (\<lambda>_ s1. (Inr (), s1)) else (Inr (), s)) (\<lambda>_ s1.
       (Inr (), set_metadata i (sr_key r) (Some \<lparr>md_version = sr_version r, md_deleted = incoming_deleted r,
          md_tags = (case sr_entry r of None \<Rightarrow> [] | Some e \<Rightarrow> se_tags e)\<rparr>) s1))"

definition store_records :: "pystr \<Rightarrow> snapshot_record list \<Rightarrow> cluster \<Rightarrow> unit cres" where
  "store_records i acc s =
     (let live = List.map_filter (\<lambda>r. if sr_deleted r then None else sr_entry r) acc in
      bind_res (if live = [] then (Inr (), s)
                else bind_res (on_node i (validate_restore_entries live) s) (\<lambda>_ s1.
                     bind_res (on_node i (restore_entries live) s1) (\<lambda>_ s2. (Inr (), s2)))) (\<lambda>_ s1.
      bind_res (fold_res (store_record i) acc s1) (\<lambda>_ s2. (Inr (), s2))))"

text \<open>From the decoded records to the new state of the node.\<close>

definition install_records :: "pystr \<Rightarrow> fence_token \<Rightarrow> snapshot_record list \<Rightarrow> cluster \<Rightarrow> unit cres" where
  "install_records i fence records s =
     (if \<not> distinct (map sr_key records) then (Inl (Snapshot ''snapshot contains duplicate keys''), s)
      else
        bind_res (accept_records i fence records s) (\<lambda>acc s1.
        if acc = [] then (Inr (), c_count ''snapshot_bootstraps_total'' 1 s1)
        else
          bind_res (capture_backends [i] s1) (\<lambda>cps s2.
          case store_records i acc s2 of
            (Inl e, s3) \<Rightarrow>
              bind_res (restore_backends cps s3) (\<lambda>_ s4.
                (Inl e, s4\<lparr>c_metadata := (c_metadata s4)(i := c_metadata s2 i)\<rparr>))
          | (Inr _, s3) \<Rightarrow>
              bind_res (gc_tombstones (Some (map sr_key (filter sr_deleted acc))) s3) (\<lambda>_ s4.
                (Inr (), c_count ''snapshot_bootstraps_total'' 1 s4)))))"

definition bootstrap_node ::
  "(bytes \<Rightarrow> snapshot_record option) \<Rightarrow> pystr \<Rightarrow> session \<Rightarrow> cluster \<Rightarrow> unit cres" where
  "bootstrap_node dec i sess s =
     bind_res (lift_sum (find_node i s) s) (\<lambda>_ s1.
     let mf = ss_manifest sess in
     if mf_ring_version mf \<noteq> version (c_ring s1) then (Inl (Snapshot ''snapshot uses a stale ring version''), s1)
     else if mf_fence mf \<noteq> fence_of s1 then (Inl (Snapshot ''snapshot uses a stale leadership fence''), s1)
     else
       bind_res (lift_sum (pump (c_sha s1) sess (make_receiver mf (c_snapshot_limit s1))) s1) (\<lambda>(_, rc) s2.
       bind_res (lift_sum (received_records (c_sha s2) dec rc) s2) (\<lambda>records s3.
         install_records i (mf_fence mf) records s3)))"


section \<open>Planning\<close>

type_synonym move = "pystr \<times> pystr \<times> pystr"

record rebalance_plan =
  pl_id :: pystr
  pl_fence :: fence_token
  pl_base_version :: int
  pl_ring :: ring
  pl_moves :: "move list"
  pl_joining :: "pystr list"
  pl_departing :: "pystr list"

text \<open>The owners of a key that still claim its newest live version but have lost the value.\<close>

fun count_absent :: "pystr list \<Rightarrow> pystr \<Rightarrow> replica_metadata \<Rightarrow> cluster \<Rightarrow> int \<times> cluster" where
  "count_absent [] key latest s = (0, s)"
| "count_absent (i # is) key latest s =
     (case c_metadata s i key of
        None \<Rightarrow> count_absent is key latest s
      | Some m \<Rightarrow>
          (if md_version m \<noteq> md_version latest \<or> md_deleted m then count_absent is key latest s
           else case on_node i (get key) s of
               (Inl _, s1) \<Rightarrow> count_absent is key latest s1
             | (Inr r, s1) \<Rightarrow>
                 (let (n, s2) = count_absent is key latest s1
                  in (if state r = Miss then n + 1 else n, s2))))"

definition reconcile_one :: "pystr \<Rightarrow> cluster \<Rightarrow> unit cres" where
  "reconcile_one key s =
     (case latest_metadata key s of
        None \<Rightarrow> (Inr (), s\<lparr>c_catalog := c_catalog s - {key}\<rparr>)
      | Some latest \<Rightarrow>
          (if md_deleted latest then (Inr (), s)
           else bind_res (ring_owners key s) (\<lambda>os s1.
             let (avail, s2) = available_owners os s1 in
             bind_res (lift_sum (required (c_consistency s2) (int (length os))) s2) (\<lambda>req s3.
             if int (length avail) < req then (Inr (), s3)
             else
               (let (absent, s4) = count_absent avail key latest s3
                in if absent \<ge> req then bind_res (delete_keys [key] (c_consistency s4) s4) (\<lambda>_ s5. (Inr (), s5))
                   else (Inr (), s4))))))"

definition reconcile_absent :: "cluster \<Rightarrow> unit cres" where
  "reconcile_absent s =
     bind_res (fold_res reconcile_one (sorted_list_of_set (c_catalog s)) s) (\<lambda>_ s1. (Inr (), s1))"

fun sources_for :: "pystr list \<Rightarrow> pystr \<Rightarrow> replica_metadata option \<Rightarrow> cluster \<Rightarrow> pystr list cres" where
  "sources_for [] key latest s = (Inr [], s)"
| "sources_for (i # is) key latest s =
     (let (up, s1) = healthy i s in
      case (if up then latest else None) of
        None \<Rightarrow> sources_for is key latest s1
      | Some m \<Rightarrow>
          bind_res (node_has_record i key m s1) (\<lambda>b s2.
          bind_res (sources_for is key latest s2) (\<lambda>rest s3. (Inr (if b then i # rest else rest), s3))))"

definition target_is_current :: "pystr \<Rightarrow> pystr \<Rightarrow> replica_metadata option \<Rightarrow> cluster \<Rightarrow> bool cres" where
  "target_is_current i key latest s =
     (case latest of None \<Rightarrow> (Inr False, s) | Some m \<Rightarrow> node_has_record i key m s)"

fun moves_to :: "pystr list \<Rightarrow> pystr list \<Rightarrow> pystr \<Rightarrow> pystr \<Rightarrow> replica_metadata option \<Rightarrow> cluster \<Rightarrow> move list cres" where
  "moves_to [] old src key latest s = (Inr [], s)"
| "moves_to (i # is) old src key latest s =
     bind_res (target_is_current i key latest s) (\<lambda>b s1.
     bind_res (moves_to is old src key latest s1) (\<lambda>rest s2.
       (Inr (if i \<notin> set old \<or> \<not> b then (key, src, i) # rest else rest), s2)))"

definition moves_of :: "ring \<Rightarrow> pystr \<Rightarrow> cluster \<Rightarrow> move list cres" where
  "moves_of target key s =
     bind_res (ring_owners key s) (\<lambda>old s1.
     bind_res (lift_sum (owners (c_sha s1) target key (c_replica_count s1)) s1) (\<lambda>new s2.
     bind_res (sources_for old key (latest_metadata key s2) s2) (\<lambda>cands s3.
     if cands = [] then (Inl (Rebalance ''no healthy latest-version source''), s3)
     else moves_to new old (hd cands) key (latest_metadata key s2) s3)))"

definition plan_text :: "int \<Rightarrow> pystr \<Rightarrow> pystr list \<Rightarrow> pystr list \<Rightarrow> move list \<Rightarrow> int \<Rightarrow> pystr \<Rightarrow> pyval" where
  "plan_text base target joining departing moves trm leader =
     PDict [(lit ''base'', PInt base), (lit ''target'', PStr target),
            (lit ''joining'', PTuple (map PStr joining)), (lit ''departing'', PTuple (map PStr departing)),
            (lit ''moves'', PList (map (\<lambda>(k, a, b). PTuple [PStr k, PStr a, PStr b]) moves)),
            (lit ''term'', PInt trm), (lit ''leader'', PStr leader)]"

definition nodes_with :: "(node_status \<Rightarrow> bool) \<Rightarrow> cluster \<Rightarrow> pystr list" where
  "nodes_with P s = sort (map fst (filter (\<lambda>(i, n). P (cn_status n)) (c_nodes s)))"

definition plan_rebalance :: "cluster \<Rightarrow> rebalance_plan cres" where
  "plan_rebalance s =
     bind_res (reconcile_absent (snd (detect_failures s))) (\<lambda>_ s1.
     let joining = nodes_with (\<lambda>st. st = Joining) s1;
         departing = nodes_with (\<lambda>st. st = Draining \<or> st = Removing) s1;
         target_ids = sort (remdups (filter (\<lambda>i. i \<notin> set departing) (node_ids (c_ring s1) @ joining))) in
     if target_ids = [] then (Inl (Rebalance ''rebalance would remove every ring member''), s1)
     else
       bind_res (lift_sum (make_ring (c_sha s1) target_ids (c_virtual_nodes s1) (version (c_ring s1) + 1)) s1) (\<lambda>target s2.
       bind_res (fold_res (moves_of target) (sorted_list_of_set (c_catalog s2)) s2) (\<lambda>ms s3.
         (Inr \<lparr>pl_id = json_digest (c_sha s3) (plan_text (version (c_ring s3)) (fingerprint target) joining departing
                   (concat ms) (c_term s3) (c_leader s3)),
               pl_fence = fence_of s3, pl_base_version = version (c_ring s3), pl_ring = target,
               pl_moves = concat ms, pl_joining = joining, pl_departing = departing\<rparr>, s3))))"

section \<open>Joining and leaving\<close>

definition drop_node :: "pystr \<Rightarrow> cluster \<Rightarrow> cluster" where
  "drop_node i s = s\<lparr>c_nodes := AList.delete i (c_nodes s), c_metadata := (c_metadata s)(i := Map.empty)\<rparr>"

text \<open>The backend of the new node is an argument; the code makes a default engine when none is given.\<close>

definition add_node :: "pystr \<Rightarrow> engine \<Rightarrow> (nat \<Rightarrow> bool) \<Rightarrow> cluster \<Rightarrow> rebalance_plan cres" where
  "add_node i st faults s =
     (if i \<in> set (od_keys (c_nodes s)) then (Inl NodeExists, s)
      else case make_node i st Joining (c_now s) 1 faults of
          Inl e \<Rightarrow> (Inl e, c_tick s)
        | Inr node \<Rightarrow>
            (let s1 = (c_tick s)\<lparr>c_nodes := c_nodes s @ [node], c_metadata := (c_metadata s)(i := Map.empty)\<rparr>
             in case plan_rebalance s1 of
                  (Inr plan, s2) \<Rightarrow> (Inr plan, s2)
                | (Inl e, s2) \<Rightarrow> (Inl e, drop_node i s2)))"

definition set_status :: "pystr \<Rightarrow> node_status \<Rightarrow> cluster \<Rightarrow> cluster" where
  "set_status i st s =
     (case map_of (c_nodes s) i of None \<Rightarrow> s | Some n \<Rightarrow> set_node i (n\<lparr>cn_status := st\<rparr>) s)"

text \<open>\<open>drain_node\<close> and \<open>remove_node\<close> differ in the status they set.\<close>

definition leave_node :: "node_status \<Rightarrow> pystr \<Rightarrow> cluster \<Rightarrow> rebalance_plan cres" where
  "leave_node st i s =
     bind_res (lift_sum (find_node i s) s) (\<lambda>n s1.
     if i \<notin> set (node_ids (c_ring s1)) then (Inl NotRingMember, s1)
     else if length (node_ids (c_ring s1)) \<le> 1 then (Inl LastRingMember, s1)
     else case plan_rebalance (set_status i st s1) of
         (Inr plan, s2) \<Rightarrow> (Inr plan, s2)
       | (Inl e, s2) \<Rightarrow> (Inl e, set_status i (cn_status n) s2))"

definition drain_node :: "pystr \<Rightarrow> cluster \<Rightarrow> rebalance_plan cres" where
  "drain_node = leave_node Draining"

definition remove_node :: "pystr \<Rightarrow> cluster \<Rightarrow> rebalance_plan cres" where
  "remove_node = leave_node Removing"

section \<open>Applying a plan\<close>

definition apply_move ::
  "(snapshot_record \<Rightarrow> bytes option) \<Rightarrow> (bytes \<Rightarrow> snapshot_record option) \<Rightarrow> move \<Rightarrow> cluster \<Rightarrow> unit cres" where
  "apply_move enc dec m s =
     (let (key, src, tgt) = m; no_source = Rebalance ''rebalance has no healthy latest-version source'' in
      bind_res (lift_sum (find_node src s) s) (\<lambda>_ s1.
      bind_res (lift_sum (find_node tgt s1) s1) (\<lambda>_ s2.
      case latest_metadata key s2 of None \<Rightarrow> (Inl no_source, s2)
      | Some latest \<Rightarrow>
          (let (up, s3) = healthy src s2 in
           if \<not> up then (Inl no_source, s3)
           else bind_res (node_has_record src key latest s3) (\<lambda>b s4.
             if \<not> b then (Inl no_source, s4)
             else
               (let (up', s5) = healthy tgt s4 in
                if \<not> up' then (Inl (Rebalance ''rebalance target is unavailable''), s5)
                else bind_res (create_snapshot enc src (Some [key]) s5) (\<lambda>sess s6. bootstrap_node dec tgt sess s6)))))))"

fun verify_targets :: "pystr list \<Rightarrow> pystr \<Rightarrow> replica_metadata \<Rightarrow> cluster \<Rightarrow> unit cres" where
  "verify_targets [] key latest s = (Inr (), s)"
| "verify_targets (i # is) key latest s =
     bind_res (node_has_record i key latest s) (\<lambda>b s1.
       if b then verify_targets is key latest s1 else (Inl (Rebalance ''latest version was not verified''), s1))"

definition verify_key :: "ring \<Rightarrow> pystr \<Rightarrow> cluster \<Rightarrow> unit cres" where
  "verify_key target key s =
     (case latest_metadata key s of None \<Rightarrow> (Inr (), s)
      | Some latest \<Rightarrow>
          bind_res (lift_sum (owners (c_sha s) target key (c_replica_count s)) s) (\<lambda>os s1.
            verify_targets os key latest s1))"

definition switch_ring :: "rebalance_plan \<Rightarrow> cluster \<Rightarrow> cluster" where
  "switch_ring plan s =
     fold (\<lambda>i s'. case map_of (c_nodes s') i of None \<Rightarrow> s'
             | Some n \<Rightarrow> set_status i (if cn_status n = Draining then Drained else Removed) s') (pl_departing plan)
       (fold (\<lambda>i. set_status i Active) (pl_joining plan) (s\<lparr>c_ring := pl_ring plan\<rparr>))"

definition drop_copy :: "pystr \<Rightarrow> pystr list \<Rightarrow> pystr \<Rightarrow> cluster \<Rightarrow> unit cres" where
  "drop_copy key desired i s =
     (if i \<in> set desired then (Inr (), s)
      else bind_res (on_node i (delete key) s) (\<lambda>_ s1. (Inr (), set_metadata i key None s1)))"

definition clean_key :: "pystr list \<Rightarrow> pystr \<Rightarrow> cluster \<Rightarrow> unit cres" where
  "clean_key old_ids key s =
     bind_res (ring_owners key s) (\<lambda>desired s1.
     bind_res (fold_res (drop_copy key desired) old_ids s1) (\<lambda>_ s2. (Inr (), s2)))"

definition clean_hot :: "pystr \<Rightarrow> cluster \<Rightarrow> unit cres" where
  "clean_hot key s =
     bind_res (ring_owners key s) (\<lambda>desired s1.
       let replicas = (case c_hot s1 key of None \<Rightarrow> {} | Some hs \<Rightarrow> hs);
           retained = {i \<in> replicas. i \<notin> set desired \<and> (\<exists>n. map_of (c_nodes s1) i = Some n \<and> cn_status n = Active)}
       in (Inr (), s1\<lparr>c_hot := (c_hot s1)(key := (if retained = {} then None else Some retained))\<rparr>))"

text \<open>The \<open>try\<close> block of \<open>apply_rebalance\<close>.\<close>

definition rebalance_body ::
  "(snapshot_record \<Rightarrow> bytes option) \<Rightarrow> (bytes \<Rightarrow> snapshot_record option) \<Rightarrow> rebalance_plan \<Rightarrow> cluster \<Rightarrow> unit cres" where
  "rebalance_body enc dec plan s =
     bind_res (fold_res (apply_move enc dec) (pl_moves plan) s) (\<lambda>_ s1.
     bind_res (fold_res (verify_key (pl_ring plan)) (sorted_list_of_set (c_catalog s1)) s1) (\<lambda>_ s2.
     let old_ids = node_ids (c_ring s2); s3 = switch_ring plan s2 in
     bind_res (fold_res (clean_key old_ids) (sorted_list_of_set (c_catalog s3)) s3) (\<lambda>_ s4.
     bind_res (fold_res clean_hot (sorted_list_of_set (dom (c_hot s4))) s4) (\<lambda>_ s5. (Inr (), s5)))))"

definition undo_rebalance :: "pystr list \<Rightarrow> cluster \<Rightarrow> cluster \<Rightarrow> cluster" where
  "undo_rebalance ids old s =
     fold (\<lambda>i s'. case map_of (c_nodes old) i of None \<Rightarrow> s' | Some n \<Rightarrow> set_status i (cn_status n) s') ids
       (s\<lparr>c_metadata := (\<lambda>i. if i \<in> set ids then c_metadata old i else c_metadata s i), c_ring := c_ring old\<rparr>)"

definition apply_rebalance ::
  "(snapshot_record \<Rightarrow> bytes option) \<Rightarrow> (bytes \<Rightarrow> snapshot_record option) \<Rightarrow> rebalance_plan \<Rightarrow> cluster \<Rightarrow> unit cres" where
  "apply_rebalance enc dec plan s =
     bind_res (assert_fence (pl_fence plan) (snd (detect_failures s))) (\<lambda>_ s1.
     if pl_base_version plan \<noteq> version (c_ring s1) then (Inl (Rebalance ''rebalance plan uses a stale ring version''), s1)
     else
       bind_res (plan_rebalance s1) (\<lambda>expected s2.
       if pl_id expected \<noteq> pl_id plan then (Inl (Rebalance ''rebalance plan no longer matches membership''), s2)
       else
         (let ids = sorted_list_of_set (set (node_ids (c_ring s2)) \<union> set (pl_joining plan)
                \<union> (\<lambda>(_, _, tgt). tgt) ` set (pl_moves plan)) in
          bind_res (capture_backends ids s2) (\<lambda>cps s3.
          case rebalance_body enc dec plan s3 of
            (Inl e, s4) \<Rightarrow>
              bind_res (restore_backends cps s4) (\<lambda>_ s5. (Inl e, undo_rebalance ids s3 s5))
          | (Inr _, s4) \<Rightarrow>
              bind_res (gc_tombstones None s4) (\<lambda>_ s5.
                (Inr (), elect_leader (c_count ''rebalances_total'' 1 s5)))))))"

section \<open>Reports on ownership\<close>

record ownership =
  ow_key :: pystr
  ow_ring_version :: int
  ow_primary :: pystr
  ow_replicas :: "pystr list"
  ow_hot :: "pystr list"

definition ownership_of :: "pystr \<Rightarrow> cluster \<Rightarrow> ownership cres" where
  "ownership_of key s =
     bind_res (check_key key s) (\<lambda>_ s1.
     bind_res (ring_owners key s1) (\<lambda>os s2.
       (Inr \<lparr>ow_key = key, ow_ring_version = version (c_ring s2), ow_primary = hd os, ow_replicas = os,
             ow_hot = sorted_list_of_set (case c_hot s2 key of None \<Rightarrow> {} | Some hs \<Rightarrow> hs)\<rparr>, s2)))"

definition cluster_record_load_cost :: "pystr \<Rightarrow> pyfloat \<Rightarrow> cluster \<Rightarrow> unit cres" where
  "cluster_record_load_cost key d s =
     bind_res (check_key key s) (\<lambda>_ s1.
     bind_res (ring_owners key s1) (\<lambda>os s2.
     bind_res (fold_res (\<lambda>i. on_node i (record_load_cost key d))
         (sorted_list_of_set (set os \<union> (case c_hot s2 key of None \<Rightarrow> {} | Some hs \<Rightarrow> hs))) s2) (\<lambda>_ s3. (Inr (), s3))))"

fun degraded_keys :: "pystr list \<Rightarrow> cluster \<Rightarrow> bool cres" where
  "degraded_keys [] s = (Inr False, s)"
| "degraded_keys (key # ks) s =
     bind_res (ring_owners key s) (\<lambda>os s1.
     let (avail, s2) = available_owners os s1 in
     bind_res (lift_sum (required (c_consistency s2) (int (length os))) s2) (\<lambda>req s3.
     if int (length avail) < req then (Inr True, s3)
     else if (\<exists>latest. latest_metadata key s3 = Some latest \<and>
            (\<exists>i \<in> set os. case c_metadata s3 i key of None \<Rightarrow> True | Some m \<Rightarrow> md_version m < md_version latest))
     then (Inr True, s3) else degraded_keys ks s3))"

fun any_unhealthy :: "pystr list \<Rightarrow> cluster \<Rightarrow> bool \<times> cluster" where
  "any_unhealthy [] s = (False, s)"
| "any_unhealthy (i # is) s = (let (up, s1) = healthy i s in if up then any_unhealthy is s1 else (True, s1))"

definition degraded :: "cluster \<Rightarrow> bool cres" where
  "degraded s =
     bind_res (degraded_keys (sorted_list_of_set (c_catalog s)) s) (\<lambda>b s1.
       if b then (Inr True, s1) else case any_unhealthy (node_ids (c_ring s1)) s1 of (u, s2) \<Rightarrow> (Inr u, s2))"


section \<open>What a rebalance keeps\<close>

text \<open>
  \<open>shrinks s s'\<close>: the catalogue, the ring and the set of nodes are the same, and metadata is at
  most dropped, and only on nodes that do not own the key.
\<close>

definition shrinks :: "cluster \<Rightarrow> cluster \<Rightarrow> bool" where
  "shrinks s s' \<longleftrightarrow> c_sha s' = c_sha s \<and> c_ring s' = c_ring s \<and> c_replica_count s' = c_replica_count s \<and>
     c_catalog s' = c_catalog s \<and> od_keys (c_nodes s') = od_keys (c_nodes s) \<and>
     (\<forall>i k. c_metadata s' i k = c_metadata s i k \<or>
        c_metadata s' i k = None \<and> (\<forall>os. owners (c_sha s) (c_ring s) k (c_replica_count s) = Inr os \<longrightarrow> i \<notin> set os))"

lemma shrinks_trans:
  assumes "shrinks s t" "shrinks t u"
  shows "shrinks s u"
proof -
  let ?none = "\<lambda>i k. \<forall>os. owners (c_sha s) (c_ring s) k (c_replica_count s) = Inr os \<longrightarrow> i \<notin> set os"
  have "c_metadata u i k = c_metadata s i k \<or> c_metadata u i k = None \<and> ?none i k" for i k
  proof -
    have "c_metadata t i k = c_metadata s i k \<or> c_metadata t i k = None \<and> ?none i k"
      "c_metadata u i k = c_metadata t i k \<or> c_metadata u i k = None \<and> ?none i k"
      using assms by (simp_all add: shrinks_def)
    then show ?thesis by argo
  qed
  then show ?thesis using assms by (simp add: shrinks_def)
qed

lemma shrinks_metadata:
  "shrinks s s' \<Longrightarrow> c_metadata s' i k = c_metadata s i k \<or>
     c_metadata s' i k = None \<and> (\<forall>os. owners (c_sha s) (c_ring s) k (c_replica_count s) = Inr os \<longrightarrow> i \<notin> set os)"
  by (simp add: shrinks_def)

interpretation sh: kept shrinks
  by unfold_locales (auto simp: shrinks_def [of s s for s] intro: shrinks_trans)

lemma shrinks_node: "map_of (c_nodes s) i \<noteq> None \<Longrightarrow> shrinks s (set_node i n s)"
  by (auto simp: shrinks_def set_node_def map_of_eq_None_iff od_keys_update_present)

lemma shrinks_on_engine: "shrinks s (snd (on_engine i op s))"
  by (auto simp: on_engine_def intro!: shrinks_node split: option.splits prod.splits sum.splits)

lemma shrinks_on_node: "shrinks s (snd (on_node i op s))"
proof (cases "map_of (c_nodes s) i")
  case (Some n)
  let ?s = "set_node i (n\<lparr>cn_calls := Suc (cn_calls n)\<rparr>) s"
  have "shrinks s ?s" using Some by (intro shrinks_node) simp
  then show ?thesis using sh.trans [OF _ shrinks_on_engine [of ?s i op], of s] Some by (simp add: on_node_def Let_def)
qed (simp add: on_node_def)

lemma shrinks_has_record: "shrinks s (snd (node_has_record i key m s))"
  unfolding node_has_record_def exported_def by (intro sh.steps shrinks_on_node sh.refl)

lemma shrinks_verify_targets: "shrinks s (snd (verify_targets is key m s))"
proof (induction "is" arbitrary: s)
  case (Cons i js)
  show ?case unfolding verify_targets.simps by (intro sh.steps shrinks_has_record sh.refl Cons)
qed simp

lemma shrinks_verify_key: "shrinks s (snd (verify_key target key s))"
  unfolding verify_key_def lift_sum_def by (intro sh.steps shrinks_verify_targets sh.refl)

lemma shrinks_clean_hot: "shrinks s (snd (clean_hot key s))"
  unfolding clean_hot_def Let_def ring_owners_def by (intro sh.steps sh.refl) (simp add: shrinks_def)

lemma shrinks_clean_key: "shrinks s (snd (clean_key old_ids key s))"
proof (cases "owners (c_sha s) (c_ring s) key (c_replica_count s)")
  case (Inr os)
  have drop: "shrinks t (snd (drop_copy key os i t))"
    if "owners (c_sha t) (c_ring t) key (c_replica_count t) = Inr os" for i t
  proof (cases "i \<in> set os")
    case False
    have "shrinks t (snd (on_node i (delete key) t))" by (rule shrinks_on_node)
    moreover have "shrinks u (set_metadata i key None u)" if "shrinks t u" for u
      using that False \<open>owners (c_sha t) (c_ring t) key (c_replica_count t) = Inr os\<close> by (auto simp: shrinks_def set_metadata_def)
    ultimately show ?thesis using False
      by (cases "on_node i (delete key) t"; cases "fst (on_node i (delete key) t)")
        (auto simp: drop_copy_def bind_res_def intro: sh.trans)
  qed (simp add: drop_copy_def)
  have "shrinks s (snd (fold_res (drop_copy key os) old_ids s))"
    using Inr
  proof (induction old_ids arbitrary: s)
    case (Cons i js)
    have d: "shrinks s (snd (drop_copy key os i s))" by (rule drop [OF Cons.prems])
    then have "owners (c_sha (snd (drop_copy key os i s))) (c_ring (snd (drop_copy key os i s))) key
        (c_replica_count (snd (drop_copy key os i s))) = Inr os" using Cons.prems by (simp add: shrinks_def)
    from sh.trans [OF d Cons.IH [OF this]] d show ?case
      by (cases "drop_copy key os i s"; cases "fst (drop_copy key os i s)") (auto simp: bind_res_def split: prod.splits sum.splits)
  qed simp
  then show ?thesis using Inr
    by (auto simp: clean_key_def ring_owners_def bind_res_def split: prod.splits sum.splits)
qed (simp add: clean_key_def ring_owners_def)

lemma latest_metadata_ge:
  assumes "i \<in> set (od_keys (c_nodes s))" "c_metadata s i key = Some m"
  obtains l where "latest_metadata key s = Some l" "md_version m \<le> md_version l"
proof -
  have mem: "m \<in> set (List.map_filter (\<lambda>i. c_metadata s i key) (od_keys (c_nodes s)))"
    using assms by (auto simp: List.map_filter_def image_iff intro!: bexI [of _ i])
  then obtain v vs where l: "List.map_filter (\<lambda>i. c_metadata s i key) (od_keys (c_nodes s)) = v # vs"
    by (cases "List.map_filter (\<lambda>i. c_metadata s i key) (od_keys (c_nodes s))") auto
  then show ?thesis using that [of "max_first md_version v vs"] max_first_ge [of m v vs md_version] mem
    by (simp add: latest_metadata_def)
qed

lemma latest_metadata_node:
  assumes "latest_metadata key s = Some m"
  obtains i where "i \<in> set (od_keys (c_nodes s))" "c_metadata s i key = Some m"
proof -
  obtain v vs where l: "List.map_filter (\<lambda>i. c_metadata s i key) (od_keys (c_nodes s)) = v # vs" "m = max_first md_version v vs"
    using assms by (auto simp: latest_metadata_def split: list.splits)
  then have "m \<in> set (List.map_filter (\<lambda>i. c_metadata s i key) (od_keys (c_nodes s)))"
    using max_first_in [of md_version v vs] by simp
  then have "\<exists>i \<in> set (od_keys (c_nodes s)). c_metadata s i key = Some m" by (force simp: List.map_filter_def)
  then show ?thesis using that by blast
qed

text \<open>Verification leaves the metadata alone, so what it checked of one key still holds at its end.\<close>

definition verified :: "ring \<Rightarrow> pystr \<Rightarrow> cluster \<Rightarrow> bool" where
  "verified target key s \<longleftrightarrow> (\<forall>l. latest_metadata key s = Some l \<longrightarrow>
     (\<exists>os. owners (c_sha s) target key (c_replica_count s) = Inr os \<and>
        (\<forall>i \<in> set os. \<exists>m. c_metadata s i key = Some m \<and> md_version m = md_version l)))"

definition same_catalog :: "cluster \<Rightarrow> cluster \<Rightarrow> bool" where
  "same_catalog s s' \<longleftrightarrow> c_metadata s' = c_metadata s \<and> od_keys (c_nodes s') = od_keys (c_nodes s) \<and>
     c_sha s' = c_sha s \<and> c_replica_count s' = c_replica_count s \<and> c_catalog s' = c_catalog s"

lemma has_record_same: "same_catalog s (snd (node_has_record i key m s))"
proof -
  have "c_metadata (snd (node_has_record i key m s)) = c_metadata s"
    by (auto simp: node_has_record_def exported_def bind_res_def split: option.splits prod.splits sum.splits
        dest: on_node_metadata)
  then show ?thesis using shrinks_has_record [of s i key m] by (simp add: shrinks_def same_catalog_def)
qed

lemma verify_targets_same: "same_catalog s (snd (verify_targets is key m s))"
proof (induction "is" arbitrary: s)
  case (Cons i js)
  then show ?case using has_record_same [of s i key m] Cons [of "snd (node_has_record i key m s)"]
    by (cases "node_has_record i key m s"; cases "fst (node_has_record i key m s)")
      (auto simp: same_catalog_def bind_res_def)
qed (simp add: same_catalog_def)

lemma verify_targets_hold:
  assumes "verify_targets is key l s = (Inr (), s')"
  shows "\<forall>i \<in> set is. \<exists>m. c_metadata s i key = Some m \<and> md_version m = md_version l"
  using assms
proof (induction "is" arbitrary: s)
  case (Cons i js)
  obtain s1 where h: "node_has_record i key l s = (Inr True, s1)" and r: "verify_targets js key l s1 = (Inr (), s')"
    using Cons.prems by (auto simp: bind_res_Inr split: if_splits)
  show ?case using has_record_True [OF h] Cons.IH [OF r] by simp
qed simp

lemma verify_key_verified:
  assumes "verify_key target key s = (Inr (), s')"
  shows "verified target key s \<and> same_catalog s s'"
proof (cases "latest_metadata key s")
  case None
  then show ?thesis using assms by (simp add: verify_key_def verified_def same_catalog_def)
next
  case (Some l)
  then obtain os where os: "owners (c_sha s) target key (c_replica_count s) = Inr os" "verify_targets os key l s = (Inr (), s')"
    using assms by (auto simp: verify_key_def lift_sum_def bind_res_Inr)
  show ?thesis using verify_targets_hold [OF os(2)] verify_targets_same [of s os key l] os Some by (simp add: verified_def)
qed

lemma verified_same: "same_catalog s s' \<Longrightarrow> verified target key s' = verified target key s"
  by (simp add: verified_def same_catalog_def latest_metadata_def)

lemma verify_keys_verified:
  assumes "fold_res (verify_key target) ks s = (Inr us, s')"
  shows "(\<forall>key \<in> set ks. verified target key s') \<and> same_catalog s s'"
  using assms
proof (induction ks arbitrary: s us)
  case (Cons key ks)
  obtain s1 us' where h: "verify_key target key s = (Inr (), s1)" and r: "fold_res (verify_key target) ks s1 = (Inr us', s')"
    using Cons.prems by (auto simp: bind_res_Inr)
  note a = verify_key_verified [OF h] and b = Cons.IH [OF r]
  have "same_catalog s s'" using a b by (simp add: same_catalog_def)
  then show ?case using a b verified_same by auto
qed (simp add: same_catalog_def)


lemma set_status_same: "same_catalog s (set_status i st s) \<and> c_ring (set_status i st s) = c_ring s"
proof (cases "map_of (c_nodes s) i")
  case (Some n)
  then have "i \<in> fst ` set (c_nodes s)" by (metis map_of_eq_None_iff option.distinct(1))
  then show ?thesis using Some by (simp add: set_status_def same_catalog_def set_node_def od_keys_update_present)
qed (simp add: set_status_def same_catalog_def)

lemma fold_status_same:
  assumes "\<And>i s. same_catalog s (f i s) \<and> c_ring (f i s) = c_ring s"
  shows "same_catalog s (fold f is s) \<and> c_ring (fold f is s) = c_ring s"
proof (induction "is" arbitrary: s)
  case (Cons i js)
  then show ?case using assms [of s i] Cons [of "f i s"] by (auto simp: same_catalog_def)
qed (simp add: same_catalog_def)

lemma switch_ring_same: "same_catalog s (switch_ring plan s) \<and> c_ring (switch_ring plan s) = pl_ring plan"
proof -
  let ?s1 = "fold (\<lambda>i. set_status i Active) (pl_joining plan) (s\<lparr>c_ring := pl_ring plan\<rparr>)"
  have "same_catalog s (s\<lparr>c_ring := pl_ring plan\<rparr>)" by (simp add: same_catalog_def)
  moreover have "same_catalog (s\<lparr>c_ring := pl_ring plan\<rparr>) ?s1 \<and> c_ring ?s1 = pl_ring plan"
    using fold_status_same [of "\<lambda>i. set_status i Active" "s\<lparr>c_ring := pl_ring plan\<rparr>"] set_status_same by simp
  moreover have "same_catalog ?s1 (switch_ring plan s) \<and> c_ring (switch_ring plan s) = c_ring ?s1"
    unfolding switch_ring_def
    by (rule fold_status_same) (auto simp: set_status_same same_catalog_def [of s s for s] split: option.split)
  ultimately show ?thesis by (auto simp: same_catalog_def)
qed



section \<open>What a snapshot may change\<close>

text \<open>
  \<open>no_older s s'\<close>: every version a node held is still there, or replaced by one at least as new,
  or collected below the watermark, and the watermark does not go back.
\<close>

definition no_older :: "cluster \<Rightarrow> cluster \<Rightarrow> bool" where
  "no_older s s' \<longleftrightarrow> od_keys (c_nodes s') = od_keys (c_nodes s) \<and>
     (\<forall>w. c_watermark s = Some w \<longrightarrow> (\<exists>w'. c_watermark s' = Some w' \<and> w \<le> w')) \<and>
     (\<forall>i key m. i \<in> set (od_keys (c_nodes s)) \<longrightarrow> c_metadata s i key = Some m \<longrightarrow>
        (\<exists>m'. c_metadata s' i key = Some m' \<and> md_version m \<le> md_version m') \<or>
        (\<exists>w. c_watermark s' = Some w \<and> md_version m \<le> w))"

lemma no_older_trans:
  assumes st: "no_older s t" and tu: "no_older t u"
  shows "no_older s u"
proof -
  have wm: "\<exists>w'. c_watermark u = Some w' \<and> w \<le> w'" if "c_watermark t = Some w" for w
    using tu that by (simp add: no_older_def)
  have wm': "\<exists>w'. c_watermark u = Some w' \<and> w \<le> w'" if "c_watermark s = Some w" for w
    using st wm that unfolding no_older_def by (meson order.trans)
  have "(\<exists>m'. c_metadata u i key = Some m' \<and> md_version m \<le> md_version m') \<or>
      (\<exists>w. c_watermark u = Some w \<and> md_version m \<le> w)"
    if i: "i \<in> set (od_keys (c_nodes s))" "c_metadata s i key = Some m" for i key m
  proof -
    consider m' where "c_metadata t i key = Some m'" "md_version m \<le> md_version m'"
      | w where "c_watermark t = Some w" "md_version m \<le> w"
      using st i unfolding no_older_def by blast
    then show ?thesis
    proof cases
      case 1
      have "i \<in> set (od_keys (c_nodes t))" using st i(1) by (simp add: no_older_def)
      then have "(\<exists>m''. c_metadata u i key = Some m'' \<and> md_version m' \<le> md_version m'') \<or>
          (\<exists>w. c_watermark u = Some w \<and> md_version m' \<le> w)" using tu 1(1) by (simp add: no_older_def)
      then show ?thesis using 1(2) by (meson order.trans)
    next
      case 2
      then show ?thesis using wm by (meson order.trans)
    qed
  qed
  then show ?thesis using st tu wm' by (simp add: no_older_def)
qed

interpretation no: kept no_older
  by unfold_locales (auto simp: no_older_def [of s s for s] intro: no_older_trans)

text \<open>Most calls here leave metadata and watermark alone.\<close>

definition quiet_catalog :: "cluster \<Rightarrow> cluster \<Rightarrow> bool" where
  "quiet_catalog s s' \<longleftrightarrow> c_metadata s' = c_metadata s \<and> c_watermark s' = c_watermark s \<and>
     od_keys (c_nodes s') = od_keys (c_nodes s)"

interpretation qu: kept quiet_catalog
  by unfold_locales (auto simp: quiet_catalog_def)

lemma quiet_no_older: "quiet_catalog s s' \<Longrightarrow> no_older s s'"
  by (auto simp: quiet_catalog_def no_older_def)

lemma quiet_on_engine: "quiet_catalog s (snd (on_engine i op s))"
proof -
  have "c_watermark (snd (on_engine i op s)) = c_watermark s"
    by (auto simp: on_engine_def set_node_def split: option.splits prod.splits sum.splits)
  then show ?thesis using shrinks_on_engine [of s i op] by (simp add: quiet_catalog_def shrinks_def)
qed

lemma quiet_on_node: "quiet_catalog s (snd (on_node i op s))"
proof -
  have "c_watermark (snd (on_node i op s)) = c_watermark s"
    by (auto simp: on_node_def on_engine_def set_node_def Let_def split: option.splits prod.splits sum.splits)
  then show ?thesis using shrinks_on_node [of s i op] by (simp add: quiet_catalog_def shrinks_def)
qed

lemma quiet_has_record: "quiet_catalog s (snd (node_has_record i key m s))"
  unfolding node_has_record_def exported_def by (intro qu.steps quiet_on_node qu.refl)

lemma quiet_healthy: "quiet_catalog s (snd (healthy i s))"
  by (auto simp: healthy_def quiet_catalog_def c_tick_def split: option.splits)

lemma quiet_all_hold: "quiet_catalog s (snd (all_hold os key m s))"
proof (induction os arbitrary: s)
  case (Cons i os)
  show ?case unfolding all_hold.simps Let_def
    by (intro qu.steps quiet_has_record quiet_healthy qu.refl Cons)
qed simp

lemma quiet_accept: "quiet_catalog s (snd (accept_record i f r s))"
  unfolding accept_record_def Let_def by (intro qu.steps quiet_has_record qu.refl)

lemma quiet_accepts: "quiet_catalog s (snd (accept_records i f rs s))"
proof (induction rs arbitrary: s)
  case (Cons r rs)
  show ?case unfolding accept_records.simps by (intro qu.steps quiet_accept qu.refl Cons)
qed simp

lemma quiet_capture: "quiet_catalog s (snd (capture_backends is s))"
  unfolding capture_backends_def capture_native_def by (intro qu.fold_res_kept qu.steps quiet_on_engine qu.refl)

lemma quiet_restore: "quiet_catalog s (snd (restore_backends cps s))"
proof -
  have "quiet_catalog s (snd (restore_one icp s))" for icp s
    unfolding restore_one_def by (cases icp; cases "snd icp") (auto intro: quiet_on_engine)
  then show ?thesis unfolding restore_backends_def by (intro qu.fold_res_kept)
qed

lemma collect_no_older:
  assumes "latest_metadata key s = Some l"
  shows "no_older s (collect_tombstone key (md_version l) s)"
proof -
  have le: "md_version m \<le> md_version l" if "i \<in> set (od_keys (c_nodes s))" "c_metadata s i key = Some m" for i m
    using latest_metadata_ge [OF that] assms by (metis option.inject)
  have nd: "c_nodes (collect_tombstone key (md_version l) s) = c_nodes s"
    and wm: "c_watermark (collect_tombstone key (md_version l) s) = (case c_watermark s of
                     None \<Rightarrow> Some (md_version l) | Some w \<Rightarrow> Some (if md_version l > w then md_version l else w))"
    and md: "c_metadata (collect_tombstone key (md_version l) s) i = (c_metadata s i)(key := None)" for i
    by (auto simp: collect_tombstone_def drop_lease_def replace_key_tags_def Let_def split: option.splits)
  have w: "\<exists>w. c_watermark (collect_tombstone key (md_version l) s) = Some w \<and> md_version l \<le> w"
    using wm by (auto split: option.splits)
  have "\<exists>w'. c_watermark (collect_tombstone key (md_version l) s) = Some w' \<and> v \<le> w'" if "c_watermark s = Some v" for v
    using wm that by auto
  moreover have "(\<exists>m'. c_metadata (collect_tombstone key (md_version l) s) i k = Some m' \<and> md_version m \<le> md_version m') \<or>
      (\<exists>w. c_watermark (collect_tombstone key (md_version l) s) = Some w \<and> md_version m \<le> w)"
    if "i \<in> set (od_keys (c_nodes s))" "c_metadata s i k = Some m" for i k m
  proof (cases "k = key")
    case True
    then show ?thesis using w le [of i m] that by (meson order.trans)
  next
    case False
    then show ?thesis using that by (simp add: md)
  qed
  ultimately show ?thesis unfolding no_older_def nd by simp
qed

lemma gc_one_no_older: "no_older s (snd (gc_one key s))"
proof (cases "latest_metadata key s")
  case (Some l)
  have step: "no_older s (collect_tombstone key (md_version l) t)" if "quiet_catalog s t" for t
    using collect_no_older [of key t l] quiet_no_older [OF that] that Some no_older_trans
    by (simp add: quiet_catalog_def latest_metadata_def)
  show ?thesis unfolding gc_one_def Some option.case ring_owners_def
    by (cases "owners (c_sha s) (c_ring s) key (c_replica_count s)")
      (auto simp: bind_res_def split: prod.splits sum.splits
        dest!: arg_cong [where f = snd] intro!: quiet_no_older step quiet_all_hold)
qed (simp add: gc_one_def)


lemma gc_no_older: "no_older s (snd (gc_tombstones ks s))"
proof -
  have c: "no_older s (if b then c_count m n s else s)" for b m n s
    by (auto simp: no_older_def c_count_def)
  show ?thesis unfolding gc_tombstones_def Let_def
    by (intro no.steps no.fold_res_kept gc_one_no_older c)
qed

text \<open>What acceptance of a record says, at the state in which the records are judged.\<close>

definition acceptable :: "pystr \<Rightarrow> cluster \<Rightarrow> snapshot_record \<Rightarrow> bool" where
  "acceptable i s r \<longleftrightarrow>
     (\<forall>m. c_metadata s i (sr_key r) = Some m \<longrightarrow> md_version m \<le> sr_version r) \<and>
     (\<forall>w. c_metadata s i (sr_key r) = None \<longrightarrow> latest_metadata (sr_key r) s = None \<longrightarrow> c_watermark s = Some w \<longrightarrow> w < sr_version r)"

lemma accept_record_True: "accept_record i f r s = (Inr True, s') \<Longrightarrow> acceptable i s r"
  by (auto simp: accept_record_def acceptable_def Let_def not_less not_le split: if_splits option.splits)

lemma acceptable_quiet: "quiet_catalog s s' \<Longrightarrow> acceptable i s' r = acceptable i s r"
  by (simp add: acceptable_def quiet_catalog_def latest_metadata_def)

lemma accept_records_ok:
  assumes "accept_records i f rs s = (Inr acc, s')"
  shows "\<forall>r \<in> set acc. acceptable i s r"
  using assms
proof (induction rs arbitrary: s acc)
  case (Cons r rs)
  obtain b s1 acc' where a: "accept_record i f r s = (Inr b, s1)" and rest: "accept_records i f rs s1 = (Inr acc', s')"
    and acc: "acc = (if b then r # acc' else acc')"
    using Cons.prems by (auto simp: bind_res_Inr)
  have q: "quiet_catalog s s1" using quiet_accept [of s i f r] a by simp
  show ?case using Cons.IH [OF rest] acc accept_record_True [of i f r s s1] a acceptable_quiet [OF q] by (cases b) auto
qed simp

abbreviation stamp_of :: "snapshot_record \<Rightarrow> replica_metadata" where
  "stamp_of r \<equiv> \<lparr>md_version = sr_version r, md_deleted = incoming_deleted r,
     md_tags = (case sr_entry r of None \<Rightarrow> [] | Some e \<Rightarrow> se_tags e)\<rparr>"

definition stored_in :: "pystr \<Rightarrow> snapshot_record list \<Rightarrow> cluster \<Rightarrow> cluster \<Rightarrow> bool" where
  "stored_in i rs s s' \<longleftrightarrow> c_watermark s' = c_watermark s \<and> od_keys (c_nodes s') = od_keys (c_nodes s) \<and>
     (\<forall>j. j \<noteq> i \<longrightarrow> c_metadata s' j = c_metadata s j) \<and>
     (\<forall>key. c_metadata s' i key = c_metadata s i key \<or> (\<exists>r \<in> set rs. sr_key r = key \<and> c_metadata s' i key = Some (stamp_of r)))"

lemma stored_trans: "stored_in i rs s t \<Longrightarrow> stored_in i rs t u \<Longrightarrow> stored_in i rs s u"
  unfolding stored_in_def by metis

lemma quiet_stored: "quiet_catalog s s' \<Longrightarrow> stored_in i rs s s'"
  by (simp add: quiet_catalog_def stored_in_def)

lemma store_record_stored: "r \<in> set rs \<Longrightarrow> stored_in i rs s (snd (store_record i r s))"
proof -
  assume r: "r \<in> set rs"
  have set: "stored_in i rs t (set_metadata i (sr_key r) (Some (stamp_of r)) t)" for t
    using r by (auto simp: stored_in_def set_metadata_def)
  have d: "stored_in i rs s (snd (on_node i (delete (sr_key r)) s))" by (rule quiet_stored [OF quiet_on_node])
  show ?thesis
    using d set stored_trans
    by (cases "on_node i (delete (sr_key r)) s"; cases "fst (on_node i (delete (sr_key r)) s)")
      (auto simp: store_record_def bind_res_def)
qed


interpretation st: kept "stored_in i rs" for i rs
  by unfold_locales (auto simp: stored_in_def [of _ _ s s for s] intro: stored_trans)

lemma stored_on_node: "stored_in i rs t (snd (on_node j op t))"
  by (rule quiet_stored [OF quiet_on_node])

lemma store_records_stored: "stored_in i acc s (snd (store_records i acc s))"
  unfolding store_records_def Let_def
  by (intro st.steps st.fold_res_kept stored_on_node store_record_stored st.refl)

lemma stored_no_older:
  assumes st: "stored_in i acc s s'" and ok: "\<forall>r \<in> set acc. acceptable i s r"
  shows "no_older s s'"
proof -
  have "\<exists>m'. c_metadata s' j key = Some m' \<and> md_version m \<le> md_version m'" if m: "c_metadata s j key = Some m" for j key m
  proof (cases "j = i \<and> c_metadata s' i key \<noteq> c_metadata s i key")
    case True
    then obtain r where r: "r \<in> set acc" "sr_key r = key" "c_metadata s' i key = Some (stamp_of r)"
      using st unfolding stored_in_def by blast
    then have "md_version m \<le> sr_version r" using ok m True unfolding acceptable_def by blast
    then show ?thesis using r True by simp
  next
    case False
    then have "c_metadata s' j key = c_metadata s j key" using st by (cases "j = i") (simp_all add: stored_in_def)
    then show ?thesis using m by simp
  qed
  then show ?thesis using st by (auto simp: no_older_def stored_in_def)
qed

text \<open>Collecting tombstones never adds metadata.\<close>

definition no_more :: "cluster \<Rightarrow> cluster \<Rightarrow> bool" where
  "no_more s s' \<longleftrightarrow> (\<forall>i key. c_metadata s' i key = None \<or> c_metadata s' i key = c_metadata s i key)"

interpretation nm: kept no_more
  by unfold_locales (auto simp: no_more_def, metis)

lemma gc_no_more: "no_more s (snd (gc_tombstones ks s))"
proof -
  have h: "no_more t (snd (all_hold os key m t))" for os key m t
    using quiet_all_hold [of t os key m] by (simp add: no_more_def quiet_catalog_def)
  have k: "no_more t (collect_tombstone key v t)" for key v t
    by (auto simp: no_more_def collect_tombstone_def drop_lease_def replace_key_tags_def Let_def split: option.splits)
  have o: "no_more t (snd (gc_one key t))" for key t
    unfolding gc_one_def ring_owners_def by (intro nm.steps h nm.refl k)
  have c: "no_more t (if b then c_count m n t else t)" for b m n t
    by (simp add: no_more_def c_count_def)
  show ?thesis unfolding gc_tombstones_def Let_def by (intro nm.steps nm.fold_res_kept o c)
qed

lemma no_more_count [simp]: "no_more s (c_count m n s)" "no_older s (c_count m n s)"
  by (simp_all add: no_more_def no_older_def c_count_def)

text \<open>A key that was collected stays collected, unless a newer version arrives.\<close>

definition no_revival :: "pystr \<Rightarrow> cluster \<Rightarrow> cluster \<Rightarrow> bool" where
  "no_revival i s t \<longleftrightarrow> (\<forall>key w m. latest_metadata key s = None \<and> c_watermark s = Some w \<and> c_metadata t i key = Some m
     \<longrightarrow> w < md_version m)"

lemma latest_None: "i \<in> set (od_keys (c_nodes s)) \<Longrightarrow> latest_metadata key s = None \<Longrightarrow> c_metadata s i key = None"
  using latest_metadata_ge [of i s key] by (metis option.distinct(1) option.exhaust)

lemma quiet_no_revival:
  "i \<in> set (od_keys (c_nodes s)) \<Longrightarrow> quiet_catalog s t \<Longrightarrow> no_revival i s t"
  unfolding no_revival_def quiet_catalog_def using latest_None by (metis option.distinct(1))

lemma stored_no_revival:
  assumes i: "i \<in> set (od_keys (c_nodes s))" and st: "stored_in i acc s t" and ok: "\<forall>r \<in> set acc. acceptable i s r"
  shows "no_revival i s t"
proof -
  have "w < md_version m" if a: "latest_metadata key s = None" "c_watermark s = Some w" "c_metadata t i key = Some m" for key w m
  proof -
    have n: "c_metadata s i key = None" by (rule latest_None [OF i a(1)])
    then obtain r where r: "r \<in> set acc" "sr_key r = key" "m = stamp_of r"
      using st a(3) unfolding stored_in_def by (metis option.distinct(1) option.inject)
    then show ?thesis using ok n a unfolding acceptable_def by auto
  qed
  then show ?thesis by (auto simp: no_revival_def)
qed

lemma more_no_revival: "no_revival i s t \<Longrightarrow> no_more t u \<Longrightarrow> no_revival i s u"
  unfolding no_revival_def no_more_def by (metis option.distinct(1))

text \<open>The three ways an installation ends: nothing changed, the accepted records were stored, or stored and then collected.\<close>

lemma install_cases:
  assumes "install_records i f rs s = (r, s')"
  obtains (quiet) t where "quiet_catalog s t" "s' = t \<or> s' = c_count ''snapshot_bootstraps_total'' 1 t"
  | (stored) acc t u where "\<forall>x \<in> set acc. acceptable i s x" "stored_in i acc s t"
      "u = t \<or> u = snd (gc_tombstones (Some (map sr_key (filter sr_deleted acc))) t)"
      "s' = u \<or> s' = c_count ''snapshot_bootstraps_total'' 1 u"
proof (cases "distinct (map sr_key rs)")
  case False
  then show ?thesis using assms quiet [OF qu.refl] by (simp add: install_records_def)
next
  case d: True
  obtain a s1 where a: "accept_records i f rs s = (a, s1)" by (cases "accept_records i f rs s")
  then have q1: "quiet_catalog s s1" using quiet_accepts [of s i f rs] by simp
  show ?thesis
  proof (cases a)
    case (Inl e)
    then show ?thesis using assms d a quiet [OF q1] by (simp add: install_records_def)
  next
    case acc: (Inr acc)
    have ok: "\<forall>r \<in> set acc. acceptable i s r" using accept_records_ok a acc by blast
    obtain c s2 where c: "capture_backends [i] s1 = (c, s2)" by (cases "capture_backends [i] s1")
    then have q2: "quiet_catalog s s2" using qu.trans [OF q1] quiet_capture [of s1 "[i]"] by simp
    obtain b s3 where b: "store_records i acc s2 = (b, s3)" by (cases "store_records i acc s2")
    have st: "stored_in i acc s2 s3" using store_records_stored [of i acc s2] b by simp
    then have st': "stored_in i acc s s3" using stored_trans [OF quiet_stored [OF q2]] by blast
    show ?thesis
    proof (cases "acc = []")
      case True
      then show ?thesis using assms d a acc quiet [OF q1] by (simp add: install_records_def)
    next
      case ne: False
      show ?thesis
      proof (cases c)
        case (Inl e)
        then show ?thesis using assms d a acc ne c quiet [OF q2] by (simp add: install_records_def)
      next
        case cps: (Inr cps)
        show ?thesis
        proof (cases b)
          case (Inl e)
          obtain u s4 where u: "restore_backends cps s3 = (u, s4)" by (cases "restore_backends cps s3")
          then have q4: "quiet_catalog s3 s4" using quiet_restore [of s3 cps] by simp
          have st4: "stored_in i acc s s4" using stored_trans [OF st' quiet_stored [OF q4]] .
          have undone: "quiet_catalog s (s4\<lparr>c_metadata := (c_metadata s4)(i := c_metadata s2 i)\<rparr>)"
            using q2 q4 st by (auto simp: quiet_catalog_def stored_in_def)
          show ?thesis
          proof (cases u)
            case ui: (Inl e')
            then have "s' = s4" using assms d a acc ne c cps b Inl u by (simp add: install_records_def)
            then show ?thesis using stored [OF ok st4] by blast
          next
            case ur: (Inr x)
            then have "s' = s4\<lparr>c_metadata := (c_metadata s4)(i := c_metadata s2 i)\<rparr>"
              using assms d a acc ne c cps b Inl u by (simp add: install_records_def)
            then show ?thesis using quiet [OF undone] by blast
          qed
        next
          case (Inr x)
          let ?gc = "gc_tombstones (Some (map sr_key (filter sr_deleted acc))) s3"
          have "s' = snd ?gc \<or> s' = c_count ''snapshot_bootstraps_total'' 1 (snd ?gc)"
            using assms d a acc ne c cps b Inr by (cases ?gc; cases "fst ?gc") (auto simp: install_records_def)
          then show ?thesis using stored [OF ok st'] by blast
        qed
      qed
    qed
  qed
qed

lemma install_outcome:
  assumes i: "i \<in> set (od_keys (c_nodes s))" and r: "install_records i f rs s = (r, s')"
  shows "no_older s s' \<and> no_revival i s s'"
proof -
  have more: "no_older s u \<and> no_revival i s u" if "no_older s t \<and> no_revival i s t" "no_older t u" "no_more t u" for t u
    using that no_older_trans more_no_revival by blast
  from r show ?thesis
  proof (cases rule: install_cases)
    case (quiet t)
    have "no_older s t \<and> no_revival i s t" using quiet_no_older [OF quiet(1)] quiet_no_revival [OF i quiet(1)] by simp
    then show ?thesis using quiet(2) more [of t s'] by auto
  next
    case (stored acc t u)
    have "no_older s t \<and> no_revival i s t" using stored_no_older [OF stored(2,1)] stored_no_revival [OF i stored(2,1)] by simp
    then have "no_older s u \<and> no_revival i s u" using stored(3) more [of t u] gc_no_older gc_no_more by auto
    then show ?thesis using stored(4) more [of u s'] by auto
  qed
qed

text \<open>
  A snapshot can only move a node forward, whatever its payload contains and however its
  installation ends: every version a node held is kept, or replaced by one at least as new, or
  collected below the tombstone watermark; and a key that had been collected does not come back
  from a snapshot with a version at or below the watermark.
\<close>

theorem snapshot_never_regresses:
  assumes "i \<in> set (od_keys (c_nodes s))" "bootstrap_node dec i sess s = (r, s')"
  shows "no_older s s' \<and> no_revival i s s'"
proof -
  obtain n where n: "map_of (c_nodes s) i = Some n" using assms(1) by (cases "map_of (c_nodes s) i") (auto simp: map_of_eq_None_iff)
  have q: "no_older s s \<and> no_revival i s s" using quiet_no_revival [OF assms(1) qu.refl] by simp
  have "s' = s \<or> (\<exists>recs. install_records i (mf_fence (ss_manifest sess)) recs s = (r, s'))"
    using assms(2) n by (auto simp: bootstrap_node_def find_node_def lift_sum_def bind_res_def Let_def
          split: if_splits prod.splits sum.splits)
  then show ?thesis using q install_outcome [OF assms(1)] by blast
qed


section \<open>Witnesses\<close>

definition catalogued :: cluster where
  "catalogued = deleted_two\<lparr>c_catalog := {[107]},
     c_nodes := [([97], (snd (demo_node [97] (\<lambda>_. False)))\<lparr>cn_storage := snd (get [107] small_engine)\<rparr>),
        ([98], (snd (demo_node [98] (\<lambda>_. False)))\<lparr>cn_storage := snd (get [107] small_engine)\<rparr>)]\<rparr>"

definition demo_plan :: rebalance_plan where
  "demo_plan = \<lparr>pl_id = [], pl_fence = FenceToken 1 [97], pl_base_version = 1, pl_ring = c_ring healthy_two,
     pl_moves = [], pl_joining = [], pl_departing = []\<rparr>"



theorem snapshot_never_regresses_witness:
  "no_older healthy_two (snd (bootstrap_node (\<lambda>_. None) [97] demo_session healthy_two)) \<and>
   no_revival [97] healthy_two (snd (bootstrap_node (\<lambda>_. None) [97] demo_session healthy_two))"
  by (rule snapshot_never_regresses [OF _ prod.collapse [symmetric]]) simp

end
