(* ===== verification/Resp_Wire.thy ===== *)
theory Resp_Wire
  imports PyText
begin

text \<open>
  The RESP2 wire format, both ends: \<open>src/src/megacache/resp.py\<close> reads requests
  (\<open>read_request\<close>) and writes replies (\<open>encode_reply\<close>, \<open>error_line\<close>);
  \<open>src/src/megacache/client.py\<close> writes requests (\<open>command_payload\<close>) and reads replies
  (\<open>read_response\<close>).

  A connection's input is the list of the bytes the peer sends before it closes. A read takes
  bytes off the front; a short read is the end of the input. The state of a reader is what is
  left of the input, for the client paired with the byte budget of the reply.
\<close>

section \<open>Byte strings\<close>

abbreviation crlf :: bytes where
  "crlf \<equiv> [CHR 0x0D, CHR 0x0A]"

definition ascii :: "pystr \<Rightarrow> bytes" where
  "ascii s = map char_of s"

text \<open>\<open>str(i).encode('ascii')\<close>.\<close>

definition int_bytes :: "int \<Rightarrow> bytes" where
  "int_bytes i = ascii (dump_int i)"

definition is_space_byte :: "char \<Rightarrow> bool" where
  "is_space_byte c \<longleftrightarrow> c \<in> set [CHR 0x09, CHR 0x0A, CHR 0x0B, CHR 0x0C, CHR 0x0D, CHR 0x20]"

definition strip :: "bytes \<Rightarrow> bytes" where
  "strip bs = rev (dropWhile is_space_byte (rev (dropWhile is_space_byte bs)))"

text \<open>\<open>bytes.split()\<close>: the maximal runs of bytes that are not white space.\<close>

fun runs :: "bytes \<Rightarrow> bytes list" where
  "runs [] = [[]]"
| "runs (c # cs) =
     (if is_space_byte c then [] # runs cs
      else case runs cs of [] \<Rightarrow> [[c]] | w # ws \<Rightarrow> (c # w) # ws)"

definition split_ws :: "bytes \<Rightarrow> bytes list" where
  "split_ws bs = filter (\<lambda>w. w \<noteq> []) (runs bs)"

text \<open>
  \<open>int(b)\<close> on bytes: surrounding white space, one sign, decimal digits with single underscores
  between them. \<open>cap\<close> is \<open>sys.get_int_max_str_digits()\<close>; zero is no limit.
\<close>

definition is_digit :: "nat \<Rightarrow> bool" where
  "is_digit d \<longleftrightarrow> 48 \<le> d \<and> d \<le> 57"

fun digit_run :: "nat list \<Rightarrow> nat list option" where
  "digit_run [] = None"
| "digit_run [d] = (if is_digit d then Some [d - 48] else None)"
| "digit_run (d # e # r) =
     (if is_digit d
      then map_option (\<lambda>ds. (d - 48) # ds) (if e = 95 then digit_run r else digit_run (e # r))
      else None)"

definition digits_value :: "nat list \<Rightarrow> nat" where
  "digits_value ds = foldl (\<lambda>n d. 10 * n + d) 0 ds"

definition unsigned :: "nat \<Rightarrow> nat list \<Rightarrow> int option" where
  "unsigned cap ds =
     (case digit_run ds of None \<Rightarrow> None
      | Some vs \<Rightarrow> (if cap \<noteq> 0 \<and> length vs > cap then None else Some (int (digits_value vs))))"

definition int_of_bytes :: "nat \<Rightarrow> bytes \<Rightarrow> int option" where
  "int_of_bytes cap bs =
     (case map of_char (strip bs) of
        [] \<Rightarrow> None
      | d # r \<Rightarrow> (if d = 45 then map_option uminus (unsigned cap r)
                  else if d = 43 then unsigned cap r
                  else unsigned cap (d # r)))"

text \<open>\<open>stream.readline(limit)\<close>: up to the first line feed, at most \<open>limit\<close> bytes.\<close>

definition readline :: "nat \<Rightarrow> bytes \<Rightarrow> bytes \<times> bytes" where
  "readline limit inp =
     (let m = min limit (Suc (length (takeWhile (\<lambda>c. c \<noteq> CHR 0x0A) inp)))
      in (take m inp, drop m inp))"

definition ends_crlf :: "bytes \<Rightarrow> bool" where
  "ends_crlf bs \<longleftrightarrow> 2 \<le> length bs \<and> drop (length bs - 2) bs = crlf"

text \<open>
  \<open>decode('utf-8', 'replace')\<close>: an undecodable byte sequence becomes U+FFFD, one for each
  maximal prefix of a well-formed sequence.
\<close>

definition second_ok :: "nat \<Rightarrow> nat \<Rightarrow> bool" where
  "second_ok a b \<longleftrightarrow> cont b \<and> (a = 0xE0 \<longrightarrow> 0xA0 \<le> b) \<and> (a = 0xED \<longrightarrow> b < 0xA0)
     \<and> (a = 0xF0 \<longrightarrow> 0x90 \<le> b) \<and> (a = 0xF4 \<longrightarrow> b < 0x90)"

definition bad_length :: "nat list \<Rightarrow> nat" where
  "bad_length us =
     (case us of
        a # b # c # _ \<Rightarrow>
          (if 0xE0 \<le> a \<and> a < 0xF5 \<and> second_ok a b
           then (if 0xF0 \<le> a \<and> cont c then 3 else 2) else 1)
      | [a, b] \<Rightarrow> (if 0xE0 \<le> a \<and> a < 0xF5 \<and> second_ok a b then 2 else 1)
      | _ \<Rightarrow> 1)"

function replace_units :: "nat list \<Rightarrow> pystr" where
  "replace_units us =
     (if us = [] then []
      else case utf8_next us of
          None \<Rightarrow> 0xFFFD # replace_units (drop (bad_length us) us)
        | Some (c, r) \<Rightarrow> c # replace_units r)"
  by pat_completeness auto
termination
  by (relation "measure length")
    (auto dest: utf8_next_shorter simp: bad_length_def split: list.splits)

declare replace_units.simps [simp del]

definition decode_replace :: "bytes \<Rightarrow> pystr" where
  "decode_replace bs = replace_units (map of_char bs)"

text \<open>\<open>encode('utf-8', 'replace')\<close>: a surrogate becomes a question mark.\<close>

definition encode_replace :: "pystr \<Rightarrow> bytes" where
  "encode_replace s = concat (map (\<lambda>c. map char_of (utf8_units (if is_scalar c then c else 63))) s)"

section \<open>The server reads a request\<close>

record resp_limits =
  max_body_bytes :: int
  max_str_digits :: nat

datatype protocol_error =
    EmptyInline
  | BadArity
  | NotBulk
  | BulkTooLong
  | CommandTooLong
  | IncompleteBulk
  | BadLine
  | InvalidField string

type_synonym 'a rres = "(protocol_error, 'a, bytes) res"

definition server_readline :: "bytes \<Rightarrow> bytes rres" where
  "server_readline inp =
     (let (line, rest) = readline 65537 inp
      in if length line > 65536 \<or> \<not> ends_crlf line then (Inl BadLine, rest)
         else (Inr (take (length line - 2) line), rest))"

definition parse_integer :: "resp_limits \<Rightarrow> string \<Rightarrow> bytes \<Rightarrow> bytes \<Rightarrow> int rres" where
  "parse_integer cfg field bs inp =
     (case int_of_bytes (max_str_digits cfg) bs of
        None \<Rightarrow> (Inl (InvalidField field), inp)
      | Some i \<Rightarrow> (Inr i, inp))"

fun read_bulks :: "resp_limits \<Rightarrow> nat \<Rightarrow> int \<Rightarrow> bytes \<Rightarrow> bytes list rres" where
  "read_bulks cfg 0 total_length inp = (Inr [], inp)"
| "read_bulks cfg (Suc n) total_length inp =
     (if take 1 inp \<noteq> ''$'' then (Inl NotBulk, drop 1 inp)
      else bind_res (server_readline (drop 1 inp)) (\<lambda>line r1.
        bind_res (parse_integer cfg ''bulk string length'' line r1) (\<lambda>len r2.
          if len < 0 \<or> len > max_body_bytes cfg then (Inl BulkTooLong, r2)
          else if total_length + len > max_body_bytes cfg then (Inl CommandTooLong, r2)
          else
            (let v = take (nat len) r2; r3 = drop (nat len) r2
             in if int (length v) \<noteq> len then (Inl IncompleteBulk, r3)
                else if take 2 r3 \<noteq> crlf then (Inl IncompleteBulk, drop 2 r3)
                else bind_res (read_bulks cfg n (total_length + len) (drop 2 r3))
                  (\<lambda>vs r4. (Inr (v # vs), r4))))))"

definition read_request :: "resp_limits \<Rightarrow> bytes \<Rightarrow> bytes list option rres" where
  "read_request cfg inp =
     (case inp of
        [] \<Rightarrow> (Inr None, [])
      | first # r0 \<Rightarrow>
          (if first \<noteq> CHR ''*'' then
             bind_res (server_readline r0) (\<lambda>line r1.
               let parts = split_ws (strip (first # line))
               in if parts = [] then (Inl EmptyInline, r1) else (Inr (Some parts), r1))
           else
             bind_res (server_readline r0) (\<lambda>line r1.
               bind_res (parse_integer cfg ''array length'' line r1) (\<lambda>count r2.
                 if count \<le> 0 \<or> count > 1024 then (Inl BadArity, r2)
                 else bind_res (read_bulks cfg (nat count) 0 r2) (\<lambda>parts r3. (Inr (Some parts), r3))))))"

text \<open>The text of the exception, which \<open>handle\<close> sends back before it closes the connection.\<close>

fun protocol_text :: "protocol_error \<Rightarrow> pystr" where
  "protocol_text EmptyInline = lit ''empty inline command''"
| "protocol_text BadArity = lit ''command must contain 1 to 1024 arguments''"
| "protocol_text NotBulk = lit ''command arguments must be bulk strings''"
| "protocol_text BulkTooLong = lit ''bulk string exceeds configured limit''"
| "protocol_text CommandTooLong = lit ''command exceeds configured limit''"
| "protocol_text IncompleteBulk = lit ''incomplete bulk string''"
| "protocol_text BadLine = lit ''unterminated or oversized line''"
| "protocol_text (InvalidField f) = lit (''invalid '' @ f)"

section \<open>The server writes a reply\<close>

datatype reply =
    Simple pystr
  | Null
  | Bulk bytes
  | Number int
  | Items "reply list"

fun encode_reply :: "reply \<Rightarrow> bytes option" where
  "encode_reply (Simple s) = map_option (\<lambda>b. ''+'' @ b @ crlf) (encode_utf8 s)"
| "encode_reply Null = Some (''$-1'' @ crlf)"
| "encode_reply (Bulk b) = Some (''$'' @ int_bytes (int (length b)) @ crlf @ b @ crlf)"
| "encode_reply (Number i) = Some ('':'' @ int_bytes i @ crlf)"
| "encode_reply (Items rs) =
     map_option (\<lambda>bs. ''*'' @ int_bytes (int (length rs)) @ crlf @ concat bs)
       (collect_opt (map encode_reply rs))"

definition safe_text :: "pystr \<Rightarrow> pystr" where
  "safe_text msg = map (\<lambda>c. if c = 13 \<or> c = 10 then 32 else c) msg"

definition starts_with :: "'a list \<Rightarrow> 'a list \<Rightarrow> bool" where
  "starts_with s p \<longleftrightarrow> take (length p) s = p"

definition error_line :: "pystr \<Rightarrow> bytes" where
  "error_line msg =
     (let safe = safe_text msg;
          prefix = (if starts_with safe (lit ''NOAUTH '') \<or> starts_with safe (lit ''WRONGPASS '')
                    then ''-'' else ''-ERR '')
      in prefix @ encode_replace safe @ crlf)"

section \<open>The client writes a request\<close>

datatype command_part = TextPart pystr | BytesPart bytes | IntPart int

fun encode_part :: "command_part \<Rightarrow> bytes option" where
  "encode_part (BytesPart b) = Some b"
| "encode_part (IntPart i) = Some (int_bytes i)"
| "encode_part (TextPart s) = encode_utf8 s"

definition bulk_frame :: "bytes \<Rightarrow> bytes" where
  "bulk_frame b = ''$'' @ int_bytes (int (length b)) @ crlf @ b @ crlf"

definition request_frame :: "bytes list \<Rightarrow> bytes" where
  "request_frame bs = ''*'' @ int_bytes (int (length bs)) @ crlf @ concat (map bulk_frame bs)"

definition command_payload :: "command_part list \<Rightarrow> bytes option" where
  "command_payload parts = map_option request_frame (collect_opt (map encode_part parts))"

section \<open>The client reads a reply\<close>

datatype client_error =
    CommandError pystr
  | WireError string
  | EndOfInput
  | TextError

datatype client_value =
    CText pystr
  | CNone
  | CBytes bytes
  | CInt int
  | CList "client_value list"

type_synonym wire = "int \<times> bytes"
type_synonym 'a wres = "(client_error, 'a, wire) res"

definition max_response_bytes :: int where "max_response_bytes = 16 * 1024 * 1024"
definition max_bulk_bytes :: int where "max_bulk_bytes = 16 * 1024 * 1024"
definition max_array_items :: int where "max_array_items = 100000"
definition max_response_depth :: nat where "max_response_depth = 128"

definition consume_response_bytes :: "int \<Rightarrow> wire \<Rightarrow> unit wres" where
  "consume_response_bytes n w =
     (let budget = fst w + n
      in if budget > max_response_bytes then (Inl (WireError ''response exceeds byte limit''), (budget, snd w))
         else (Inr (), (budget, snd w)))"

definition client_readline :: "wire \<Rightarrow> bytes wres" where
  "client_readline w =
     (let (line, rest) = readline 65537 (snd w)
      in bind_res (consume_response_bytes (int (length line)) (fst w, rest)) (\<lambda>_ w1.
           if length line > 65536 \<or> \<not> ends_crlf line
           then (Inl (WireError ''unterminated or oversized response''), w1)
           else (Inr (take (length line - 2) line), w1)))"

definition read_bulk :: "nat \<Rightarrow> bytes \<Rightarrow> wire \<Rightarrow> client_value wres" where
  "read_bulk cap line w =
     (case int_of_bytes cap line of
        None \<Rightarrow> (Inl (WireError ''invalid bulk string length''), w)
      | Some len \<Rightarrow>
          (if len = -1 then (Inr CNone, w)
           else if len < 0 then (Inl (WireError ''invalid bulk string length''), w)
           else if len > max_bulk_bytes then (Inl (WireError ''bulk string exceeds limit''), w)
           else bind_res (consume_response_bytes (len + 2) w) (\<lambda>_ w1.
             let v = take (nat len) (snd w1); r = drop (nat len) (snd w1)
             in if int (length v) \<noteq> len then (Inl (WireError ''incomplete bulk string response''), (fst w1, r))
                else if take 2 r \<noteq> crlf
                then (Inl (WireError ''incomplete bulk string response''), (fst w1, drop 2 r))
                else (Inr (CBytes v), (fst w1, drop 2 r)))))"

primrec repeat_res :: "nat \<Rightarrow> ('s \<Rightarrow> ('e, 'a, 's) res) \<Rightarrow> 's \<Rightarrow> ('e, 'a list, 's) res" where
  "repeat_res 0 f s = (Inr [], s)"
| "repeat_res (Suc n) f s =
     bind_res (f s) (\<lambda>a s1. bind_res (repeat_res n f s1) (\<lambda>as s2. (Inr (a # as), s2)))"

text \<open>The argument counts the nesting levels still allowed, \<open>_MAX_RESPONSE_DEPTH + 1 - depth\<close>.\<close>

primrec read_reply :: "nat \<Rightarrow> nat \<Rightarrow> wire \<Rightarrow> client_value wres" where
  "read_reply cap 0 w = (Inl (WireError ''RESP nesting exceeds limit''), w)"
| "read_reply cap (Suc levels) w =
     (case snd w of
        [] \<Rightarrow> (Inl EndOfInput, w)
      | marker # r0 \<Rightarrow>
          bind_res (consume_response_bytes 1 (fst w, r0)) (\<lambda>_ w1.
          bind_res (client_readline w1) (\<lambda>line w2.
            if marker = CHR ''+'' then
              (case decode_utf8 line of None \<Rightarrow> (Inl TextError, w2) | Some t \<Rightarrow> (Inr (CText t), w2))
            else if marker = CHR ''-'' then (Inl (CommandError (decode_replace line)), w2)
            else if marker = CHR '':'' then
              (case int_of_bytes cap line of
                 None \<Rightarrow> (Inl (WireError ''invalid integer response''), w2)
               | Some i \<Rightarrow> (Inr (CInt i), w2))
            else if marker = CHR ''$'' then read_bulk cap line w2
            else if marker = CHR ''*'' then
              (case int_of_bytes cap line of
                 None \<Rightarrow> (Inl (WireError ''invalid array response''), w2)
               | Some count \<Rightarrow>
                   (if count = -1 then (Inr CNone, w2)
                    else if count < 0 \<or> count > max_array_items
                    then (Inl (WireError ''invalid array length''), w2)
                    else bind_res (repeat_res (nat count) (read_reply cap levels) w2)
                      (\<lambda>vs w3. (Inr (CList vs), w3))))
            else (Inl (WireError ''unknown RESP marker''), w2))))"

definition read_response :: "nat \<Rightarrow> bytes \<Rightarrow> client_value wres" where
  "read_response cap inp = read_reply cap (Suc max_response_depth) (0, inp)"

section \<open>Numbers on the wire\<close>

text \<open>
  CPython's limit on the digits of a parsed number is never below 640 unless it is switched
  off, so every number of at most 640 digits is read back.
\<close>

definition cap_ok :: "nat \<Rightarrow> bool" where
  "cap_ok cap \<longleftrightarrow> cap = 0 \<or> 640 \<le> cap"

definition moderate :: "int \<Rightarrow> bool" where
  "moderate i \<longleftrightarrow> length (digits10 (nat \<bar>i\<bar>)) \<le> 640"

lemma digits10_digits: "d \<in> set (digits10 n) \<Longrightarrow> is_digit d"
  by (induction n rule: digits10.induct)
    (subst (asm) (2) digits10.simps, auto simp: is_digit_def split: if_splits)

lemma digits10_nonempty [simp]: "digits10 n \<noteq> []"
  by (subst digits10.simps) simp

lemma digit_run_digits:
  "ds \<noteq> [] \<Longrightarrow> (\<And>d. d \<in> set ds \<Longrightarrow> is_digit d) \<Longrightarrow> digit_run ds = Some (map (\<lambda>d. d - 48) ds)"
proof (induction ds rule: digit_run.induct)
  case (3 d e r)
  from "3.prems"(2) [of e] have "e \<noteq> 95" by (auto simp: is_digit_def)
  with 3 show ?case by simp
qed simp_all

lemma digits_value_snoc [simp]: "digits_value (xs @ [d]) = 10 * digits_value xs + d"
  by (simp add: digits_value_def)

lemma digits10_value: "digits_value (map (\<lambda>d. d - 48) (digits10 n)) = n"
proof (induction n rule: digits10.induct)
  case (1 n)
  then show ?case
    by (subst digits10.simps) (auto simp: digits_value_def)
qed

lemma digits10_length: "0 < k \<Longrightarrow> n < 10 ^ k \<Longrightarrow> length (digits10 n) \<le> k"
proof (induction k arbitrary: n)
  case (Suc k)
  show ?case
  proof (cases "n < 10")
    case False
    then have "k \<noteq> 0" using Suc.prems(2) by (cases k) auto
    moreover have "n div 10 < 10 ^ k" using Suc.prems(2) by auto
    ultimately have "length (digits10 (n div 10)) \<le> k" by (intro Suc.IH) auto
    then show ?thesis using False by (subst digits10.simps) simp
  qed (subst digits10.simps, simp)
qed simp

lemma unsigned_digits10:
  assumes "cap_ok cap" "moderate (int n)"
  shows "unsigned cap (digits10 n) = Some (int n)"
proof -
  have "cap = 0 \<or> length (digits10 n) \<le> cap" using assms by (auto simp: cap_ok_def moderate_def)
  then show ?thesis
    by (auto simp: unsigned_def digit_run_digits digits10_digits digits10_value)
qed

lemma dump_int_small: "d \<in> set (dump_int i) \<Longrightarrow> d = 45 \<or> is_digit d"
  by (auto simp: dump_int_def dest: digits10_digits split: if_splits)

lemma of_char_ascii: "(\<And>d. d \<in> set ds \<Longrightarrow> d < 256) \<Longrightarrow> map of_char (ascii ds) = ds"
  unfolding ascii_def by (rule map_of_char_char_of)

lemma of_char_int_bytes: "map of_char (int_bytes i) = dump_int i"
  unfolding int_bytes_def by (rule of_char_ascii) (auto dest: dump_int_small simp: is_digit_def)

lemma int_bytes_codes: "c \<in> set (int_bytes i) \<Longrightarrow> of_char c = (45::nat) \<or> is_digit (of_char c)"
  using dump_int_small [of "of_char c" i] of_char_int_bytes [of i] by (metis image_eqI set_map)

lemma int_bytes_no_space: "c \<in> set (int_bytes i) \<Longrightarrow> \<not> is_space_byte c"
  by (auto dest!: int_bytes_codes simp: is_space_byte_def is_digit_def)

lemma strip_id: "(\<And>c. c \<in> set bs \<Longrightarrow> \<not> is_space_byte c) \<Longrightarrow> strip bs = bs"
  unfolding strip_def by (metis dropWhile_eq_self_iff hd_in_set rev_rev_ident set_rev)

lemma int_of_int_bytes:
  assumes "cap_ok cap" "moderate i"
  shows "int_of_bytes cap (int_bytes i) = Some i"
proof -
  have s: "map of_char (strip (int_bytes i)) = dump_int i"
    by (simp add: strip_id int_bytes_no_space of_char_int_bytes)
  show ?thesis
  proof (cases "i < 0")
    case True
    then have "unsigned cap (digits10 (nat (- i))) = Some (- i)"
      using assms by (subst unsigned_digits10) (auto simp: moderate_def)
    with True s show ?thesis by (simp add: int_of_bytes_def dump_int_def)
  next
    case False
    then have u: "unsigned cap (digits10 (nat i)) = Some i"
      using assms by (subst unsigned_digits10) (auto simp: moderate_def)
    obtain d r where d: "digits10 (nat i) = d # r" by (cases "digits10 (nat i)") auto
    with digits10_digits [of d "nat i"] have "d \<noteq> 45" "d \<noteq> 43" by (auto simp: is_digit_def)
    with False s u d show ?thesis by (simp add: int_of_bytes_def dump_int_def)
  qed
qed

lemma int_bytes_length: "moderate i \<Longrightarrow> length (int_bytes i) \<le> 641"
  by (auto simp: int_bytes_def ascii_def dump_int_def moderate_def abs_if split: if_splits)

lemma moderate_small: "\<bar>i\<bar> < 2 ^ 63 \<Longrightarrow> moderate i"
  unfolding moderate_def using digits10_length [of 19 "nat \<bar>i\<bar>"] by (simp add: nat_less_iff)

lemma int_bytes_no_lf: "CHR 0x0A \<notin> set (int_bytes i)"
  using int_bytes_no_space [of "CHR 0x0A"] by (auto simp: is_space_byte_def)

section \<open>Lines\<close>

lemma readline_crlf:
  assumes "CHR 0x0A \<notin> set l" "length l + 2 \<le> n"
  shows "readline n (l @ crlf @ r) = (l @ crlf, r)"
proof -
  have "takeWhile (\<lambda>c. c \<noteq> CHR 0x0A) (l @ crlf @ r) = l @ [CHR 0x0D]"
    using assms(1) by (subst takeWhile_append2) auto
  then show ?thesis using assms(2) by (simp add: readline_def Let_def)
qed

lemma readline_split: "readline n inp = (l, r) \<Longrightarrow> inp = l @ r \<and> length l \<le> n"
  by (auto simp: readline_def Let_def)

lemma ends_crlf_app [simp]: "ends_crlf (l @ crlf)"
  by (simp add: ends_crlf_def)

lemma server_readline_crlf:
  "CHR 0x0A \<notin> set l \<Longrightarrow> length l \<le> 65534 \<Longrightarrow> server_readline (l @ crlf @ r) = (Inr l, r)"
  using ends_crlf_app [of l] by (simp add: server_readline_def readline_crlf [simplified])

lemma server_readline_split:
  assumes "server_readline inp = (Inr l, r)"
  shows "inp = l @ crlf @ r \<and> length l \<le> 65534"
proof -
  obtain line where l: "readline 65537 inp = (line, r)" "length line \<le> 65536" "ends_crlf line"
    "l = take (length line - 2) line"
    using assms by (auto simp: server_readline_def split: prod.splits if_splits)
  then have "line = l @ crlf" using append_take_drop_id [of "length line - 2" line] by (simp add: ends_crlf_def)
  with readline_split [OF l(1)] l(2) show ?thesis by auto
qed

section \<open>Requests\<close>

lemma number_line:
  assumes "cap_ok (max_str_digits cfg)" "moderate i"
  shows "server_readline (int_bytes i @ crlf @ r) = (Inr (int_bytes i), r)"
    and "parse_integer cfg f (int_bytes i) r = (Inr i, r)"
  using server_readline_crlf [OF int_bytes_no_lf, of i r] int_bytes_length [OF assms(2)]
    int_of_int_bytes [OF assms]
  by (simp_all add: parse_integer_def)

definition total_length :: "bytes list \<Rightarrow> int" where
  "total_length bs = int (sum_list (map length bs))"

lemma total_length_simps [simp]:
  "total_length [] = 0" "total_length (b # bs) = int (length b) + total_length bs"
  by (simp_all add: total_length_def)

lemma total_length_nonneg [simp]: "0 \<le> total_length bs"
  by (simp add: total_length_def)

lemma moderate_length: "int (length b) \<le> m \<Longrightarrow> m < 2 ^ 63 \<Longrightarrow> moderate (int (length b))"
  by (rule moderate_small) simp

lemma read_bulks_frames:
  assumes "cap_ok (max_str_digits cfg)" "max_body_bytes cfg < 2 ^ 63"
    and "0 \<le> t" "t + total_length bs \<le> max_body_bytes cfg"
  shows "read_bulks cfg (length bs) t (concat (map bulk_frame bs) @ rest) = (Inr bs, rest)"
  using assms(3,4)
proof (induction bs arbitrary: t)
  case (Cons b bs)
  let ?r = "concat (map bulk_frame bs) @ rest"
  have le: "int (length b) \<le> max_body_bytes cfg" "t + int (length b) \<le> max_body_bytes cfg"
    using Cons.prems total_length_nonneg [of bs] by (simp_all del: total_length_nonneg)
  have m: "moderate (int (length b))" by (rule moderate_length [OF le(1) assms(2)])
  have "read_bulks cfg (length bs) (t + int (length b)) ?r = (Inr bs, rest)"
    using Cons.prems by (intro Cons.IH) auto
  with le number_line [OF assms(1) m, of "b @ crlf @ ?r"] number_line(2) [OF assms(1) m]
  show ?case by (simp add: bulk_frame_def [of b])
qed simp

lemma request_frame_read:
  assumes "cap_ok (max_str_digits cfg)" "max_body_bytes cfg < 2 ^ 63"
    and "bs \<noteq> []" "length bs \<le> 1024" "total_length bs \<le> max_body_bytes cfg"
  shows "read_request cfg (request_frame bs @ rest) = (Inr (Some bs), rest)"
proof -
  have "moderate (int (length bs))"
    using assms(4) by (intro moderate_small) simp
  note n = number_line [OF assms(1) this]
  have "read_bulks cfg (length bs) 0 (concat (map bulk_frame bs) @ rest) = (Inr bs, rest)"
    using assms by (intro read_bulks_frames) auto
  with assms(3,4) n(1) [of "concat (map bulk_frame bs) @ rest"] n(2)
  show ?thesis by (simp add: read_request_def request_frame_def)
qed

lemma collect_opt_length: "collect_opt xs = Some ys \<Longrightarrow> length ys = length xs"
  by (induction xs arbitrary: ys rule: collect_opt.induct) auto

section \<open>What a request can hold\<close>

lemma read_bulks_bounds:
  assumes "read_bulks cfg n t inp = (Inr bs, rest)"
  shows "length bs = n \<and> t + total_length bs \<le> max t (max_body_bytes cfg) \<and>
     (\<exists>used. inp = used @ rest \<and> int (length used) \<le> 65539 * int n + total_length bs)"
  using assms
proof (induction n arbitrary: t inp bs)
  case (Suc n)
  obtain line r1 where 1: "server_readline (drop 1 inp) = (Inr line, r1)"
    and d: "take 1 inp = ''$''"
    using Suc.prems by (auto simp: bind_res_Inr split: if_splits)
  with Suc.prems obtain len where 2: "parse_integer cfg ''bulk string length'' line r1 = (Inr len, r1)"
    "0 \<le> len" "t + len \<le> max_body_bytes cfg"
    and v: "int (length (take (nat len) r1)) = len" "take 2 (drop (nat len) r1) = crlf"
    and 3: "bind_res (read_bulks cfg n (t + len) (drop 2 (drop (nat len) r1)))
      (\<lambda>vs r4. (Inr (take (nat len) r1 # vs), r4)) = (Inr bs, rest)"
    by (auto simp: bind_res_Inr parse_integer_def Let_def split: if_splits option.splits)
  from 3 obtain vs where bs: "bs = take (nat len) r1 # vs"
    and rec: "read_bulks cfg n (t + len) (drop 2 (drop (nat len) r1)) = (Inr vs, rest)"
    by (auto simp: bind_res_Inr)
  from Suc.IH [OF rec] obtain used where u: "drop 2 (drop (nat len) r1) = used @ rest"
    "int (length used) \<le> 65539 * int n + total_length vs" "length vs = n"
    "t + len + total_length vs \<le> max (t + len) (max_body_bytes cfg)"
    by auto
  have inp: "inp = ''$'' @ line @ crlf @ r1" and ll: "length line \<le> 65534"
    using server_readline_split [OF 1] d append_take_drop_id [of 1 inp] by auto
  have "r1 = take (nat len) r1 @ crlf @ used @ rest"
    using v(2) u(1) append_take_drop_id [of "nat len" r1] append_take_drop_id [of 2 "drop (nat len) r1"]
    by metis
  then have "inp = (''$'' @ line @ crlf @ take (nat len) r1 @ crlf @ used) @ rest"
    using inp by simp
  moreover have "int (length (''$'' @ line @ crlf @ take (nat len) r1 @ crlf @ used))
      \<le> 65539 * int (Suc n) + total_length bs"
    using ll u(2) v(1) bs by simp
  ultimately show ?case using bs u(3,4) v(1) 2(2,3) by auto
qed simp

lemma runs_length: "sum_list (map length (runs bs)) \<le> length bs"
  by (induction bs) (auto split: list.splits)

lemma split_ws_length: "sum_list (map length (split_ws bs)) \<le> length bs"
proof -
  have "sum_list (map length (filter (\<lambda>w. w \<noteq> []) ws)) = sum_list (map length ws)" for ws :: "bytes list"
    by (induction ws) auto
  then show ?thesis by (simp add: split_ws_def runs_length)
qed

lemma strip_length: "length (strip bs) \<le> length bs"
  using length_dropWhile_le [of is_space_byte "rev (dropWhile is_space_byte bs)"] length_dropWhile_le [of is_space_byte bs]
  by (simp add: strip_def)

text \<open>
  C21. What the client's \<open>command\<close> writes, the server's \<open>_read_request\<close> reads back as the same
  arguments, byte for byte, and it stops exactly at the end of the command, so that pipelined
  commands never run into each other. The hypotheses are the limits of the server: at most 1024
  arguments and at most \<open>max_body_bytes\<close> bytes of them.
\<close>

theorem request_roundtrip:
  assumes "command_payload parts = Some payload"
    and "parts \<noteq> []" "length parts \<le> 1024"
    and "collect_opt (map encode_part parts) = Some args" "total_length args \<le> max_body_bytes cfg"
    and "max_body_bytes cfg < 2 ^ 63" "cap_ok (max_str_digits cfg)"
  shows "read_request cfg (payload @ rest) = (Inr (Some args), rest)"
proof -
  have "length args = length parts" using collect_opt_length [OF assms(4)] by simp
  with assms show ?thesis
    by (auto simp: command_payload_def intro!: request_frame_read)
qed

definition demo_limits :: resp_limits where
  "demo_limits = \<lparr>max_body_bytes = 1048576, max_str_digits = 4300\<rparr>"

definition demo_parts :: "command_part list" where
  "demo_parts = [TextPart (lit ''SET''), TextPart [233], BytesPart [CHR 0x0D, CHR 0x0A, CHR 0x00], TextPart (lit ''EX''), IntPart 60]"

definition demo_args :: "bytes list" where
  "demo_args = [''SET'', [CHR 0xC3, CHR 0xA9], [CHR 0x0D, CHR 0x0A, CHR 0x00], ''EX'', ''60'']"

lemma demo_encoded: "collect_opt (map encode_part demo_parts) = Some demo_args"
  by (simp add: demo_parts_def demo_args_def lit_def is_scalar_def is_surrogate_def utf8_units_def
      int_bytes_def ascii_def dump_int_def digits10.simps char_of_def bit_0)

theorem request_roundtrip_witness:
  "read_request demo_limits (request_frame demo_args @ ''PING'') = (Inr (Some demo_args), ''PING'')"
  by (rule request_roundtrip [where parts = demo_parts])
    (simp_all add: command_payload_def demo_encoded, simp_all add: demo_parts_def demo_args_def
      demo_limits_def cap_ok_def total_length_def)

text \<open>
  Whatever bytes arrive, an accepted request is bounded before it is buffered further. In
  the array form it has between one and 1024 arguments of at most \<open>max_body_bytes\<close> bytes
  together; in the inline form its arguments fit in one line of 65536 bytes. Either way the
  bytes consumed are a prefix of the input of bounded length.
\<close>

theorem request_bounds:
  assumes "read_request cfg inp = (Inr (Some args), rest)"
  shows "args \<noteq> [] \<and> (\<exists>used. inp = used @ rest \<and>
     (if hd inp = CHR ''*''
      then length args \<le> 1024 \<and> total_length args \<le> max 0 (max_body_bytes cfg)
        \<and> int (length used) \<le> 65537 + 65539 * 1024 + total_length args
      else total_length args \<le> 65535 \<and> length used \<le> 65537))"
proof -
  obtain first r0 where inp: "inp = first # r0"
    using assms by (cases inp) (auto simp: read_request_def)
  obtain line r1 where l: "server_readline r0 = (Inr line, r1)"
    using assms inp by (auto simp: read_request_def bind_res_Inr split: if_splits)
  have r0: "r0 = line @ crlf @ r1" and ll: "length line \<le> 65534"
    using server_readline_split [OF l] by auto
  show ?thesis
  proof (cases "first = CHR ''*''")
    case True
    then obtain count where c: "0 < count" "count \<le> 1024"
      and b: "read_bulks cfg (nat count) 0 r1 = (Inr args, rest)"
      using assms inp l
      by (auto simp: read_request_def bind_res_Inr parse_integer_def not_le not_less split: if_splits option.splits)
    from read_bulks_bounds [OF b] obtain used where u: "length args = nat count"
      "total_length args \<le> max 0 (max_body_bytes cfg)" "r1 = used @ rest"
      "int (length used) \<le> 65539 * int (nat count) + total_length args" by auto
    then have "inp = (first # line @ crlf @ used) @ rest"
      "int (length (first # line @ crlf @ used)) \<le> 65537 + 65539 * 1024 + total_length args"
      using inp r0 ll c by simp_all
    then show ?thesis using True inp u(1,2) c
      by (intro conjI exI [of _ "first # line @ crlf @ used"]) auto
  next
    case False
    then have a: "args = split_ws (strip (first # line))" "args \<noteq> []" "rest = r1"
      using assms inp l by (auto simp: read_request_def Let_def split: if_splits)
    have "total_length args \<le> 65535"
      using split_ws_length [of "strip (first # line)"] strip_length [of "first # line"] ll a(1)
      by (simp add: total_length_def)
    then show ?thesis using False inp a(2,3) r0 ll
      by (intro conjI exI [of _ "first # line @ crlf"]) auto
  qed
qed

lemma demo_inline: "read_request demo_limits (''GET  a'' @ crlf @ ''x'') = (Inr (Some [''GET'', ''a'']), ''x'')"
  by (simp add: read_request_def server_readline_def readline_def ends_crlf_def split_ws_def
      strip_def is_space_byte_def)

theorem request_bounds_witness:
  "\<exists>used. ''GET  a'' @ crlf @ ''x'' = used @ ''x'' \<and> length used \<le> 65537 \<and> total_length [''GET'', ''a''] \<le> 65535"
  using request_bounds [OF demo_inline] by auto

section \<open>Replies\<close>

text \<open>
  What the server sends for a command: the reply of its handler, or the text of the exception.
\<close>

type_synonym answer = "pystr + reply"

definition answer_bytes :: "answer \<Rightarrow> bytes option" where
  "answer_bytes a = (case a of Inl msg \<Rightarrow> Some (error_line msg) | Inr r \<Rightarrow> encode_reply r)"

fun client_view :: "reply \<Rightarrow> client_value" where
  "client_view (Simple s) = CText s"
| "client_view Null = CNone"
| "client_view (Bulk b) = CBytes b"
| "client_view (Number i) = CInt i"
| "client_view (Items rs) = CList (map client_view rs)"

definition error_text :: "pystr \<Rightarrow> pystr" where
  "error_text msg =
     (let safe = safe_text msg
      in (if starts_with safe (lit ''NOAUTH '') \<or> starts_with safe (lit ''WRONGPASS '') then []
          else lit ''ERR '') @ map (\<lambda>c. if is_scalar c then c else 63) safe)"

definition client_outcome :: "answer \<Rightarrow> client_error + client_value" where
  "client_outcome a = (case a of Inl msg \<Rightarrow> Inl (CommandError (error_text msg)) | Inr r \<Rightarrow> Inr (client_view r))"

text \<open>The replies a client accepts: nesting, line, bulk and array limits of \<open>client.py\<close>.\<close>

fun acceptable :: "nat \<Rightarrow> reply \<Rightarrow> bool" where
  "acceptable 0 r = False"
| "acceptable (Suc l) (Simple s) = (10 \<notin> set s \<and> (case utf8_len s of None \<Rightarrow> False | Some n \<Rightarrow> n \<le> 65534))"
| "acceptable (Suc l) Null = True"
| "acceptable (Suc l) (Bulk b) = (int (length b) \<le> max_bulk_bytes)"
| "acceptable (Suc l) (Number i) = moderate i"
| "acceptable (Suc l) (Items rs) = (int (length rs) \<le> max_array_items \<and> list_all (acceptable l) rs)"

definition answer_ok :: "answer \<Rightarrow> bool" where
  "answer_ok a = (case a of Inl msg \<Rightarrow> length (error_line msg) \<le> 65537
                  | Inr r \<Rightarrow> acceptable (Suc max_response_depth) r)"

lemma encode_utf8_no_lf: "encode_utf8 s = Some bs \<Longrightarrow> 10 \<notin> set s \<Longrightarrow> CHR 0x0A \<notin> set bs"
  using utf8_byte_origin [of s bs "CHR 0x0A"] by auto

lemma consume_ok:
  "b + n \<le> max_response_bytes \<Longrightarrow> consume_response_bytes n (b, inp) = (Inr (), (b + n, inp))"
  by (simp add: consume_response_bytes_def)

lemma client_readline_crlf:
  assumes "CHR 0x0A \<notin> set l" "length l \<le> 65534" "b + int (length l) + 2 \<le> max_response_bytes"
  shows "client_readline (b, l @ crlf @ r) = (Inr l, (b + int (length l) + 2, r))"
  using assms ends_crlf_app [of l] readline_crlf [of l 65537 r]
  by (simp add: client_readline_def consume_response_bytes_def)

text \<open>One marked line off the front of the input.\<close>

lemma read_reply_line:
  assumes "CHR 0x0A \<notin> set l" "length l \<le> 65534" "b + int (length l) + 3 \<le> max_response_bytes"
  shows "read_reply cap (Suc lv) (b, m # l @ crlf @ r) =
     (let w = (b + int (length l) + 3, r)
      in if m = CHR ''+'' then
           (case decode_utf8 l of None \<Rightarrow> (Inl TextError, w) | Some t \<Rightarrow> (Inr (CText t), w))
         else if m = CHR ''-'' then (Inl (CommandError (decode_replace l)), w)
         else if m = CHR '':'' then
           (case int_of_bytes cap l of
              None \<Rightarrow> (Inl (WireError ''invalid integer response''), w) | Some i \<Rightarrow> (Inr (CInt i), w))
         else if m = CHR ''$'' then read_bulk cap l w
         else if m = CHR ''*'' then
           (case int_of_bytes cap l of
              None \<Rightarrow> (Inl (WireError ''invalid array response''), w)
            | Some count \<Rightarrow>
                (if count = -1 then (Inr CNone, w)
                 else if count < 0 \<or> count > max_array_items
                 then (Inl (WireError ''invalid array length''), w)
                 else bind_res (repeat_res (nat count) (read_reply cap lv) w)
                   (\<lambda>vs w3. (Inr (CList vs), w3))))
         else (Inl (WireError ''unknown RESP marker''), w))"
proof -
  have "client_readline (b + 1, l @ crlf @ r) = (Inr l, (b + int (length l) + 3, r))"
    using client_readline_crlf [OF assms(1,2), of "b + 1" r] assms(3) by (simp add: algebra_simps)
  moreover have "consume_response_bytes 1 (b, l @ crlf @ r) = (Inr (), (b + 1, l @ crlf @ r))"
    using assms(3) by (intro consume_ok) simp
  ultimately show ?thesis by (simp add: Let_def)
qed

lemma read_number_line:
  assumes "cap_ok cap" "moderate i" "b + int (length (int_bytes i)) + 3 \<le> max_response_bytes"
  shows "int_of_bytes cap (int_bytes i) = Some i"
    and "CHR 0x0A \<notin> set (int_bytes i)" "length (int_bytes i) \<le> 65534"
  using int_of_int_bytes [OF assms(1,2)] int_bytes_no_lf int_bytes_length [OF assms(2)] by auto

lemma collect_opt_Cons:
  "collect_opt (x # xs) = Some ys \<longleftrightarrow> (\<exists>z zs. x = Some z \<and> collect_opt xs = Some zs \<and> ys = z # zs)"
  by (cases x) auto

definition reads_back :: "nat \<Rightarrow> nat \<Rightarrow> reply \<Rightarrow> bytes \<Rightarrow> bool" where
  "reads_back cap lv r bs \<longleftrightarrow> (\<forall>b rest. 0 \<le> b \<longrightarrow> b + int (length bs) \<le> max_response_bytes \<longrightarrow>
     read_reply cap lv (b, bs @ rest) = (Inr (client_view r), (b + int (length bs), rest)))"

lemma read_items:
  assumes "\<And>r bs. r \<in> set rs \<Longrightarrow> encode_reply r = Some bs \<Longrightarrow> reads_back cap lv r bs"
    and "collect_opt (map encode_reply rs) = Some bss"
    and "0 \<le> b" "b + int (length (concat bss)) \<le> max_response_bytes"
  shows "repeat_res (length rs) (read_reply cap lv) (b, concat bss @ rest) =
     (Inr (map client_view rs), (b + int (length (concat bss)), rest))"
  using assms
proof (induction rs arbitrary: bss b)
  case (Cons r rs)
  from Cons.prems(2) obtain bs bss' where r: "encode_reply r = Some bs"
    and rs: "collect_opt (map encode_reply rs) = Some bss'" and bss: "bss = bs # bss'"
    by (auto simp: collect_opt_Cons simp del: collect_opt.simps)
  have "read_reply cap lv (b, bs @ concat bss' @ rest) =
      (Inr (client_view r), (b + int (length bs), concat bss' @ rest))"
    using Cons.prems(1) [OF _ r] Cons.prems(3,4) bss by (simp add: reads_back_def)
  moreover have "repeat_res (length rs) (read_reply cap lv) (b + int (length bs), concat bss' @ rest) =
      (Inr (map client_view rs), (b + int (length bs) + int (length (concat bss')), rest))"
    using Cons.prems bss by (intro Cons.IH [OF _ rs]) auto
  ultimately show ?case using bss by (simp add: algebra_simps)
qed simp

lemma read_bulk_frame:
  assumes "cap_ok cap" "int (length v) \<le> max_bulk_bytes"
    and "b + int (length v) + 2 \<le> max_response_bytes"
  shows "read_bulk cap (int_bytes (int (length v))) (b, v @ crlf @ r) =
     (Inr (CBytes v), (b + int (length v) + 2, r))"
proof -
  have "moderate (int (length v))" using assms(2) by (intro moderate_small) (simp add: max_bulk_bytes_def)
  with int_of_int_bytes [OF assms(1)] have "int_of_bytes cap (int_bytes (int (length v))) = Some (int (length v))"
    by simp
  moreover have "consume_response_bytes (int (length v) + 2) (b, v @ crlf @ r) =
      (Inr (), (b + int (length v) + 2, v @ crlf @ r))"
    using consume_ok [of b "int (length v) + 2"] assms(3) by (simp add: algebra_simps)
  ultimately show ?thesis using assms(2) by (simp add: read_bulk_def)
qed

lemma null_line: "int_of_bytes cap ''-1'' = Some (-1)" if "cap_ok cap"
  using int_of_int_bytes [OF that, of "-1"]
  by (simp add: int_bytes_def ascii_def dump_int_def digits10.simps moderate_small char_of_def bit_0)

lemma read_reply_encoded:
  assumes "cap_ok cap"
  shows "acceptable lv r \<Longrightarrow> encode_reply r = Some bs \<Longrightarrow> reads_back cap lv r bs"
proof (induction lv arbitrary: r bs)
  case (Suc lv)
  have ln: "moderate i \<Longrightarrow> CHR 0x0A \<notin> set (int_bytes i) \<and> length (int_bytes i) \<le> 65534" for i
    using int_bytes_no_lf int_bytes_length [of i] by auto
  show ?case unfolding reads_back_def
  proof (intro allI impI)
    fix b rest
    assume b: "0 \<le> b" "b + int (length bs) \<le> max_response_bytes"
    show "read_reply cap (Suc lv) (b, bs @ rest) = (Inr (client_view r), (b + int (length bs), rest))"
    proof (cases r)
      case (Simple s)
      then obtain u where u: "encode_utf8 s = Some u" "bs = ''+'' @ u @ crlf" "10 \<notin> set s"
        "length u \<le> 65534"
        using Suc.prems by (auto simp: utf8_len_def split: option.splits)
      with Simple b read_reply_line [of u b cap lv "CHR ''+''" rest] encode_utf8_no_lf [OF u(1,3)]
        decode_encode_utf8 [OF u(1)]
      show ?thesis by (simp add: Let_def algebra_simps)
    next
      case Null
      then have "bs = ''$-1'' @ crlf" using Suc.prems by simp
      with Null b read_reply_line [of "''-1''" b cap lv "CHR ''$''" rest] null_line [OF assms]
      show ?thesis by (simp add: Let_def read_bulk_def algebra_simps)
    next
      case (Bulk v)
      then have bs: "bs = ''$'' @ int_bytes (int (length v)) @ crlf @ v @ crlf"
        and v: "int (length v) \<le> max_bulk_bytes" using Suc.prems by simp_all
      have m: "moderate (int (length v))" using v by (intro moderate_small) (simp add: max_bulk_bytes_def)
      with Bulk b bs ln [OF m]
        read_reply_line [of "int_bytes (int (length v))" b cap lv "CHR ''$''" "v @ crlf @ rest"]
        read_bulk_frame [OF assms v, of "b + int (length (int_bytes (int (length v)))) + 3" rest]
      show ?thesis by (simp add: Let_def algebra_simps)
    next
      case (Number i)
      then have m: "moderate i" and "bs = '':'' @ int_bytes i @ crlf" using Suc.prems by simp_all
      with Number b ln [OF m] read_reply_line [of "int_bytes i" b cap lv "CHR '':''" rest]
        int_of_int_bytes [OF assms m]
      show ?thesis by (simp add: Let_def algebra_simps)
    next
      case (Items rs)
      then obtain bss where bss: "collect_opt (map encode_reply rs) = Some bss"
        and bs: "bs = ''*'' @ int_bytes (int (length rs)) @ crlf @ concat bss"
        and n: "int (length rs) \<le> max_array_items" and a: "list_all (acceptable lv) rs"
        using Suc.prems by auto
      have m: "moderate (int (length rs))" using n by (intro moderate_small) (simp add: max_array_items_def)
      have "repeat_res (length rs) (read_reply cap lv)
          (b + int (length (int_bytes (int (length rs)))) + 3, concat bss @ rest) =
          (Inr (map client_view rs), (b + int (length (int_bytes (int (length rs)))) + 3 + int (length (concat bss)), rest))"
        using a b bs by (intro read_items [OF _ bss]) (auto simp: list_all_iff intro: Suc.IH)
      with Items b bs n ln [OF m] int_of_int_bytes [OF assms m]
        read_reply_line [of "int_bytes (int (length rs))" b cap lv "CHR ''*''" "concat bss @ rest"]
      show ?thesis by (simp add: Let_def algebra_simps)
    qed
  qed
qed simp

section \<open>Error lines\<close>

lemma replace_units_encoded:
  "replace_units (concat (map (\<lambda>c. utf8_units (if is_scalar c then c else 63)) s)) =
     map (\<lambda>c. if is_scalar c then c else 63) s"
proof (induction s)
  case (Cons c s)
  let ?c = "if is_scalar c then c else 63"
  have "is_scalar ?c" by (simp add: is_scalar_def is_surrogate_def)
  moreover have "utf8_units ?c \<noteq> []" by (simp add: utf8_units_def)
  ultimately show ?case using Cons utf8_next_units [of ?c]
    by (simp add: replace_units.simps [of "_ @ _"])
qed (simp add: replace_units.simps)

lemma decode_encode_replace:
  "decode_replace (encode_replace s) = map (\<lambda>c. if is_scalar c then c else 63) s"
proof -
  have "is_scalar (if is_scalar c then c else 63)" for c by (simp add: is_scalar_def is_surrogate_def)
  then have e: "map of_char (map char_of (utf8_units (if is_scalar c then c else 63)) :: bytes) =
      utf8_units (if is_scalar c then c else 63)" for c
    using utf8_units_bound map_of_char_char_of by meson
  have "map of_char (encode_replace s) =
      concat (map (\<lambda>c. utf8_units (if is_scalar c then c else 63)) s)"
    by (induction s) (simp_all add: encode_replace_def e del: map_map)
  then show ?thesis by (simp add: decode_replace_def replace_units_encoded)
qed

lemma encode_replace_append: "encode_replace (a @ b) = encode_replace a @ encode_replace b"
  by (simp add: encode_replace_def)

lemma encode_replace_utf8:
  "encode_utf8 (map (\<lambda>c. if is_scalar c then c else 63) s) = Some (encode_replace s)"
  by (induction s) (auto simp: encode_replace_def is_scalar_def is_surrogate_def)

lemma encode_replace_no_lf: "10 \<notin> set s \<Longrightarrow> CHR 0x0A \<notin> set (encode_replace s)"
  by (rule encode_utf8_no_lf [OF encode_replace_utf8]) auto

lemma safe_text_no_lf: "10 \<notin> set (safe_text msg)"
  by (auto simp: safe_text_def)

lemma encode_err: "encode_replace (lit ''ERR '') = ''ERR ''"
  by (simp add: encode_replace_def lit_def utf8_units_def is_scalar_def is_surrogate_def char_of_def bit_0)

lemma map_scalar_err: "map (\<lambda>c. if is_scalar c then c else 63) (lit ''ERR '') = lit ''ERR ''"
  by (simp add: lit_def is_scalar_def is_surrogate_def)

text \<open>The line behind the marker, and the text the client decodes from it.\<close>

lemma error_line_shape:
  "\<exists>s. error_line msg = CHR ''-'' # encode_replace s @ crlf \<and> 10 \<notin> set s
     \<and> error_text msg = map (\<lambda>c. if is_scalar c then c else 63) s"
proof (cases "starts_with (safe_text msg) (lit ''NOAUTH '') \<or> starts_with (safe_text msg) (lit ''WRONGPASS '')")
  case True
  then show ?thesis
    by (intro exI [of _ "safe_text msg"]) (simp add: error_line_def error_text_def Let_def safe_text_no_lf)
next
  case False
  then show ?thesis
    by (intro exI [of _ "lit ''ERR '' @ safe_text msg"])
      (simp add: error_line_def error_text_def Let_def safe_text_no_lf encode_replace_append encode_err
        map_scalar_err, simp add: lit_def)
qed

lemma error_line_read:
  assumes "length (error_line msg) \<le> 65537" "int (length (error_line msg)) \<le> max_response_bytes"
  shows "read_reply cap (Suc lv) (0, error_line msg @ rest) =
     (Inl (CommandError (error_text msg)), (int (length (error_line msg)), rest))"
proof -
  obtain s where s: "error_line msg = CHR ''-'' # encode_replace s @ crlf" "10 \<notin> set s"
    "error_text msg = map (\<lambda>c. if is_scalar c then c else 63) s"
    using error_line_shape by blast
  with assms read_reply_line [of "encode_replace s" 0 cap lv "CHR ''-''" rest] encode_replace_no_lf [OF s(2)]
  show ?thesis by (simp add: decode_encode_replace)
qed

text \<open>
  C22. Whatever the server answers, reply or error, the client reads exactly that answer and
  stops exactly behind it. Values come back byte for byte whatever bytes they hold, and no
  error message can forge a second reply, because its line breaks are blanked. The hypotheses
  are the limits of the client: the size of the answer, of its parts and of its lines.
\<close>

theorem answer_roundtrip:
  assumes "answer_bytes a = Some bs" "answer_ok a" "int (length bs) \<le> max_response_bytes" "cap_ok cap"
  shows "read_response cap (bs @ rest) = (client_outcome a, (int (length bs), rest))"
proof (cases a)
  case (Inl msg)
  then show ?thesis using assms error_line_read [of msg cap max_response_depth rest]
    by (simp add: answer_bytes_def answer_ok_def client_outcome_def read_response_def)
next
  case (Inr r)
  then have "reads_back cap (Suc max_response_depth) r bs"
    using assms by (intro read_reply_encoded) (simp_all add: answer_bytes_def answer_ok_def)
  then show ?thesis using Inr assms(3)
    by (simp add: reads_back_def client_outcome_def read_response_def)
qed

definition demo_answer :: answer where
  "demo_answer = Inr (Items [Bulk [CHR 0x0D, CHR 0x0A, CHR 0xFF], Null, Number (-2)])"

lemma demo_answer_ok: "answer_ok demo_answer"
proof -
  obtain n where n: "max_response_depth = Suc n" by (cases max_response_depth) (simp_all add: max_response_depth_def)
  show ?thesis unfolding answer_ok_def n
    by (simp add: demo_answer_def max_bulk_bytes_def max_array_items_def moderate_small)
qed

theorem answer_roundtrip_witness:
  "read_response 4300 (''*3'' @ crlf @ ''$3'' @ crlf @ [CHR 0x0D, CHR 0x0A, CHR 0xFF] @ crlf
       @ ''$-1'' @ crlf @ '':-2'' @ crlf @ ''rest'') =
     (Inr (CList [CBytes [CHR 0x0D, CHR 0x0A, CHR 0xFF], CNone, CInt (-2)]), (23, ''rest''))"
  using answer_roundtrip [of demo_answer "''*3'' @ crlf @ ''$3'' @ crlf @ [CHR 0x0D, CHR 0x0A, CHR 0xFF] @ crlf
       @ ''$-1'' @ crlf @ '':-2'' @ crlf" 4300 "''rest''"]
  by (simp add: demo_answer_ok, simp add: demo_answer_def answer_bytes_def client_outcome_def cap_ok_def
      max_response_bytes_def int_bytes_def ascii_def dump_int_def digits10.simps char_of_def bit_0)

end
