(* ===== verification/Auth.thy ===== *)
theory Auth
  imports Digest
begin

text \<open>
  Authentication and authorisation, \<open>src/src/megacache/auth.py\<close>: principals and what they may
  do, the users file after \<open>json.load\<close>, and \<open>authenticate\<close> with its cache of successes.

  \<^item> \<open>hashlib.sha256\<close> is the parameter \<open>sha\<close>; \<open>verify\<close> stands for \<open>verify_password\<close>, that is,
    for \<open>hashlib.pbkdf2_hmac\<close> on the parts of the stored hash, and \<open>hash_ok\<close> for the syntax
    check \<open>validate_password_hash\<close>.
  \<^item> The file system part of \<open>_load_users\<close> (symbolic links, size, reading) is not modelled.
  \<^item> \<open>authenticate\<close> holds \<open>_cache_lock\<close> only while it looks at the cache and while it stores a
    success; the two sections are separate operations, so that calls may interleave.
    \<open>slot\<close> says whether one of the four verification slots was free.
\<close>

section \<open>Principals\<close>

record principal =
  username :: pystr
  permissions :: "pystr set"
  key_prefixes :: "pystr list"
  tenant_id :: pystr
  roles :: "pystr set"

definition known_permissions :: "pystr set" where
  "known_permissions = set (map lit [''read'', ''write'', ''invalidate'', ''admin''])"

definition known_roles :: "pystr set" where
  "known_roles = set (map lit [''tenant_admin'', ''platform_admin'', ''operator'', ''auditor'', ''billing_admin''])"

definition has_prefix :: "pystr \<Rightarrow> pystr \<Rightarrow> bool" where
  "has_prefix key p \<longleftrightarrow> take (length p) key = p"

definition allows :: "principal \<Rightarrow> pystr \<Rightarrow> pystr list \<Rightarrow> bool" where
  "allows p permission ks =
     (if lit ''admin'' \<notin> permissions p \<and> permission \<notin> permissions p then False
      else if key_prefixes p = [] then True
      else list_all (\<lambda>key. list_ex (has_prefix key) (key_prefixes p)) ks)"

definition has_role :: "principal \<Rightarrow> pystr \<Rightarrow> bool" where
  "has_role p r \<longleftrightarrow> r \<in> roles p \<or> lit ''platform_admin'' \<in> roles p"

definition manages_tenant :: "principal \<Rightarrow> pystr \<Rightarrow> bool" where
  "manages_tenant p t \<longleftrightarrow>
     has_role p (lit ''platform_admin'') \<or> lit ''tenant_admin'' \<in> roles p \<and> tenant_id p = t"

section \<open>Users\<close>

record user =
  user_name :: pystr
  password_hash :: pystr
  user_permissions :: "pystr set"
  user_prefixes :: "pystr list"
  user_tenant :: pystr
  user_roles :: "pystr set"

definition principal_of :: "user \<Rightarrow> principal" where
  "principal_of u = \<lparr>username = user_name u, permissions = user_permissions u,
     key_prefixes = user_prefixes u, tenant_id = user_tenant u, roles = user_roles u\<rparr>"

datatype auth_error = AuthValueError | AuthTypeError

text \<open>Letters and digits first, then also dots, underscores and hyphens; 1 to 128 bytes.\<close>

definition is_alnum :: "nat \<Rightarrow> bool" where
  "is_alnum c \<longleftrightarrow> 97 \<le> c \<and> c \<le> 122 \<or> 65 \<le> c \<and> c \<le> 90 \<or> 48 \<le> c \<and> c \<le> 57"

definition valid_tenant :: "pystr \<Rightarrow> bool" where
  "valid_tenant t \<longleftrightarrow> t \<noteq> [] \<and> length t \<le> 128 \<and> is_alnum (hd t)
     \<and> list_all (\<lambda>c. is_alnum c \<or> c \<in> {46, 95, 45}) t"

text \<open>
  The length is taken of the UTF-8 encoding, which fails on a surrogate with
  \<open>UnicodeEncodeError\<close>, a \<open>ValueError\<close> like the rejection itself.
\<close>

definition validate_tenant_id :: "pyval \<Rightarrow> auth_error + pystr" where
  "validate_tenant_id v =
     (case v of
        PStr t \<Rightarrow>
          (if t = [] then Inl AuthValueError
           else case utf8_len t of
               None \<Rightarrow> Inl AuthValueError
             | Some n \<Rightarrow>
                 (if n > 128 \<or> \<not> is_alnum (hd t) \<or> \<not> list_all (\<lambda>c. is_alnum c \<or> c \<in> {46, 95, 45}) t
                  then Inl AuthValueError else Inr t))
      | _ \<Rightarrow> Inl AuthValueError)"

text \<open>
  \<open>frozenset(xs)\<close> of JSON values: lists and objects are unhashable. A set that holds anything
  but strings is not a subset of the known names and is rejected there.
\<close>

fun hashable :: "pyval \<Rightarrow> bool" where
  "hashable (PList _) = False"
| "hashable (PDict _) = False"
| "hashable _ = True"

definition known_names :: "pystr set \<Rightarrow> pyval list \<Rightarrow> pystr list option" where
  "known_names names xs =
     collect_opt (map (\<lambda>x. case x of PStr s \<Rightarrow> (if s \<in> names then Some s else None) | _ \<Rightarrow> None) xs)"

definition text_list :: "pyval \<Rightarrow> pystr list option" where
  "text_list v =
     (case v of
        PList xs \<Rightarrow> collect_opt (map (\<lambda>x. case x of PStr s \<Rightarrow> (if s = [] then None else Some s) | _ \<Rightarrow> None) xs)
      | _ \<Rightarrow> None)"

definition get_or :: "(pystr \<times> pyval) list \<Rightarrow> string \<Rightarrow> pyval \<Rightarrow> pyval" where
  "get_or kvs name dflt = (case map_of kvs (lit name) of None \<Rightarrow> dflt | Some v \<Rightarrow> v)"

definition role_names :: "pyval \<Rightarrow> pystr list \<Rightarrow> auth_error + pystr list" where
  "role_names raw perms =
     (case raw of
        PNone \<Rightarrow> Inr (if lit ''admin'' \<in> set perms then [lit ''tenant_admin''] else [])
      | PList xs \<Rightarrow>
          (if \<not> list_all hashable xs then Inl AuthTypeError
           else case known_names known_roles xs of
               None \<Rightarrow> Inl AuthValueError
             | Some rs \<Rightarrow> (if distinct rs then Inr rs else Inl AuthValueError))
      | _ \<Rightarrow> Inl AuthValueError)"

definition load_user ::
  "(pystr \<Rightarrow> bool) \<Rightarrow> pystr \<Rightarrow> pystr set option \<Rightarrow> (pystr \<times> user) list \<Rightarrow> pyval \<Rightarrow> auth_error + user" where
  "load_user hash_ok dflt_tenant allowed users v =
     (case v of
        PDict kvs \<Rightarrow>
          (case (get_or kvs ''username'' PNone, get_or kvs ''password_hash'' PNone,
                 get_or kvs ''permissions'' (PList []), text_list (get_or kvs ''key_prefixes'' (PList [])),
                 get_or kvs ''roles'' PNone) of
             (PStr name, PStr pw, PList ps, Some prefixes, raw_roles) \<Rightarrow>
               (if name = [] \<or> (case raw_roles of PNone \<Rightarrow> False | PList _ \<Rightarrow> False | _ \<Rightarrow> True)
                then Inl AuthValueError
                else if \<not> list_all hashable ps then Inl AuthTypeError
                else case known_names known_permissions ps of
                    None \<Rightarrow> Inl AuthValueError
                  | Some perms \<Rightarrow>
                      (case role_names raw_roles perms of
                         Inl e \<Rightarrow> Inl e
                       | Inr rs \<Rightarrow>
                           (if perms = [] \<and> rs = [] then Inl AuthValueError
                            else case validate_tenant_id (get_or kvs ''tenant_id'' (PStr dflt_tenant)) of
                                Inl e \<Rightarrow> Inl e
                              | Inr t \<Rightarrow>
                                  (if (case allowed of None \<Rightarrow> False | Some A \<Rightarrow> t \<notin> A)
                                      \<or> name \<in> fst ` set users \<or> \<not> hash_ok pw
                                   then Inl AuthValueError
                                   else Inr \<lparr>user_name = name, password_hash = pw, user_permissions = set perms,
                                          user_prefixes = prefixes, user_tenant = t, user_roles = set rs\<rparr>))))
           | _ \<Rightarrow> Inl AuthValueError)
      | _ \<Rightarrow> Inl AuthValueError)"

fun load_loop ::
  "(pystr \<Rightarrow> bool) \<Rightarrow> pystr \<Rightarrow> pystr set option \<Rightarrow> pyval list \<Rightarrow> (pystr \<times> user) list \<Rightarrow> auth_error + (pystr \<times> user) list" where
  "load_loop hash_ok dflt allowed [] users = Inr users"
| "load_loop hash_ok dflt allowed (v # vs) users =
     (case load_user hash_ok dflt allowed users v of
        Inl e \<Rightarrow> Inl e
      | Inr u \<Rightarrow> load_loop hash_ok dflt allowed vs (users @ [(user_name u, u)]))"

definition load_users ::
  "(pystr \<Rightarrow> bool) \<Rightarrow> pystr \<Rightarrow> pystr set option \<Rightarrow> pyval option \<Rightarrow> auth_error + (pystr \<times> user) list" where
  "load_users hash_ok dflt allowed doc =
     (case doc of
        None \<Rightarrow> Inr []
      | Some (PDict kvs) \<Rightarrow>
          (case get_or kvs ''users'' PNone of
             PList vs \<Rightarrow> (if vs = [] then Inl AuthValueError else load_loop hash_ok dflt allowed vs [])
           | _ \<Rightarrow> Inl AuthValueError)
      | Some _ \<Rightarrow> Inl AuthValueError)"

section \<open>The manager\<close>

record auth =
  api_key :: "pystr option"
  users_configured :: bool
  default_tenant :: pystr
  users :: "(pystr \<times> user) list"
  success_cache :: "(bytes \<times> real \<times> principal) list"

definition make_auth ::
  "(pystr \<Rightarrow> bool) \<Rightarrow> pystr option \<Rightarrow> pyval option \<Rightarrow> pystr \<Rightarrow> pystr list option \<Rightarrow> auth_error + auth" where
  "make_auth hash_ok key doc dflt allowed =
     (case validate_tenant_id (PStr dflt) of
        Inl e \<Rightarrow> Inl e
      | Inr d \<Rightarrow>
          (case (case allowed of None \<Rightarrow> Inr None
                 | Some ts \<Rightarrow> (case map_sum_list (\<lambda>t. validate_tenant_id (PStr t)) ts of
                                Inl e \<Rightarrow> Inl e | Inr us \<Rightarrow> Inr (Some (set us)))) of
             Inl e \<Rightarrow> Inl e
           | Inr A \<Rightarrow>
               (if (case A of None \<Rightarrow> False | Some B \<Rightarrow> d \<notin> B) then Inl AuthValueError
                else case load_users hash_ok d A doc of
                    Inl e \<Rightarrow> Inl e
                  | Inr us \<Rightarrow> Inr \<lparr>api_key = key, users_configured = (doc \<noteq> None), default_tenant = d,
                                users = us, success_cache = []\<rparr>)))"

definition auth_required :: "auth \<Rightarrow> bool" where
  "auth_required a \<longleftrightarrow> api_key a \<noteq> None \<or> users_configured a"

definition anonymous :: "auth \<Rightarrow> principal option" where
  "anonymous a =
     (if auth_required a then None
      else Some \<lparr>username = lit ''anonymous'', permissions = {lit ''admin''}, key_prefixes = [],
             tenant_id = default_tenant a, roles = {lit ''tenant_admin''}\<rparr>)"

definition legacy_principal :: "auth \<Rightarrow> principal" where
  "legacy_principal a = \<lparr>username = lit ''legacy-api-key'', permissions = {lit ''admin''},
     key_prefixes = [], tenant_id = default_tenant a, roles = known_roles\<rparr>"

text \<open>\<open>hmac.compare_digest\<close> on strings raises \<open>TypeError\<close> unless both are ASCII.\<close>

definition api_key_match :: "auth \<Rightarrow> pystr option \<Rightarrow> pystr \<Rightarrow> auth_error + bool" where
  "api_key_match a name pw =
     (case api_key a of
        None \<Rightarrow> Inr False
      | Some key \<Rightarrow>
          (if name = None \<or> name = Some (lit ''default'')
           then (if is_ascii pw \<and> is_ascii key then Inr (pw = key) else Inl AuthTypeError)
           else Inr False))"

definition cache_key :: "(bytes \<Rightarrow> bytes) \<Rightarrow> pystr \<Rightarrow> pystr \<Rightarrow> auth_error + bytes" where
  "cache_key sha name pw =
     (case (encode_utf8 name, encode_utf8 pw) of
        (Some n, Some p) \<Rightarrow> Inr (sha (n @ [CHR 0x00] @ p))
      | _ \<Rightarrow> Inl AuthValueError)"

text \<open>The first critical section: a live cached success, or the stale entry is dropped.\<close>

definition cache_lookup :: "bytes \<Rightarrow> real \<Rightarrow> auth \<Rightarrow> principal option \<times> auth" where
  "cache_lookup key now a =
     (case map_of (success_cache a) key of
        Some (deadline, p) \<Rightarrow>
          (if deadline > now then (Some p, a\<lparr>success_cache := od_to_end key (success_cache a)\<rparr>)
           else (None, a\<lparr>success_cache := AList.delete key (success_cache a)\<rparr>))
      | None \<Rightarrow> (None, a))"

text \<open>The second: store the success and drop the oldest entries beyond 1024.\<close>

definition cache_store :: "bytes \<Rightarrow> real \<Rightarrow> principal \<Rightarrow> auth \<Rightarrow> auth" where
  "cache_store key now p a =
     (let c = od_to_end key (AList.update key (now + 60, p) (success_cache a))
      in a\<lparr>success_cache := drop (length c - 1024) c\<rparr>)"

definition verify_user ::
  "(pystr \<Rightarrow> pystr \<Rightarrow> bool) \<Rightarrow> bool \<Rightarrow> pystr \<Rightarrow> user \<Rightarrow> principal option" where
  "verify_user verify slot pw u =
     (if \<not> slot then None else if \<not> verify pw (password_hash u) then None else Some (principal_of u))"

definition authenticate ::
  "(bytes \<Rightarrow> bytes) \<Rightarrow> (pystr \<Rightarrow> pystr \<Rightarrow> bool) \<Rightarrow> bool \<Rightarrow> real \<Rightarrow> pystr option \<Rightarrow> pystr \<Rightarrow> auth
   \<Rightarrow> (auth_error, principal option, auth) res" where
  "authenticate sha verify slot now name pw a =
     (case api_key_match a name pw of
        Inl e \<Rightarrow> (Inl e, a)
      | Inr True \<Rightarrow> (Inr (Some (legacy_principal a)), a)
      | Inr False \<Rightarrow>
          (case name of
             None \<Rightarrow> (Inr None, a)
           | Some n \<Rightarrow>
               (case map_of (users a) n of
                  None \<Rightarrow> (Inr None, a)
                | Some u \<Rightarrow>
                    (case cache_key sha n pw of
                       Inl e \<Rightarrow> (Inl e, a)
                     | Inr key \<Rightarrow>
                         (case cache_lookup key now a of
                            (Some p, a1) \<Rightarrow> (Inr (Some p), a1)
                          | (None, a1) \<Rightarrow>
                              (case verify_user verify slot pw u of
                                 None \<Rightarrow> (Inr None, a1)
                               | Some p \<Rightarrow> (Inr (Some p), cache_store key now p a1)))))))"

section \<open>The success cache\<close>

text \<open>
  A cached success belongs to a configured user whose password was verified, and sits under
  the digest of that user's credentials. \<open>M\<close> is the set of credential messages ever presented.
\<close>

definition credential :: "pystr \<Rightarrow> pystr \<Rightarrow> bytes option" where
  "credential name pw =
     (case (encode_utf8 name, encode_utf8 pw) of
        (Some n, Some p) \<Rightarrow> Some (n @ [CHR 0x00] @ p) | _ \<Rightarrow> None)"

definition vouched ::
  "(bytes \<Rightarrow> bytes) \<Rightarrow> (pystr \<Rightarrow> pystr \<Rightarrow> bool) \<Rightarrow> bytes set \<Rightarrow> (pystr \<times> user) list \<Rightarrow> bytes \<Rightarrow> principal \<Rightarrow> bool" where
  "vouched sha verify M us key p \<longleftrightarrow>
     (\<exists>n pw u m. map_of us n = Some u \<and> verify pw (password_hash u) \<and> p = principal_of u
        \<and> credential n pw = Some m \<and> m \<in> M \<and> key = sha m)"

definition cache_inv :: "(bytes \<Rightarrow> bytes) \<Rightarrow> (pystr \<Rightarrow> pystr \<Rightarrow> bool) \<Rightarrow> bytes set \<Rightarrow> auth \<Rightarrow> bool" where
  "cache_inv sha verify M a \<longleftrightarrow> length (success_cache a) \<le> 1024
     \<and> (\<forall>(key, d, p) \<in> set (success_cache a). vouched sha verify M (users a) key p)"

lemma set_od_to_end_subset: "set (od_to_end k d) \<subseteq> set d"
  by (auto simp: od_to_end_def delete_conv' dest: map_of_SomeD split: option.splits)
    (metis AList.delete_eq filter_is_subset subsetD)

lemma set_update_subset: "set (AList.update k v d) \<subseteq> insert (k, v) (set d)"
  by (induction d) auto

lemma length_od_to_end_le: "length (od_to_end k d) \<le> length d"
proof (cases "map_of d k")
  case (Some v)
  then have "(k, v) \<in> set d" by (rule map_of_SomeD)
  then have "length (filter (\<lambda>(k', _). k \<noteq> k') d) < length d" by (intro length_filter_less) auto
  with Some show ?thesis by (simp add: od_to_end_def AList.delete_eq)
qed (simp add: od_to_end_def)

lemma cache_lookup_frame:
  assumes "cache_lookup key now a = (r, a')"
  shows "set (success_cache a') \<subseteq> set (success_cache a) \<and> length (success_cache a') \<le> length (success_cache a)"
    and "users a' = users a" "api_key a' = api_key a" "default_tenant a' = default_tenant a"
proof -
  have "set (AList.delete key (success_cache a)) \<subseteq> set (success_cache a)"
    "length (AList.delete key (success_cache a)) \<le> length (success_cache a)"
    by (auto simp: AList.delete_eq)
  with assms set_od_to_end_subset [of key "success_cache a"] length_od_to_end_le [of key "success_cache a"]
  show "set (success_cache a') \<subseteq> set (success_cache a) \<and> length (success_cache a') \<le> length (success_cache a)"
    by (simp add: cache_lookup_def split: option.splits prod.splits if_splits) auto
  show "users a' = users a" "api_key a' = api_key a" "default_tenant a' = default_tenant a"
    using assms by (auto simp: cache_lookup_def split: option.splits prod.splits if_splits)
qed

lemma cache_inv_lookup:
  assumes "cache_inv sha verify M a" "cache_lookup key now a = (r, a')"
  shows "cache_inv sha verify M a'"
  using assms(1) cache_lookup_frame [OF assms(2)] by (auto simp: cache_inv_def)

lemma cache_inv_store:
  assumes "cache_inv sha verify M a" "vouched sha verify M (users a) key p"
  shows "cache_inv sha verify M (cache_store key now p a)"
proof -
  let ?c = "od_to_end key (AList.update key (now + 60, p) (success_cache a))"
  have "set (drop (length ?c - 1024) ?c) \<subseteq> insert (key, now + 60, p) (set (success_cache a))"
    using set_drop_subset set_od_to_end_subset [of key] set_update_subset by fast
  with assms show ?thesis by (auto simp: cache_inv_def cache_store_def Let_def)
qed

lemma cache_lookup_hit:
  assumes "cache_inv sha verify M a" "cache_lookup key now a = (Some p, a')"
  shows "vouched sha verify M (users a) key p"
  using assms by (auto simp: cache_lookup_def cache_inv_def dest!: map_of_SomeD split: option.splits prod.splits if_splits)

lemma cache_key_credential: "cache_key sha n pw = Inr key \<longleftrightarrow> (\<exists>m. credential n pw = Some m \<and> key = sha m)"
  by (auto simp: cache_key_def credential_def split: option.splits)

text \<open>The separating zero byte makes the credentials of names without zero bytes unambiguous.\<close>

lemma credential_inj:
  assumes "credential n pw = Some m" "credential n' pw' = Some m" "0 \<notin> set n" "0 \<notin> set n'"
  shows "n = n' \<and> pw = pw'"
proof -
  obtain b p b' p' where e: "encode_utf8 n = Some b" "encode_utf8 pw = Some p" "encode_utf8 n' = Some b'"
    "encode_utf8 pw' = Some p'" and m: "b @ [CHR 0x00] @ p = b' @ [CHR 0x00] @ p'"
    using assms(1,2) by (auto simp: credential_def split: option.splits)
  have z: "CHR 0x00 \<notin> set b" "CHR 0x00 \<notin> set b'"
    using utf8_byte_origin [of n b "CHR 0x00"] utf8_byte_origin [of n' b' "CHR 0x00"] e assms(3,4) by auto
  have "takeWhile (\<lambda>c. c \<noteq> CHR 0x00) (x @ [CHR 0x00] @ y) = x" if "CHR 0x00 \<notin> set x" for x y :: bytes
    using that by (subst takeWhile_append2) auto
  with z m have "b = b'" by metis
  with m e show ?thesis using encode_utf8_inj by simp
qed

section \<open>Runs of the manager\<close>

text \<open>
  The critical sections of any number of concurrent calls, in any order: a look at the cache,
  and a store by a call that has verified the password of a configured user.
\<close>

inductive auth_run :: "(bytes \<Rightarrow> bytes) \<Rightarrow> (pystr \<Rightarrow> pystr \<Rightarrow> bool) \<Rightarrow> bytes set \<Rightarrow> auth \<Rightarrow> bool"
  for sha verify M where
  start: "success_cache a = [] \<Longrightarrow> auth_run sha verify M a"
| look: "auth_run sha verify M a \<Longrightarrow> cache_lookup key now a = (r, a') \<Longrightarrow> auth_run sha verify M a'"
| store: "auth_run sha verify M a \<Longrightarrow> map_of (users a) n = Some u \<Longrightarrow> verify_user verify slot pw u = Some p
    \<Longrightarrow> cache_key sha n pw = Inr key \<Longrightarrow> credential n pw = Some m \<Longrightarrow> m \<in> M
    \<Longrightarrow> auth_run sha verify M (cache_store key now p a)"

lemma verify_user_Some: "verify_user verify slot pw u = Some p \<longleftrightarrow> slot \<and> verify pw (password_hash u) \<and> p = principal_of u"
  by (auto simp: verify_user_def)

lemma vouched_now:
  "map_of us n = Some u \<Longrightarrow> verify_user verify slot pw u = Some p \<Longrightarrow> cache_key sha n pw = Inr key
     \<Longrightarrow> credential n pw = Some m \<Longrightarrow> m \<in> M \<Longrightarrow> vouched sha verify M us key p"
  by (auto simp: vouched_def verify_user_Some cache_key_credential)

lemma auth_run_inv: "auth_run sha verify M a \<Longrightarrow> cache_inv sha verify M a"
proof (induction rule: auth_run.induct)
  case (start a)
  then show ?case by (simp add: cache_inv_def)
next
  case (look a key now r a')
  then show ?case using cache_inv_lookup by blast
next
  case (store a n u slot pw p key m now)
  then show ?case by (intro cache_inv_store vouched_now)
qed

text \<open>The credentials a principal stands for.\<close>

definition entitled ::
  "(pystr \<Rightarrow> pystr \<Rightarrow> bool) \<Rightarrow> auth \<Rightarrow> pystr option \<Rightarrow> pystr \<Rightarrow> principal \<Rightarrow> bool" where
  "entitled verify a name pw p \<longleftrightarrow>
     api_key a = Some pw \<and> (name = None \<or> name = Some (lit ''default'')) \<and> p = legacy_principal a
     \<or> (\<exists>n u. name = Some n \<and> map_of (users a) n = Some u \<and> verify pw (password_hash u) \<and> p = principal_of u)"

lemma vouched_user:
  assumes "vouched sha verify M us (sha m) p" "credential n pw = Some m" "m \<in> M" "inj_on sha M"
    and "\<forall>n \<in> fst ` set us. 0 \<notin> set n" "map_of us n = Some u"
  shows "verify pw (password_hash u) \<and> p = principal_of u"
proof -
  obtain n' pw' u' m' where v: "map_of us n' = Some u'" "verify pw' (password_hash u')" "p = principal_of u'"
    "credential n' pw' = Some m'" "m' \<in> M" "sha m = sha m'"
    using assms(1) by (auto simp: vouched_def)
  then have "m' = m" using assms(3,4) by (simp add: inj_on_def)
  moreover have "0 \<notin> set n" "0 \<notin> set n'" using assms(5,6) v(1) by (force dest: map_of_SomeD)+
  ultimately have "n' = n \<and> pw' = pw" using credential_inj v(4) assms(2) by blast
  then show ?thesis using v assms(6) by simp
qed

text \<open>The second half of \<open>authenticate\<close>, behind the look at the cache.\<close>

definition settle ::
  "(pystr \<Rightarrow> pystr \<Rightarrow> bool) \<Rightarrow> bool \<Rightarrow> real \<Rightarrow> pystr \<Rightarrow> user \<Rightarrow> bytes \<Rightarrow> principal option \<times> auth \<Rightarrow> principal option \<times> auth" where
  "settle verify slot now pw u key c =
     (case c of (Some p, a1) \<Rightarrow> (Some p, a1)
      | (None, a1) \<Rightarrow> (case verify_user verify slot pw u of None \<Rightarrow> (None, a1)
                      | Some p \<Rightarrow> (Some p, cache_store key now p a1)))"

lemma authenticate_cases:
  assumes "authenticate sha verify slot now name pw a = (Inr r, a')"
  obtains (key) "api_key_match a name pw = Inr True" "r = Some (legacy_principal a)" "a' = a"
  | (nobody) "api_key_match a name pw = Inr False" "name = None \<or> (\<exists>n. name = Some n \<and> map_of (users a) n = None)"
      "r = None" "a' = a"
  | (user) n u m where "api_key_match a name pw = Inr False" "name = Some n" "map_of (users a) n = Some u"
      "credential n pw = Some m" "settle verify slot now pw u (sha m) (cache_lookup (sha m) now a) = (r, a')"
proof (cases "api_key_match a name pw")
  case (Inr b)
  show ?thesis
  proof (cases b)
    case True
    with assms Inr have "r = Some (legacy_principal a)" "a' = a" by (auto simp: authenticate_def)
    moreover have "api_key_match a name pw = Inr True" using Inr True by simp
    ultimately show ?thesis using that(1) by blast
  next
    case False
    then have no: "api_key_match a name pw = Inr False" using Inr by simp
    show ?thesis
    proof (cases name)
      case None
      with assms Inr False have "r = None" "a' = a" by (auto simp: authenticate_def)
      then show ?thesis using that(2) no None by blast
    next
      case (Some n)
      show ?thesis
      proof (cases "map_of (users a) n")
        case None
        with assms Inr False Some have "r = None" "a' = a" by (auto simp: authenticate_def)
        then show ?thesis using that(2) no Some None by blast
      next
        case u: (Some u)
        obtain key where "cache_key sha n pw = Inr key"
          "settle verify slot now pw u key (cache_lookup key now a) = (r, a')"
        proof (cases "cache_key sha n pw")
          case (Inr key)
          obtain c a1 where "cache_lookup key now a = (c, a1)" by (cases "cache_lookup key now a")
          with assms Inr \<open>api_key_match a name pw = Inr b\<close> False Some u
          have "settle verify slot now pw u key (cache_lookup key now a) = (r, a')"
            by (auto simp: authenticate_def settle_def split: option.splits)
          with that [OF Inr] show ?thesis by blast
        qed (use assms Inr False Some u in \<open>simp add: authenticate_def\<close>)
        then obtain m where "credential n pw = Some m"
          "settle verify slot now pw u (sha m) (cache_lookup (sha m) now a) = (r, a')"
          using cache_key_credential [of sha n pw key] by blast
        with that(3) no Some u show ?thesis by blast
      qed
    qed
  qed
qed (use assms in \<open>simp add: authenticate_def\<close>)

text \<open>
  C23. \<open>authenticate\<close> is sound and complete in every state that concurrent calls can produce.
  It returns a principal only for the API key or for the verified password of the named user,
  whether or not the answer came from the cache of successes; with a free verification slot it
  refuses nobody who is entitled; and the cache never exceeds 1024 entries. The hypotheses:
  SHA-256 does not collide on the credentials presented, and no configured name holds a zero
  character (with one, two credentials share a cache key).
\<close>

theorem authenticate_exact:
  assumes "auth_run sha verify M a"
    and "authenticate sha verify slot now name pw a = (Inr r, a')"
    and "\<forall>n m. name = Some n \<and> credential n pw = Some m \<longrightarrow> m \<in> M"
    and "inj_on sha M" "\<forall>n \<in> fst ` set (users a). 0 \<notin> set n"
  shows "(\<forall>p. r = Some p \<longrightarrow> entitled verify a name pw p)
     \<and> (slot \<and> (\<exists>p. entitled verify a name pw p) \<longrightarrow> r \<noteq> None)
     \<and> length (success_cache a') \<le> 1024"
proof -
  have inv: "cache_inv sha verify M a" using assms(1) by (rule auth_run_inv)
  then have len: "length (success_cache a) \<le> 1024" by (simp add: cache_inv_def)
  show ?thesis
    using assms(2)
  proof (cases rule: authenticate_cases)
    case key
    then show ?thesis using len
      by (auto simp: api_key_match_def entitled_def split: option.splits if_splits)
  next
    case nobody
    then show ?thesis using len
      by (auto simp: api_key_match_def entitled_def split: option.splits if_splits)
  next
    case (user n u m)
    have m: "m \<in> M" using assms(3) user(2,4) by simp
    have no_key: "\<not> (api_key a = Some pw \<and> (name = None \<or> name = Some (lit ''default'')))"
      using user(1) by (auto simp: api_key_match_def split: if_splits)
    obtain c a1 where c: "cache_lookup (sha m) now a = (c, a1)" by (cases "cache_lookup (sha m) now a")
    have inv1: "cache_inv sha verify M a1" and us: "users a1 = users a"
      using cache_inv_lookup [OF inv c] cache_lookup_frame [OF c] by auto
    show ?thesis
    proof (cases c)
      case (Some p)
      have "verify pw (password_hash u) \<and> p = principal_of u"
        using vouched_user [OF cache_lookup_hit [OF inv] user(4) m assms(4,5) user(3)] c Some by simp
      then show ?thesis using user(2,3,5) c Some inv1 by (auto simp: entitled_def cache_inv_def settle_def)
    next
      case None
      show ?thesis
      proof (cases "verify_user verify slot pw u")
        case None
        with user(5) c \<open>c = None\<close> have "r = None" "a' = a1" by (auto simp: settle_def)
        then show ?thesis using None inv1 no_key user(2,3)
          by (auto simp: entitled_def cache_inv_def verify_user_def split: if_splits)
      next
        case (Some p)
        have "cache_key sha n pw = Inr (sha m)" using user(4) by (auto simp: cache_key_credential)
        then have "vouched sha verify M (users a1) (sha m) p"
          using vouched_now [OF _ Some _ user(4) m] user(3) us by simp
        then have "cache_inv sha verify M (cache_store (sha m) now p a1)" by (rule cache_inv_store [OF inv1])
        moreover from user(5) c Some \<open>c = None\<close> have "r = Some p" "a' = cache_store (sha m) now p a1"
          by (auto simp: settle_def)
        ultimately show ?thesis using Some user(2,3)
          by (auto simp: entitled_def cache_inv_def verify_user_Some)
      qed
    qed
  qed
qed

definition demo_user :: user where
  "demo_user = \<lparr>user_name = lit ''ann'', password_hash = lit ''h'', user_permissions = {lit ''read''},
     user_prefixes = [lit ''a:''], user_tenant = lit ''default'', user_roles = {}\<rparr>"

definition demo_auth :: auth where
  "demo_auth = \<lparr>api_key = None, users_configured = True, default_tenant = lit ''default'',
     users = [(lit ''ann'', demo_user)], success_cache = []\<rparr>"

theorem authenticate_exact_witness:
  "entitled (\<lambda>pw h. pw = lit ''pw'') demo_auth (Some (lit ''ann'')) (lit ''pw'') (principal_of demo_user)"
proof -
  let ?v = "\<lambda>pw h. pw = lit ''pw''" and ?m = "''ann'' @ [CHR 0x00] @ ''pw''"
  have m: "credential (lit ''ann'') (lit ''pw'') = Some ?m"
    by (simp add: credential_def lit_def is_scalar_def is_surrogate_def utf8_units_def char_of_def bit_0)
  have run: "auth_run id ?v {?m} demo_auth" by (rule auth_run.start) (simp add: demo_auth_def)
  have "lit ''ann'' \<noteq> lit ''default''" by (simp add: lit_def)
  then have "authenticate id ?v True 0 (Some (lit ''ann'')) (lit ''pw'') demo_auth =
      (Inr (Some (principal_of demo_user)), cache_store ?m 0 (principal_of demo_user) demo_auth)"
    using m by (simp add: authenticate_def api_key_match_def demo_auth_def cache_lookup_def
        verify_user_def cache_key_def credential_def split: option.splits)
  from authenticate_exact [OF run this] m show ?thesis by (simp add: demo_auth_def lit_def)
qed

section \<open>The users file\<close>

definition user_ok :: "(pystr \<Rightarrow> bool) \<Rightarrow> pystr set option \<Rightarrow> user \<Rightarrow> bool" where
  "user_ok hash_ok allowed u \<longleftrightarrow> user_name u \<noteq> []
     \<and> user_permissions u \<subseteq> known_permissions \<and> user_roles u \<subseteq> known_roles
     \<and> (user_permissions u \<noteq> {} \<or> user_roles u \<noteq> {})
     \<and> [] \<notin> set (user_prefixes u) \<and> valid_tenant (user_tenant u)
     \<and> (case allowed of None \<Rightarrow> True | Some A \<Rightarrow> user_tenant u \<in> A) \<and> hash_ok (password_hash u)"

lemma tenant_valid: "validate_tenant_id v = Inr t \<Longrightarrow> v = PStr t \<and> valid_tenant t"
proof -
  assume v: "validate_tenant_id v = Inr t"
  then obtain n where n: "v = PStr t" "t \<noteq> []" "utf8_len t = Some n" "n \<le> 128" "is_alnum (hd t)"
    "list_all (\<lambda>c. is_alnum c \<or> c \<in> {46, 95, 45}) t"
    by (auto simp: validate_tenant_id_def split: pyval.splits if_splits option.splits)
  then show ?thesis using utf8_len_ge_length [OF n(3)] by (simp add: valid_tenant_def)
qed

lemma collect_opt_set: "collect_opt xs = Some ys \<Longrightarrow> y \<in> set ys \<Longrightarrow> Some y \<in> set xs"
  by (induction xs arbitrary: ys rule: collect_opt.induct) auto

lemma known_names_subset: "known_names names xs = Some ys \<Longrightarrow> set ys \<subseteq> names"
  by (auto simp: known_names_def dest!: collect_opt_set split: pyval.splits if_splits)

lemma text_list_nonempty: "text_list v = Some ys \<Longrightarrow> [] \<notin> set ys"
  by (auto simp: text_list_def dest!: collect_opt_set split: pyval.splits if_splits)

lemma role_names_subset: "role_names raw perms = Inr rs \<Longrightarrow> set rs \<subseteq> known_roles"
  by (auto simp: role_names_def known_roles_def split: pyval.splits if_splits option.splits
      dest: known_names_subset [THEN subsetD])

lemma load_user_ok:
  assumes "load_user hash_ok dflt allowed us v = Inr u"
  shows "user_ok hash_ok allowed u \<and> user_name u \<notin> fst ` set us"
proof -
  obtain kvs where v: "v = PDict kvs" using assms by (auto simp: load_user_def split: pyval.splits)
  obtain name pw ps prefixes raw perms rs t where
    f: "get_or kvs ''username'' PNone = PStr name" "get_or kvs ''password_hash'' PNone = PStr pw"
    "get_or kvs ''permissions'' (PList []) = PList ps"
    "text_list (get_or kvs ''key_prefixes'' (PList [])) = Some prefixes"
    "name \<noteq> []" "known_names known_permissions ps = Some perms" "role_names raw perms = Inr rs"
    "\<not> (perms = [] \<and> rs = [])" "validate_tenant_id (get_or kvs ''tenant_id'' (PStr dflt)) = Inr t"
    "case allowed of None \<Rightarrow> True | Some A \<Rightarrow> t \<in> A" "name \<notin> fst ` set us" "hash_ok pw"
    and u: "u = \<lparr>user_name = name, password_hash = pw, user_permissions = set perms,
              user_prefixes = prefixes, user_tenant = t, user_roles = set rs\<rparr>"
    using assms v unfolding load_user_def
    by (auto split: pyval.splits if_splits option.splits sum.splits prod.splits)
  show ?thesis using f(5,8,10,11,12) known_names_subset [OF f(6)] role_names_subset [OF f(7)]
      text_list_nonempty [OF f(4)] tenant_valid [OF f(9)]
    by (auto simp: u user_ok_def split: option.splits)
qed

definition users_ok :: "(pystr \<Rightarrow> bool) \<Rightarrow> pystr set option \<Rightarrow> (pystr \<times> user) list \<Rightarrow> bool" where
  "users_ok hash_ok allowed us \<longleftrightarrow> distinct (map fst us)
     \<and> list_all (\<lambda>(n, u). user_name u = n \<and> user_ok hash_ok allowed u) us"

lemma load_loop_ok:
  "load_loop hash_ok dflt allowed vs us = Inr us' \<Longrightarrow> users_ok hash_ok allowed us \<Longrightarrow> users_ok hash_ok allowed us'"
proof (induction vs arbitrary: us)
  case (Cons v vs)
  then obtain u where u: "load_user hash_ok dflt allowed us v = Inr u"
    and r: "load_loop hash_ok dflt allowed vs (us @ [(user_name u, u)]) = Inr us'"
    by (auto split: sum.splits)
  show ?case using Cons.IH [OF r] load_user_ok [OF u] Cons.prems(2) by (auto simp: users_ok_def)
qed simp

text \<open>
  C24. A manager that starts has a well-formed user table: names are unique and not empty,
  permissions and roles are known ones and not both empty, no key prefix is empty (it would
  match every key), every tenant is a valid identifier among the allowed ones, and every
  password hash passed the syntax check. Callers without credentials are admitted exactly when
  neither an API key nor a users file is configured.
\<close>

theorem started_auth_wellformed:
  assumes "make_auth hash_ok key doc dflt allowed = Inr a"
  shows "users_ok hash_ok (map_option set allowed) (users a) \<and> valid_tenant (default_tenant a)
     \<and> (case allowed of None \<Rightarrow> True | Some ts \<Rightarrow> default_tenant a \<in> set ts)
     \<and> (anonymous a = None \<longleftrightarrow> key \<noteq> None \<or> doc \<noteq> None)"
proof -
  obtain d A us where d: "validate_tenant_id (PStr dflt) = Inr d"
    and A: "(case allowed of None \<Rightarrow> Inr None
        | Some ts \<Rightarrow> (case map_sum_list (\<lambda>t. validate_tenant_id (PStr t)) ts of
                       Inl e \<Rightarrow> Inl e | Inr us \<Rightarrow> Inr (Some (set us)))) = (Inr A :: auth_error + _)"
    and dA: "case A of None \<Rightarrow> True | Some B \<Rightarrow> d \<in> B"
    and us: "load_users hash_ok d A doc = Inr us"
    and a: "a = \<lparr>api_key = key, users_configured = (doc \<noteq> None), default_tenant = d, users = us, success_cache = []\<rparr>"
    using assms unfolding make_auth_def by (auto split: sum.splits if_splits option.splits)
  have "map_sum_list (\<lambda>t. validate_tenant_id (PStr t)) ts = Inr us' \<Longrightarrow> us' = ts" for ts us'
    by (induction ts arbitrary: us') (auto dest: tenant_valid split: sum.splits)
  then have A': "A = map_option set allowed" using A by (auto split: option.splits sum.splits)
  have "users_ok hash_ok A []" by (simp add: users_ok_def)
  then have "users_ok hash_ok A us" using us
    by (auto simp: load_users_def intro: load_loop_ok split: option.splits pyval.splits if_splits)
  then show ?thesis using tenant_valid [OF d] dA A'
    by (auto simp: a anonymous_def auth_required_def split: option.splits)
qed

definition demo_doc :: pyval where
  "demo_doc = PDict [(lit ''users'', PList [PDict [(lit ''username'', PStr (lit ''ann'')),
     (lit ''password_hash'', PStr (lit ''h'')), (lit ''permissions'', PList [PStr (lit ''read'')]),
     (lit ''key_prefixes'', PList [PStr (lit ''a:'')])]])]"

lemma demo_started: "make_auth (\<lambda>_. True) None (Some demo_doc) (lit ''default'') (Some [lit ''default'']) = Inr demo_auth"
  by (simp add: make_auth_def demo_doc_def demo_auth_def demo_user_def validate_tenant_id_def load_users_def
      load_user_def get_or_def text_list_def known_names_def role_names_def known_permissions_def
      utf8_len_ascii is_ascii_def is_alnum_def lit_def)

theorem started_auth_wellformed_witness:
  "users_ok (\<lambda>_. True) (Some {lit ''default''}) (users demo_auth) \<and> anonymous demo_auth = None"
  using started_auth_wellformed [OF demo_started] by simp

end
