(* ===== verification/Resp_Server.thy ===== *)
theory Resp_Server
  imports Resp_Wire Auth Coordination
begin

text \<open>
  The RESP2 command handler, \<open>MegaCacheRespHandler\<close> of \<open>src/src/megacache/resp.py\<close>, on a
  server without a managed control plane: dispatch, authentication, authorisation, the Redis
  commands, the cache's own commands, and the loop over one connection.

  The storage behind the server is anything that implements \<open>StorageBackend\<close>
  (\<open>src/src/megacache/storage.py\<close>): the record \<open>backend\<close> holds its operations. It is
  instantiated with the engine behind its mutation clock (\<open>clock_backend\<close>).

  \<^item> A handler raises \<open>Command\<close> (a \<open>RespCommandError\<close> or a \<open>ValueError\<close>, which becomes one) or
    \<open>Internal\<close> (any other exception).
  \<^item> \<open>draw\<close> holds what one command takes from outside: whether a verification slot is free, the
    monotonic time, the random lease token, the measured duration, and the draining flag.
  \<^item> \<open>INFO\<close> and the commands of the cluster, origin, event, intelligence and control-plane
    families are the parameter \<open>other\<close>.
\<close>

section \<open>The storage interface\<close>

datatype raised = RaisedValue pystr | RaisedOS | RaisedOther

record ('s, 'e) backend =
  be_get :: "pystr \<Rightarrow> 's \<Rightarrow> ('e, cache_result, 's) res"
  be_put :: "pystr \<Rightarrow> pyval \<Rightarrow> pyval \<Rightarrow> pyval \<Rightarrow> pyval \<Rightarrow> pystr option \<Rightarrow> bool \<Rightarrow> 's \<Rightarrow> ('e, cache_result, 's) res"
  be_mget :: "pystr list \<Rightarrow> 's \<Rightarrow> ('e, cache_result list, 's) res"
  be_mset :: "(pystr \<times> pyval) list \<Rightarrow> 's \<Rightarrow> ('e, unit, 's) res"
  be_delete_many :: "pystr list \<Rightarrow> 's \<Rightarrow> ('e, int, 's) res"
  be_exists :: "pystr list \<Rightarrow> 's \<Rightarrow> ('e, int, 's) res"
  be_expire :: "pystr \<Rightarrow> pyval \<Rightarrow> 's \<Rightarrow> ('e, bool, 's) res"
  be_ttl :: "pystr \<Rightarrow> 's \<Rightarrow> ('e, int, 's) res"
  be_flush :: "'s \<Rightarrow> ('e, int, 's) res"
  be_size :: "'s \<Rightarrow> ('e, int, 's) res"
  be_invalidate_tags :: "pyval \<Rightarrow> 's \<Rightarrow> ('e, int, 's) res"
  be_acquire_lease :: "pystr \<Rightarrow> bool \<Rightarrow> pystr \<Rightarrow> 's \<Rightarrow> ('e, cache_result, 's) res"
  be_observe :: "string \<Rightarrow> string \<Rightarrow> real \<Rightarrow> bool \<Rightarrow> 's \<Rightarrow> 's"
  be_cursor :: "'s \<Rightarrow> int"
  be_raised :: "'e \<Rightarrow> raised"

text \<open>The exceptions of the engine; \<open>codec\<close> is the text CPython gives a codec error.\<close>

definition two_numbers :: "int \<Rightarrow> int \<Rightarrow> pystr" where
  "two_numbers a b = lit ''entry requires '' @ dump_int a @ lit '' bytes; maximum is '' @ dump_int b"

fun engine_raised :: "pystr \<Rightarrow> engine_error \<Rightarrow> raised" where
  "engine_raised codec KeyLength = RaisedValue (lit ''key must contain between 1 and 1024 characters'')"
| "engine_raised codec LimitsNotPositive = RaisedValue (lit ''cache limits and durations must be greater than zero'')"
| "engine_raised codec UnknownPolicy = RaisedValue (lit ''eviction_policy must be lru or cost'')"
| "engine_raised codec PersistentWindow = RaisedValue (lit ''persistent entries cannot have expiration windows'')"
| "engine_raised codec (BadDuration name zero) =
     RaisedValue (lit (name @ '' must be a '' @ (if zero then ''non-negative'' else ''positive'') @ '' integer''))"
| "engine_raised codec (BadSnapshotDuration name) = RaisedValue (lit (name @ '' must be a finite non-negative number''))"
| "engine_raised codec TagsNotArray = RaisedValue (lit ''tags must be an array of strings'')"
| "engine_raised codec TooManyTags = RaisedValue (lit ''an entry may have at most 100 tags'')"
| "engine_raised codec TagLength = RaisedValue (lit ''tags must contain between 1 and 256 UTF-8 bytes'')"
| "engine_raised codec NotSerializable = RaisedValue (lit ''value must be JSON serializable or bytes'')"
| "engine_raised codec UnicodeEncodeError = RaisedValue codec"
| "engine_raised codec PyTypeError = RaisedOther"
| "engine_raised codec (EntryTooLarge a b) = RaisedValue (two_numbers a b)"
| "engine_raised codec ExceedsMemoryLimit = RaisedValue (lit ''entry exceeds total cache memory limit'')"
| "engine_raised codec ExceedsAvailableMemory = RaisedValue (lit ''entry exceeds available cache memory'')"
| "engine_raised codec LeaseMissing = RaisedValue (lit ''lease is missing or expired'')"
| "engine_raised codec LeaseMismatch = RaisedValue (lit ''lease token does not match'')"
| "engine_raised codec LeaseCapacity = RaisedValue (lit ''lease capacity exhausted'')"
| "engine_raised codec SnapshotDuplicateKeys = RaisedValue (lit ''snapshot contains duplicate keys'')"
| "engine_raised codec SnapshotEntryTooLarge = RaisedValue (lit ''snapshot entry exceeds configured limits'')"
| "engine_raised codec SnapshotCapacity = RaisedValue (lit ''snapshot exceeds available cache capacity'')"
| "engine_raised codec MutationActive = RaisedOther"
| "engine_raised codec InvalidCheckpoint = RaisedValue (lit ''invalid cache checkpoint'')"
| "engine_raised codec BadLoadCost = RaisedValue (lit ''duration_ms must be a finite non-negative number'')"
| "engine_raised codec NoVictim = RaisedOther"
| "engine_raised codec KeyMissing = RaisedOther"

text \<open>A delegated call that cannot raise.\<close>

definition total_call :: "('s \<Rightarrow> 'a \<times> 's) \<Rightarrow> 's mutation_clock \<Rightarrow> ('e, 'a, 's mutation_clock) res" where
  "total_call f c = (case clock_delegate f c of (a, c') \<Rightarrow> (Inr a, c'))"

definition clock_backend :: "pystr \<Rightarrow> (engine mutation_clock, engine_error) backend" where
  "clock_backend codec =
     \<lparr>be_get = (\<lambda>k. clock_delegate (get k)),
      be_put = clock_put,
      be_mget = (\<lambda>ks. clock_delegate (mget ks)),
      be_mset = clock_mset,
      be_delete_many = clock_delete_many,
      be_exists = (\<lambda>ks. total_call (exists_count ks)),
      be_expire = clock_expire,
      be_ttl = (\<lambda>k. clock_delegate (ttl k)),
      be_flush = clock_flush,
      be_size = total_call size_op,
      be_invalidate_tags = clock_invalidate_tags,
      be_acquire_lease = (\<lambda>k force tok. clock_delegate (acquire_lease k force tok)),
      be_observe = (\<lambda>p oper d ok c. snd (clock_delegate (\<lambda>s. ((), observe_request p oper d ok s)) c)),
      be_cursor = invalidation_cursor,
      be_raised = engine_raised codec\<rparr>"

section \<open>Sessions\<close>

datatype failure = Command pystr | Internal

record 's conn =
  store :: 's
  manager :: auth
  actor :: "principal option"
  traceparent :: "pystr option"

type_synonym ('a, 's) hres = "(failure, 'a, 's conn) res"

record draw =
  slot_free :: bool
  auth_now :: real
  fresh_token :: pystr
  elapsed :: real
  draining :: bool

record ('s, 'e) env =
  storage :: "('s, 'e) backend"
  wire_limits :: resp_limits
  sha256 :: "bytes \<Rightarrow> bytes"
  verify_password :: "pystr \<Rightarrow> pystr \<Rightarrow> bool"
  codec_text :: pystr
  epoch :: pystr
  other :: "string \<Rightarrow> bytes list \<Rightarrow> 's conn \<Rightarrow> (reply, 's) hres"

definition fail :: "string \<Rightarrow> 's conn \<Rightarrow> ('a, 's) hres" where
  "fail msg h = (Inl (Command (lit msg)), h)"

definition ok_reply :: reply where
  "ok_reply = Simple (lit ''OK'')"

text \<open>A call on the storage: a \<open>ValueError\<close> becomes a command error in \<open>_execute\<close>.\<close>

definition call :: "('s, 'e) env \<Rightarrow> ('s \<Rightarrow> ('e, 'a, 's) res) \<Rightarrow> 's conn \<Rightarrow> ('a, 's) hres" where
  "call E f h =
     (case f (store h) of
        (Inr a, s) \<Rightarrow> (Inr a, h\<lparr>store := s\<rparr>)
      | (Inl e, s) \<Rightarrow>
          (Inl (case be_raised (storage E) e of
                  RaisedValue t \<Rightarrow> Command t
                | RaisedOS \<Rightarrow> Command (lit ''control-plane state is unavailable'')
                | RaisedOther \<Rightarrow> Internal), h\<lparr>store := s\<rparr>))"

section \<open>Arguments\<close>

definition upper :: "bytes \<Rightarrow> bytes" where
  "upper bs = map (\<lambda>c. if 97 \<le> (of_char c :: nat) \<and> of_char c \<le> (122 :: nat) then char_of (of_char c - 32 :: nat) else c) bs"

definition lower :: "bytes \<Rightarrow> bytes" where
  "lower bs = map (\<lambda>c. if 65 \<le> (of_char c :: nat) \<and> of_char c \<le> (90 :: nat) then char_of (of_char c + 32 :: nat) else c) bs"

text \<open>\<open>decode('latin-1')\<close>: every byte is the character of the same number.\<close>

definition key_of :: "bytes \<Rightarrow> pystr" where
  "key_of bs = map of_char bs"

definition keys_of :: "bytes list \<Rightarrow> pystr list" where
  "keys_of bs = map key_of bs"

definition decode_ascii :: "bytes \<Rightarrow> pystr option" where
  "decode_ascii bs = (if is_ascii (map of_char bs) then Some (map of_char bs) else None)"

definition wrong_arity :: "bytes \<Rightarrow> 's conn \<Rightarrow> ('a, 's) hres" where
  "wrong_arity command h =
     (Inl (Command (lit ''wrong number of arguments for '' @ [39] @ lit command @ [39] @ lit '' command'')), h)"

definition require_arity :: "bytes list \<Rightarrow> nat \<Rightarrow> 's conn \<Rightarrow> (unit, 's) hres" where
  "require_arity args n h = (if length args \<noteq> n then wrong_arity (lower (hd args)) h else (Inr (), h))"

definition authorize :: "string \<Rightarrow> pystr list \<Rightarrow> 's conn \<Rightarrow> (unit, 's) hres" where
  "authorize permission ks h =
     (case actor h of
        None \<Rightarrow> (Inl Internal, h)
      | Some p \<Rightarrow> (if allows p (lit permission) ks then (Inr (), h)
                  else fail ''NOPERM this user has no permissions to run the command'' h))"

definition non_negative_arg :: "('s, 'e) env \<Rightarrow> bytes \<Rightarrow> string \<Rightarrow> 's conn \<Rightarrow> (int, 's) hres" where
  "non_negative_arg E v field h =
     (case int_of_bytes (max_str_digits (wire_limits E)) v of
        None \<Rightarrow> fail (field @ '' is not an integer'') h
      | Some i \<Rightarrow> (if i < 0 then fail (field @ '' must not be negative'') h else (Inr i, h)))"

definition positive_arg :: "('s, 'e) env \<Rightarrow> bytes \<Rightarrow> string \<Rightarrow> 's conn \<Rightarrow> (int, 's) hres" where
  "positive_arg E v field h =
     bind_res (non_negative_arg E v field h) (\<lambda>i h1.
       if i = 0 then fail (field @ '' must be greater than zero'') h1 else (Inr i, h1))"

text \<open>The bytes of a stored value: bytes as they are, text in UTF-8, anything else as JSON.\<close>

definition value_bytes :: "('s, 'e) env \<Rightarrow> pyval \<Rightarrow> 's conn \<Rightarrow> (bytes, 's) hres" where
  "value_bytes E v h =
     (case v of
        PBytes b \<Rightarrow> (Inr b, h)
      | PStr t \<Rightarrow> (case encode_utf8 t of None \<Rightarrow> (Inl (Command (codec_text E)), h) | Some b \<Rightarrow> (Inr b, h))
      | _ \<Rightarrow> (case json_ascii v of None \<Rightarrow> (Inl Internal, h) | Some t \<Rightarrow> (Inr (ascii t), h)))"

definition result_reply :: "('s, 'e) env \<Rightarrow> cache_result \<Rightarrow> 's conn \<Rightarrow> (reply, 's) hres" where
  "result_reply E r h =
     (if state r = Miss then (Inr Null, h)
      else bind_res (value_bytes E (result_value r) h) (\<lambda>b h1. (Inr (Bulk b), h1)))"

section \<open>Redis commands\<close>

definition ping :: "bytes list \<Rightarrow> 's conn \<Rightarrow> (reply, 's) hres" where
  "ping args h =
     (if length args = 1 then (Inr (Simple (lit ''PONG'')), h)
      else bind_res (require_arity args 2 h) (\<lambda>_ h1. (Inr (Bulk (args ! 1)), h1)))"

definition echo :: "bytes list \<Rightarrow> 's conn \<Rightarrow> (reply, 's) hres" where
  "echo args h = bind_res (require_arity args 2 h) (\<lambda>_ h1. (Inr (Bulk (args ! 1)), h1))"

definition get_cmd :: "('s, 'e) env \<Rightarrow> bytes list \<Rightarrow> 's conn \<Rightarrow> (reply, 's) hres" where
  "get_cmd E args h =
     bind_res (require_arity args 2 h) (\<lambda>_ h1.
       let key = key_of (args ! 1)
       in bind_res (authorize ''read'' [key] h1) (\<lambda>_ h2.
          bind_res (call E (be_get (storage E) key) h2) (result_reply E)))"

definition set_cmd :: "('s, 'e) env \<Rightarrow> bytes list \<Rightarrow> 's conn \<Rightarrow> (reply, 's) hres" where
  "set_cmd E args h =
     (if length args \<noteq> 3 \<and> length args \<noteq> 5 then fail ''syntax error'' h
      else
        let key = key_of (args ! 1)
        in bind_res (authorize ''write'' [key] h) (\<lambda>_ h1.
           bind_res
             (if length args = 5 then
                (if upper (args ! 3) \<noteq> ''EX'' then fail ''only the EX expiration option is supported'' h1
                 else bind_res (positive_arg E (args ! 4) ''expire time'' h1) (\<lambda>i h2. (Inr (Some i), h2)))
              else (Inr None, h1))
             (\<lambda>ttl h2.
               bind_res
                 (call E (be_put (storage E) key (PBytes (args ! 2))
                    (case ttl of None \<Rightarrow> PNone | Some i \<Rightarrow> PInt i)
                    (case ttl of None \<Rightarrow> PNone | Some _ \<Rightarrow> PInt 0)
                    (PTuple []) None (ttl = None)) h2)
                 (\<lambda>_ h3. (Inr ok_reply, h3)))))"

definition mget_cmd :: "('s, 'e) env \<Rightarrow> bytes list \<Rightarrow> 's conn \<Rightarrow> (reply, 's) hres" where
  "mget_cmd E args h =
     (if length args < 2 then wrong_arity ''mget'' h
      else
        let ks = keys_of (tl args)
        in bind_res (authorize ''read'' ks h) (\<lambda>_ h1.
           bind_res (call E (be_mget (storage E) ks) h1) (\<lambda>rs h2.
           bind_res (fold_res (result_reply E) rs h2) (\<lambda>vs h3. (Inr (Items vs), h3)))))"

fun pairs_of :: "bytes list \<Rightarrow> (pystr \<times> pyval) list" where
  "pairs_of (k # v # r) = (key_of k, PBytes v) # pairs_of r"
| "pairs_of _ = []"

definition mset_cmd :: "('s, 'e) env \<Rightarrow> bytes list \<Rightarrow> 's conn \<Rightarrow> (reply, 's) hres" where
  "mset_cmd E args h =
     (if length args < 3 \<or> even (length args) then wrong_arity ''mset'' h
      else
        let kvs = pairs_of (tl args)
        in bind_res (authorize ''write'' (map fst kvs) h) (\<lambda>_ h1.
           bind_res (call E (be_mset (storage E) kvs) h1) (\<lambda>_ h2. (Inr ok_reply, h2))))"

definition delete_cmd :: "('s, 'e) env \<Rightarrow> bytes list \<Rightarrow> 's conn \<Rightarrow> (reply, 's) hres" where
  "delete_cmd E args h =
     (if length args < 2 then wrong_arity ''del'' h
      else
        let ks = keys_of (tl args)
        in bind_res (authorize ''write'' ks h) (\<lambda>_ h1.
           bind_res (call E (be_delete_many (storage E) ks) h1) (\<lambda>n h2. (Inr (Number n), h2))))"

definition exists_cmd :: "('s, 'e) env \<Rightarrow> bytes list \<Rightarrow> 's conn \<Rightarrow> (reply, 's) hres" where
  "exists_cmd E args h =
     (if length args < 2 then wrong_arity ''exists'' h
      else
        let ks = keys_of (tl args)
        in bind_res (authorize ''read'' ks h) (\<lambda>_ h1.
           bind_res (call E (be_exists (storage E) ks) h1) (\<lambda>n h2. (Inr (Number n), h2))))"

definition expire_cmd :: "('s, 'e) env \<Rightarrow> bytes list \<Rightarrow> 's conn \<Rightarrow> (reply, 's) hres" where
  "expire_cmd E args h =
     bind_res (require_arity args 3 h) (\<lambda>_ h1.
       let key = key_of (args ! 1)
       in bind_res (authorize ''write'' [key] h1) (\<lambda>_ h2.
          bind_res (positive_arg E (args ! 2) ''expire time'' h2) (\<lambda>i h3.
          bind_res (call E (be_expire (storage E) key (PInt i)) h3) (\<lambda>b h4.
            (Inr (Number (if b then 1 else 0)), h4)))))"

definition ttl_cmd :: "('s, 'e) env \<Rightarrow> bytes list \<Rightarrow> 's conn \<Rightarrow> (reply, 's) hres" where
  "ttl_cmd E args h =
     bind_res (require_arity args 2 h) (\<lambda>_ h1.
       let key = key_of (args ! 1)
       in bind_res (authorize ''read'' [key] h1) (\<lambda>_ h2.
          bind_res (call E (be_ttl (storage E) key) h2) (\<lambda>n h3. (Inr (Number n), h3))))"

definition dbsize :: "('s, 'e) env \<Rightarrow> bytes list \<Rightarrow> 's conn \<Rightarrow> (reply, 's) hres" where
  "dbsize E args h =
     bind_res (require_arity args 1 h) (\<lambda>_ h1.
     bind_res (authorize ''admin'' [] h1) (\<lambda>_ h2.
     bind_res (call E (be_size (storage E)) h2) (\<lambda>n h3. (Inr (Number n), h3))))"

definition flushdb :: "('s, 'e) env \<Rightarrow> bytes list \<Rightarrow> 's conn \<Rightarrow> (reply, 's) hres" where
  "flushdb E args h =
     bind_res (require_arity args 1 h) (\<lambda>_ h1.
     bind_res (authorize ''admin'' [] h1) (\<lambda>_ h2.
     bind_res (call E (be_flush (storage E)) h2) (\<lambda>_ h3. (Inr ok_reply, h3))))"

definition select :: "bytes list \<Rightarrow> 's conn \<Rightarrow> (reply, 's) hres" where
  "select args h =
     bind_res (require_arity args 2 h) (\<lambda>_ h1.
     bind_res (authorize ''read'' [] h1) (\<lambda>_ h2.
       if args ! 1 \<noteq> ''0'' then fail ''DB index is out of range'' h2 else (Inr ok_reply, h2)))"

definition client_cmd :: "bytes list \<Rightarrow> 's conn \<Rightarrow> (reply, 's) hres" where
  "client_cmd args h =
     bind_res (authorize ''read'' [] h) (\<lambda>_ h1.
       if 2 \<le> length args \<and> upper (args ! 1) = ''SETINFO'' then (Inr ok_reply, h1)
       else if length args = 2 \<and> upper (args ! 1) = ''GETNAME'' then (Inr Null, h1)
       else fail ''unsupported CLIENT subcommand'' h1)"

definition command_cmd :: "bytes list \<Rightarrow> 's conn \<Rightarrow> (reply, 's) hres" where
  "command_cmd args h = bind_res (authorize ''read'' [] h) (\<lambda>_ h1. (Inr (Items []), h1))"

definition hello :: "bytes list \<Rightarrow> 's conn \<Rightarrow> (reply, 's) hres" where
  "hello args h =
     bind_res (authorize ''read'' [] h) (\<lambda>_ h1.
       if length args \<noteq> 2 \<or> args ! 1 \<noteq> ''2'' then fail ''only RESP2 is supported'' h1
       else (Inr (Items [Bulk ''server'', Bulk ''megacache'', Bulk ''version'', Bulk ''1.0.0'',
                         Bulk ''proto'', Number 2, Bulk ''mode'', Bulk ''standalone'']), h1))"

section \<open>MegaCache commands\<close>

record set_options =
  opt_ttl :: pyval
  opt_stale :: pyval
  opt_token :: "pystr option"
  opt_tags :: "pystr list"

definition no_options :: set_options where
  "no_options = \<lparr>opt_ttl = PNone, opt_stale = PNone, opt_token = None, opt_tags = []\<rparr>"

definition ttl_option :: "int \<Rightarrow> set_options \<Rightarrow> 's conn \<Rightarrow> (set_options, 's) hres" where
  "ttl_option i q h = (if i = 0 then fail ''TTL must be greater than zero'' h else (Inr (q\<lparr>opt_ttl := PInt i\<rparr>), h))"

function mc_set_options :: "('s, 'e) env \<Rightarrow> bytes list \<Rightarrow> set_options \<Rightarrow> 's conn \<Rightarrow> (set_options, 's) hres" where
  "mc_set_options E [] q h = (Inr q, h)"
| "mc_set_options E [w] q h =
     (if upper w \<in> set [''TTL'', ''STALE'', ''TAGS'', ''LEASE''] then fail ''syntax error'' h
      else fail ''unknown MC.SET option'' h)"
| "mc_set_options E (w # v # r) q h =
     (if upper w = ''TTL'' then
        bind_res (non_negative_arg E v ''duration'' h) (\<lambda>i h1.
        bind_res (ttl_option i q h1) (\<lambda>q1 h2. mc_set_options E r q1 h2))
      else if upper w = ''STALE'' then
        bind_res (non_negative_arg E v ''duration'' h) (\<lambda>i h1.
          mc_set_options E r (q\<lparr>opt_stale := PInt i\<rparr>) h1)
      else if upper w = ''TAGS'' then
        bind_res (non_negative_arg E v ''tag count'' h) (\<lambda>count h1.
          if count > int (length r) then fail ''tag count exceeds supplied tags'' h1
          else case collect_opt (map decode_utf8 (take (nat count) r)) of
              None \<Rightarrow> (Inl (Command (codec_text E)), h1)
            | Some ts \<Rightarrow> mc_set_options E (drop (nat count) r) (q\<lparr>opt_tags := opt_tags q @ ts\<rparr>) h1)
      else if upper w = ''LEASE'' then
        (case decode_ascii v of
           None \<Rightarrow> fail ''lease token must be ASCII'' h
         | Some t \<Rightarrow> mc_set_options E r (q\<lparr>opt_token := Some t\<rparr>) h)
      else fail ''unknown MC.SET option'' h)"
  by pat_completeness auto
termination
  by (relation "measure (\<lambda>(E, ws, q, h). length ws)") auto

definition mc_set :: "('s, 'e) env \<Rightarrow> bytes list \<Rightarrow> 's conn \<Rightarrow> (reply, 's) hres" where
  "mc_set E args h =
     (if length args < 3 then wrong_arity ''mc.set'' h
      else
        let key = key_of (args ! 1)
        in bind_res (authorize ''write'' [key] h) (\<lambda>_ h1.
           bind_res (mc_set_options E (drop 3 args) no_options h1) (\<lambda>q h2.
           bind_res (call E (be_put (storage E) key (PBytes (args ! 2)) (opt_ttl q) (opt_stale q)
                       (PList (map PStr (opt_tags q))) (opt_token q) False) h2)
             (\<lambda>_ h3. (Inr ok_reply, h3)))))"

definition duration_milliseconds :: "pyfloat \<Rightarrow> int" where
  "duration_milliseconds x = (case x of PInf \<Rightarrow> -1 | Fin r \<Rightarrow> max 0 (py_int (r * 1000)))"

fun state_name :: "cache_state \<Rightarrow> bytes" where
  "state_name Fresh = ''fresh''"
| "state_name Stale = ''stale''"
| "state_name Miss = ''miss''"
| "state_name Loading = ''loading''"
| "state_name Lease = ''lease''"
| "state_name StaleLease = ''stale_lease''"

text \<open>\<open>result.lease_token.encode('ascii')\<close>; without a token it is an \<open>AttributeError\<close>.\<close>

definition token_bytes :: "('s, 'e) env \<Rightarrow> pystr option \<Rightarrow> 's conn \<Rightarrow> (bytes, 's) hres" where
  "token_bytes E tok h =
     (case tok of None \<Rightarrow> (Inl Internal, h)
      | Some t \<Rightarrow> (if is_ascii t then (Inr (ascii t), h) else (Inl (Command (codec_text E)), h)))"

text \<open>\<open>int(result.retry_after_seconds * 1000)\<close>; of an infinity it is an \<open>OverflowError\<close>.\<close>

definition retry_reply :: "pyfloat \<Rightarrow> 's conn \<Rightarrow> (reply list, 's) hres" where
  "retry_reply x h = (case x of PInf \<Rightarrow> (Inl Internal, h) | Fin r \<Rightarrow> (Inr [Number (py_int (r * 1000))], h))"

definition lease_fields :: "('s, 'e) env \<Rightarrow> bool \<Rightarrow> cache_result \<Rightarrow> 's conn \<Rightarrow> (reply list, 's) hres" where
  "lease_fields E windows r h =
     (case state r of
        Fresh \<Rightarrow> bind_res (value_bytes E (result_value r) h) (\<lambda>b h1.
          (Inr (Bulk b # (if windows then [Number (duration_milliseconds (expires_in_seconds r)),
                                           Number (duration_milliseconds (stale_for_seconds r))] else [])), h1))
      | Stale \<Rightarrow> bind_res (value_bytes E (result_value r) h) (\<lambda>b h1.
          (Inr (Bulk b # (if windows then [Number (duration_milliseconds (stale_for_seconds r))] else [])), h1))
      | StaleLease \<Rightarrow> bind_res (value_bytes E (result_value r) h) (\<lambda>b h1.
          bind_res (token_bytes E (lease_token r) h1) (\<lambda>tok h2.
            (Inr ([Bulk b, Bulk tok] @ (if windows then [Number (duration_milliseconds (stale_for_seconds r))] else [])), h2)))
      | Lease \<Rightarrow> bind_res (token_bytes E (lease_token r) h) (\<lambda>tok h1. (Inr [Bulk tok], h1))
      | Loading \<Rightarrow> retry_reply (retry_after_seconds r) h
      | Miss \<Rightarrow> (Inr [], h))"

definition mc_lease :: "('s, 'e) env \<Rightarrow> draw \<Rightarrow> bytes list \<Rightarrow> 's conn \<Rightarrow> (reply, 's) hres" where
  "mc_lease E d args h =
     (if length args \<noteq> 2 \<and> length args \<noteq> 3 then wrong_arity ''mc.lease'' h
      else
        let windows = (length args = 3 \<and> upper (args ! 2) = ''WINDOWS'')
        in if length args = 3 \<and> \<not> windows then fail ''unknown MC.LEASE option'' h
           else
             let key = key_of (args ! 1)
             in bind_res (authorize ''read'' [key] h) (\<lambda>_ h1.
                bind_res (authorize ''write'' [key] h1) (\<lambda>_ h2.
                bind_res (call E (be_acquire_lease (storage E) key False (fresh_token d)) h2) (\<lambda>r h3.
                bind_res (lease_fields E windows r h3) (\<lambda>fs h4.
                  (Inr (Items (Bulk (state_name (state r)) # fs)), h4))))))"

definition mc_invalidate :: "('s, 'e) env \<Rightarrow> bytes list \<Rightarrow> 's conn \<Rightarrow> (reply, 's) hres" where
  "mc_invalidate E args h =
     (if length args < 2 then wrong_arity ''mc.invalidate'' h
      else bind_res (authorize ''invalidate'' [] h) (\<lambda>_ h1.
        case collect_opt (map decode_utf8 (tl args)) of
          None \<Rightarrow> fail ''tags must be valid UTF-8'' h1
        | Some ts \<Rightarrow>
            bind_res (call E (be_invalidate_tags (storage E) (PList (map PStr ts))) h1)
              (\<lambda>n h2. (Inr (Number n), h2))))"

definition mc_invalidations :: "('s, 'e) env \<Rightarrow> bytes list \<Rightarrow> 's conn \<Rightarrow> (reply, 's) hres" where
  "mc_invalidations E args h =
     (if length args \<noteq> 1 \<and> length args \<noteq> 2 then wrong_arity ''mc.invalidations'' h
      else bind_res (authorize ''read'' [] h) (\<lambda>_ h1.
        bind_res
          (if length args = 2 then
             (if length (args ! 1) > 256 then fail ''invalidation cursor is too long'' h1
              else case decode_ascii (args ! 1) of
                  None \<Rightarrow> fail ''invalidation cursor must be ASCII'' h1
                | Some t \<Rightarrow> (Inr (Some t), h1))
           else (Inr None, h1))
          (\<lambda>supplied h2.
            let gen = be_cursor (storage E) (store h2);
                cursor = epoch E @ lit '':'' @ dump_int gen
            in bind_res (value_bytes E
                 (PDict [(lit ''cursor'', PStr cursor), (lit ''epoch'', PStr (epoch E)),
                         (lit ''generation'', PInt gen),
                         (lit ''changed'', PBool (supplied \<noteq> None \<and> supplied \<noteq> Some cursor))]) h2)
                 (\<lambda>b h3. (Inr (Bulk b), h3)))))"

text \<open>\<open>valid_traceparent\<close> of \<open>observability.py\<close>: the canonical W3C form.\<close>

definition is_hex :: "nat \<Rightarrow> bool" where
  "is_hex c \<longleftrightarrow> 48 \<le> c \<and> c \<le> 57 \<or> 97 \<le> c \<and> c \<le> 102"

definition valid_traceparent :: "pystr \<Rightarrow> bool" where
  "valid_traceparent v \<longleftrightarrow> length v = 55
     \<and> list_all is_hex (take 2 v) \<and> take 2 v \<noteq> lit ''ff'' \<and> v ! 2 = 45
     \<and> list_all is_hex (take 32 (drop 3 v)) \<and> \<not> list_all (\<lambda>c. c = 48) (take 32 (drop 3 v)) \<and> v ! 35 = 45
     \<and> list_all is_hex (take 16 (drop 36 v)) \<and> \<not> list_all (\<lambda>c. c = 48) (take 16 (drop 36 v)) \<and> v ! 52 = 45
     \<and> list_all is_hex (drop 53 v)"

definition mc_traceparent :: "bytes list \<Rightarrow> 's conn \<Rightarrow> (reply, 's) hres" where
  "mc_traceparent args h =
     bind_res (require_arity args 2 h) (\<lambda>_ h1.
     bind_res (authorize ''read'' [] h1) (\<lambda>_ h2.
       case decode_ascii (lower (args ! 1)) of
         None \<Rightarrow> fail ''traceparent must be ASCII'' h2
       | Some v \<Rightarrow> (if valid_traceparent v then (Inr ok_reply, h2\<lparr>traceparent := Some v\<rparr>)
                   else fail ''invalid W3C traceparent'' h2)))"

section \<open>Dispatch\<close>

definition auth_cmd :: "('s, 'e) env \<Rightarrow> draw \<Rightarrow> bytes list \<Rightarrow> 's conn \<Rightarrow> (reply, 's) hres" where
  "auth_cmd E d args h =
     (if length args \<noteq> 2 \<and> length args \<noteq> 3 then wrong_arity ''auth'' h
      else if \<not> auth_required (manager h) then fail ''AUTH called without any password configured'' h
      else
        let name = (if length args = 3 then map_option Some (decode_utf8 (args ! 1)) else Some None);
            pw = decode_utf8 (last args)
        in case (name, pw) of
             (Some n, Some w) \<Rightarrow>
               (case authenticate (sha256 E) (verify_password E) (slot_free d) (auth_now d) n w (manager h) of
                  (Inl _, m) \<Rightarrow> (Inl Internal, h\<lparr>manager := m\<rparr>)
                | (Inr None, m) \<Rightarrow> fail ''WRONGPASS invalid username-password pair'' (h\<lparr>manager := m\<rparr>)
                | (Inr (Some p), m) \<Rightarrow> (Inr ok_reply, h\<lparr>manager := m, actor := Some p\<rparr>))
           | _ \<Rightarrow> fail ''WRONGPASS invalid username-password pair'' h)"

definition other_commands :: "string list" where
  "other_commands =
     [''INFO'', ''MC.TOPOLOGY'', ''MC.STATUS'', ''MC.FETCH'', ''MC.ORIGINS'', ''MC.EVENT'', ''MC.EVENT.STATUS'',
      ''MC.EVENT.RETRY'', ''MC.EXPLAIN'', ''MC.RECOMMENDATIONS'', ''MC.POLICY.SIMULATE'', ''MC.EXPERIMENTS'',
      ''MC.IDENTITY'', ''MC.CONTROL.STATUS'', ''MC.CONTROL.TENANTS'', ''MC.CONTROL.OPERATION'',
      ''MC.CONTROL.ORCHESTRATOR'', ''MC.CONTROL.DEPLOYMENT'', ''MC.CONTROL.OBSERVE'', ''MC.BACKUP'',
      ''MC.DATA.EXPORT'', ''MC.RESTORE.VALIDATE'', ''MC.RESTORE'', ''MC.DR.DRILL'', ''MC.TENANT.DELETE.CHALLENGE'',
      ''MC.TENANT.DELETE'', ''MC.AUDIT'', ''MC.AUDIT.EXPORT'', ''MC.AUDIT.PRUNE'', ''MC.BILLING.EXPORT'']"

definition core_handlers :: "('s, 'e) env \<Rightarrow> draw \<Rightarrow> (string \<times> (bytes list \<Rightarrow> 's conn \<Rightarrow> (reply, 's) hres)) list" where
  "core_handlers E d =
     [(''PING'', ping), (''ECHO'', echo), (''GET'', get_cmd E), (''SET'', set_cmd E),
      (''MGET'', mget_cmd E), (''MSET'', mset_cmd E), (''DEL'', delete_cmd E), (''EXISTS'', exists_cmd E),
      (''EXPIRE'', expire_cmd E), (''TTL'', ttl_cmd E), (''DBSIZE'', dbsize E), (''FLUSHDB'', flushdb E),
      (''SELECT'', select), (''CLIENT'', client_cmd), (''COMMAND'', command_cmd), (''HELLO'', hello),
      (''MC.SET'', mc_set E), (''MC.LEASE'', mc_lease E d), (''MC.INVALIDATE'', mc_invalidate E),
      (''MC.INVALIDATIONS'', mc_invalidations E), (''MC.TRACEPARENT'', mc_traceparent)]"

definition handlers :: "('s, 'e) env \<Rightarrow> draw \<Rightarrow> (string \<times> (bytes list \<Rightarrow> 's conn \<Rightarrow> (reply, 's) hres)) list" where
  "handlers E d = core_handlers E d @ map (\<lambda>name. (name, other E name)) other_commands"

definition unknown_command :: "bytes \<Rightarrow> 's conn \<Rightarrow> ('a, 's) hres" where
  "unknown_command command h =
     (Inl (Command (lit ''unknown command '' @ [39] @ lit (lower command) @ [39]
        @ lit '', with args beginning with:'')), h)"

definition execute :: "('s, 'e) env \<Rightarrow> draw \<Rightarrow> bytes list \<Rightarrow> 's conn \<Rightarrow> (reply \<times> bool, 's) hres" where
  "execute E d args h =
     (case decode_ascii (hd args) of
        None \<Rightarrow> fail ''unknown command'' h
      | Some _ \<Rightarrow>
          (let command = upper (hd args)
           in if command = ''AUTH'' then bind_res (auth_cmd E d args h) (\<lambda>r h1. (Inr (r, False), h1))
              else if actor h = None then fail ''NOAUTH Authentication required.'' h
              else if command = ''QUIT'' then
                bind_res (require_arity args 1 h) (\<lambda>_ h1. (Inr (ok_reply, True), h1))
              else case map_of (handlers E d) command of
                  None \<Rightarrow> unknown_command command h
                | Some f \<Rightarrow> bind_res (f args h) (\<lambda>r h1. (Inr (r, False), h1))))"

section \<open>One connection\<close>

definition operation_label :: "bytes list \<Rightarrow> string" where
  "operation_label args =
     (if decode_ascii (hd args) = None then ''UNKNOWN''
      else let command = upper (hd args)
        in if command \<in> set ([''AUTH'', ''PING'', ''ECHO'', ''GET'', ''SET'', ''MGET'', ''MSET'', ''DEL'',
              ''EXISTS'', ''EXPIRE'', ''TTL'', ''DBSIZE'', ''FLUSHDB'', ''SELECT'', ''CLIENT'', ''COMMAND'',
              ''HELLO'', ''QUIT'', ''MC.SET'', ''MC.LEASE'', ''MC.INVALIDATE'', ''MC.INVALIDATIONS'',
              ''MC.TRACEPARENT''] @ other_commands)
           then command else ''UNKNOWN'')"

definition observe :: "('s, 'e) env \<Rightarrow> draw \<Rightarrow> bytes list \<Rightarrow> bool \<Rightarrow> 's conn \<Rightarrow> 's conn" where
  "observe E d args ok h =
     h\<lparr>store := be_observe (storage E) ''resp'' (operation_label args) (elapsed d) ok (store h)\<rparr>"

text \<open>
  One round of the loop in \<open>handle\<close> behind \<open>_read_request\<close>: the bytes written, whether the
  connection goes on, and the session.
\<close>

definition serve :: "('s, 'e) env \<Rightarrow> draw \<Rightarrow> bytes list \<Rightarrow> 's conn \<Rightarrow> bytes \<times> bool \<times> 's conn" where
  "serve E d args h =
     (case execute E d args h of
        (Inr (r, close), h1) \<Rightarrow>
          (case encode_reply r of
             Some bs \<Rightarrow> (bs, \<not> (close \<or> draining d), observe E d args True h1)
           | None \<Rightarrow> (error_line (lit ''internal server error''), False, observe E d args False h1))
      | (Inl (Command msg), h1) \<Rightarrow> (error_line msg, True, observe E d args False h1)
      | (Inl Internal, h1) \<Rightarrow>
          (error_line (lit ''internal server error''), False, observe E d args False h1))"

lemma read_bulks_shrinks: "read_bulks cfg n t inp = (Inr bs, rest) \<Longrightarrow> length rest \<le> length inp"
  using read_bulks_bounds [of cfg n t inp bs rest] by auto

lemma read_request_shrinks:
  "read_request cfg inp = (Inr (Some args), rest) \<Longrightarrow> length rest < length inp"
  by (auto simp: read_request_def bind_res_Inr parse_integer_def Let_def split: list.splits if_splits option.splits
      dest!: server_readline_split read_bulks_shrinks)

function handle :: "('s, 'e) env \<Rightarrow> (nat \<Rightarrow> draw) \<Rightarrow> nat \<Rightarrow> bytes \<Rightarrow> 's conn \<Rightarrow> bytes \<times> 's conn" where
  "handle E ds i inp h =
     (case read_request (wire_limits E) inp of
        (Inl e, _) \<Rightarrow> (error_line (lit ''Protocol error: '' @ protocol_text e), h)
      | (Inr None, _) \<Rightarrow> ([], h)
      | (Inr (Some args), rest) \<Rightarrow>
          (case serve E (ds i) args h of
             (out, going, h1) \<Rightarrow>
               (if going then (case handle E ds (Suc i) rest h1 of (outs, h2) \<Rightarrow> (out @ outs, h2))
                else (out, h1))))"
  by pat_completeness auto
termination
  by (relation "measure (\<lambda>(E, ds, i, inp, h). length inp)") (auto dest: read_request_shrinks [OF sym])

declare handle.simps [simp del]

section \<open>Helpers that leave the session alone\<close>

named_theorems pure_call \<open>helpers of the handlers that do not touch the session\<close>

lemma pure_fail [pure_call, simp]: "snd (fail m h) = h"
  by (simp add: fail_def)

lemma pure_wrong_arity [pure_call, simp]: "snd (wrong_arity c h) = h"
  by (simp add: wrong_arity_def)

lemma pure_require_arity [pure_call, simp]: "snd (require_arity args n h) = h"
  by (simp add: require_arity_def)

lemma pure_authorize [pure_call, simp]: "snd (authorize perm ks h) = h"
  by (simp add: authorize_def split: option.splits)

lemma pure_bind:
  assumes "snd r = h" "\<And>a h1. snd (f a h1) = h1"
  shows "snd (bind_res r f) = h"
  using assms by (cases r; cases "fst r") auto

lemma pure_bind_at:
  assumes "snd r = h" "\<And>a. fst r = Inr a \<Longrightarrow> snd (f a h) = h"
  shows "snd (bind_res r f) = h"
  using assms by (cases r; cases "fst r") auto

lemma pure_non_negative_arg [pure_call, simp]: "snd (non_negative_arg E v f h) = h"
  by (simp add: non_negative_arg_def split: option.splits)

lemma pure_positive_arg [pure_call, simp]: "snd (positive_arg E v f h) = h"
  unfolding positive_arg_def by (rule pure_bind) auto

lemma pure_value_bytes [pure_call, simp]: "snd (value_bytes E v h) = h"
  by (simp add: value_bytes_def split: pyval.splits option.splits)

lemma pure_result_reply [pure_call, simp]: "snd (result_reply E r h) = h"
  by (simp add: result_reply_def pure_bind)

lemma pure_fold: "(\<And>x h. snd (f x h) = h) \<Longrightarrow> snd (fold_res f xs h) = h"
  by (induction xs arbitrary: h) (auto intro!: pure_bind)

lemma pure_ttl_option [pure_call, simp]: "snd (ttl_option i q h) = h"
  by (simp add: ttl_option_def)

lemma pure_token_bytes [pure_call, simp]: "snd (token_bytes E tok h) = h"
  by (simp add: token_bytes_def split: option.splits)

lemma pure_lease_fields [pure_call, simp]: "snd (lease_fields E w r h) = h"
  by (auto simp: lease_fields_def retry_reply_def intro!: pure_bind split: cache_state.splits pyfloat.splits)

lemma pure_mc_set_options [pure_call, simp]: "snd (mc_set_options E ws q h) = h"
proof (induction E ws q h rule: mc_set_options.induct)
  case (3 E w v r q h)
  show ?case
    using 3 by (auto intro!: pure_bind_at split: option.splits)
qed simp_all

end
