(* ===== verification/Resp_Props.thy ===== *)
theory Resp_Props
  imports Resp_Server
begin

text \<open>
  What a RESP connection can do to the storage. The locale \<open>confined_storage\<close> states what the
  handlers rely on: a read, a deletion, an invalidation or a lease never gives a key new
  content, and a write gives it only to the keys it names. The handlers are analysed once on
  top of it, and it is interpreted on the engine behind its mutation clock.
\<close>

section \<open>Keeping the contents\<close>

text \<open>From \<open>s\<close> to \<open>s'\<close>, every key outside \<open>K\<close> has kept its content or lost it.\<close>

definition kept :: "('s \<Rightarrow> 'k \<Rightarrow> 'v option) \<Rightarrow> 'k set \<Rightarrow> 's \<Rightarrow> 's \<Rightarrow> bool" where
  "kept view K s s' \<longleftrightarrow> (\<forall>j. view s' j = view s j \<or> view s' j = None \<or> j \<in> K)"

lemma kept_refl [simp]: "kept view K s s"
  by (simp add: kept_def)

lemma kept_trans: "kept view K s t \<Longrightarrow> kept view K t u \<Longrightarrow> kept view K s u"
  unfolding kept_def by metis

lemma kept_mono: "kept view K s t \<Longrightarrow> K \<subseteq> L \<Longrightarrow> kept view L s t"
  unfolding kept_def by blast

lemma kept_same: "view t = view s \<Longrightarrow> kept view K s t"
  by (simp add: kept_def)

lemma kept_fold_res:
  assumes "\<And>x s. x \<in> set xs \<Longrightarrow> kept view K s (snd (f x s))"
  shows "kept view K s (snd (fold_res f xs s))"
proof (rule fold_res_inv [where I = "kept view K s"])
  show "kept view K s (snd (f x t))" if "x \<in> set xs" "kept view K s t" for x t
    using kept_trans [OF that(2) assms [OF that(1)]] .
qed simp

lemma kept_bind:
  assumes "kept view K s (snd r)" "\<And>a t. kept view K t (snd (f a t))"
  shows "kept view K s (snd (bind_res r f))"
  using assms kept_trans by (cases r; cases "fst r") fastforce+

definition writable :: "principal option \<Rightarrow> pystr set" where
  "writable a = {k. \<exists>p. a = Some p \<and> allows p (lit ''write'') [k]}"

lemma allows_each: "allows p perm ks \<Longrightarrow> k \<in> set ks \<Longrightarrow> allows p perm [k]"
  by (auto simp: allows_def list_all_iff split: if_splits)

section \<open>The interface\<close>

locale confined_storage =
  fixes be :: "('s, 'e) backend"
    and view :: "'s \<Rightarrow> pystr \<Rightarrow> 'v option"
  assumes reads: "kept view {} s (snd (be_get be k s))" "kept view {} s (snd (be_mget be ks s))"
      "kept view {} s (snd (be_exists be ks s))" "kept view {} s (snd (be_ttl be k s))"
      "kept view {} s (snd (be_size be s))"
    and removals: "kept view {} s (snd (be_delete_many be ks s))" "kept view {} s (snd (be_flush be s))"
      "kept view {} s (snd (be_invalidate_tags be ts s))"
    and leases: "kept view {} s (snd (be_acquire_lease be k force tok s))"
    and writes: "kept view {k} s (snd (be_put be k v a b ts' tok' p s))"
      "kept view (fst ` set kvs) s (snd (be_mset be kvs s))" "kept view {k} s (snd (be_expire be k d s))"
begin

definition calm :: "'s conn \<Rightarrow> 's conn \<Rightarrow> bool" where
  "calm h h' \<longleftrightarrow> kept view (writable (actor h)) (store h) (store h') \<and> actor h' = actor h"

lemma calm_refl [simp]: "calm h h"
  by (simp add: calm_def)

lemma calm_pure: "snd r = h \<Longrightarrow> (\<And>a. fst r = Inr a \<Longrightarrow> calm h (snd (f a h))) \<Longrightarrow> calm h (snd (bind_res r f))"
  by (cases r; cases "fst r") auto

lemma calm_post: "calm h (snd r) \<Longrightarrow> (\<And>a h1. snd (f a h1) = h1) \<Longrightarrow> calm h (snd (bind_res r f))"
  by (cases r; cases "fst r") auto

lemma calm_call:
  assumes "kept view K (store h) (snd (f (store h)))" "K \<subseteq> writable (actor h)"
  shows "calm h (snd (call E f h))"
  using kept_mono [OF assms] by (auto simp: call_def calm_def split: prod.splits sum.splits)

lemma calm_read: "kept view {} (store h) (snd (f (store h))) \<Longrightarrow> calm h (snd (call E f h))"
  by (rule calm_call) auto

lemma calm_put: "k \<in> writable (actor h) \<Longrightarrow> calm h (snd (call E (be_put be k v a b ts tok p) h))"
  by (rule calm_call [where K = "{k}"]) (simp_all add: writes)

lemma calm_put_all: "fst ` set kvs \<subseteq> writable (actor h) \<Longrightarrow> calm h (snd (call E (be_mset be kvs) h))"
  by (rule calm_call [where K = "fst ` set kvs"]) (simp_all add: writes)

lemma calm_window: "k \<in> writable (actor h) \<Longrightarrow> calm h (snd (call E (be_expire be k d) h))"
  by (rule calm_call [where K = "{k}"]) (simp_all add: writes)

lemma authorized: "fst (authorize perm ks h) = Inr a \<Longrightarrow> \<exists>p. actor h = Some p \<and> allows p (lit perm) ks"
  by (auto simp: authorize_def fail_def split: option.splits if_splits)

lemma authorized_write: "fst (authorize ''write'' ks h) = Inr a \<Longrightarrow> set ks \<subseteq> writable (actor h)"
  by (auto simp: writable_def dest!: authorized intro: allows_each)

lemma calm_get: "calm h (snd (get_cmd (E\<lparr>storage := be\<rparr>) args h))"
  unfolding get_cmd_def Let_def by (intro calm_pure calm_post calm_read) (auto simp: reads)

lemma calm_mget: "calm h (snd (mget_cmd (E\<lparr>storage := be\<rparr>) args h))"
  unfolding mget_cmd_def Let_def
  by (auto intro!: calm_pure calm_post [OF calm_read] pure_bind pure_fold simp: reads)

lemma calm_exists: "calm h (snd (exists_cmd (E\<lparr>storage := be\<rparr>) args h))"
  unfolding exists_cmd_def Let_def by (auto intro!: calm_pure calm_post [OF calm_read] simp: reads)

lemma calm_ttl: "calm h (snd (ttl_cmd (E\<lparr>storage := be\<rparr>) args h))"
  unfolding ttl_cmd_def Let_def by (auto intro!: calm_pure calm_post [OF calm_read] simp: reads)

lemma calm_dbsize: "calm h (snd (dbsize (E\<lparr>storage := be\<rparr>) args h))"
  unfolding dbsize_def by (auto intro!: calm_pure calm_post [OF calm_read] simp: reads)

lemma calm_flushdb: "calm h (snd (flushdb (E\<lparr>storage := be\<rparr>) args h))"
  unfolding flushdb_def by (auto intro!: calm_pure calm_post [OF calm_read] simp: removals)

lemma calm_delete: "calm h (snd (delete_cmd (E\<lparr>storage := be\<rparr>) args h))"
  unfolding delete_cmd_def Let_def by (auto intro!: calm_pure calm_post [OF calm_read] simp: removals)

lemma calm_invalidate: "calm h (snd (mc_invalidate (E\<lparr>storage := be\<rparr>) args h))"
  unfolding mc_invalidate_def
  by (auto intro!: calm_pure calm_post [OF calm_read] simp: removals split: option.splits)

lemma calm_lease: "calm h (snd (mc_lease (E\<lparr>storage := be\<rparr>) d args h))"
  unfolding mc_lease_def Let_def
  by (auto intro!: calm_pure calm_post [OF calm_read] pure_bind simp: leases)

lemma calm_set: "calm h (snd (set_cmd (E\<lparr>storage := be\<rparr>) args h))"
  unfolding set_cmd_def Let_def
  by (auto intro!: calm_pure pure_bind calm_post [OF calm_put] dest: authorized_write)

lemma calm_mc_set: "calm h (snd (mc_set (E\<lparr>storage := be\<rparr>) args h))"
  unfolding mc_set_def Let_def
  by (auto intro!: calm_pure calm_post [OF calm_put] dest: authorized_write)

lemma calm_mset: "calm h (snd (mset_cmd (E\<lparr>storage := be\<rparr>) args h))"
  unfolding mset_cmd_def Let_def
  by (auto intro!: calm_pure calm_post [OF calm_put_all] simp: image_subset_iff
      dest!: authorized_write) (metis fst_conv)

lemma calm_expire: "calm h (snd (expire_cmd (E\<lparr>storage := be\<rparr>) args h))"
  unfolding expire_cmd_def Let_def
  by (auto intro!: calm_pure calm_post [OF calm_window] dest: authorized_write)

lemma pure_commands:
  "snd (ping args h) = h" "snd (echo args h) = h" "snd (select args h) = h" "snd (client_cmd args h) = h"
  "snd (command_cmd args h) = h" "snd (hello args h) = h" "snd (mc_invalidations E args h) = h"
  by (auto simp: ping_def echo_def select_def client_cmd_def command_cmd_def hello_def mc_invalidations_def Let_def
      intro!: pure_bind split: option.splits)

lemma calm_traceparent: "calm h (snd (mc_traceparent args h))"
proof -
  have "store (snd (mc_traceparent args h)) = store h" "actor (snd (mc_traceparent args h)) = actor h"
    by (auto simp: mc_traceparent_def require_arity_def authorize_def fail_def wrong_arity_def
        split: option.splits)
  then show ?thesis by (simp add: calm_def)
qed

lemma calm_handler:
  assumes "map_of (handlers (E\<lparr>storage := be\<rparr>) d) c = Some f" "c \<notin> set other_commands"
  shows "calm h (snd (f args h))"
proof -
  let ?E = "E\<lparr>storage := be\<rparr>"
  have "map_of (map (\<lambda>name. (name, other ?E name)) other_commands) c = None"
    using assms(2) by (auto simp: map_of_eq_None_iff)
  then have "map_of (core_handlers ?E d) c = Some f"
    using assms(1) by (simp add: handlers_def map_add_Some_iff)
  then have "(c, f) \<in> set (core_handlers ?E d)" by (rule map_of_SomeD)
  moreover have "list_all (\<lambda>(c, f). calm h (snd (f args h))) (core_handlers ?E d)"
    by (simp add: core_handlers_def pure_commands calm_get calm_mget calm_exists calm_ttl calm_dbsize
        calm_flushdb calm_delete calm_invalidate calm_lease calm_set calm_mc_set calm_mset calm_expire
        calm_traceparent)
  ultimately show ?thesis by (auto simp: list_all_iff)
qed

lemma execute_confined:
  assumes "upper (hd args) \<notin> set other_commands"
  shows "kept view (writable (actor h)) (store h) (store (snd (execute (E\<lparr>storage := be\<rparr>) d args h)))"
    and "actor h = None \<Longrightarrow> store (snd (execute (E\<lparr>storage := be\<rparr>) d args h)) = store h"
proof -
  let ?E = "E\<lparr>storage := be\<rparr>"
  have a: "store (snd (auth_cmd ?E d args h)) = store h"
    by (auto simp: auth_cmd_def fail_def wrong_arity_def Let_def split: option.splits prod.splits sum.splits)
  have q: "store (snd (bind_res (r :: ('x, 's) hres) (\<lambda>x h1. (Inr (g x), h1)))) = store (snd r)" for r and g :: "'x \<Rightarrow> reply \<times> bool"
    by (cases r; cases "fst r") auto
  show "kept view (writable (actor h)) (store h) (store (snd (execute ?E d args h)))"
  proof (cases "map_of (handlers ?E d) (upper (hd args))")
    case None
    with a show ?thesis
      by (auto simp: execute_def Let_def q unknown_command_def kept_same split: option.splits)
  next
    case (Some f)
    from calm_handler [OF Some assms, of h args] have "kept view (writable (actor h)) (store h) (store (snd (f args h)))"
      by (simp add: calm_def)
    with Some a show ?thesis
      by (auto simp: execute_def Let_def q kept_same split: option.splits)
  qed
  show "actor h = None \<Longrightarrow> store (snd (execute ?E d args h)) = store h"
    using a by (auto simp: execute_def Let_def q split: option.splits)
qed

end

section \<open>The engine\<close>

lemma quiet_kept: "quiet s s' \<Longrightarrow> kept engine_view K s s'"
  by (auto simp: quiet_def kept_def)

lemma view_kept: "map_of (entries s') = map_of (entries s) \<Longrightarrow> kept engine_view K s s'"
  by (simp add: kept_def engine_view_def)

lemma entries_kept: "entries s' = entries s \<Longrightarrow> kept engine_view K s s'"
  by (simp add: view_kept)

lemma remove_kept: "kept engine_view K s (snd (remove_entry k s))"
  by (auto simp: kept_def engine_view_def remove_entry_def delete_conv' split: option.splits)

lemma remove_lease_kept: "kept engine_view K s (snd (remove_lease k s))"
  by (rule entries_kept) (simp add: remove_lease_def split: option.splits)

lemma evict_kept: "kept engine_view K s (snd (evict_if_needed s))"
proof (induction s rule: evict_if_needed.induct)
  case (1 s)
  show ?case
  proof (cases "over_limit s")
    case True
    obtain v s1 where v: "pick_victim s = (v, s1)" by (cases "pick_victim s")
    then have e: "kept engine_view K s s1" using pick_victim_entries [of s] by (simp add: entries_kept)
    show ?thesis
    proof (cases v)
      case None
      with True v e show ?thesis by (subst evict_if_needed.simps) simp
    next
      case (Some k)
      let ?t = "count_eviction (snd (remove_entry k s1))"
      have "kept engine_view K s1 ?t"
        using kept_trans [OF remove_kept [of K s1 k] entries_kept [of ?t]] by simp
      moreover have "kept engine_view K ?t (snd (evict_if_needed ?t))"
        using 1 [OF True v [symmetric]] Some by simp
      ultimately show ?thesis using True v e Some
        by (subst evict_if_needed.simps) (auto intro: kept_trans)
    qed
  qed (subst evict_if_needed.simps, simp)
qed

lemma put_kept: "kept engine_view {k} s (snd (put k v a b ts tok p s))"
proof (cases rule: put_cases [of k v a b ts tok p s])
  case (rejected e s')
  then show ?thesis using prepare_put_state [of k v a b ts p True s] by (auto intro!: entries_kept)
next
  case (lease_refused e x)
  then show ?thesis by (auto intro!: entries_kept simp: check_put_lease_def tick_def remove_lease_def split: option.splits if_splits sum.splits bool.splits)
next
  case (no_memory stored fr st ntags sz)
  then show ?thesis by (auto intro!: entries_kept simp: tick_def count_metric_def)
next
  case (stored stored fr st ntags sz e)
  let ?u = "store_entry k e (tick s)"
  have "kept engine_view {k} s ?u"
    by (auto simp: kept_def engine_view_def store_entry_def tick_def)
  moreover have "kept engine_view {k} ?u (snd (evict_if_needed ?u))" by (rule evict_kept)
  moreover have "kept engine_view {k} t (snd (lookup k False t))" for t by (rule quiet_kept [OF quiet_lookup])
  ultimately show ?thesis using stored(5)
    by (cases "evict_if_needed ?u"; cases "fst (evict_if_needed ?u)")
      (auto simp: case_prod_beta intro: kept_trans)
qed

lemma mset_kept: "kept engine_view (fst ` set kvs) s (snd (mset kvs s))"
proof -
  have c: "kept engine_view (fst ` set kvs) s (snd (fold_res mset_check kvs s))" for s
    by (rule kept_fold_res) (auto intro!: entries_kept simp: mset_check_def count_metric_def Let_def split: sum.splits prod.splits)
  have w: "kept engine_view (fst ` set kvs) s (snd (fold_res (\<lambda>(key, v). put key v PNone PNone (PTuple []) None True) kvs s))" for s
    by (rule kept_fold_res) (force intro: kept_mono [OF put_kept])
  show ?thesis unfolding mset_def by (intro kept_bind c w) simp
qed

lemma delete_kept: "kept engine_view K s (snd (delete k s))"
proof -
  have "kept engine_view K s (snd (remove_lease k (snd (remove_entry k s))))"
    by (rule kept_trans [OF remove_kept remove_lease_kept])
  moreover have "entries (snd (delete k s)) = entries (snd (remove_lease k (snd (remove_entry k s)))) \<or> snd (delete k s) = s"
    by (auto simp: delete_def case_prod_beta Let_def count_metric_def split: sum.splits)
  ultimately show ?thesis using kept_trans entries_kept kept_refl by metis
qed

lemma delete_many_kept: "kept engine_view K s (snd (delete_many ks s))"
  unfolding delete_many_def by (intro kept_bind kept_fold_res delete_kept) simp

lemma invalidate_loop_kept: "kept engine_view K s (snd (invalidate_loop ks s))"
proof (induction ks arbitrary: s)
  case (Cons k ks)
  have "kept engine_view K s (snd (remove_lease k (snd (remove_entry k s))))"
    by (rule kept_trans [OF remove_kept remove_lease_kept])
  then show ?case using kept_trans [OF _ Cons.IH] by (simp add: case_prod_beta Let_def)
qed simp

lemma invalidate_kept: "kept engine_view K s (snd (invalidate_tags ts s))"
proof (cases "normalize_tags ts")
  case (Inr n)
  let ?t = "snd (invalidate_loop (sorted_list_of_set (tagged_keys n s)) s)"
  have "entries (snd (invalidate_tags ts s)) = entries ?t"
    using Inr by (simp add: invalidate_tags_def case_prod_beta Let_def)
  then show ?thesis using kept_trans [OF invalidate_loop_kept [of K s] entries_kept] by blast
qed (simp add: invalidate_tags_def)

lemma purge_leases_entries: "entries (purge_expired_leases now s) = entries s"
proof -
  have "entries (fold (\<lambda>(key, l) s'. if until l \<le> now then snd (remove_lease key s') else s') ls t) = entries t" for ls t
    by (induction ls arbitrary: t) (auto simp: remove_lease_def split: option.splits)
  then show ?thesis by (simp add: purge_expired_leases_def)
qed

lemma acquire_kept: "kept engine_view K s (snd (acquire_lease k force tok s))"
proof -
  let ?u = "purge_expired_leases (now_of s) (tick s)"
  have "entries (snd (acquire_lease k force tok s)) = entries (snd (lookup k True ?u)) \<or> snd (acquire_lease k force tok s) = s"
    by (auto simp: acquire_lease_def Let_def case_prod_beta count_metric_def split: sum.splits option.splits)
  moreover have "kept engine_view K s ?u" by (rule entries_kept) (simp add: purge_leases_entries tick_def)
  moreover have "kept engine_view K ?u (snd (lookup k True ?u))" by (rule quiet_kept [OF quiet_lookup])
  ultimately show ?thesis using kept_trans entries_kept kept_refl by metis
qed

lemma expire_kept: "kept engine_view {k} s (snd (expire k d s))"
proof -
  let ?u = "snd (lookup k False s)"
  have "kept engine_view {k} s ?u" by (rule quiet_kept [OF quiet_lookup])
  moreover have "kept engine_view {k} ?u (snd (expire k d s)) \<or> snd (expire k d s) = s"
    by (auto simp: expire_def Let_def case_prod_beta count_metric_def tick_def kept_def engine_view_def
        split: sum.splits option.splits)
  ultimately show ?thesis using kept_trans kept_refl by metis
qed

lemma ttl_kept: "kept engine_view K s (snd (ttl k s))"
proof -
  have "entries (snd (ttl k s)) = entries (snd (lookup k False s)) \<or> snd (ttl k s) = s"
    by (auto simp: ttl_def Let_def case_prod_beta tick_def split: sum.splits option.splits pyfloat.splits)
  moreover have "kept engine_view K s (snd (lookup k False s))" by (rule quiet_kept [OF quiet_lookup])
  ultimately show ?thesis using kept_trans entries_kept kept_refl by metis
qed

lemma size_kept: "kept engine_view K s (snd (size_op s))"
proof -
  have "kept engine_view K s (fold (\<lambda>key s'. snd (lookup key False s')) ks t)" if "kept engine_view K s t" for ks t
    using that
  proof (induction ks arbitrary: t)
    case (Cons k ks)
    then show ?case using kept_trans [OF Cons.prems quiet_kept [OF quiet_lookup]] by simp
  qed simp
  then show ?thesis by (simp add: size_op_def Let_def)
qed

definition clock_view :: "engine mutation_clock \<Rightarrow> pystr \<Rightarrow> (pyval \<times> pyfloat \<times> pyfloat) option" where
  "clock_view c = engine_view (backing c)"

lemma clock_kept: "kept clock_view K c c' \<longleftrightarrow> kept engine_view K (backing c) (backing c')"
  by (simp add: kept_def clock_view_def)

lemma backing_total [simp]: "backing (snd (total_call f c)) = snd (f (backing c))"
  by (simp add: total_call_def clock_delegate_def split: prod.splits)

interpretation cs: confined_storage "clock_backend codec" clock_view
  by unfold_locales
    (auto simp: clock_backend_def clock_kept clock_put_def clock_mset_def clock_delete_many_def
      clock_expire_def clock_flush_def clock_invalidate_tags_def
      intro: quiet_kept [OF quiet_get] quiet_kept [OF quiet_mget] quiet_kept [OF quiet_exists] ttl_kept size_kept
        delete_many_kept invalidate_kept acquire_kept put_kept mset_kept expire_kept,
     simp add: kept_def engine_view_def flush_def count_metric_def)


definition demo_env :: "(engine mutation_clock, engine_error) env" where
  "demo_env = \<lparr>storage = clock_backend [], wire_limits = demo_limits, sha256 = id, verify_password = (=),
     codec_text = [], epoch = lit ''e'', other = (\<lambda>_ _ h. (Inl Internal, h))\<rparr>"

definition demo_draw :: draw where
  "demo_draw = \<lparr>slot_free = True, auth_now = 0, fresh_token = lit ''t'', elapsed = 0, draining = False\<rparr>"

definition demo_conn :: "principal option \<Rightarrow> engine mutation_clock conn" where
  "demo_conn a = \<lparr>store = make_clock (demo_engine 2 2000 ''lru''), manager = demo_auth, actor = a, traceparent = None\<rparr>"

lemma demo_core: "upper ''SET'' \<notin> set other_commands"
  by (simp add: upper_def other_commands_def)


section \<open>A value over the wire\<close>

lemma handler_entry:
  assumes "decode_ascii (hd args) \<noteq> None" "upper (hd args) = c" "c \<noteq> ''AUTH''" "c \<noteq> ''QUIT''"
    and "actor h \<noteq> None" "map_of (core_handlers E d) c = Some f"
    and "c \<notin> set other_commands" "f args h = (Inr r, h')"
  shows "execute E d args h = (Inr (r, False), h')"
proof -
  have "map_of (map (\<lambda>name. (name, other E name)) other_commands) c = None"
    using assms(7) by (auto simp: map_of_eq_None_iff)
  then have "map_of (handlers E d) c = Some f" using assms(6) by (simp add: handlers_def map_add_Some_iff)
  with assms show ?thesis by (auto simp: execute_def Let_def)
qed

lemma execute_set:
  assumes "actor h = Some p" "allows p (lit ''write'') [key_of kb]"
    and "be_put (storage E) (key_of kb) (PBytes v) PNone PNone (PTuple []) None True (store h) = (Inr r, s)"
  shows "execute E d [''SET'', kb, v] h = (Inr (ok_reply, False), h\<lparr>store := s\<rparr>)"
  by (rule handler_entry [where c = "''SET''" and f = "set_cmd E"])
    (use assms in \<open>simp_all add: decode_ascii_def is_ascii_def upper_def core_handlers_def other_commands_def
      set_cmd_def authorize_def call_def\<close>)

lemma execute_get:
  assumes "actor h = Some p" "allows p (lit ''read'') [key_of kb]"
    and "be_get (storage E) (key_of kb) (store h) = (Inr r, s)" "state r \<noteq> Miss" "result_value r = PBytes v"
  shows "execute E d [''GET'', kb] h = (Inr (Bulk v, False), h\<lparr>store := s\<rparr>)"
  by (rule handler_entry [where c = "''GET''" and f = "get_cmd E"])
    (use assms in \<open>simp_all add: decode_ascii_def is_ascii_def upper_def core_handlers_def other_commands_def
      get_cmd_def authorize_def call_def require_arity_def result_reply_def value_bytes_def\<close>)

text \<open>A persistent write stays readable: nothing but its own expiry could take it away.\<close>

lemma persistent_put_then_get:
  assumes "engine_inv s" "eviction_policy s = LRU"
    and "put k (PBytes v) PNone PNone (PTuple []) None True s = (Inr r, s1)"
    and "entries s2 = entries s1"
  shows "\<exists>r2 s3. get k s2 = (Inr r2, s3) \<and> state r2 = Fresh \<and> result_value r2 = PBytes v"
proof -
  obtain stored fr st ntags sz e n s0 where
    prep: "prepare_put k (PBytes v) PNone PNone (PTuple []) True True s = (Inr (stored, fr, st, ntags, sz), s)"
    and e: "e = new_entry stored fr st ntags sz True (now_of s) (map_of (entries s) k)"
    and es: "entries s0 = drop n (AList.delete k (entries s)) @ [(k, e)]"
    and d: "od_distinct (drop n (AList.delete k (entries s)) @ [(k, e)])"
    and l: "lookup k False s0 = (r, s1)"
    using put_lru_shape [OF assms(1-3)] by metis
  have ok: "validate_key k = Inr ()" "snapshot_value (PBytes v) = Inr stored"
    "prepare_windows PNone PNone True s = Inr (fr, st)"
    using prepare_put_ok [OF prep] prep by (auto simp: prepare_put_def split: sum.splits)
  then have f: "fresh_until e = PInf" "stale_until e = PInf" "value e = PBytes v"
    using e by (auto simp: new_entry_def prepare_windows_def snapshot_value_def)
  have es1: "entries s1 = drop n (AList.delete k (entries s)) @ [(k, e)]"
    using lookup_last(1) [OF d es] f(2) l by simp
  have "k \<notin> fst ` set (drop n (AList.delete k (entries s)))" using d by auto
  then have "map_of (drop n (AList.delete k (entries s))) k = None" by (metis map_of_eq_None_iff)
  then have "map_of (entries s2) k = Some e" using es1 assms(4) by (simp add: map_add_def)
  then show ?thesis using ok(1) f
    by (auto simp: get_def lookup_def Let_def tick_def result_of_def)
qed

lemma observe_entries [simp]: "entries (observe_request a b c d s) = entries s"
  by (simp add: observe_request_def)

lemma reply_back:
  assumes "encode_reply r = Some bs" "acceptable (Suc max_response_depth) r" "cap_ok cap"
    and "int (length bs) \<le> max_response_bytes"
  shows "read_response cap (bs @ rest) = (Inr (client_view r), (int (length bs), rest))"
  using read_reply_encoded [OF assms(3,2,1)] assms(4) by (simp add: reads_back_def read_response_def)

lemma handle_step:
  assumes "read_request (wire_limits E) inp = (Inr (Some args), rest)" "serve E (ds i) args h = (out, True, h1)"
  shows "handle E ds i inp h = (out @ fst (handle E ds (Suc i) rest h1), snd (handle E ds (Suc i) rest h1))"
  using assms by (subst handle.simps) (simp add: case_prod_beta)

lemma handle_last:
  assumes "read_request (wire_limits E) inp = (Inr (Some args), [])" "serve E (ds i) args h = (out, b, h1)"
  shows "fst (handle E ds i inp h) = out"
  using assms by (subst handle.simps) (simp add: handle.simps [of E ds "Suc i"] read_request_def)

lemma serve_reply:
  assumes "execute E d args h = (Inr (r, False), h1)" "encode_reply r = Some bs"
  shows "serve E d args h = (bs, \<not> draining d, observe E d args True h1)"
  using assms by (simp add: serve_def)

lemma encode_ok: "encode_reply ok_reply = Some (''+OK'' @ crlf)"
  by (simp add: ok_reply_def lit_def is_scalar_def is_surrogate_def utf8_units_def char_of_def bit_0)

lemma acceptable_simple: "acceptable (Suc n) ok_reply" "int (length v) \<le> max_bulk_bytes \<Longrightarrow> acceptable (Suc n) (Bulk v)"
  by (simp_all add: ok_reply_def lit_def utf8_len_ascii is_ascii_def)

text \<open>
  C26. A value stored by one command and read by the next arrives unchanged. A client that
  pipelines \<open>SET key value\<close> and \<open>GET key\<close> to a server over a reachable LRU engine reads \<open>OK\<close>
  and then exactly its bytes, whatever they are, provided that the engine accepts the write
  (\<open>validate_put\<close>), that the principal may read and write the key, and that the value fits the
  limits of the wire. The statement runs through the client's encoding, the server's parser,
  the handlers, the mutation clock, the engine, the reply encoding and the client's parser.
\<close>

theorem set_get_over_wire:
  assumes "storage E = clock_backend codec" "cap_ok (max_str_digits (wire_limits E))"
    and "max_body_bytes (wire_limits E) < 2 ^ 63" "total_length [''SET'', kb, v] \<le> max_body_bytes (wire_limits E)"
    and "engine_reachable (backing (store h))" "eviction_policy (backing (store h)) = LRU"
    and "fst (validate_put (key_of kb) (PBytes v) PNone PNone (PTuple []) None True (backing (store h))) = Inr ()"
    and "actor h = Some p" "allows p (lit ''write'') [key_of kb]" "allows p (lit ''read'') [key_of kb]"
    and "\<not> draining (ds 0)" "cap_ok cap" "int (length v) \<le> 16000000"
  shows "\<exists>rest w.
     read_response cap (fst (handle E ds 0 (request_frame [''SET'', kb, v] @ request_frame [''GET'', kb]) h))
       = (Inr (CText (lit ''OK'')), (5, rest))
     \<and> read_response cap rest = (Inr (CBytes v), (w, []))"
proof -
  let ?k = "key_of kb" and ?s = "backing (store h)"
  let ?put = "put ?k (PBytes v) PNone PNone (PTuple []) None True"
  have inv: "engine_inv ?s" by (rule reachable_inv [OF assms(5)])
  have "\<exists>r. fst (?put ?s) = Inr r"
    using validate_put_exact' [OF inv, of ?k "PBytes v" PNone PNone "PTuple []" None True] assms(7)
    by (auto split: sum.splits)
  then obtain r s1 where p1: "?put ?s = (Inr r, s1)" by (metis prod.collapse)
  let ?c1 = "mark_changed ((store h)\<lparr>backing := s1\<rparr>)" and ?d = "ds 0" and ?a = "[''SET'', kb, v]"
  have "execute E ?d ?a h = (Inr (ok_reply, False), h\<lparr>store := ?c1\<rparr>)"
    by (rule execute_set [OF assms(8,9), where r = r])
      (simp add: assms(1) clock_backend_def clock_put_def clocked_def p1 Let_def)
  note s1 = serve_reply [OF this encode_ok]
  let ?h1 = "observe E ?d ?a True (h\<lparr>store := ?c1\<rparr>)"
  have h1: "actor ?h1 = Some p" "entries (backing (store ?h1)) = entries s1"
    using assms(8) by (simp_all add: observe_def assms(1) clock_backend_def mark_changed_def)
  obtain r2 s3 where g: "get ?k (backing (store ?h1)) = (Inr r2, s3)" "state r2 = Fresh" "result_value r2 = PBytes v"
    using persistent_put_then_get [OF inv assms(6) p1 h1(2)] by blast
  have "execute E (ds 1) [''GET'', kb] ?h1 = (Inr (Bulk v, False), ?h1\<lparr>store := (store ?h1)\<lparr>backing := s3\<rparr>\<rparr>)"
    by (rule execute_get [OF h1(1) assms(10), where r = r2])
      (simp_all add: assms(1) clock_backend_def clock_delegate_def g)
  note s2 = serve_reply [OF this encode_reply.simps(3)]
  have q1: "read_request (wire_limits E) (request_frame ?a @ request_frame [''GET'', kb]) = (Inr (Some ?a), request_frame [''GET'', kb])"
    using assms(2,3,4) by (intro request_frame_read) auto
  have q2: "read_request (wire_limits E) (request_frame [''GET'', kb]) = (Inr (Some [''GET'', kb]), [])"
    using request_frame_read [of "wire_limits E" "[''GET'', kb]" "[]"] assms(2,3,4) by simp
  let ?bulk = "''$'' @ int_bytes (int (length v)) @ crlf @ v @ crlf"
  have out: "fst (handle E ds 0 (request_frame ?a @ request_frame [''GET'', kb]) h) = (''+OK'' @ crlf) @ ?bulk"
    using handle_step [OF q1, of ds 0 h] s1 assms(11) handle_last [OF q2, of ds 1] s2 by simp
  have v: "int (length v) \<le> max_bulk_bytes" using assms(13) by (simp add: max_bulk_bytes_def)
  have m: "moderate (int (length v))" using assms(13) by (intro moderate_small) simp
  have "int (length ?bulk) \<le> max_response_bytes"
    using int_bytes_length [OF m] assms(13) by (simp add: max_response_bytes_def)
  from reply_back [OF encode_reply.simps(3) acceptable_simple(2) [OF v] assms(12) this, of "[]"]
  have b2: "read_response cap ?bulk = (Inr (CBytes v), (int (length ?bulk), []))" by simp
  have b1: "read_response cap ((''+OK'' @ crlf) @ ?bulk) = (Inr (CText (lit ''OK'')), (5, ?bulk))"
    using reply_back [OF encode_ok acceptable_simple(1) assms(12), of ?bulk] by (simp add: max_response_bytes_def ok_reply_def)
  show ?thesis unfolding out using b1 b2 by blast
qed

theorem set_get_over_wire_witness:
  "\<exists>rest w.
     read_response 4300 (fst (handle demo_env (\<lambda>_. demo_draw) 0
         (request_frame [''SET'', ''k'', [CHR 0x0D, CHR 0x0A, CHR 0x00]] @ request_frame [''GET'', ''k''])
         (demo_conn (Some (legacy_principal demo_auth)))))
       = (Inr (CText (lit ''OK'')), (5, rest))
     \<and> read_response 4300 rest = (Inr (CBytes [CHR 0x0D, CHR 0x0A, CHR 0x00]), (w, []))"
proof (rule set_get_over_wire [where codec = "[]" and p = "legacy_principal demo_auth"])
  let ?h = "demo_conn (Some (legacy_principal demo_auth))"
  have b: "backing (store ?h) = demo_engine 2 2000 ''lru''" by (simp add: demo_conn_def make_clock_def)
  show "engine_reachable (backing (store ?h))" unfolding b by (rule demo_reachable) simp_all
  show "eviction_policy (backing (store ?h)) = LRU" unfolding b by (simp add: demo_engine_def)
  show "fst (validate_put (key_of ''k'') (PBytes [CHR 0x0D, CHR 0x0A, CHR 0x00]) PNone PNone (PTuple []) None True
      (backing (store ?h))) = Inr ()"
    unfolding b by (simp add: validate_put_fst engine_eval key_of_def)
qed (simp_all add: demo_env_def demo_limits_def demo_conn_def demo_draw_def cap_ok_def total_length_def
    legacy_principal_def allows_def)

end
