(* ===== verification/Event_Graph.thy ===== *)
theory Event_Graph
  imports PyText
begin

text \<open>
  The dependency graph of the event pipeline, \<open>DependencyGraph\<close> in
  \<open>src/src/megacache/events.py\<close>: bounded insertion of edges that refuses cycles, and the
  breadth-first expansion of a set of changed keys to everything that depends on them.

  \<open>_edges\<close>, a \<open>defaultdict(set)\<close>, is an association list from a key to the list of its
  dependents, without repetition; reading a missing key inserts it, as in Python. The order in
  which Python iterates over a set matters only in the search for a cycle, whose answer does not
  depend on it. \<open>pending.pop()\<close> takes the head of the model's list.
\<close>

datatype graph_error =
    BoundsNotPositive
  | BadCacheKey
  | KeyNotEncodable
  | CreatesCycle
  | NodeLimit
  | EdgeLimit
  | FanoutLimit
  | InvalidationLimit
  | DepthLimit

type_synonym edge_map = "(pystr \<times> pystr list) list"

record graph =
  max_nodes :: int
  max_edges :: int
  max_fanout :: int
  max_depth :: int
  max_invalidation_nodes :: int
  edges :: edge_map
  nodes :: "pystr list"
  edge_count :: int

definition make_graph :: "int \<Rightarrow> int \<Rightarrow> int \<Rightarrow> int \<Rightarrow> int \<Rightarrow> graph_error + graph" where
  "make_graph mn me mf md mi =
     (if \<not> list_all (\<lambda>v. 0 < v) [mn, me, mf, md, mi] then Inl BoundsNotPositive
      else Inr \<lparr>max_nodes = mn, max_edges = me, max_fanout = mf, max_depth = md,
             max_invalidation_nodes = mi, edges = [], nodes = [], edge_count = 0\<rparr>)"

definition validate_cache_key :: "pystr \<Rightarrow> graph_error + unit" where
  "validate_cache_key k =
     (if k = [] then Inl BadCacheKey
      else case utf8_len k of
          None \<Rightarrow> Inl KeyNotEncodable
        | Some n \<Rightarrow> (if n > 1024 then Inl BadCacheKey else Inr ()))"

definition children :: "edge_map \<Rightarrow> pystr \<Rightarrow> pystr list" where
  "children es k = (case map_of es k of None \<Rightarrow> [] | Some cs \<Rightarrow> cs)"

text \<open>\<open>_reachable_locked\<close>: depth-first search with an explicit stack.\<close>

function reach_loop :: "edge_map \<Rightarrow> pystr \<Rightarrow> pystr list \<Rightarrow> pystr list \<Rightarrow> bool" where
  "reach_loop es target [] seen = False"
| "reach_loop es target (node # pending) seen =
     (if node = target then True
      else if node \<in> set seen then reach_loop es target pending seen
      else reach_loop es target (children es node @ pending) (node # seen))"
  by pat_completeness auto
termination
proof (relation "measures [\<lambda>(es, t, ps, seen). card (fst ` set es - set seen), \<lambda>(es, t, ps, seen). length ps]",
    goal_cases)
  case (3 es target node pending seen)
  show ?case
  proof (cases "node \<in> fst ` set es")
    case True
    then have "fst ` set es - set (node # seen) \<subset> fst ` set es - set seen" using 3 by auto
    then have "card (fst ` set es - set (node # seen)) < card (fst ` set es - set seen)"
      by (intro psubset_card_mono) auto
    then show ?thesis by simp
  next
    case False
    then have "map_of es node = None" by (simp add: map_of_eq_None_iff)
    then have "children es node = []" by (simp add: children_def)
    moreover have "fst ` set es - insert node (set seen) = fst ` set es - set seen" using False by auto
    ultimately show ?thesis by simp
  qed
qed simp_all

definition reachable :: "edge_map \<Rightarrow> pystr \<Rightarrow> pystr \<Rightarrow> bool" where
  "reachable es start target = reach_loop es target [start] []"

definition add_dependency :: "pystr \<Rightarrow> pystr \<Rightarrow> graph \<Rightarrow> (graph_error, unit, graph) res" where
  "add_dependency a b g =
     (case validate_cache_key a of Inl e \<Rightarrow> (Inl e, g)
      | Inr _ \<Rightarrow>
     (case validate_cache_key b of Inl e \<Rightarrow> (Inl e, g)
      | Inr _ \<Rightarrow>
     (if a = b then (Inl CreatesCycle, g)
      else
        let cs = children (edges g) a;
            g1 = g\<lparr>edges := AList.update a cs (edges g)\<rparr>;
            new = filter (\<lambda>k. k \<notin> set (nodes g)) [a, b]
        in if b \<in> set cs then (Inr (), g1)
           else if int (length (nodes g)) + int (length new) > max_nodes g then (Inl NodeLimit, g1)
           else if edge_count g \<ge> max_edges g then (Inl EdgeLimit, g1)
           else if int (length cs) \<ge> max_fanout g then (Inl FanoutLimit, g1)
           else if reachable (edges g1) b a then (Inl CreatesCycle, g1)
           else (Inr (), g1\<lparr>nodes := nodes g @ new, edges := AList.update a (cs @ [b]) (edges g1),
                           edge_count := edge_count g + 1\<rparr>))))"

text \<open>\<open>expand\<close>: breadth first, with the depth of each queued key.\<close>

function expand_loop :: "graph \<Rightarrow> (pystr \<times> int) list \<Rightarrow> pystr list \<Rightarrow> graph_error + pystr list" where
  "expand_loop g [] visited = Inr visited"
| "expand_loop g ((key, depth) # queue) visited =
     (if key \<in> set visited then expand_loop g queue visited
      else if int (length visited) \<ge> max_invalidation_nodes g then Inl InvalidationLimit
      else
        let cs = sort (children (edges g) key)
        in if cs \<noteq> [] \<and> depth \<ge> max_depth g then Inl DepthLimit
           else expand_loop g
             (queue @ map (\<lambda>c. (c, depth + 1)) (filter (\<lambda>c. c \<notin> set (key # visited)) cs)) (key # visited))"
  by pat_completeness auto
termination
  by (relation "measures [\<lambda>(g, q, v). nat (max_invalidation_nodes g) - length v, \<lambda>(g, q, v). length q]") auto

definition expand :: "graph \<Rightarrow> pystr list \<Rightarrow> graph_error + (pystr list \<times> bool)" where
  "expand g seeds =
     (case expand_loop g (map (\<lambda>s. (s, 0)) seeds) [] of
        Inl e \<Rightarrow> Inl e | Inr visited \<Rightarrow> Inr (sort visited, False))"

section \<open>The search\<close>

definition edge_rel :: "edge_map \<Rightarrow> (pystr \<times> pystr) set" where
  "edge_rel es = {(a, b). b \<in> set (children es a)}"

lemma edge_relI: "b \<in> set (children es a) \<Longrightarrow> (a, b) \<in> edge_rel es"
  by (simp add: edge_rel_def)

lemma reach_loop_sound:
  "reach_loop es t ps seen \<Longrightarrow> \<exists>p \<in> set ps. (p, t) \<in> (edge_rel es)\<^sup>*"
proof (induction es t ps seen rule: reach_loop.induct)
  case (2 es t n ps seen)
  show ?case
  proof (cases "n = t \<or> n \<in> set seen")
    case False
    with 2 obtain p where "p \<in> set (children es n @ ps)" "(p, t) \<in> (edge_rel es)\<^sup>*" by auto
    then show ?thesis
      using edge_relI [of p es n] by (auto intro: converse_rtrancl_into_rtrancl)
  qed (use 2 in auto)
qed simp

text \<open>A search that fails leaves behind a closed set of keys without the target.\<close>

lemma reach_loop_complete:
  assumes "\<not> reach_loop es t ps seen" "t \<notin> set seen"
    and "\<forall>s \<in> set seen. set (children es s) \<subseteq> set seen \<union> set ps"
  shows "\<exists>S. set seen \<union> set ps \<subseteq> S \<and> t \<notin> S \<and> edge_rel es `` S \<subseteq> S"
  using assms
proof (induction es t ps seen rule: reach_loop.induct)
  case (1 es t seen)
  then show ?case by (intro exI [of _ "set seen"]) (auto simp: edge_rel_def)
next
  case (2 es t n ps seen)
  have "n \<noteq> t" using "2.prems"(1) by auto
  show ?case
  proof (cases "n \<in> set seen")
    case True
    have a: "\<not> reach_loop es t ps seen" using "2.prems"(1) True \<open>n \<noteq> t\<close> by simp
    have b: "\<forall>s \<in> set seen. set (children es s) \<subseteq> set seen \<union> set ps"
      using "2.prems"(3) True by auto
    from "2.IH"(1) [OF \<open>n \<noteq> t\<close> True a "2.prems"(2) b]
    obtain S where "set seen \<union> set ps \<subseteq> S" "t \<notin> S" "edge_rel es `` S \<subseteq> S" by blast
    with True show ?thesis by (intro exI [of _ S]) auto
  next
    case False
    have a: "\<not> reach_loop es t (children es n @ ps) (n # seen)" using "2.prems"(1) False \<open>n \<noteq> t\<close> by simp
    have b: "\<forall>s \<in> set (n # seen). set (children es s) \<subseteq> set (n # seen) \<union> set (children es n @ ps)"
      using "2.prems"(3) by auto
    have c: "t \<notin> set (n # seen)" using "2.prems"(2) \<open>n \<noteq> t\<close> by simp
    from "2.IH"(2) [OF \<open>n \<noteq> t\<close> False a c b]
    obtain S where "set (n # seen) \<union> set (children es n @ ps) \<subseteq> S" "t \<notin> S" "edge_rel es `` S \<subseteq> S"
      by blast
    then show ?thesis by (intro exI [of _ S]) auto
  qed
qed

lemma reachable_iff: "reachable es a b \<longleftrightarrow> (a, b) \<in> (edge_rel es)\<^sup>*"
proof
  show "reachable es a b \<Longrightarrow> (a, b) \<in> (edge_rel es)\<^sup>*"
    unfolding reachable_def using reach_loop_sound by fastforce
  assume r: "(a, b) \<in> (edge_rel es)\<^sup>*"
  show "reachable es a b"
  proof (rule ccontr)
    assume "\<not> reachable es a b"
    then obtain S where S: "a \<in> S" "b \<notin> S" "edge_rel es `` S \<subseteq> S"
      using reach_loop_complete [of es b "[a]" "[]"] by (auto simp: reachable_def)
    have "(edge_rel es)\<^sup>* `` S \<subseteq> S" using S(3) by (rule Image_closed_trancl [THEN equalityD1])
    with r S(1,2) show False by auto
  qed
qed

section \<open>The graph stays a bounded acyclic graph\<close>

definition graph_inv :: "graph \<Rightarrow> bool" where
  "graph_inv g \<longleftrightarrow> acyclic (edge_rel (edges g))
     \<and> edge_count g = int (card (edge_rel (edges g))) \<and> edge_count g \<le> max_edges g
     \<and> (\<forall>k. distinct (children (edges g) k) \<and> int (length (children (edges g) k)) \<le> max_fanout g)
     \<and> distinct (nodes g) \<and> int (length (nodes g)) \<le> max_nodes g
     \<and> Field (edge_rel (edges g)) \<subseteq> set (nodes g)"

lemma children_update [simp]:
  "children (AList.update a cs es) k = (if k = a then cs else children es k)"
  by (simp add: children_def)

lemma edge_rel_same [simp]: "edge_rel (AList.update a (children es a) es) = edge_rel es"
  by (auto simp: edge_rel_def split: if_splits)

lemma edge_rel_add:
  "edge_rel (AList.update a (children es a @ [b]) es') = insert (a, b) (edge_rel es)"
  if "\<And>k. children es' k = children es k"
  using that by (auto simp: edge_rel_def split: if_splits)

lemma finite_edge_rel [simp]: "finite (edge_rel es)"
proof (rule finite_subset)
  show "edge_rel es \<subseteq> (\<Union>(k, cs) \<in> set es. {k} \<times> set cs)"
  proof
    fix p assume "p \<in> edge_rel es"
    then obtain cs where "map_of es (fst p) = Some cs" "snd p \<in> set cs"
      by (cases "map_of es (fst p)") (auto simp: edge_rel_def children_def)
    then show "p \<in> (\<Union>(k, cs) \<in> set es. {k} \<times> set cs)"
      using map_of_SomeD [of es "fst p" cs] by (cases p) auto
  qed
qed auto

text \<open>An attempted insertion either adds exactly its edge or leaves the graph as it was.\<close>

lemma add_dependency_cases:
  assumes "graph_inv g"
  shows "graph_inv (snd (add_dependency a b g))
       \<and> edge_rel (edges (snd (add_dependency a b g)))
         = (case fst (add_dependency a b g) of Inr _ \<Rightarrow> insert (a, b) (edge_rel (edges g)) | Inl _ \<Rightarrow> edge_rel (edges g))"
proof -
  define g1 where "g1 = g\<lparr>edges := AList.update a (children (edges g) a) (edges g)\<rparr>"
  have g1: "graph_inv g1" "edge_rel (edges g1) = edge_rel (edges g)"
    using assms by (auto simp: g1_def graph_inv_def)
  have present: "insert (a, b) (edge_rel (edges g)) = edge_rel (edges g)" if "b \<in> set (children (edges g) a)"
    using that by (auto simp: edge_rel_def)
  define new where "new = filter (\<lambda>k. k \<notin> set (nodes g)) [a, b]"
  define g2 where "g2 = g1\<lparr>nodes := nodes g @ new,
      edges := AList.update a (children (edges g) a @ [b]) (edges g1), edge_count := edge_count g + 1\<rparr>"
  have e2: "edge_rel (edges g2) = insert (a, b) (edge_rel (edges g))"
    unfolding g2_def by (simp, rule edge_rel_add) (simp add: g1_def)
  have g2: "graph_inv g2"
    if "b \<notin> set (children (edges g) a)" "\<not> int (length (nodes g)) + int (length new) > max_nodes g"
       "\<not> edge_count g \<ge> max_edges g" "\<not> int (length (children (edges g) a)) \<ge> max_fanout g"
       "\<not> reachable (edges g1) b a" "a \<noteq> b"
  proof -
    have "acyclic (edge_rel (edges g2))"
      using that(5) assms unfolding e2 acyclic_insert reachable_iff g1(2) by (simp add: graph_inv_def)
    moreover have "(a, b) \<notin> edge_rel (edges g)" using that(1) by (simp add: edge_rel_def)
    ultimately show ?thesis
      using that assms e2 by (auto simp: graph_inv_def g2_def g1_def new_def Field_insert)
  qed
  define P where "P r \<longleftrightarrow> graph_inv (snd r) \<and> edge_rel (edges (snd r))
       = (case fst r of Inr _ \<Rightarrow> insert (a, b) (edge_rel (edges g)) | Inl _ \<Rightarrow> edge_rel (edges g))"
    for r :: "(graph_error, unit, graph) res"
  have P: "P (Inl e, g)" "P (Inl e, g1)" "b \<in> set (children (edges g) a) \<Longrightarrow> P (Inr u, g1)"
      "graph_inv g2 \<Longrightarrow> P (Inr u, g2)" for e u
    using assms g1 e2 present by (simp_all add: P_def)
  have "P (add_dependency a b g)"
    unfolding add_dependency_def Let_def g1_def [symmetric] new_def [symmetric] g2_def [symmetric]
    using g2 by (simp add: P split: sum.split)
  then show ?thesis by (simp add: P_def)
qed

definition add_all :: "(pystr \<times> pystr) list \<Rightarrow> graph \<Rightarrow> graph" where
  "add_all es g = fold (\<lambda>(a, b) g. snd (add_dependency a b g)) es g"

lemma add_all_inv:
  "graph_inv g \<Longrightarrow> graph_inv (add_all es g) \<and> edge_rel (edges (add_all es g)) \<subseteq> edge_rel (edges g) \<union> set es"
proof (induction es arbitrary: g)
  case (Cons p es)
  obtain a b where p: "p = (a, b)" by fastforce
  note c = add_dependency_cases [OF Cons.prems, of a b]
  have "edge_rel (edges (snd (add_dependency a b g))) \<subseteq> insert (a, b) (edge_rel (edges g))"
    using c by (cases "fst (add_dependency a b g)") auto
  with Cons.IH [of "snd (add_dependency a b g)"] c show ?case by (auto simp: add_all_def p)
qed (simp add: add_all_def)

lemma make_graph_inv: "make_graph mn me mf md mi = Inr g \<Longrightarrow> graph_inv g \<and> edges g = []"
  by (auto simp: make_graph_def graph_inv_def edge_rel_def children_def acyclic_def Field_def split: if_splits)

text \<open>
  C27. Whatever edges are offered to a new dependency graph, in whatever order and with whatever
  answers, the graph stays free of cycles, keeps only offered edges, counts its edges exactly, and
  stays within its limits on nodes, edges and fan-out.
\<close>

theorem graph_always_acyclic:
  assumes "make_graph mn me mf md mi = Inr g"
  shows "graph_inv (add_all es g) \<and> edge_rel (edges (add_all es g)) \<subseteq> set es"
  using add_all_inv [of g es] make_graph_inv [OF assms] by (auto simp: edge_rel_def children_def)

theorem graph_always_acyclic_witness:
  "graph_inv (add_all [([97], [98]), ([98], [97]), ([98], [99])] (projr (make_graph 3 2 2 2 3)))
   \<and> edge_rel (edges (add_all [([97], [98]), ([98], [97]), ([98], [99])] (projr (make_graph 3 2 2 2 3))))
     \<subseteq> set [([97], [98]), ([98], [97]), ([98], [99])]"
  by (rule graph_always_acyclic [of 3 2 2 2 3]) (simp add: make_graph_def)

section \<open>Expansion\<close>

definition closure :: "graph \<Rightarrow> pystr list \<Rightarrow> pystr set" where
  "closure g seeds = (edge_rel (edges g))\<^sup>* `` set seeds"

lemma finite_closure [simp]: "finite (closure g seeds)"
  by (simp add: closure_def finite_rtrancl_Image)

definition expand_ok :: "graph \<Rightarrow> pystr list \<Rightarrow> graph_error + pystr list \<Rightarrow> bool" where
  "expand_ok g seeds r \<longleftrightarrow>
     (case r of
        Inr vs \<Rightarrow> distinct vs \<and> set vs = closure g seeds \<and> int (length vs) \<le> max_invalidation_nodes g
      | Inl InvalidationLimit \<Rightarrow> max_invalidation_nodes g < int (card (closure g seeds))
      | Inl DepthLimit \<Rightarrow> (\<exists>n s k. max_depth g \<le> int n \<and> s \<in> set seeds
            \<and> (s, k) \<in> edge_rel (edges g) ^^ n \<and> k \<in> Domain (edge_rel (edges g)))
      | Inl _ \<Rightarrow> False)"

definition expanding :: "graph \<Rightarrow> pystr list \<Rightarrow> (pystr \<times> int) list \<Rightarrow> pystr list \<Rightarrow> bool" where
  "expanding g seeds q vs \<longleftrightarrow> distinct vs \<and> int (length vs) \<le> max_invalidation_nodes g
     \<and> set vs \<subseteq> closure g seeds \<and> set seeds \<subseteq> set vs \<union> fst ` set q
     \<and> edge_rel (edges g) `` set vs \<subseteq> set vs \<union> fst ` set q
     \<and> (\<forall>(k, d) \<in> set q. 0 \<le> d \<and> (\<exists>s \<in> set seeds. (s, k) \<in> edge_rel (edges g) ^^ nat d))"

lemma expand_loop_ok: "expanding g seeds q vs \<Longrightarrow> expand_ok g seeds (expand_loop g q vs)"
proof (induction g q vs rule: expand_loop.induct)
  case (1 g vs)
  then have "closure g seeds \<subseteq> set vs"
    unfolding closure_def expanding_def using Image_closed_trancl [of "edge_rel (edges g)" "set vs"] by auto
  with 1 show ?case by (auto simp: expand_ok_def expanding_def)
next
  case (2 g k d q vs)
  let ?E = "edge_rel (edges g)"
  obtain s where s: "s \<in> set seeds" "(s, k) \<in> ?E ^^ nat d" "0 \<le> d"
    using 2(3) by (auto simp: expanding_def)
  then have k: "k \<in> closure g seeds" by (auto simp: closure_def intro: relpow_imp_rtrancl)
  define cs where "cs = sort (children (edges g) k)"
  have cs: "set cs = ?E `` {k}" by (auto simp: cs_def edge_rel_def)
  consider "k \<in> set vs" | "k \<notin> set vs" "int (length vs) \<ge> max_invalidation_nodes g"
    | "k \<notin> set vs" "\<not> int (length vs) \<ge> max_invalidation_nodes g" "cs \<noteq> [] \<and> d \<ge> max_depth g"
    | "k \<notin> set vs" "\<not> int (length vs) \<ge> max_invalidation_nodes g" "\<not> (cs \<noteq> [] \<and> d \<ge> max_depth g)"
    by blast
  then show ?case
  proof cases
    case 1
    then have "expanding g seeds q vs" using 2(3) by (auto simp: expanding_def)
    with 1 "2.IH"(1) show ?thesis by simp
  next
    case a: 2
    have "card (insert k (set vs)) \<le> card (closure g seeds)"
      using k 2(3) by (intro card_mono) (auto simp: expanding_def)
    with a 2(3) show ?thesis by (auto simp: expand_ok_def expanding_def distinct_card)
  next
    case 3
    then have "k \<in> Domain ?E" using cs by (auto simp: neq_Nil_conv)
    with 3 s show ?thesis by (auto simp: expand_ok_def cs_def Let_def intro!: exI [of _ "nat d"])
  next
    case 4
    let ?q = "q @ map (\<lambda>c. (c, d + 1)) (filter (\<lambda>c. c \<notin> set (k # vs)) cs)"
    have step: "\<exists>s \<in> set seeds. (s, c) \<in> ?E ^^ nat (d + 1)" if "c \<in> set cs" for c
      using that s cs by (auto simp: nat_add_distrib intro!: bexI [of _ s])
    have q: "fst ` set ?q = fst ` set q \<union> (set cs - set (k # vs))" by (force simp: image_Un image_image)
    have "\<forall>(k, d) \<in> set ?q. 0 \<le> d \<and> (\<exists>s \<in> set seeds. (s, k) \<in> ?E ^^ nat d)"
      using 2(3) s(3) step unfolding expanding_def by auto
    then have "expanding g seeds ?q (k # vs)"
      using 2(3) 4(1,2) k cs unfolding expanding_def q by auto
    with 4 "2.IH"(2) [OF 4(1,2) cs_def 4(3)] show ?thesis by (auto simp: cs_def Let_def)
  qed
qed

lemma expand_Inr:
  assumes "expand g seeds = Inr (xs, tr)"
  shows "set xs = (edge_rel (edges g))\<^sup>* `` set seeds"
proof (cases seeds)
  case Nil
  with assms show ?thesis by (auto simp: expand_def)
next
  case (Cons s ss)
  with assms have "0 \<le> max_invalidation_nodes g"
    by (auto simp: expand_def split: sum.splits if_splits)
  then have "expanding g seeds (map (\<lambda>s. (s, 0)) seeds) []" by (auto simp: expanding_def image_image)
  then have "expand_ok g seeds (expand_loop g (map (\<lambda>s. (s, 0)) seeds) [])" by (rule expand_loop_ok)
  with assms show ?thesis by (auto simp: expand_def expand_ok_def closure_def split: sum.splits)
qed

text \<open>
  C28. Expanding a set of changed keys returns, sorted and without repetition, exactly the keys that
  can be reached from them along dependency edges, never a truncated list: when it refuses, either
  more keys than the configured maximum are reachable, or a dependency path longer than the depth
  bound starts at one of the changed keys.
\<close>

theorem expand_exact:
  assumes "0 \<le> max_invalidation_nodes g"
  shows "case expand g seeds of
      Inr (ks, truncated) \<Rightarrow> \<not> truncated \<and> sorted ks \<and> distinct ks
         \<and> set ks = (edge_rel (edges g))\<^sup>* `` set seeds \<and> int (length ks) \<le> max_invalidation_nodes g
    | Inl e \<Rightarrow> (e = InvalidationLimit \<and> max_invalidation_nodes g < int (card ((edge_rel (edges g))\<^sup>* `` set seeds)))
        \<or> (e = DepthLimit \<and> (\<exists>n s k. max_depth g < int n \<and> s \<in> set seeds \<and> (s, k) \<in> edge_rel (edges g) ^^ n))"
proof -
  have "expanding g seeds (map (\<lambda>s. (s, 0)) seeds) []" using assms by (auto simp: expanding_def image_image)
  then have ok: "expand_ok g seeds (expand_loop g (map (\<lambda>s. (s, 0)) seeds) [])" by (rule expand_loop_ok)
  show ?thesis
  proof (cases "expand_loop g (map (\<lambda>s. (s, 0)) seeds) []")
    case (Inr vs)
    with ok show ?thesis by (simp add: expand_def expand_ok_def closure_def)
  next
    case (Inl e)
    have "\<exists>n s k. max_depth g < int n \<and> s \<in> set seeds \<and> (s, k) \<in> edge_rel (edges g) ^^ n" if d: "e = DepthLimit"
    proof -
      obtain n s k c where "max_depth g \<le> int n" "s \<in> set seeds" "(s, k) \<in> edge_rel (edges g) ^^ n"
          "(k, c) \<in> edge_rel (edges g)"
        using ok d Inl by (auto simp: expand_ok_def)
      then show ?thesis by (intro exI [of _ "Suc n"]) auto
    qed
    with Inl ok show ?thesis by (cases e) (simp_all add: expand_def expand_ok_def closure_def)
  qed
qed

definition sample_graph :: graph where
  "sample_graph = \<lparr>max_nodes = 3, max_edges = 2, max_fanout = 2, max_depth = 2, max_invalidation_nodes = 3,
     edges = [([97], [[98]]), ([98], [[99]])], nodes = [[97], [98], [99]], edge_count = 2\<rparr>"

theorem expand_exact_witness:
  "expand sample_graph [[97]] = Inr ([[97], [98], [99]], False)
   \<and> {[97], [98], [99]} = (edge_rel (edges sample_graph))\<^sup>* `` set [[97]]"
proof -
  have "expand sample_graph [[97]] = Inr ([[97], [98], [99]], False)"
    by (simp add: expand_def sample_graph_def children_def)
  moreover have "0 \<le> max_invalidation_nodes sample_graph" by (simp add: sample_graph_def)
  ultimately show ?thesis using expand_exact [of sample_graph "[[97]]"] by simp
qed

end
