(* ===== verification/Event_Text.thy ===== *)
theory Event_Text
  imports Resp_Wire Auth Event_Graph
begin

text \<open>
  The data of the event pipeline in \<open>src/src/megacache/events.py\<close>: framed keys and signed
  payloads, identifiers, schema identifiers with reader ranges and migrations, versioned
  namespaces, change events with their validation, and rules with their templates.

  Values that come out of a JSON document are \<open>pyval\<close>s, so that every \<open>isinstance\<close> check of
  the source is a case distinction. \<open>ev_env\<close> holds what the sources take from the runtime: the
  digit limit of \<open>int\<close>, the Unicode table of decimal digits, \<open>repr\<close> of a float, and the text of
  a \<open>UnicodeEncodeError\<close>. A JSON number that is a float is named by its \<open>repr\<close>.
\<close>

record ev_env =
  int_cap :: nat
  decimal_digit :: "nat \<Rightarrow> nat option"
  repr_float :: "real \<Rightarrow> pystr"
  codec_text :: pystr

datatype event_error =
    EventError pystr
  | SchemaCompatibilityError pystr
  | DependencyGraphError graph_error
  | WebhookAuthError pystr
  | EventBackpressure pystr
  | EventIngestionDisabled
  | OtherException pystr

definition event_err :: "string \<Rightarrow> event_error + 'a" where
  "event_err msg = Inl (EventError (lit msg))"

definition bind_sum :: "'e + 'a \<Rightarrow> ('a \<Rightarrow> 'e + 'b) \<Rightarrow> 'e + 'b" where
  "bind_sum r f = (case r of Inl e \<Rightarrow> Inl e | Inr a \<Rightarrow> f a)"

lemma bind_sum_simps [simp]: "bind_sum (Inl e) f = Inl e" "bind_sum (Inr a) f = f a"
  by (simp_all add: bind_sum_def)

lemma bind_sum_Inr: "bind_sum r f = Inr b \<longleftrightarrow> (\<exists>a. r = Inr a \<and> f a = Inr b)"
  by (cases r) simp_all

text \<open>Text in single quotes, as the messages have it.\<close>

definition quoted :: "pystr \<Rightarrow> pystr" where
  "quoted s = [39] @ s @ [39]"

text \<open>\<open>s.encode('utf-8')\<close> as the sources call it: a surrogate raises \<open>UnicodeEncodeError\<close>.\<close>

definition encode_text :: "ev_env \<Rightarrow> pystr \<Rightarrow> event_error + bytes" where
  "encode_text ee s = (case encode_utf8 s of None \<Rightarrow> Inl (OtherException (codec_text ee)) | Some bs \<Rightarrow> Inr bs)"

section \<open>Framing\<close>

fun framed_parts :: "pystr list \<Rightarrow> pystr option" where
  "framed_parts [] = Some []"
| "framed_parts (p # ps) =
     (case encode_utf8 p of None \<Rightarrow> None
      | Some raw \<Rightarrow> map_option (\<lambda>t. digits10 (length raw) @ lit '':'' @ p @ t) (framed_parts ps))"

definition length_framed_key :: "ev_env \<Rightarrow> pystr list \<Rightarrow> event_error + pystr" where
  "length_framed_key ee ps =
     (case framed_parts ps of None \<Rightarrow> Inl (OtherException (codec_text ee)) | Some t \<Rightarrow> Inr (lit ''v2|'' @ t))"

definition frame_bytes :: "bytes \<Rightarrow> bytes" where
  "frame_bytes raw = ascii (digits10 (length raw)) @ '':'' @ raw"

definition webhook_signature_payload :: "ev_env \<Rightarrow> pystr \<Rightarrow> pystr \<Rightarrow> pystr \<Rightarrow> bytes \<Rightarrow> event_error + bytes" where
  "webhook_signature_payload ee src stamp delivery body =
     bind_sum (encode_text ee src) (\<lambda>a.
     bind_sum (encode_text ee stamp) (\<lambda>b.
     bind_sum (encode_text ee delivery) (\<lambda>c.
       Inr (''megacache-webhook-v2|'' @ concat (map frame_bytes [a, b, c, body])))))"

text \<open>A length before its text makes every frame readable from the left.\<close>

lemma delimited:
  "a @ c # r = b @ c # s \<Longrightarrow> c \<notin> set a \<Longrightarrow> c \<notin> set b \<Longrightarrow> a = b \<and> r = s"
proof (induction a arbitrary: b)
  case Nil
  then show ?case by (cases b) auto
next
  case (Cons x a)
  then show ?case by (cases b) auto
qed

lemma colon_not_digit: "58 \<notin> set (digits10 n)"
  using digits10_digits [of 58 n] by (auto simp: is_digit_def)

lemma digits10_inj: "digits10 m = digits10 n \<Longrightarrow> m = n"
  by (metis digits10_value)

lemma lit_colon [simp]: "lit '':'' = [58]"
  by (simp add: lit_def)

lemma digits_frame: "digits10 m @ 58 # r = digits10 n @ 58 # s \<Longrightarrow> m = n \<and> r = s"
  using delimited [of "digits10 m" 58 r "digits10 n" s] by (auto simp: colon_not_digit dest: digits10_inj)

lemma frame_bytes_cancel: "frame_bytes a @ r = frame_bytes b @ s \<Longrightarrow> a = b \<and> r = s"
proof -
  assume eq: "frame_bytes a @ r = frame_bytes b @ s"
  have codes: "map of_char (ascii (digits10 n)) = digits10 n" for n
    by (rule of_char_ascii) (auto dest: digits10_digits simp: is_digit_def)
  have "digits10 (length a) @ 58 # map of_char (a @ r) = digits10 (length b) @ 58 # map of_char (b @ s)"
    using arg_cong [OF eq, of "map of_char :: bytes \<Rightarrow> nat list"] by (simp add: frame_bytes_def codes)
  from digits_frame [OF this] have len: "length a = length b"
    and codes': "map (of_char :: char \<Rightarrow> nat) (a @ r) = map of_char (b @ s)" by simp_all
  from codes' have "a @ r = b @ s" by (rule map_injective) (auto intro: injI)
  with len show ?thesis by simp
qed

lemma encode_utf8_append:
  "encode_utf8 (a @ b) = (case encode_utf8 a of None \<Rightarrow> None | Some x \<Rightarrow> map_option (\<lambda>y. x @ y) (encode_utf8 b))"
  by (induction a) (auto simp: option.map_comp comp_def split: option.splits, (cases "encode_utf8 b"; simp)+)

lemma encode_utf8_nil: "encode_utf8 x = Some [] \<Longrightarrow> x = []"
  by (cases x) (auto simp: utf8_units_def split: if_splits)

lemma encoded_prefix_same:
  assumes "encode_utf8 p = Some a" "encode_utf8 q = Some b" "length a = length b" "p @ r = q @ s"
  shows "p = q"
proof -
  have same: "x = []" if "encode_utf8 u = Some c" "encode_utf8 (u @ x) = Some d" "length c = length d" for u x c d
    using that by (auto simp: encode_utf8_append dest: encode_utf8_nil)
  from assms(4) consider x where "q = p @ x" | x where "p = q @ x" by (auto simp: append_eq_append_conv2)
  then show ?thesis
  proof cases
    case 1
    with same [OF assms(1), of x b] assms show ?thesis by simp
  next
    case 2
    with same [OF assms(2), of x a] assms show ?thesis by simp
  qed
qed

lemma framed_parts_inj: "framed_parts ps = Some t \<Longrightarrow> framed_parts qs = Some t \<Longrightarrow> ps = qs"
proof (induction ps arbitrary: qs t)
  case Nil
  then show ?case by (cases qs) (auto split: option.splits)
next
  case (Cons p ps)
  then obtain a t1 where a: "encode_utf8 p = Some a" "framed_parts ps = Some t1"
      "t = digits10 (length a) @ 58 # p @ t1"
    by (auto split: option.splits)
  from Cons.prems(2) a(3) obtain q qs1 where qs: "qs = q # qs1" by (cases qs) auto
  with Cons.prems(2) obtain b t2 where b: "encode_utf8 q = Some b" "framed_parts qs1 = Some t2"
      "t = digits10 (length b) @ 58 # q @ t2"
    by (auto split: option.splits)
  from a(3) b(3) have "length a = length b" "p @ t1 = q @ t2"
    using digits_frame [of "length a" "p @ t1" "length b" "q @ t2"] by simp_all
  with encoded_prefix_same [OF a(1) b(1)] have "p = q" by blast
  with \<open>p @ t1 = q @ t2\<close> Cons.IH [OF a(2), of qs1] b(2) show ?case by (simp add: qs)
qed

text \<open>Two lists of texts with the same framed key are the same list.\<close>

lemma framed_key_inj: "length_framed_key ee ps = Inr k \<Longrightarrow> length_framed_key ee qs = Inr k \<Longrightarrow> ps = qs"
  by (auto simp: length_framed_key_def split: option.splits intro: framed_parts_inj)

text \<open>
  The bytes a webhook signs are unambiguous: two requests with the same signed bytes agree in
  source, timestamp, delivery identifier and body, whatever these contain, so that a signature
  cannot be moved to another request.
\<close>

theorem signature_unambiguous:
  assumes "webhook_signature_payload ee s t d b = Inr p" "webhook_signature_payload ee s' t' d' b' = Inr p"
  shows "s = s' \<and> t = t' \<and> d = d' \<and> b = b'"
proof -
  obtain x y z x' y' z' where e: "encode_utf8 s = Some x" "encode_utf8 t = Some y" "encode_utf8 d = Some z"
      "encode_utf8 s' = Some x'" "encode_utf8 t' = Some y'" "encode_utf8 d' = Some z'"
    and eq: "frame_bytes x @ frame_bytes y @ frame_bytes z @ frame_bytes b @ []
           = frame_bytes x' @ frame_bytes y' @ frame_bytes z' @ frame_bytes b' @ []"
    using assms by (auto simp: webhook_signature_payload_def bind_sum_Inr encode_text_def split: option.splits)
  then have "x = x' \<and> y = y' \<and> z = z' \<and> b = b'" by (metis frame_bytes_cancel)
  with e show ?thesis by (metis encode_utf8_inj)
qed

definition plain_env :: ev_env where
  "plain_env = \<lparr>int_cap = 4300, decimal_digit = (\<lambda>_. None), repr_float = (\<lambda>_. lit ''0.0''), codec_text = lit ''surrogates not allowed''\<rparr>"

theorem signature_unambiguous_witness:
  "webhook_signature_payload plain_env [97] [49] [98] ''x'' = Inr (''megacache-webhook-v2|1:a1:11:b1:x'')
   \<and> [97] = [97 :: nat]"
proof -
  have p: "webhook_signature_payload plain_env [97] [49] [98] ''x'' = Inr (''megacache-webhook-v2|1:a1:11:b1:x'')"
    by (simp add: webhook_signature_payload_def encode_text_def is_scalar_def is_surrogate_def utf8_units_def
        frame_bytes_def digits10.simps ascii_def char_of_def bit_0)
  from signature_unambiguous [OF p p] p show ?thesis by simp
qed

section \<open>Identifiers\<close>

definition is_identifier :: "pystr \<Rightarrow> bool" where
  "is_identifier s \<longleftrightarrow> s \<noteq> [] \<and> length s \<le> 128 \<and> is_alnum (hd s)
     \<and> list_all (\<lambda>c. is_alnum c \<or> c \<in> {95, 46, 58, 45}) (tl s)"

definition validate_identifier :: "pyval \<Rightarrow> string \<Rightarrow> event_error + pystr" where
  "validate_identifier v field =
     (case v of
        PStr s \<Rightarrow> (if is_identifier s then Inr s else event_err (field @ '' must be a 1-128 character identifier''))
      | _ \<Rightarrow> event_err (field @ '' must be a 1-128 character identifier''))"

text \<open>
  \<open>int(s)\<close> on text: other decimal digits and white space are first replaced by their ASCII
  counterparts, any other character beyond ASCII by one that no number contains.
\<close>

definition int_of_text :: "ev_env \<Rightarrow> pystr \<Rightarrow> int option" where
  "int_of_text ee s =
     int_of_bytes (int_cap ee) (map (\<lambda>c. char_of (if c < 128 then c else if is_space c then 32
        else case decimal_digit ee c of Some d \<Rightarrow> 48 + d | None \<Rightarrow> 63)) s)"

section \<open>Schemas\<close>

record schema_identifier =
  si_name :: pystr
  si_version :: int

definition make_schema_identifier :: "pyval \<Rightarrow> pyval \<Rightarrow> event_error + schema_identifier" where
  "make_schema_identifier name ver =
     bind_sum (validate_identifier name ''schema name'') (\<lambda>n.
       case ver of
         PInt i \<Rightarrow> (if i \<le> 0 then event_err ''schema version must be positive''
                    else Inr \<lparr>si_name = n, si_version = i\<rparr>)
       | _ \<Rightarrow> event_err ''schema version must be positive'')"

text \<open>\<open>value.rsplit('@', 1)\<close>.\<close>

definition rsplit_at :: "nat \<Rightarrow> pystr \<Rightarrow> pystr \<times> pystr" where
  "rsplit_at c s = (rev (tl (dropWhile (\<lambda>d. d \<noteq> c) (rev s))), rev (takeWhile (\<lambda>d. d \<noteq> c) (rev s)))"

definition parse_schema :: "ev_env \<Rightarrow> pyval \<Rightarrow> event_error + schema_identifier" where
  "parse_schema ee v =
     (case v of
        PStr s \<Rightarrow>
          (if 64 \<notin> set s then event_err ''schema_id must use name@version''
           else case int_of_text ee (snd (rsplit_at 64 s)) of
               None \<Rightarrow> event_err ''schema version must be an integer''
             | Some i \<Rightarrow> make_schema_identifier (PStr (fst (rsplit_at 64 s))) (PInt i))
      | _ \<Rightarrow> event_err ''schema_id must use name@version'')"

definition schema_text :: "schema_identifier \<Rightarrow> pystr" where
  "schema_text si = si_name si @ lit ''@'' @ dump_int (si_version si)"

record reader_range =
  rr_name :: pystr
  minimum_version :: int
  maximum_version :: int

definition make_reader_range :: "pyval \<Rightarrow> pyval \<Rightarrow> pyval \<Rightarrow> event_error + reader_range" where
  "make_reader_range name lo hi =
     bind_sum (validate_identifier name ''schema name'') (\<lambda>n.
       case (lo, hi) of
         (PInt a, PInt b) \<Rightarrow> (if a \<le> 0 \<or> b < a then event_err ''schema reader range is invalid''
                              else Inr \<lparr>rr_name = n, minimum_version = a, maximum_version = b\<rparr>)
       | _ \<Rightarrow> event_err ''schema reader range is invalid'')"

definition reader_accepts :: "reader_range \<Rightarrow> schema_identifier \<Rightarrow> bool" where
  "reader_accepts r si \<longleftrightarrow> si_name si = rr_name r
     \<and> minimum_version r \<le> si_version si \<and> si_version si \<le> maximum_version r"

section \<open>Versioned namespaces\<close>

datatype migration_policy = Strict | Rolling | DualWrite

record namespace =
  ns_name :: pystr
  write_version :: int
  reader_minimum :: int
  reader_maximum :: int
  ns_policy :: migration_policy

definition policy_of :: "pyval \<Rightarrow> migration_policy option" where
  "policy_of v =
     (if v = PStr (lit ''strict'') then Some Strict
      else if v = PStr (lit ''rolling'') then Some Rolling
      else if v = PStr (lit ''dual_write'') then Some DualWrite else None)"

definition make_namespace :: "pyval \<Rightarrow> pyval \<Rightarrow> pyval \<Rightarrow> pyval \<Rightarrow> pyval \<Rightarrow> event_error + namespace" where
  "make_namespace name w lo hi pol =
     bind_sum (validate_identifier name ''namespace name'') (\<lambda>n.
       case (w, lo, hi) of
         (PInt wv, PInt a, PInt b) \<Rightarrow>
           (if a \<le> 0 \<or> b < a \<or> \<not> (a \<le> wv \<and> wv \<le> b) \<or> b - a \<ge> 100
            then event_err ''namespace version range is invalid or exceeds 100 versions''
            else case policy_of pol of
                None \<Rightarrow> event_err ''namespace migration_policy must be strict, rolling, or dual_write''
              | Some p \<Rightarrow> Inr \<lparr>ns_name = n, write_version = wv, reader_minimum = a, reader_maximum = b, ns_policy = p\<rparr>)
       | _ \<Rightarrow> event_err ''namespace version range is invalid or exceeds 100 versions'')"

definition qualify :: "namespace \<Rightarrow> pystr \<Rightarrow> int option \<Rightarrow> event_error + pystr" where
  "qualify ns key ver =
     (let selected = (case ver of None \<Rightarrow> write_version ns | Some v \<Rightarrow> v)
      in if selected \<le> 0 then event_err ''namespace version must be positive''
         else Inr (ns_name ns @ lit '':v'' @ dump_int selected @ lit '':'' @ key))"

definition all_versions :: "namespace \<Rightarrow> pystr \<Rightarrow> event_error + pystr list" where
  "all_versions ns key = map_sum_list (\<lambda>v. qualify ns key (Some v)) [reader_minimum ns .. reader_maximum ns]"

definition write_keys :: "namespace \<Rightarrow> pystr \<Rightarrow> event_error + pystr list" where
  "write_keys ns key =
     (if ns_policy ns = DualWrite then all_versions ns key
      else bind_sum (qualify ns key None) (\<lambda>k. Inr [k]))"

definition invalidation_keys :: "namespace \<Rightarrow> pystr \<Rightarrow> event_error + pystr list" where
  "invalidation_keys ns key =
     (if ns_policy ns = Strict then bind_sum (qualify ns key None) (\<lambda>k. Inr [k])
      else all_versions ns key)"

section \<open>Change events\<close>

record event =
  event_id :: pystr
  ev_source :: pystr
  ev_stream :: pystr
  ev_position :: int
  ev_operation :: pystr
  ev_payload :: "(pystr \<times> pyval) list"
  ev_timestamp :: pyval
  ev_schema :: "pystr option"
  ev_cursor :: "pystr option"

text \<open>\<open>allow_nan=False\<close>: no float of the tree is infinite or not a number.\<close>

definition finite_repr :: "pystr \<Rightarrow> bool" where
  "finite_repr r \<longleftrightarrow> r \<notin> set (map lit [''nan'', ''inf'', ''-inf''])"

fun all_finite :: "pyval \<Rightarrow> bool" where
  "all_finite (PFloat r) = finite_repr r"
| "all_finite (PList xs) = list_all all_finite xs"
| "all_finite (PTuple xs) = list_all all_finite xs"
| "all_finite (PDict kvs) = list_all (\<lambda>(k, v). all_finite v) kvs"
| "all_finite _ = True"

definition json_compatible :: "pyval \<Rightarrow> bool" where
  "json_compatible v \<longleftrightarrow> json_dumps v \<noteq> None \<and> all_finite v"

text \<open>\<open>math.isfinite(n)\<close> raises \<open>OverflowError\<close> for an integer beyond the range of floats.\<close>

definition float_limit :: int where
  "float_limit = 2 ^ 1024 - 2 ^ 970"

definition check_event_id :: "ev_env \<Rightarrow> pyval \<Rightarrow> event_error + pystr" where
  "check_event_id ee v =
     (case v of
        PStr s \<Rightarrow>
          (if s = [] then event_err ''event_id must be a 1-256 character non-whitespace identifier''
           else bind_sum (encode_text ee s) (\<lambda>raw.
             if length raw > 256 \<or> list_ex is_space s
             then event_err ''event_id must be a 1-256 character non-whitespace identifier''
             else Inr s))
      | _ \<Rightarrow> event_err ''event_id must be a 1-256 character non-whitespace identifier'')"

definition check_timestamp :: "pyval \<Rightarrow> event_error + unit" where
  "check_timestamp v =
     (case v of
        PInt i \<Rightarrow> (if \<bar>i\<bar> < float_limit then Inr ()
                    else Inl (OtherException (lit ''int too large to convert to float'')))
      | PFloat r \<Rightarrow> (if finite_repr r then Inr () else event_err ''event timestamp must be finite and numeric'')
      | _ \<Rightarrow> event_err ''event timestamp must be finite and numeric'')"

text \<open>\<open>None\<close> or a string.\<close>

fun optional_text :: "pyval \<Rightarrow> event_error \<Rightarrow> event_error + pystr option" where
  "optional_text PNone e = Inr None"
| "optional_text (PStr s) e = Inr (Some s)"
| "optional_text v e = Inl e"

definition make_event ::
  "ev_env \<Rightarrow> pyval \<Rightarrow> pyval \<Rightarrow> pyval \<Rightarrow> pyval \<Rightarrow> pyval \<Rightarrow> pyval \<Rightarrow> pyval \<Rightarrow> pyval \<Rightarrow> pyval \<Rightarrow> event_error + event" where
  "make_event ee eid src strm pos oper load stamp sid cur =
     bind_sum (check_event_id ee eid) (\<lambda>i.
     bind_sum (validate_identifier src ''event source'') (\<lambda>so.
     bind_sum (validate_identifier strm ''event stream'') (\<lambda>st.
     bind_sum (case pos of PInt n \<Rightarrow> (if n < 0 then event_err ''event position must be a non-negative integer'' else Inr n)
               | _ \<Rightarrow> event_err ''event position must be a non-negative integer'') (\<lambda>n.
     bind_sum (case oper of PStr s \<Rightarrow> (if s = [] then event_err ''event operation must be a non-empty string'' else Inr s)
               | _ \<Rightarrow> event_err ''event operation must be a non-empty string'') (\<lambda>op.
     bind_sum (case load of PDict kvs \<Rightarrow> Inr kvs | _ \<Rightarrow> event_err ''event payload must be an object'') (\<lambda>kvs.
     bind_sum (if json_compatible (PDict kvs) then Inr () else event_err ''event payload must be JSON-compatible'') (\<lambda>_.
     bind_sum (check_timestamp stamp) (\<lambda>_.
     bind_sum (if sid = PNone then Inr () else bind_sum (parse_schema ee sid) (\<lambda>_. Inr ())) (\<lambda>_.
     bind_sum (optional_text sid (EventError (lit ''schema_id must use name@version''))) (\<lambda>sc.
     bind_sum (optional_text cur (EventError (lit ''event cursor must be a string''))) (\<lambda>cu.
       Inr \<lparr>event_id = i, ev_source = so, ev_stream = st, ev_position = n, ev_operation = op,
            ev_payload = kvs, ev_timestamp = stamp, ev_schema = sc, ev_cursor = cu\<rparr>)))))))))))"

definition checkpoint_key :: "ev_env \<Rightarrow> event \<Rightarrow> event_error + pystr" where
  "checkpoint_key ee e = length_framed_key ee [ev_source e, ev_stream e]"

definition required_fields :: "string list" where
  "required_fields = [''event_id'', ''source'', ''stream'', ''position'', ''operation'', ''payload'']"

fun comma_join :: "string list \<Rightarrow> string" where
  "comma_join [] = []"
| "comma_join [x] = x"
| "comma_join (x # xs) = x @ '', '' @ comma_join xs"

definition event_from_dict :: "ev_env \<Rightarrow> real \<Rightarrow> pyval \<Rightarrow> event_error + event" where
  "event_from_dict ee now v =
     (case v of
        PDict kvs \<Rightarrow>
          (let missing = filter (\<lambda>f. map_of kvs (lit f) = None) required_fields;
               field = (\<lambda>f. get_or kvs f PNone)
           in if missing \<noteq> [] then event_err (''event is missing required fields: '' @ comma_join missing)
              else make_event ee (field ''event_id'') (field ''source'') (field ''stream'') (field ''position'')
                     (field ''operation'') (field ''payload'') (get_or kvs ''timestamp'' (PFloat (repr_float ee now)))
                     (field ''schema_id'') (field ''cursor''))
      | _ \<Rightarrow> event_err ''event must be an object'')"

fun opt_text :: "pystr option \<Rightarrow> pyval" where
  "opt_text None = PNone"
| "opt_text (Some s) = PStr s"

definition event_as_dict :: "event \<Rightarrow> (pystr \<times> pyval) list" where
  "event_as_dict e =
     [(lit ''event_id'', PStr (event_id e)), (lit ''source'', PStr (ev_source e)), (lit ''stream'', PStr (ev_stream e)),
      (lit ''position'', PInt (ev_position e)), (lit ''operation'', PStr (ev_operation e)),
      (lit ''payload'', PDict (ev_payload e)), (lit ''timestamp'', ev_timestamp e),
      (lit ''schema_id'', opt_text (ev_schema e)), (lit ''cursor'', opt_text (ev_cursor e))]"

section \<open>The schema registry\<close>

type_synonym migration = "(pystr \<times> pyval) list \<Rightarrow> event_error + pyval"

record registry =
  readers :: "(pystr \<times> reader_range list) list"
  migrations :: "((pystr \<times> int \<times> int) \<times> migration) list"

definition readers_of :: "registry \<Rightarrow> pystr \<Rightarrow> reader_range list" where
  "readers_of rg n = (case map_of (readers rg) n of None \<Rightarrow> [] | Some rs \<Rightarrow> rs)"

definition register_reader :: "reader_range \<Rightarrow> registry \<Rightarrow> registry" where
  "register_reader r rg = rg\<lparr>readers := AList.update (rr_name r) (readers_of rg (rr_name r) @ [r]) (readers rg)\<rparr>"

definition make_registry :: "reader_range list \<Rightarrow> registry" where
  "make_registry rs = fold register_reader rs \<lparr>readers = [], migrations = []\<rparr>"

definition register_migration :: "pyval \<Rightarrow> int \<Rightarrow> int \<Rightarrow> migration \<Rightarrow> registry \<Rightarrow> event_error + registry" where
  "register_migration name a b f rg =
     bind_sum (validate_identifier name ''schema name'') (\<lambda>n.
       if a \<le> 0 \<or> b \<le> 0 \<or> a = b then event_err ''schema migration versions are invalid''
       else Inr (rg\<lparr>migrations := AList.update (n, a, b) f (migrations rg)\<rparr>))"

text \<open>
  The migrations of one schema and source version differ in their target, so that sorting the
  pairs never compares two functions.
\<close>

definition candidates :: "registry \<Rightarrow> schema_identifier \<Rightarrow> (int \<times> migration) list" where
  "candidates rg si =
     sort_key fst (map (\<lambda>((n, a, b), f). (b, f))
       (filter (\<lambda>((n, a, b), f). n = si_name si \<and> a = si_version si
          \<and> list_ex (\<lambda>r. minimum_version r \<le> b \<and> b \<le> maximum_version r) (readers_of rg (si_name si)))
        (migrations rg)))"

text \<open>\<open>dataclasses.replace\<close> runs the validation of the event again.\<close>

definition migrate_event :: "ev_env \<Rightarrow> event \<Rightarrow> schema_identifier \<Rightarrow> int \<times> migration \<Rightarrow> event_error + event" where
  "migrate_event ee e si tf =
     bind_sum ((snd tf) (ev_payload e)) (\<lambda>p.
       case p of
         PDict kvs \<Rightarrow>
           bind_sum (make_schema_identifier (PStr (si_name si)) (PInt (fst tf))) (\<lambda>si'.
             make_event ee (PStr (event_id e)) (PStr (ev_source e)) (PStr (ev_stream e)) (PInt (ev_position e))
               (PStr (ev_operation e)) (PDict kvs) (ev_timestamp e) (PStr (schema_text si')) (opt_text (ev_cursor e)))
       | _ \<Rightarrow> Inl (SchemaCompatibilityError (lit ''schema migration must return an object'')))"

definition prepare :: "ev_env \<Rightarrow> registry \<Rightarrow> event \<Rightarrow> event_error + event" where
  "prepare ee rg e =
     (case ev_schema e of
        None \<Rightarrow> Inr e
      | Some sid \<Rightarrow>
          bind_sum (parse_schema ee (PStr sid)) (\<lambda>si.
            let rs = readers_of rg (si_name si)
            in if list_ex (\<lambda>r. reader_accepts r si) rs then Inr e
               else case candidates rg si of
                   c # _ \<Rightarrow> migrate_event ee e si c
                 | [] \<Rightarrow>
                     (if rs = []
                      then Inl (SchemaCompatibilityError
                        (lit ''no reader is registered for schema '' @ quoted (si_name si)))
                      else Inl (SchemaCompatibilityError
                        (lit ''schema '' @ schema_text si @ lit '' is outside compatible reader ranges'')))))"

section \<open>Rules and templates\<close>

definition field_char :: "nat \<Rightarrow> bool" where
  "field_char c \<longleftrightarrow> is_alnum c \<or> c \<in> {95, 46, 45}"

text \<open>\<open>_TEMPLATE_FIELD.sub(f, template)\<close>; the field characters exclude both braces.\<close>

function substitute :: "(pystr \<Rightarrow> event_error + pystr) \<Rightarrow> pystr \<Rightarrow> event_error + pystr" where
  "substitute f [] = Inr []"
| "substitute f (c # t) =
     (if c = 123 \<and> takeWhile field_char t \<noteq> [] \<and> take 1 (dropWhile field_char t) = [125]
      then bind_sum (f (takeWhile field_char t)) (\<lambda>v.
             bind_sum (substitute f (drop 1 (dropWhile field_char t))) (\<lambda>r. Inr (v @ r)))
      else bind_sum (substitute f t) (\<lambda>r. Inr (c # r)))"
  by pat_completeness auto
termination
  by (relation "measure (length \<circ> snd)") (auto simp: less_Suc_eq_le intro: le_trans [OF diff_le_self length_dropWhile_le])

definition validate_template :: "pyval \<Rightarrow> event_error + pystr" where
  "validate_template v =
     (case v of
        PStr t \<Rightarrow>
          (if t = [] then event_err ''event templates must be non-empty strings''
           else bind_sum (substitute (\<lambda>_. Inr []) t) (\<lambda>stripped.
             if 123 \<in> set stripped \<or> 125 \<in> set stripped
             then event_err ''event template contains an invalid placeholder'' else Inr t))
      | _ \<Rightarrow> event_err ''event templates must be non-empty strings'')"

fun split_on :: "nat \<Rightarrow> pystr \<Rightarrow> pystr list" where
  "split_on d [] = [[]]"
| "split_on d (c # s) =
     (if c = d then [] # split_on d s
      else case split_on d s of [] \<Rightarrow> [[c]] | w # ws \<Rightarrow> (c # w) # ws)"

fun walk_fields :: "pyval \<Rightarrow> pystr list \<Rightarrow> pyval option" where
  "walk_fields v [] = Some v"
| "walk_fields v (k # ks) =
     (case v of PDict kvs \<Rightarrow> (case map_of kvs k of None \<Rightarrow> None | Some w \<Rightarrow> walk_fields w ks)
      | _ \<Rightarrow> None)"

text \<open>\<open>str\<close> of a scalar. A payload has passed \<open>json.dumps\<close>, so it holds no bytes and no objects.\<close>

fun scalar_text :: "pyval \<Rightarrow> pystr option" where
  "scalar_text (PBool b) = Some (lit (if b then ''True'' else ''False''))"
| "scalar_text (PInt i) = Some (dump_int i)"
| "scalar_text (PFloat r) = Some r"
| "scalar_text (PStr s) = Some s"
| "scalar_text v = None"

definition replace_field :: "pyval \<Rightarrow> pystr \<Rightarrow> event_error + pystr" where
  "replace_field ctx path =
     (case walk_fields ctx (split_on 46 path) of
        None \<Rightarrow> Inl (EventError (lit ''event template field '' @ quoted path @ lit '' is missing''))
      | Some v \<Rightarrow>
          (case scalar_text v of
             None \<Rightarrow> Inl (EventError (lit ''event template field '' @ quoted path @ lit '' must be scalar''))
           | Some t \<Rightarrow> Inr t))"

definition render_template :: "pystr \<Rightarrow> pyval \<Rightarrow> event_error + pystr" where
  "render_template t ctx = substitute (replace_field ctx) t"

record rule =
  rl_name :: pystr
  key_templates :: "pystr list"
  tag_templates :: "pystr list"
  rl_sources :: "pystr list"
  rl_streams :: "pystr list"
  rl_operations :: "pystr list"
  schema_names :: "pystr list"
  rl_namespace :: pyval

definition make_rule ::
  "pyval \<Rightarrow> pystr list \<Rightarrow> pystr list \<Rightarrow> pystr list \<Rightarrow> pystr list \<Rightarrow> pystr list \<Rightarrow> pystr list \<Rightarrow> pyval \<Rightarrow> event_error + rule" where
  "make_rule name ks ts so st op sn ns =
     bind_sum (validate_identifier name ''rule name'') (\<lambda>n.
       if ks = [] \<and> ts = [] then event_err ''event rule must produce a key or tag''
       else bind_sum (map_sum_list (\<lambda>t. validate_template (PStr t)) (ks @ ts)) (\<lambda>_.
         if [] \<in> set (so @ st @ op @ sn) then event_err ''event rule filters must be non-empty strings''
         else Inr \<lparr>rl_name = n, key_templates = ks, tag_templates = ts, rl_sources = so, rl_streams = st,
                   rl_operations = op, schema_names = sn, rl_namespace = ns\<rparr>))"

definition string_tuple :: "pyval \<Rightarrow> string \<Rightarrow> event_error + pystr list" where
  "string_tuple v field =
     (let texts = (\<lambda>xs. case collect_opt (map (\<lambda>x. case x of PStr s \<Rightarrow> (if s = [] then None else Some s) | _ \<Rightarrow> None) xs)
                       of None \<Rightarrow> event_err (field @ '' must be an array of strings'') | Some ss \<Rightarrow> Inr ss)
      in case v of PList xs \<Rightarrow> texts xs | PTuple xs \<Rightarrow> texts xs
         | _ \<Rightarrow> event_err (field @ '' must be an array of strings''))"

definition rule_from_dict :: "pyval \<Rightarrow> event_error + rule" where
  "rule_from_dict v =
     (case v of
        PDict kvs \<Rightarrow>
          bind_sum (string_tuple (get_or kvs ''keys'' (PTuple [])) ''rule keys'') (\<lambda>ks.
          bind_sum (string_tuple (get_or kvs ''tags'' (PTuple [])) ''rule tags'') (\<lambda>ts.
          bind_sum (string_tuple (get_or kvs ''sources'' (PTuple [])) ''rule sources'') (\<lambda>so.
          bind_sum (string_tuple (get_or kvs ''streams'' (PTuple [])) ''rule streams'') (\<lambda>st.
          bind_sum (string_tuple (get_or kvs ''operations'' (PTuple [])) ''rule operations'') (\<lambda>op.
          bind_sum (string_tuple (get_or kvs ''schema_names'' (PTuple [])) ''rule schema_names'') (\<lambda>sn.
            make_rule (get_or kvs ''name'' PNone) ks ts so st op sn (get_or kvs ''namespace'' PNone)))))))
      | _ \<Rightarrow> event_err ''event rule must be an object'')"

definition rule_matches :: "ev_env \<Rightarrow> rule \<Rightarrow> event \<Rightarrow> event_error + bool" where
  "rule_matches ee r e =
     bind_sum (case ev_schema e of None \<Rightarrow> Inr None
               | Some s \<Rightarrow> bind_sum (parse_schema ee (PStr s)) (\<lambda>si. Inr (Some (si_name si)))) (\<lambda>sn.
       Inr ((rl_sources r = [] \<or> ev_source e \<in> set (rl_sources r))
          \<and> (rl_streams r = [] \<or> ev_stream e \<in> set (rl_streams r))
          \<and> (rl_operations r = [] \<or> ev_operation e \<in> set (rl_operations r))
          \<and> (schema_names r = [] \<or> (case sn of None \<Rightarrow> False | Some n \<Rightarrow> n \<in> set (schema_names r)))))"

definition render_context :: "event \<Rightarrow> pyval" where
  "render_context e = PDict
     [(lit ''event_id'', PStr (event_id e)), (lit ''source'', PStr (ev_source e)), (lit ''stream'', PStr (ev_stream e)),
      (lit ''position'', PInt (ev_position e)), (lit ''operation'', PStr (ev_operation e)),
      (lit ''schema_id'', PStr (case ev_schema e of None \<Rightarrow> [] | Some s \<Rightarrow> s)), (lit ''payload'', PDict (ev_payload e))]"

definition check_rendered_key :: "ev_env \<Rightarrow> pystr \<Rightarrow> event_error + unit" where
  "check_rendered_key ee k =
     (case validate_cache_key k of
        Inr _ \<Rightarrow> Inr ()
      | Inl KeyNotEncodable \<Rightarrow> Inl (OtherException (codec_text ee))
      | Inl _ \<Rightarrow> event_err ''cache key must contain 1 to 1024 UTF-8 bytes'')"

definition check_rendered_tag :: "ev_env \<Rightarrow> pystr \<Rightarrow> event_error + unit" where
  "check_rendered_tag ee t =
     (if t = [] then event_err ''rendered tag is empty or too long''
      else bind_sum (encode_text ee t) (\<lambda>raw.
        if length raw > 1024 then event_err ''rendered tag is empty or too long'' else Inr ()))"

definition render :: "ev_env \<Rightarrow> rule \<Rightarrow> event \<Rightarrow> event_error + (pystr list \<times> pystr list)" where
  "render ee r e =
     bind_sum (map_sum_list (\<lambda>t. render_template t (render_context e)) (key_templates r)) (\<lambda>ks.
     bind_sum (map_sum_list (\<lambda>t. render_template t (render_context e)) (tag_templates r)) (\<lambda>ts.
     bind_sum (map_sum_list (check_rendered_key ee) ks) (\<lambda>_.
     bind_sum (map_sum_list (check_rendered_tag ee) ts) (\<lambda>_. Inr (ks, ts)))))"

end
