(* ===== verification/Event_Store.thy ===== *)
theory Event_Store
  imports Event_Text
begin

text \<open>
  The durable state of the event pipeline, \<open>AtomicCheckpointStore\<close> in
  \<open>src/src/megacache/events.py\<close>: checkpoints per stream, the event identifiers seen, claims on
  webhook deliveries, and dead letters.

  \<^item> \<open>est\<close> is \<open>_state\<close> and \<open>on_disk\<close> the content of the state file (\<open>None\<close>: no file). Every
    mutation works on a copy, validates it, writes it and only then installs it. The copy goes
    through JSON, which is the identity on the fields below.
  \<^item> Writing may fail: \<open>FailedBefore\<close> covers every fault up to \<open>os.replace\<close>, \<open>FailedAfter\<close> an
    \<open>OSError\<close> of the final \<open>os.unlink\<close>, after the new file is in place. \<open>os.replace\<close> is atomic.
  \<^item> Clock readings are arguments; \<open>repr_float\<close> gives their text, which counts for the size.
  \<^item> The file read by \<open>_load\<close> is one the store has written (version 2); the migration of
    version 1 files and the rejection of foreign files are not modelled.
\<close>

section \<open>State\<close>

record stream_checkpoint =
  ck_source :: pystr
  ck_stream :: pystr
  ck_position :: int
  ck_cursor :: "pystr option"
  ck_event_id :: pystr
  committed_at :: real

record letter =
  dl_event :: event
  dl_error :: pystr
  dl_attempts :: int
  first_failed_at :: real
  last_failed_at :: real
  retry_after :: real
  dl_retryable :: bool

record event_state =
  checkpoints :: "(pystr \<times> stream_checkpoint) list"
  seen_events :: "pystr list"
  replay_tokens :: "(pystr \<times> real) list"
  dead_letters :: "letter list"
  dead_letter_dropped :: int

record store_bounds =
  max_seen_events :: int
  max_replay_tokens :: int
  max_dead_letters :: int
  max_dead_letter_bytes :: int
  max_streams :: int
  max_state_bytes :: int
  max_payload_bytes :: int
  max_cursor_bytes :: int
  max_error_bytes :: int

record event_store =
  bounds :: store_bounds
  est :: event_state
  on_disk :: "event_state option"
  store_closed :: bool

datatype write_fault = Written | FailedBefore | FailedAfter

definition empty_state :: event_state where
  "empty_state = \<lparr>checkpoints = [], seen_events = [], replay_tokens = [], dead_letters = [], dead_letter_dropped = 0\<rparr>"

definition backpressure :: "string \<Rightarrow> event_error + 'a" where
  "backpressure msg = Inl (EventBackpressure (lit msg))"

section \<open>Sizes of JSON texts\<close>

fun json_sorted :: "pyval \<Rightarrow> pyval" where
  "json_sorted (PList xs) = PList (map json_sorted xs)"
| "json_sorted (PTuple xs) = PTuple (map json_sorted xs)"
| "json_sorted (PDict kvs) = PDict (sort_key fst (map (\<lambda>(k, v). (k, json_sorted v)) kvs))"
| "json_sorted v = v"

definition encoded_size :: "pyval \<Rightarrow> event_error + int" where
  "encoded_size v =
     (if \<not> all_finite v then Inl (OtherException (lit ''Out of range float values are not JSON compliant''))
      else case json_ascii (json_sorted v) of
          None \<Rightarrow> Inl (OtherException (lit ''Object is not JSON serializable''))
        | Some t \<Rightarrow> Inr (int (length t)))"

definition checkpoint_value :: "ev_env \<Rightarrow> stream_checkpoint \<Rightarrow> pyval" where
  "checkpoint_value ee c = PDict
     [(lit ''source'', PStr (ck_source c)), (lit ''stream'', PStr (ck_stream c)), (lit ''position'', PInt (ck_position c)),
      (lit ''cursor'', opt_text (ck_cursor c)), (lit ''event_id'', PStr (ck_event_id c)),
      (lit ''committed_at'', PFloat (repr_float ee (committed_at c)))]"

definition letter_value :: "ev_env \<Rightarrow> letter \<Rightarrow> pyval" where
  "letter_value ee l = PDict
     [(lit ''event'', PDict (event_as_dict (dl_event l))), (lit ''error'', PStr (dl_error l)), (lit ''attempts'', PInt (dl_attempts l)),
      (lit ''first_failed_at'', PFloat (repr_float ee (first_failed_at l))),
      (lit ''last_failed_at'', PFloat (repr_float ee (last_failed_at l))),
      (lit ''retry_after'', PFloat (repr_float ee (retry_after l))), (lit ''retryable'', PBool (dl_retryable l))]"

definition state_value :: "ev_env \<Rightarrow> event_state \<Rightarrow> pyval" where
  "state_value ee st = PDict
     [(lit ''version'', PInt 2),
      (lit ''checkpoints'', PDict (map (\<lambda>(k, c). (k, checkpoint_value ee c)) (checkpoints st))),
      (lit ''seen'', PList (map PStr (seen_events st))),
      (lit ''replay_tokens'', PList (map (\<lambda>(k, x). PDict [(lit ''key'', PStr k), (lit ''expires_at'', PFloat (repr_float ee x))])
         (replay_tokens st))),
      (lit ''dead_letters'', PList (map (letter_value ee) (dead_letters st))),
      (lit ''dead_letter_dropped'', PInt (dead_letter_dropped st))]"

definition dead_letter_bytes :: "ev_env \<Rightarrow> letter list \<Rightarrow> event_error + int" where
  "dead_letter_bytes ee ls = bind_sum (map_sum_list (\<lambda>l. encoded_size (letter_value ee l)) ls) (\<lambda>ns. Inr (sum_list ns))"

section \<open>Validation\<close>

definition check_cursor :: "ev_env \<Rightarrow> store_bounds \<Rightarrow> pystr option \<Rightarrow> event_error \<Rightarrow> event_error + unit" where
  "check_cursor ee b cur e =
     (case cur of
        None \<Rightarrow> Inr ()
      | Some c \<Rightarrow> bind_sum (encode_text ee c) (\<lambda>raw.
          if int (length raw) > max_cursor_bytes b then Inl e else Inr ()))"

definition validate_event :: "ev_env \<Rightarrow> store_bounds \<Rightarrow> event \<Rightarrow> event_error + unit" where
  "validate_event ee b e =
     bind_sum (encoded_size (PDict (ev_payload e))) (\<lambda>n.
       if n > max_payload_bytes b then event_err ''event payload exceeds configured byte limit''
       else check_cursor ee b (ev_cursor e) (EventError (lit ''event cursor exceeds configured byte limit'')))"

text \<open>\<open>ChangeEvent.from_dict(item["event"])\<close> on a dead letter: the validation runs once more.\<close>

definition reload_event :: "ev_env \<Rightarrow> event \<Rightarrow> event_error + event" where
  "reload_event ee e =
     make_event ee (PStr (event_id e)) (PStr (ev_source e)) (PStr (ev_stream e)) (PInt (ev_position e))
       (PStr (ev_operation e)) (PDict (ev_payload e)) (ev_timestamp e) (opt_text (ev_schema e)) (opt_text (ev_cursor e))"

definition validate_letter :: "ev_env \<Rightarrow> store_bounds \<Rightarrow> letter \<Rightarrow> event_error + unit" where
  "validate_letter ee b l =
     bind_sum (reload_event ee (dl_event l)) (\<lambda>e.
     bind_sum (encoded_size (PDict (ev_payload e))) (\<lambda>n.
     if n > max_payload_bytes b then backpressure ''existing DLQ payload exceeds configured byte limit''
     else
     bind_sum (check_cursor ee b (ev_cursor e) (EventBackpressure (lit ''existing DLQ cursor exceeds configured byte limit''))) (\<lambda>_.
     bind_sum (encode_text ee (dl_error l)) (\<lambda>raw.
     if int (length raw) > max_error_bytes b then backpressure ''existing DLQ error exceeds configured byte limit''
     else Inr ()))))"

definition validate_dead_letters :: "ev_env \<Rightarrow> store_bounds \<Rightarrow> letter list \<Rightarrow> event_error + unit" where
  "validate_dead_letters ee b ls =
     (if int (length ls) > max_dead_letters b then backpressure ''dead-letter count capacity is exhausted''
      else bind_sum (dead_letter_bytes ee ls) (\<lambda>n.
        if n > max_dead_letter_bytes b then backpressure ''dead-letter byte capacity is exhausted''
        else bind_sum (map_sum_list (validate_letter ee b) ls) (\<lambda>_. Inr ())))"

definition validate_state_limits :: "ev_env \<Rightarrow> store_bounds \<Rightarrow> event_state \<Rightarrow> event_error + unit" where
  "validate_state_limits ee b st =
     (if int (length (checkpoints st)) > max_streams b
      then backpressure ''existing event streams exceed configured limit''
      else bind_sum (map_sum_list (\<lambda>(k, c). check_cursor ee b (ck_cursor c)
             (EventBackpressure (lit ''existing event cursor exceeds configured byte limit''))) (checkpoints st)) (\<lambda>_.
        if int (length (seen_events st)) > max_seen_events b
        then backpressure ''existing seen-event history exceeds configured limit''
        else if int (length (replay_tokens st)) > max_replay_tokens b
        then backpressure ''existing replay claims exceed configured limit''
        else bind_sum (validate_dead_letters ee b (dead_letters st)) (\<lambda>_.
          bind_sum (encoded_size (state_value ee st)) (\<lambda>n.
            if n > max_state_bytes b then backpressure ''event state exceeds configured byte limit''
            else Inr ()))))"

section \<open>Mutations\<close>

definition persist :: "ev_env \<Rightarrow> store_bounds \<Rightarrow> write_fault \<Rightarrow> event_state \<Rightarrow> event_state option
    \<Rightarrow> (event_error, unit, event_state option) res" where
  "persist ee b flt st d =
     (case encoded_size (state_value ee st) of
        Inl e \<Rightarrow> (Inl e, d)
      | Inr n \<Rightarrow>
          (if n > max_state_bytes b then (backpressure ''event state exceeds configured byte limit'', d)
           else case flt of
               Written \<Rightarrow> (Inr (), Some st)
             | FailedBefore \<Rightarrow> (Inl (OtherException (lit ''OSError'')), d)
             | FailedAfter \<Rightarrow> (Inl (OtherException (lit ''OSError'')), Some st)))"

definition ensure_open :: "event_store \<Rightarrow> event_error + unit" where
  "ensure_open s = (if store_closed s then event_err ''event state store is closed'' else Inr ())"

definition mutate ::
  "ev_env \<Rightarrow> write_fault \<Rightarrow> (event_state \<Rightarrow> event_error + 'a \<times> event_state) \<Rightarrow> event_store
    \<Rightarrow> (event_error, 'a, event_store) res" where
  "mutate ee flt f s =
     (case bind_sum (ensure_open s) (\<lambda>_. bind_sum (f (est s)) (\<lambda>(a, c).
        bind_sum (validate_state_limits ee (bounds s) c) (\<lambda>_. Inr (a, c)))) of
        Inl e \<Rightarrow> (Inl e, s)
      | Inr (a, c) \<Rightarrow>
          (case persist ee (bounds s) flt c (on_disk s) of
             (Inl e, d) \<Rightarrow> (Inl e, s\<lparr>on_disk := d\<rparr>)
           | (Inr _, d) \<Rightarrow> (Inr a, s\<lparr>est := c, on_disk := d\<rparr>)))"

definition advance_checkpoint ::
  "ev_env \<Rightarrow> store_bounds \<Rightarrow> real \<Rightarrow> event \<Rightarrow> event_state \<Rightarrow> event_error + event_state" where
  "advance_checkpoint ee b now e st =
     bind_sum (checkpoint_key ee e) (\<lambda>key.
       let current = map_of (checkpoints st) key;
           new = \<lparr>ck_source = ev_source e, ck_stream = ev_stream e, ck_position = ev_position e,
                  ck_cursor = ev_cursor e, ck_event_id = event_id e, committed_at = now\<rparr>
       in case current of
            None \<Rightarrow>
              (if int (length (checkpoints st)) \<ge> max_streams b then backpressure ''event stream capacity is exhausted''
               else Inr (st\<lparr>checkpoints := AList.update key new (checkpoints st)\<rparr>))
          | Some c \<Rightarrow>
              (if ev_position e < ck_position c then event_err ''checkpoint cannot move backwards''
               else Inr (st\<lparr>checkpoints := AList.update key new (checkpoints st)\<rparr>)))"

text \<open>\<open>del seen[:-n]\<close> for a positive \<open>n\<close> keeps the last \<open>n\<close> items.\<close>

definition remember_seen :: "store_bounds \<Rightarrow> pystr \<Rightarrow> event_state \<Rightarrow> event_state" where
  "remember_seen b eid st =
     (let seen = remove1 eid (seen_events st) @ [eid]
      in st\<lparr>seen_events := drop (length seen - nat (max_seen_events b)) seen\<rparr>)"

definition commit_event :: "ev_env \<Rightarrow> store_bounds \<Rightarrow> real \<Rightarrow> event \<Rightarrow> event_state \<Rightarrow> event_error + event_state" where
  "commit_event ee b now e st =
     bind_sum (advance_checkpoint ee b now e st) (\<lambda>st1. Inr (remember_seen b (event_id e) st1))"

definition store_checkpoint :: "pystr \<Rightarrow> event_store \<Rightarrow> event_error + stream_checkpoint option" where
  "store_checkpoint key s = bind_sum (ensure_open s) (\<lambda>_. Inr (map_of (checkpoints (est s)) key))"

definition is_seen :: "pystr \<Rightarrow> event_store \<Rightarrow> event_error + bool" where
  "is_seen eid s = bind_sum (ensure_open s) (\<lambda>_. Inr (eid \<in> set (seen_events (est s))))"

definition ensure_complete_capacity :: "ev_env \<Rightarrow> real \<Rightarrow> event \<Rightarrow> event_store \<Rightarrow> event_error + unit" where
  "ensure_complete_capacity ee now e s =
     bind_sum (ensure_open s) (\<lambda>_. bind_sum (validate_event ee (bounds s) e) (\<lambda>_.
       bind_sum (commit_event ee (bounds s) now e (est s)) (validate_state_limits ee (bounds s))))"

definition complete :: "ev_env \<Rightarrow> write_fault \<Rightarrow> real \<Rightarrow> event \<Rightarrow> event_store \<Rightarrow> (event_error, unit, event_store) res" where
  "complete ee flt now e s =
     mutate ee flt (\<lambda>st. bind_sum (validate_event ee (bounds s) e) (\<lambda>_.
       bind_sum (commit_event ee (bounds s) now e st) (\<lambda>st1. Inr ((), st1)))) s"

section \<open>Dead letters\<close>

text \<open>\<open>decode('utf-8', 'ignore')\<close>.\<close>

function ignore_units :: "nat list \<Rightarrow> pystr" where
  "ignore_units us =
     (if us = [] then []
      else case utf8_next us of
          None \<Rightarrow> ignore_units (drop (bad_length us) us)
        | Some (c, r) \<Rightarrow> c # ignore_units r)"
  by pat_completeness auto
termination
  by (relation "measure length")
    (auto dest: utf8_next_shorter simp: bad_length_def split: list.splits)

declare ignore_units.simps [simp del]

definition bounded_error :: "ev_env \<Rightarrow> store_bounds \<Rightarrow> pystr \<Rightarrow> event_error + pystr" where
  "bounded_error ee b err =
     bind_sum (encode_text ee err) (\<lambda>raw.
       if int (length raw) \<le> max_error_bytes b then Inr err
       else if max_error_bytes b \<le> 3 then Inr (ignore_units (map of_char (take (nat (max_error_bytes b)) raw)))
       else Inr (ignore_units (map of_char (take (nat (max_error_bytes b - 3)) raw)) @ lit ''...''))"

definition retry_delay :: "int \<Rightarrow> real" where
  "retry_delay attempts = real_of_int (min 3600 (2 ^ nat (min (attempts - 1) 12)))"

definition fail_again :: "pystr \<Rightarrow> real \<Rightarrow> letter \<Rightarrow> letter" where
  "fail_again err now l = l\<lparr>dl_error := err, dl_attempts := dl_attempts l + 1, last_failed_at := now,
     retry_after := now + retry_delay (dl_attempts l + 1)\<rparr>"

fun update_first :: "pystr \<Rightarrow> (letter \<Rightarrow> letter) \<Rightarrow> letter list \<Rightarrow> letter list" where
  "update_first eid f [] = []"
| "update_first eid f (l # ls) = (if event_id (dl_event l) = eid then f l # ls else l # update_first eid f ls)"

definition has_letter :: "pystr \<Rightarrow> letter list \<Rightarrow> bool" where
  "has_letter eid ls \<longleftrightarrow> list_ex (\<lambda>l. event_id (dl_event l) = eid) ls"

definition dead_letter ::
  "ev_env \<Rightarrow> write_fault \<Rightarrow> real \<Rightarrow> real \<Rightarrow> event \<Rightarrow> pystr \<Rightarrow> bool \<Rightarrow> event_store \<Rightarrow> (event_error, unit, event_store) res" where
  "dead_letter ee flt failed_at now e err retryable s =
     (case bounded_error ee (bounds s) err of
        Inl x \<Rightarrow> (Inl x, s)
      | Inr be \<Rightarrow>
          mutate ee flt (\<lambda>st. bind_sum (validate_event ee (bounds s) e) (\<lambda>_.
            let ls = (if has_letter (event_id e) (dead_letters st)
                      then update_first (event_id e) (\<lambda>l. (fail_again be failed_at l)\<lparr>dl_retryable := retryable\<rparr>) (dead_letters st)
                      else dead_letters st @ [\<lparr>dl_event = e, dl_error = be, dl_attempts = 1, first_failed_at = failed_at,
                             last_failed_at = failed_at, retry_after = failed_at + 1, dl_retryable = retryable\<rparr>])
            in bind_sum (validate_dead_letters ee (bounds s) ls) (\<lambda>_.
               bind_sum (commit_event ee (bounds s) now e (st\<lparr>dead_letters := ls\<rparr>)) (\<lambda>st1. Inr ((), st1))))) s)"

definition update_dead_letter ::
  "ev_env \<Rightarrow> write_fault \<Rightarrow> real \<Rightarrow> pystr \<Rightarrow> pystr \<Rightarrow> event_store \<Rightarrow> (event_error, unit, event_store) res" where
  "update_dead_letter ee flt failed_at eid err s =
     (case bounded_error ee (bounds s) err of
        Inl x \<Rightarrow> (Inl x, s)
      | Inr be \<Rightarrow>
          mutate ee flt (\<lambda>st.
            if has_letter eid (dead_letters st) then
              (let ls = update_first eid (fail_again be failed_at) (dead_letters st)
               in bind_sum (validate_dead_letters ee (bounds s) ls) (\<lambda>_. Inr ((), st\<lparr>dead_letters := ls\<rparr>)))
            else Inr ((), st)) s)"

definition remove_dead_letter :: "ev_env \<Rightarrow> write_fault \<Rightarrow> pystr \<Rightarrow> event_store \<Rightarrow> (event_error, unit, event_store) res" where
  "remove_dead_letter ee flt eid s =
     mutate ee flt (\<lambda>st. Inr ((), st\<lparr>dead_letters := filter (\<lambda>l. event_id (dl_event l) \<noteq> eid) (dead_letters st)\<rparr>)) s"

section \<open>Claims on deliveries\<close>

definition claim_replay_token ::
  "ev_env \<Rightarrow> write_fault \<Rightarrow> pystr \<Rightarrow> real \<Rightarrow> real \<Rightarrow> event_store \<Rightarrow> (event_error, bool, event_store) res" where
  "claim_replay_token ee flt tok expires now s =
     mutate ee flt (\<lambda>st.
       let live = filter (\<lambda>(k, x). x > now) (replay_tokens st)
       in if tok \<in> fst ` set live then Inr (False, st\<lparr>replay_tokens := live\<rparr>)
          else if int (length live) \<ge> max_replay_tokens (bounds s)
          then backpressure ''webhook replay claim capacity is exhausted''
          else Inr (True, st\<lparr>replay_tokens := live @ [(tok, expires)]\<rparr>)) s"

section \<open>Opening and closing\<close>

definition bounds_positive :: "store_bounds \<Rightarrow> bool" where
  "bounds_positive b \<longleftrightarrow> list_all (\<lambda>v. 0 < v)
     [max_seen_events b, max_replay_tokens b, max_dead_letters b, max_dead_letter_bytes b, max_streams b,
      max_state_bytes b, max_payload_bytes b, max_cursor_bytes b, max_error_bytes b]"

definition load_state :: "ev_env \<Rightarrow> store_bounds \<Rightarrow> real \<Rightarrow> event_state option \<Rightarrow> event_error + event_state \<times> bool" where
  "load_state ee b now d =
     (case d of
        None \<Rightarrow> Inr (empty_state, False)
      | Some st \<Rightarrow>
          bind_sum (encoded_size (state_value ee st)) (\<lambda>n.
            if n > max_state_bytes b then backpressure ''existing event state exceeds configured byte limit''
            else
              let live = filter (\<lambda>(k, x). x > now) (replay_tokens st);
                  changed = (length live \<noteq> length (replay_tokens st));
                  st1 = (if changed then st\<lparr>replay_tokens := live\<rparr> else st)
              in bind_sum (validate_state_limits ee b st1) (\<lambda>_. Inr (st1, changed))))"

definition open_store ::
  "ev_env \<Rightarrow> store_bounds \<Rightarrow> bool \<Rightarrow> write_fault \<Rightarrow> real \<Rightarrow> event_state option
    \<Rightarrow> (event_error, event_store, event_state option) res" where
  "open_store ee b locked flt now d =
     (if \<not> bounds_positive b then (event_err ''event state bounds must be positive'', d)
      else if locked then (event_err ''event state file is already owned by another process'', d)
      else case load_state ee b now d of
          Inl e \<Rightarrow> (Inl e, d)
        | Inr (st, changed) \<Rightarrow>
            (let (r, d') = (if changed then persist ee b flt st d else (Inr (), d))
             in case r of
                  Inl e \<Rightarrow> (Inl e, d')
                | Inr _ \<Rightarrow> (Inr \<lparr>bounds = b, est = st, on_disk = d', store_closed = False\<rparr>, d')))"

definition close_store :: "event_store \<Rightarrow> event_store" where
  "close_store s = s\<lparr>store_closed := True\<rparr>"

section \<open>What a mutation can do\<close>

lemma persist_cases:
  "flt = Written \<and> persist ee b flt st d = (Inr (), Some st) \<or> (\<exists>e. persist ee b flt st d = (Inl e, d))
   \<or> (\<exists>e. flt = FailedAfter \<and> persist ee b flt st d = (Inl e, Some st))"
  by (cases "encoded_size (state_value ee st)"; cases flt) (simp_all add: persist_def backpressure_def)

text \<open>The three ways a mutation ends.\<close>

lemma mutate_cases [consumes 1, case_names refused returned replaced]:
  assumes "mutate ee flt f s = (r, s')"
  obtains e where "r = Inl e" "s' = s"
  | a c where "f (est s) = Inr (a, c)" "validate_state_limits ee (bounds s) c = Inr ()" "flt = Written" "r = Inr a"
      "s' = s\<lparr>est := c, on_disk := Some c\<rparr>"
  | e a c where "f (est s) = Inr (a, c)" "validate_state_limits ee (bounds s) c = Inr ()" "flt = FailedAfter" "r = Inl e"
      "s' = s\<lparr>on_disk := Some c\<rparr>"
proof -
  consider (no) e where "mutate ee flt f s = (Inl e, s)"
    | (go) a c where "f (est s) = Inr (a, c)" "validate_state_limits ee (bounds s) c = Inr ()"
      "mutate ee flt f s = (case persist ee (bounds s) flt c (on_disk s) of
             (Inl e, d) \<Rightarrow> (Inl e, s\<lparr>on_disk := d\<rparr>) | (Inr _, d) \<Rightarrow> (Inr a, s\<lparr>est := c, on_disk := d\<rparr>))"
  proof (cases "bind_sum (ensure_open s) (\<lambda>_. bind_sum (f (est s)) (\<lambda>(a, c).
        bind_sum (validate_state_limits ee (bounds s) c) (\<lambda>_. Inr (a, c))))")
    case (Inl e)
    then show ?thesis by (intro no [of e]) (simp only: mutate_def sum.case)
  next
    case (Inr ac)
    obtain a c where ac: "ac = (a, c)" by fastforce
    from Inr have "f (est s) = Inr (a, c)" "validate_state_limits ee (bounds s) c = Inr ()"
      by (auto simp: bind_sum_Inr ac)
    then show ?thesis by (rule go) (simp only: mutate_def Inr ac sum.case prod.case)
  qed
  then show thesis
  proof cases
    case no
    with assms have "r = Inl e" "s' = s" by simp_all
    then show ?thesis by (rule that(1))
  next
    case go
    consider (w) "flt = Written" "persist ee (bounds s) flt c (on_disk s) = (Inr (), Some c)"
      | (k) e where "persist ee (bounds s) flt c (on_disk s) = (Inl e, on_disk s)"
      | (a) e where "flt = FailedAfter" "persist ee (bounds s) flt c (on_disk s) = (Inl e, Some c)"
      using persist_cases [of flt ee "bounds s" c "on_disk s"] by blast
    then show ?thesis
    proof cases
      case w
      have "r = Inr a" "s' = s\<lparr>est := c, on_disk := Some c\<rparr>" using assms go(3) w(2) by simp_all
      with that(2) [OF go(1,2) w(1)] show ?thesis by blast
    next
      case (k e)
      have "r = Inl e" "s' = s" using assms go(3) k by simp_all
      then show ?thesis by (rule that(1))
    next
      case (a e)
      have "r = Inl e" "s' = s\<lparr>on_disk := Some c\<rparr>" using assms go(3) a(2) by simp_all
      with that(3) [OF go(1,2) a(1)] show ?thesis by blast
    qed
  qed
qed

lemma bounds_mutate [frame]: "bounds (snd (mutate ee flt f s)) = bounds s"
proof -
  obtain r s' where m: "mutate ee flt f s = (r, s')" by fastforce
  show ?thesis unfolding m using m by (cases rule: mutate_cases) simp_all
qed

section \<open>Checkpoints only move forward\<close>

definition ahead :: "event_state \<Rightarrow> event_state \<Rightarrow> bool" where
  "ahead st st' \<longleftrightarrow> (\<forall>k c. map_of (checkpoints st) k = Some c
     \<longrightarrow> (\<exists>c'. map_of (checkpoints st') k = Some c' \<and> ck_position c \<le> ck_position c'))"

lemma ahead_same: "checkpoints st' = checkpoints st \<Longrightarrow> ahead st st'"
  by (simp add: ahead_def)

lemma ahead_trans: "ahead a b \<Longrightarrow> ahead b c \<Longrightarrow> ahead a c"
  by (fastforce simp: ahead_def)

lemma ahead_empty: "ahead empty_state st"
  by (simp add: ahead_def empty_state_def)

lemma ahead_advance: "advance_checkpoint ee b now e st = Inr st' \<Longrightarrow> ahead st st'"
proof -
  assume "advance_checkpoint ee b now e st = Inr st'"
  then obtain key new where st': "st' = st\<lparr>checkpoints := AList.update key new (checkpoints st)\<rparr>"
    and pos: "\<And>c. map_of (checkpoints st) key = Some c \<Longrightarrow> ck_position c \<le> ck_position new"
    by (cases "map_of (checkpoints st) (projr (checkpoint_key ee e))")
      (fastforce simp: advance_checkpoint_def bind_sum_Inr Let_def event_err_def backpressure_def split: if_splits)+
  then show ?thesis by (auto simp: ahead_def)
qed

lemma checkpoints_remember [simp]: "checkpoints (remember_seen b eid st) = checkpoints st"
  by (simp add: remember_seen_def Let_def)

lemma ahead_commit: "commit_event ee b now e st = Inr st' \<Longrightarrow> ahead st st'"
  by (auto simp: commit_event_def bind_sum_Inr intro: ahead_trans [OF ahead_advance ahead_same])

text \<open>What is on disk is never behind what the process knows.\<close>

definition durable :: "event_store \<Rightarrow> bool" where
  "durable s \<longleftrightarrow> (case on_disk s of None \<Rightarrow> est s = empty_state | Some d \<Rightarrow> ahead (est s) d)"

lemma mutate_ahead:
  assumes "\<And>a c. f (est s) = Inr (a, c) \<Longrightarrow> ahead (est s) c" "durable s"
  shows "durable (snd (mutate ee flt f s)) \<and> ahead (est s) (est (snd (mutate ee flt f s)))"
proof -
  obtain r s' where m: "mutate ee flt f s = (r, s')" by fastforce
  show ?thesis unfolding m using m assms
    by (cases rule: mutate_cases) (auto simp: durable_def ahead_same)
qed

text \<open>
  The operations of the store, and a restart of the process on the file it left. \<open>t\<close> bounds the
  clock readings at which claims are dropped.
\<close>

inductive store_step :: "ev_env \<Rightarrow> real \<Rightarrow> event_store \<Rightarrow> event_store \<Rightarrow> bool" for ee t where
  step_complete: "store_step ee t s (snd (complete ee flt now e s))"
| step_dead_letter: "store_step ee t s (snd (dead_letter ee flt failed_at now e err retryable s))"
| step_update: "store_step ee t s (snd (update_dead_letter ee flt now eid err s))"
| step_remove: "store_step ee t s (snd (remove_dead_letter ee flt eid s))"
| step_claim: "now \<le> t \<Longrightarrow> store_step ee t s (snd (claim_replay_token ee flt tok expires now s))"
| step_close: "store_step ee t s (close_store s)"
| step_reopen: "open_store ee b False flt now (on_disk s) = (Inr s', d) \<Longrightarrow> now \<le> t \<Longrightarrow> store_step ee t s s'"

lemmas store_op_defs = complete_def dead_letter_def update_dead_letter_def remove_dead_letter_def claim_replay_token_def

lemma load_state_ahead: "load_state ee b now (Some st) = Inr (st', changed) \<Longrightarrow> checkpoints st' = checkpoints st"
  by (auto simp: load_state_def bind_sum_Inr backpressure_def Let_def split: if_splits)

lemma open_store_Inr:
  assumes "open_store ee b locked flt now d = (Inr s', d')"
  shows "(\<exists>changed. load_state ee b now d = Inr (est s', changed) \<and> (if changed then on_disk s' = Some (est s') else on_disk s' = d))
    \<and> bounds s' = b \<and> d' = on_disk s' \<and> bounds_positive b"
proof -
  have pos: "bounds_positive b" "\<not> locked" using assms by (auto simp: open_store_def event_err_def split: if_splits)
  obtain st changed where ld: "load_state ee b now d = Inr (st, changed)"
    using assms pos by (cases "load_state ee b now d") (auto simp: open_store_def)
  define p where "p = (if changed then persist ee b flt st d else (Inr (), d))"
  have "open_store ee b locked flt now d = (let (r, d') = p in case r of Inl e \<Rightarrow> (Inl e, d')
      | Inr _ \<Rightarrow> (Inr \<lparr>bounds = b, est = st, on_disk = d', store_closed = False\<rparr>, d'))"
    by (simp add: open_store_def pos ld p_def)
  with assms have "fst p = Inr ()" "s' = \<lparr>bounds = b, est = st, on_disk = snd p, store_closed = False\<rparr>" "d' = snd p"
    by (auto simp: case_prod_beta split: sum.splits)
  moreover have "snd p = Some st" if "fst p = Inr ()" changed
    using that persist_cases [of flt ee b st d] by (auto simp: p_def)
  moreover have "snd p = d" if "\<not> changed" using that by (simp add: p_def)
  ultimately show ?thesis using ld pos by auto
qed

lemma open_store_ahead:
  assumes "open_store ee b locked flt now (on_disk s) = (Inr s', d')" "durable s"
  shows "durable s' \<and> ahead (est s) (est s')"
proof -
  obtain changed where ld: "load_state ee b now (on_disk s) = Inr (est s', changed)"
    and dk: "if changed then on_disk s' = Some (est s') else on_disk s' = on_disk s"
    using open_store_Inr [OF assms(1)] by blast
  show ?thesis
  proof (cases "on_disk s")
    case None
    with ld dk assms(2) show ?thesis by (auto simp: load_state_def durable_def ahead_empty)
  next
    case (Some d)
    with ld have "checkpoints (est s') = checkpoints d" using load_state_ahead by metis
    with Some dk assms(2) show ?thesis
      by (auto simp: durable_def ahead_def split: if_splits)
  qed
qed

lemma store_step_ahead: "store_step ee t s s' \<Longrightarrow> durable s \<Longrightarrow> durable s' \<and> ahead (est s) (est s')"
proof (induction rule: store_step.induct)
  case (step_complete s flt now e)
  then show ?case unfolding complete_def
    by (intro mutate_ahead) (auto simp: bind_sum_Inr intro: ahead_commit)
next
  case (step_dead_letter s flt failed_at now e err retryable)
  have "ahead (est s) c" if "commit_event ee (bounds s) now e (est s\<lparr>dead_letters := ls\<rparr>) = Inr c" for c ls
    using ahead_commit [OF that] by (simp add: ahead_def)
  with step_dead_letter show ?case unfolding dead_letter_def
    by (cases "bounded_error ee (bounds s) err")
      (simp_all add: ahead_same, intro mutate_ahead, auto simp: bind_sum_Inr Let_def)
next
  case (step_update s flt now eid err)
  then show ?case unfolding update_dead_letter_def
    by (cases "bounded_error ee (bounds s) err")
      (simp_all add: ahead_same, intro mutate_ahead, auto simp: bind_sum_Inr Let_def split: if_splits intro: ahead_same)
next
  case (step_remove s flt eid)
  then show ?case unfolding remove_dead_letter_def by (intro mutate_ahead) (auto intro: ahead_same)
next
  case (step_claim now s flt tok expires)
  then show ?case unfolding claim_replay_token_def
    by (intro mutate_ahead) (auto simp: Let_def backpressure_def split: if_splits intro: ahead_same)
next
  case (step_close s)
  then show ?case by (cases "on_disk s") (simp_all add: close_store_def durable_def ahead_same)
next
  case (step_reopen b flt now s s' d)
  then show ?case using open_store_ahead by blast
qed

section \<open>The state stays within its bounds\<close>

definition counts_within :: "ev_env \<Rightarrow> store_bounds \<Rightarrow> event_state \<Rightarrow> bool" where
  "counts_within ee b st \<longleftrightarrow> int (length (checkpoints st)) \<le> max_streams b
     \<and> int (length (seen_events st)) \<le> max_seen_events b
     \<and> int (length (replay_tokens st)) \<le> max_replay_tokens b
     \<and> int (length (dead_letters st)) \<le> max_dead_letters b
     \<and> (\<exists>n. dead_letter_bytes ee (dead_letters st) = Inr n \<and> n \<le> max_dead_letter_bytes b)"

definition size_within :: "ev_env \<Rightarrow> store_bounds \<Rightarrow> event_state \<Rightarrow> bool" where
  "size_within ee b st \<longleftrightarrow> (\<exists>n. encoded_size (state_value ee st) = Inr n \<and> n \<le> max_state_bytes b)"

lemma validated_letters:
  "validate_dead_letters ee b ls = Inr u \<Longrightarrow> int (length ls) \<le> max_dead_letters b
     \<and> (\<exists>n. dead_letter_bytes ee ls = Inr n \<and> n \<le> max_dead_letter_bytes b)"
  by (auto simp: validate_dead_letters_def bind_sum_Inr backpressure_def split: if_splits)

lemma validated_within:
  assumes "validate_state_limits ee b st = Inr u"
  shows "counts_within ee b st \<and> size_within ee b st"
proof -
  obtain v n where "validate_dead_letters ee b (dead_letters st) = Inr v" "int (length (checkpoints st)) \<le> max_streams b"
      "int (length (seen_events st)) \<le> max_seen_events b" "int (length (replay_tokens st)) \<le> max_replay_tokens b"
      "encoded_size (state_value ee st) = Inr n" "n \<le> max_state_bytes b"
    using assms by (auto simp: validate_state_limits_def bind_sum_Inr backpressure_def split: if_splits)
  then show ?thesis using validated_letters [of ee b "dead_letters st" v] by (simp add: counts_within_def size_within_def)
qed

lemma empty_within: "bounds_positive b \<Longrightarrow> counts_within ee b empty_state"
  by (simp add: counts_within_def empty_state_def dead_letter_bytes_def bounds_positive_def)

definition store_within :: "ev_env \<Rightarrow> event_store \<Rightarrow> bool" where
  "store_within ee s \<longleftrightarrow> counts_within ee (bounds s) (est s) \<and> (est s = empty_state \<or> size_within ee (bounds s) (est s))"

lemma mutate_within: "store_within ee s \<Longrightarrow> store_within ee (snd (mutate ee flt f s))"
proof -
  assume s: "store_within ee s"
  obtain r s' where m: "mutate ee flt f s = (r, s')" by fastforce
  show ?thesis unfolding m using m s
    by (cases rule: mutate_cases) (auto simp: store_within_def dest: validated_within)
qed

lemma open_within: "open_store ee b locked flt now d = (Inr s, d') \<Longrightarrow> store_within ee s"
proof -
  assume "open_store ee b locked flt now d = (Inr s, d')"
  from open_store_Inr [OF this] obtain changed where ld: "load_state ee b now d = Inr (est s, changed)"
    and b: "bounds s = b" "bounds_positive b" by blast
  have "est s = empty_state \<or> validate_state_limits ee b (est s) = Inr ()"
    using ld by (cases d) (auto simp: load_state_def bind_sum_Inr backpressure_def Let_def split: if_splits)
  with b show ?thesis by (auto simp: store_within_def empty_within dest: validated_within)
qed

lemma store_step_within: "store_step ee t s s' \<Longrightarrow> store_within ee s \<Longrightarrow> store_within ee s'"
proof (induction rule: store_step.induct)
  case (step_reopen b flt now s s' d)
  then show ?case by (simp add: open_within)
next
  case (step_close s)
  then show ?case by (simp add: close_store_def store_within_def)
qed (auto simp: store_op_defs mutate_within split: sum.split)


definition roomy :: store_bounds where
  "roomy = \<lparr>max_seen_events = 2, max_replay_tokens = 1, max_dead_letters = 2, max_dead_letter_bytes = 1000,
     max_streams = 2, max_state_bytes = 2000, max_payload_bytes = 100, max_cursor_bytes = 10, max_error_bytes = 20\<rparr>"

definition fresh_store :: event_store where
  "fresh_store = \<lparr>bounds = roomy, est = empty_state, on_disk = None, store_closed = False\<rparr>"

lemma open_fresh: "open_store plain_env roomy False Written 0 None = (Inr fresh_store, None)"
  by (simp add: open_store_def roomy_def bounds_positive_def load_state_def fresh_store_def)


section \<open>Claims last until they expire\<close>

definition held :: "pystr \<Rightarrow> real \<Rightarrow> event_state \<Rightarrow> bool" where
  "held tok t st \<longleftrightarrow> (\<exists>x. (tok, x) \<in> set (replay_tokens st) \<and> t < x)"

definition claimed :: "pystr \<Rightarrow> real \<Rightarrow> event_store \<Rightarrow> bool" where
  "claimed tok t s \<longleftrightarrow> held tok t (est s) \<and> (\<exists>d. on_disk s = Some d \<and> held tok t d)"

lemma held_same: "replay_tokens st' = replay_tokens st \<Longrightarrow> held tok t st' = held tok t st"
  by (simp add: held_def)

lemma held_live: "held tok t st \<Longrightarrow> now \<le> t \<Longrightarrow> \<exists>x. (tok, x) \<in> set (filter (\<lambda>(k, x). x > now) (replay_tokens st)) \<and> t < x"
  by (fastforce simp: held_def)

lemma mutate_claimed:
  assumes "\<And>a c. f (est s) = Inr (a, c) \<Longrightarrow> held tok t c" "claimed tok t s"
  shows "claimed tok t (snd (mutate ee flt f s))"
proof -
  obtain r s' where m: "mutate ee flt f s = (r, s')" by fastforce
  show ?thesis unfolding m using m assms by (cases rule: mutate_cases) (auto simp: claimed_def)
qed

lemma tokens_remember [simp]: "replay_tokens (remember_seen b eid st) = replay_tokens st"
  by (simp add: remember_seen_def Let_def)

lemma tokens_commit: "commit_event ee b now e st = Inr st' \<Longrightarrow> replay_tokens st' = replay_tokens st"
  by (auto simp: commit_event_def advance_checkpoint_def bind_sum_Inr Let_def event_err_def backpressure_def
      split: option.splits if_splits)

lemma load_state_held:
  assumes "load_state ee b now (Some st) = Inr (st', changed)" "held tok t st" "now \<le> t"
  shows "held tok t st'"
proof -
  obtain x where "(tok, x) \<in> set (replay_tokens st)" "t < x" "now < x" using assms(2,3) by (auto simp: held_def)
  with assms(1) show ?thesis
    by (auto simp: load_state_def bind_sum_Inr backpressure_def Let_def held_def split: if_splits intro!: exI [of _ x])
qed

lemma store_step_claimed: "store_step ee t s s' \<Longrightarrow> claimed tok t s \<Longrightarrow> claimed tok t s'"
proof (induction rule: store_step.induct)
  case (step_complete s flt now e)
  then show ?case unfolding complete_def
    by (intro mutate_claimed) (auto simp: bind_sum_Inr claimed_def dest!: tokens_commit held_same)
next
  case (step_dead_letter s flt failed_at now e err retryable)
  have "held tok t c" if "commit_event ee (bounds s) now e (est s\<lparr>dead_letters := ls\<rparr>) = Inr c" for c ls
    using tokens_commit [OF that] step_dead_letter by (simp add: claimed_def held_def)
  with step_dead_letter show ?case unfolding dead_letter_def
    by (cases "bounded_error ee (bounds s) err") (simp_all, intro mutate_claimed, auto simp: bind_sum_Inr Let_def)
next
  case (step_update s flt now eid err)
  then have "held tok t (est s\<lparr>dead_letters := ls\<rparr>)" for ls by (simp add: claimed_def held_def)
  with step_update show ?case unfolding update_dead_letter_def
    by (cases "bounded_error ee (bounds s) err")
      (simp_all, intro mutate_claimed, auto simp: bind_sum_Inr Let_def claimed_def split: if_splits)
next
  case (step_remove s flt eid)
  then show ?case unfolding remove_dead_letter_def by (intro mutate_claimed) (auto simp: claimed_def held_def)
next
  case (step_claim now s flt tok' expires)
  have "held tok t (est s)" using step_claim by (simp add: claimed_def)
  from held_live [OF this step_claim(1)] step_claim(2) show ?case unfolding claim_replay_token_def
    by (intro mutate_claimed) (auto simp: Let_def backpressure_def held_def split: if_splits)
next
  case (step_close s)
  then show ?case by (simp add: close_store_def claimed_def)
next
  case (step_reopen b flt now s s' d)
  obtain d0 where d0: "on_disk s = Some d0" "held tok t d0" using step_reopen by (auto simp: claimed_def)
  from open_store_Inr [OF step_reopen(1)] obtain changed where
    "load_state ee b now (Some d0) = Inr (est s', changed)" "if changed then on_disk s' = Some (est s') else on_disk s' = Some d0"
    using d0(1) by auto
  with load_state_held [OF this(1) d0(2) step_reopen(2)] d0(2) show ?case by (auto simp: claimed_def split: if_splits)
qed

text \<open>Of two successful claims on the same token, the second comes only after the first has expired.\<close>

lemma claim_cases:
  assumes "claim_replay_token ee flt tok x now s = (Inr ok, s')"
  shows "ok \<longleftrightarrow> \<not> held tok now (est s)" "ok \<Longrightarrow> t < x \<Longrightarrow> claimed tok t s'"
proof -
  obtain c where c: "s' = s\<lparr>est := c, on_disk := Some c\<rparr>"
    and f: "(let live = filter (\<lambda>(k, x). x > now) (replay_tokens (est s))
       in if tok \<in> fst ` set live then Inr (False, (est s)\<lparr>replay_tokens := live\<rparr>)
          else if int (length live) \<ge> max_replay_tokens (bounds s)
          then backpressure ''webhook replay claim capacity is exhausted''
          else Inr (True, (est s)\<lparr>replay_tokens := live @ [(tok, x)]\<rparr>)) = Inr (ok, c)"
    using assms unfolding claim_replay_token_def by (cases rule: mutate_cases) auto
  have live: "tok \<in> fst ` set (filter (\<lambda>(k, x). x > now) (replay_tokens (est s))) \<longleftrightarrow> held tok now (est s)"
    by (force simp: held_def)
  show "ok \<longleftrightarrow> \<not> held tok now (est s)"
    using f unfolding Let_def live by (auto simp: backpressure_def split: if_splits)
  show "ok \<Longrightarrow> t < x \<Longrightarrow> claimed tok t s'"
    using f unfolding Let_def live by (auto simp: c claimed_def held_def backpressure_def split: if_splits)
qed

lemma second_claim_late:
  assumes "claim_replay_token ee flt tok x now s = (Inr True, s1)" "(store_step ee t)\<^sup>*\<^sup>* s1 s2"
    and "claim_replay_token ee flt' tok x' t s2 = (Inr True, s3)"
  shows "x \<le> t"
proof (rule ccontr)
  assume "\<not> x \<le> t"
  with claim_cases(2) [OF assms(1)] have "claimed tok t s1" by simp
  with assms(2) have "claimed tok t s2" by (induction rule: rtranclp_induct) (auto dest: store_step_claimed)
  with claim_cases(1) [OF assms(3)] show False by (simp add: claimed_def)
qed

section \<open>Any number of steps\<close>

lemma fresh_durable: "open_store ee b locked flt now None = (Inr s, d') \<Longrightarrow> durable s"
  using open_store_Inr [of ee b locked flt now None s d']
  by (auto simp: load_state_def durable_def ahead_same split: if_splits option.splits)

lemma store_steps_ahead:
  "(store_step ee t)\<^sup>*\<^sup>* s s' \<Longrightarrow> durable s \<Longrightarrow> durable s' \<and> ahead (est s) (est s')"
  by (induction rule: rtranclp_induct) (auto simp: ahead_same dest: store_step_ahead intro: ahead_trans)

end
