(* ===== verification/Event_Ingest.thy ===== *)
theory Event_Ingest
  imports Event_Store Resp_Server
begin

text \<open>
  \<open>EventIngestor\<close>, \<open>WebhookAuthenticator\<close> and \<open>EventAutomation\<close> of
  \<open>src/src/megacache/events.py\<close>: change events become bounded invalidations of the storage, once
  per event, through the durable state of theory \<open>Event_Store\<close>.

  \<^item> The storage is any \<open>backend\<close> of theory \<open>Resp_Server\<close>; \<open>exc_of\<close> gives \<open>str\<close> of its exceptions.
  \<^item> \<open>self._lock\<close> and the transaction of the store make every call atomic.
  \<^item> The Python sets of keys and tags are lists without repetition in order of insertion. The
    order matters only for which of the two bounds of the graph is reported first.
  \<^item> \<open>hmac.new(secret, data, sha256).digest()\<close> is the parameter \<open>mac\<close>; log output is not modelled.
\<close>

section \<open>Texts of exceptions\<close>

fun graph_text :: "graph_error \<Rightarrow> pystr" where
  "graph_text BoundsNotPositive = lit ''graph bounds must be positive''"
| "graph_text BadCacheKey = lit ''cache key must contain 1 to 1024 UTF-8 bytes''"
| "graph_text KeyNotEncodable = lit ''surrogates not allowed''"
| "graph_text CreatesCycle = lit ''dependency would create a cycle''"
| "graph_text NodeLimit = lit ''dependency graph node limit exceeded''"
| "graph_text EdgeLimit = lit ''dependency graph edge limit exceeded''"
| "graph_text FanoutLimit = lit ''dependency graph fanout limit exceeded''"
| "graph_text InvalidationLimit = lit ''dependency invalidation node limit exceeded''"
| "graph_text DepthLimit = lit ''dependency invalidation depth limit exceeded''"

definition disabled_text :: pystr where
  "disabled_text = lit ''event ingestion is disabled because no rules are configured''"

fun exc_text :: "event_error \<Rightarrow> pystr" where
  "exc_text (EventError m) = m"
| "exc_text (SchemaCompatibilityError m) = m"
| "exc_text (DependencyGraphError g) = graph_text g"
| "exc_text (WebhookAuthError m) = m"
| "exc_text (EventBackpressure m) = m"
| "exc_text EventIngestionDisabled = disabled_text"
| "exc_text (OtherException m) = m"

section \<open>The ingestor\<close>

record ('s, 'e) ingest_env =
  ig_env :: ev_env
  ig_backend :: "('s, 'e) backend"
  exc_of :: "'e \<Rightarrow> pystr"

record 's ingestor =
  ig_storage :: 's
  ig_store :: event_store
  ig_rules :: "rule list"
  ig_graph :: graph
  ig_schemas :: registry
  ig_namespaces :: "(pystr \<times> namespace) list"
  ig_metrics :: "string \<Rightarrow> int"

record event_result =
  outcome :: string
  rs_event_id :: pystr
  rs_checkpoint :: int
  invalidated_keys :: int
  invalidated_tags :: int
  graph_expanded :: int
  graph_truncated :: bool
  rs_error :: "pystr option"

record ingest_draw =
  dr_stamp :: real
  dr_capacity :: real
  dr_commit :: real
  dr_failed :: real
  dr_fault :: write_fault

text \<open>A namespace that is no string is not in the dictionary; a list or an object is unhashable.\<close>

definition check_namespace :: "(pystr \<times> namespace) list \<Rightarrow> rule \<Rightarrow> event_error + unit" where
  "check_namespace ns r =
     (case rl_namespace r of
        PNone \<Rightarrow> Inr ()
      | PStr n \<Rightarrow>
          (if map_of ns n \<noteq> None then Inr ()
           else Inl (EventError (lit ''rule '' @ quoted (rl_name r) @ lit '' references unknown namespace '' @ quoted n)))
      | v \<Rightarrow>
          (if hashable v then Inl (EventError (lit ''rule '' @ quoted (rl_name r) @ lit '' references unknown namespace''))
           else Inl (OtherException (lit ''unhashable type''))))"

definition make_ingestor ::
  "'s \<Rightarrow> event_store \<Rightarrow> rule list \<Rightarrow> graph \<Rightarrow> registry \<Rightarrow> namespace list \<Rightarrow> event_error + 's ingestor" where
  "make_ingestor S st rules g rg nss =
     (let ns = fold (\<lambda>n d. AList.update (ns_name n) n d) nss []
      in if length ns \<noteq> length nss then event_err ''duplicate namespace name''
         else bind_sum (map_sum_list (check_namespace ns) rules) (\<lambda>_.
           Inr \<lparr>ig_storage = S, ig_store = st, ig_rules = rules, ig_graph = g, ig_schemas = rg,
                ig_namespaces = ns, ig_metrics = (\<lambda>_. 0)\<rparr>))"

definition count :: "string \<Rightarrow> int \<Rightarrow> 's ingestor \<Rightarrow> 's ingestor" where
  "count name n I = I\<lparr>ig_metrics := bump name n (ig_metrics I)\<rparr>"

definition set_update :: "pystr list \<Rightarrow> pystr list \<Rightarrow> pystr list" where
  "set_update xs ys = xs @ remdups (filter (\<lambda>y. y \<notin> set xs) ys)"

lemma set_set_update [simp]: "set (set_update xs ys) = set xs \<union> set ys"
  by (auto simp: set_update_def)

definition rule_keys :: "(pystr \<times> namespace) list \<Rightarrow> rule \<Rightarrow> pystr list \<Rightarrow> event_error + pystr list" where
  "rule_keys ns r ks =
     (case rl_namespace r of
        PStr n \<Rightarrow>
          (case map_of ns n of
             None \<Rightarrow> Inl (OtherException (quoted n))
           | Some sp \<Rightarrow> bind_sum (map_sum_list (invalidation_keys sp) ks) (\<lambda>kss. Inr (concat kss)))
      | _ \<Rightarrow> Inr ks)"

fun gather ::
  "ev_env \<Rightarrow> (pystr \<times> namespace) list \<Rightarrow> event \<Rightarrow> rule list \<Rightarrow> pystr list \<times> pystr list
    \<Rightarrow> event_error + pystr list \<times> pystr list" where
  "gather ee ns e [] acc = Inr acc"
| "gather ee ns e (r # rs) acc =
     bind_sum (rule_matches ee r e) (\<lambda>m.
       if \<not> m then gather ee ns e rs acc
       else bind_sum (render ee r e) (\<lambda>(ks, ts).
         bind_sum (rule_keys ns r ks) (\<lambda>qs.
           gather ee ns e rs (set_update (fst acc) qs, set_update (snd acc) ts))))"

definition storage_call ::
  "('s, 'e) ingest_env \<Rightarrow> ('s \<Rightarrow> ('e, 'a, 's) res) \<Rightarrow> 's ingestor \<Rightarrow> (event_error, 'a, 's ingestor) res" where
  "storage_call IE f I =
     (case f (ig_storage I) of
        (Inl e, S) \<Rightarrow> (Inl (OtherException (exc_of IE e)), I\<lparr>ig_storage := S\<rparr>)
      | (Inr a, S) \<Rightarrow> (Inr a, I\<lparr>ig_storage := S\<rparr>))"

definition apply_event ::
  "('s, 'e) ingest_env \<Rightarrow> event \<Rightarrow> 's ingestor \<Rightarrow> (event_error, event_result, 's ingestor) res" where
  "apply_event IE e I =
     (case gather (ig_env IE) (ig_namespaces I) e (ig_rules I) ([], []) of
        Inl x \<Rightarrow> (Inl x, I)
      | Inr (ks, ts) \<Rightarrow>
          (case expand (ig_graph I) ks of
             Inl g \<Rightarrow> (Inl (DependencyGraphError g), I)
           | Inr (expanded, truncated) \<Rightarrow>
               bind_res (if expanded \<noteq> [] then storage_call IE (be_delete_many (ig_backend IE) expanded) I
                         else (Inr 0, I)) (\<lambda>nk I1.
               bind_res (if ts \<noteq> [] then storage_call IE (be_invalidate_tags (ig_backend IE) (PList (map PStr (sort ts)))) I1
                         else (Inr 0, I1)) (\<lambda>nt I2.
                 (Inr \<lparr>outcome = ''processed'', rs_event_id = event_id e, rs_checkpoint = ev_position e,
                       invalidated_keys = nk, invalidated_tags = nt,
                       graph_expanded = max 0 (int (length expanded) - int (length ks)),
                       graph_truncated = truncated, rs_error = None\<rparr>, I2)))))"

definition result_for ::
  "('s, 'e) ingest_env \<Rightarrow> string \<Rightarrow> event \<Rightarrow> pystr option \<Rightarrow> 's ingestor \<Rightarrow> event_error + event_result" where
  "result_for IE out e err I =
     bind_sum (checkpoint_key (ig_env IE) e) (\<lambda>key.
     bind_sum (store_checkpoint key (ig_store I)) (\<lambda>c.
       Inr \<lparr>outcome = out, rs_event_id = event_id e,
            rs_checkpoint = (case c of None \<Rightarrow> ev_position e | Some k \<Rightarrow> ck_position k),
            invalidated_keys = 0, invalidated_tags = 0, graph_expanded = 0, graph_truncated = False, rs_error = err\<rparr>))"

definition on_store ::
  "(event_store \<Rightarrow> (event_error, 'a, event_store) res) \<Rightarrow> 's ingestor \<Rightarrow> (event_error, 'a, 's ingestor) res" where
  "on_store f I = (case f (ig_store I) of (r, s) \<Rightarrow> (r, I\<lparr>ig_store := s\<rparr>))"

text \<open>The part of \<open>ingest\<close> before anything is applied: a verdict, or the go-ahead.\<close>

datatype verdict = Duplicate | Replayed | Proceed

definition admit :: "('s, 'e) ingest_env \<Rightarrow> ingest_draw \<Rightarrow> event \<Rightarrow> 's ingestor \<Rightarrow> event_error + verdict" where
  "admit IE dr e I =
     (if ig_rules I = [] then Inl EventIngestionDisabled
      else
        bind_sum (ensure_open (ig_store I)) (\<lambda>_.
        bind_sum (validate_event (ig_env IE) (bounds (ig_store I)) e) (\<lambda>_.
        bind_sum (is_seen (event_id e) (ig_store I)) (\<lambda>seen.
        if seen then Inr Duplicate
        else
        bind_sum (checkpoint_key (ig_env IE) e) (\<lambda>key.
        bind_sum (store_checkpoint key (ig_store I)) (\<lambda>c.
        if (case c of None \<Rightarrow> False | Some k \<Rightarrow> ev_position e \<le> ck_position k) then Inr Replayed
        else
        bind_sum (ensure_complete_capacity (ig_env IE) (dr_capacity dr) e (ig_store I)) (\<lambda>_. Inr Proceed)))))))"

definition process ::
  "('s, 'e) ingest_env \<Rightarrow> event \<Rightarrow> 's ingestor \<Rightarrow> (event_error, event_result, 's ingestor) res" where
  "process IE e I =
     (case prepare (ig_env IE) (ig_schemas I) e of Inl x \<Rightarrow> (Inl x, I) | Inr p \<Rightarrow> apply_event IE p I)"

definition finish ::
  "('s, 'e) ingest_env \<Rightarrow> ingest_draw \<Rightarrow> event \<Rightarrow> (event_error, event_result, 's ingestor) res
    \<Rightarrow> (event_error, event_result, 's ingestor) res" where
  "finish IE dr e done_so_far =
     (case done_so_far of
        (Inl (DependencyGraphError g), I) \<Rightarrow> (Inl (DependencyGraphError g), count ''graph_rejected_total'' 1 I)
      | (Inl (EventBackpressure m), I) \<Rightarrow> (Inl (EventBackpressure m), I)
      | (Inl x, I) \<Rightarrow>
          bind_res (on_store (dead_letter (ig_env IE) (dr_fault dr) (dr_failed dr) (dr_commit dr) e (exc_text x) True) I)
            (\<lambda>_ I1. lift_sum (result_for IE ''dead_letter'' e (Some (exc_text x)) I1) (count ''dead_lettered_total'' 1 I1))
      | (Inr r, I) \<Rightarrow>
          bind_res (on_store (complete (ig_env IE) (dr_fault dr) (dr_commit dr) e) I)
            (\<lambda>_ I1. (Inr r, (if graph_truncated r then count ''graph_truncated_total'' 1 else id)
               (count ''invalidated_tags_total'' (invalidated_tags r)
                 (count ''invalidated_keys_total'' (invalidated_keys r) (count ''processed_total'' 1 I1))))))"

definition ingest ::
  "('s, 'e) ingest_env \<Rightarrow> ingest_draw \<Rightarrow> event \<Rightarrow> 's ingestor \<Rightarrow> (event_error, event_result, 's ingestor) res" where
  "ingest IE dr e I =
     (case admit IE dr e I of
        Inl x \<Rightarrow> (Inl x, I)
      | Inr Duplicate \<Rightarrow> lift_sum (result_for IE ''duplicate'' e None I) (count ''duplicate_total'' 1 I)
      | Inr Replayed \<Rightarrow> lift_sum (result_for IE ''replayed'' e None I) (count ''replayed_total'' 1 I)
      | Inr Proceed \<Rightarrow> finish IE dr e (process IE e I))"

section \<open>Retrying dead letters\<close>

record retry_report =
  rt_retried :: int
  rt_succeeded :: int
  rt_failed :: int

definition retry_one ::
  "('s, 'e) ingest_env \<Rightarrow> write_fault \<Rightarrow> real \<Rightarrow> letter \<Rightarrow> 's ingestor \<Rightarrow> (event_error, bool, 's ingestor) res" where
  "retry_one IE flt now l I =
     (case reload_event (ig_env IE) (dl_event l) of
        Inl x \<Rightarrow> (Inl x, I)
      | Inr e \<Rightarrow>
          (case process IE e I of
             (Inl x, I1) \<Rightarrow>
               bind_res (on_store (update_dead_letter (ig_env IE) flt now (event_id e) (exc_text x)) I1)
                 (\<lambda>_ I2. (Inr False, I2))
           | (Inr r, I1) \<Rightarrow>
               bind_res (on_store (remove_dead_letter (ig_env IE) flt (event_id e)) I1)
                 (\<lambda>_ I2. (Inr True, count ''retried_total'' 1 I2))))"

text \<open>\<open>faults n\<close> is the fate of the write for the \<open>n\<close>-th letter retried.\<close>

fun retry_loop ::
  "('s, 'e) ingest_env \<Rightarrow> int \<Rightarrow> (int \<Rightarrow> write_fault) \<Rightarrow> real \<Rightarrow> letter list \<Rightarrow> retry_report \<Rightarrow> 's ingestor
    \<Rightarrow> (event_error, retry_report, 's ingestor) res" where
  "retry_loop IE lm faults now [] rp I = (Inr rp, I)"
| "retry_loop IE lm faults now (l # ls) rp I =
     (if rt_retried rp \<ge> lm then (Inr rp, I)
      else if \<not> dl_retryable l \<or> retry_after l > now then retry_loop IE lm faults now ls rp I
      else bind_res (retry_one IE (faults (rt_retried rp)) now l I) (\<lambda>ok I1.
        retry_loop IE lm faults now ls
          (rp\<lparr>rt_retried := rt_retried rp + 1,
              rt_succeeded := rt_succeeded rp + (if ok then 1 else 0),
              rt_failed := rt_failed rp + (if ok then 0 else 1)\<rparr>) I1))"

definition retry_dead_letters ::
  "('s, 'e) ingest_env \<Rightarrow> int \<Rightarrow> (int \<Rightarrow> write_fault) \<Rightarrow> real \<Rightarrow> 's ingestor
    \<Rightarrow> (event_error, retry_report, 's ingestor) res" where
  "retry_dead_letters IE lm faults now I =
     (if lm \<le> 0 then (event_err ''retry limit must be positive'', I)
      else if ig_rules I = [] then (Inl EventIngestionDisabled, I)
      else case ensure_open (ig_store I) of
          Inl x \<Rightarrow> (Inl x, I)
        | Inr _ \<Rightarrow> retry_loop IE lm faults now (dead_letters (est (ig_store I)))
                     \<lparr>rt_retried = 0, rt_succeeded = 0, rt_failed = 0\<rparr> I)"

section \<open>Webhooks\<close>

record webhook_source =
  wh_name :: pystr
  wh_secret :: bytes
  tolerance_seconds :: int

definition make_webhook_source :: "pyval \<Rightarrow> bytes \<Rightarrow> pyval \<Rightarrow> event_error + webhook_source" where
  "make_webhook_source name secret tol =
     bind_sum (validate_identifier name ''webhook name'') (\<lambda>n.
       if length secret < 16 then event_err ''webhook secret must contain at least 16 bytes''
       else case tol of
           PInt t \<Rightarrow> (if t \<le> 0 then event_err ''webhook tolerance must be positive''
                      else Inr \<lparr>wh_name = n, wh_secret = secret, tolerance_seconds = t\<rparr>)
         | _ \<Rightarrow> event_err ''webhook tolerance must be positive'')"

definition make_authenticator :: "webhook_source list \<Rightarrow> event_error + (pystr \<times> webhook_source) list" where
  "make_authenticator srcs =
     (let d = fold (\<lambda>w d. AList.update (wh_name w) w d) srcs []
      in if length d \<noteq> length srcs then event_err ''duplicate webhook source'' else Inr d)"

definition webhook_err :: "string \<Rightarrow> event_error + 'a" where
  "webhook_err msg = Inl (WebhookAuthError (lit msg))"

text \<open>
  The checks before the claim. \<open>now - timestamp\<close> converts the integer to a float, and
  \<open>hmac.compare_digest\<close> refuses text beyond ASCII with \<open>TypeError\<close>.
\<close>

definition check_webhook ::
  "ev_env \<Rightarrow> (bytes \<Rightarrow> bytes \<Rightarrow> bytes) \<Rightarrow> (pystr \<times> webhook_source) list \<Rightarrow> real \<Rightarrow> pystr
    \<Rightarrow> (pystr \<Rightarrow> pystr option) \<Rightarrow> bytes \<Rightarrow> event_error + webhook_source \<times> pystr" where
  "check_webhook ee mac srcs now name headers body =
     (case map_of srcs name of
        None \<Rightarrow> webhook_err ''unknown webhook source''
      | Some w \<Rightarrow>
          (case (headers (lit ''X-MegaCache-Timestamp''), headers (lit ''X-MegaCache-Signature''),
                 headers (lit ''X-MegaCache-Delivery'')) of
             (Some stamp, Some supplied, Some delivery) \<Rightarrow>
               bind_sum (validate_identifier (PStr delivery) ''webhook delivery'') (\<lambda>_.
               case int_of_text ee stamp of
                 None \<Rightarrow> webhook_err ''webhook timestamp must be an integer''
               | Some ts \<Rightarrow>
                   (if \<bar>ts\<bar> \<ge> float_limit then Inl (OtherException (lit ''int too large to convert to float''))
                    else if \<bar>now - real_of_int ts\<bar> > real_of_int (tolerance_seconds w)
                    then webhook_err ''webhook timestamp is outside tolerance''
                    else
                      bind_sum (webhook_signature_payload ee name stamp delivery body) (\<lambda>signed.
                      if \<not> is_ascii supplied
                      then Inl (OtherException (lit ''comparing strings with non-ASCII characters is not supported''))
                      else if supplied \<noteq> lit ''sha256='' @ hex_text (mac (wh_secret w) signed)
                      then webhook_err ''webhook signature is invalid''
                      else Inr (w, delivery))))
           | _ \<Rightarrow> webhook_err ''webhook timestamp, signature, and delivery are required''))"

definition authenticate_webhook ::
  "ev_env \<Rightarrow> (bytes \<Rightarrow> bytes \<Rightarrow> bytes) \<Rightarrow> (pystr \<times> webhook_source) list \<Rightarrow> write_fault \<Rightarrow> real \<Rightarrow> pystr
    \<Rightarrow> (pystr \<Rightarrow> pystr option) \<Rightarrow> bytes \<Rightarrow> event_store \<Rightarrow> (event_error, unit, event_store) res" where
  "authenticate_webhook ee mac srcs flt now name headers body s =
     bind_res (lift_sum (bind_sum (check_webhook ee mac srcs now name headers body) (\<lambda>(w, delivery).
         bind_sum (length_framed_key ee [name, delivery]) (\<lambda>tok. Inr (w, tok)))) s) (\<lambda>(w, tok) s1.
       bind_res (claim_replay_token ee flt tok (now + real_of_int (tolerance_seconds w)) now s1) (\<lambda>ok s2.
         if ok then (Inr (), s2) else (webhook_err ''webhook delivery was already received'', s2)))"

section \<open>The automation facade\<close>

definition ingest_value ::
  "('s, 'e) ingest_env \<Rightarrow> ingest_draw \<Rightarrow> pyval \<Rightarrow> 's ingestor \<Rightarrow> (event_error, event_result, 's ingestor) res" where
  "ingest_value IE dr v I =
     (if ig_rules I = [] then (Inl EventIngestionDisabled, I)
      else case event_from_dict (ig_env IE) (dr_stamp dr) v of Inl x \<Rightarrow> (Inl x, I) | Inr e \<Rightarrow> ingest IE dr e I)"

text \<open>\<open>decoded\<close> is \<open>json.loads(body.decode('utf-8'))\<close>, \<open>None\<close> when it raises.\<close>

definition ingest_webhook ::
  "('s, 'e) ingest_env \<Rightarrow> (bytes \<Rightarrow> bytes \<Rightarrow> bytes) \<Rightarrow> (bytes \<Rightarrow> pyval option) \<Rightarrow> (pystr \<times> webhook_source) list
    \<Rightarrow> ingest_draw \<Rightarrow> write_fault \<Rightarrow> real \<Rightarrow> pystr \<Rightarrow> (pystr \<Rightarrow> pystr option) \<Rightarrow> bytes \<Rightarrow> 's ingestor
    \<Rightarrow> (event_error, event_result, 's ingestor) res" where
  "ingest_webhook IE mac decoded srcs dr flt now name headers body I =
     (if ig_rules I = [] then (Inl EventIngestionDisabled, I)
      else bind_res (on_store (authenticate_webhook (ig_env IE) mac srcs flt now name headers body) I) (\<lambda>_ I1.
        case decoded body of
          None \<Rightarrow> (event_err ''webhook body must be valid JSON'', I1)
        | Some (PDict kvs) \<Rightarrow>
            (let doc = (if map_of kvs (lit ''source'') = None then kvs @ [(lit ''source'', PStr name)] else kvs)
             in if get_or doc ''source'' PNone \<noteq> PStr name
                then (event_err ''webhook event source must match the configured webhook'', I1)
                else ingest_value IE dr (PDict doc) I1)
        | Some _ \<Rightarrow> (event_err ''webhook body must be a JSON object'', I1)))"

definition retry_events ::
  "('s, 'e) ingest_env \<Rightarrow> int \<Rightarrow> (int \<Rightarrow> write_fault) \<Rightarrow> real \<Rightarrow> 's ingestor
    \<Rightarrow> (event_error, retry_report, 's ingestor) res" where
  "retry_events IE lm faults now I =
     (if ig_rules I = [] then (Inl EventIngestionDisabled, I) else retry_dead_letters IE lm faults now I)"

end
