(* ===== verification/Event_Props.thy ===== *)
theory Event_Props
  imports Event_Ingest Resp_Props
begin

text \<open>
  What the event pipeline guarantees: an event takes effect at most once, whatever happens to the
  process in between; a processed event leaves nothing stale behind in the cache; a webhook
  delivery is accepted once. The locale \<open>purging_storage\<close> adds to \<open>confined_storage\<close> what the
  ingestor relies on, and it is interpreted on the engine behind its mutation clock.
\<close>

section \<open>The ingestor drives the store\<close>

abbreviation steps :: "ev_env \<Rightarrow> real \<Rightarrow> event_store \<Rightarrow> event_store \<Rightarrow> bool" where
  "steps ee t \<equiv> (store_step ee t)\<^sup>*\<^sup>*"

lemma storage_call_store [simp]: "ig_store (snd (storage_call IE f I)) = ig_store I"
  by (auto simp: storage_call_def split: prod.splits sum.splits)

lemma count_frame [simp]: "ig_store (count n k I) = ig_store I" "ig_storage (count n k I) = ig_storage I"
  by (simp_all add: count_def)

lemma apply_event_store [simp]: "ig_store (snd (apply_event IE e I)) = ig_store I"
proof -
  have call: "ig_store (snd (if c then storage_call IE f J else (Inr n, J))) = ig_store I"
    if "ig_store J = ig_store I" for c f J and n :: int
    using that by simp
  have "ig_store (snd (bind_res (if c then storage_call IE f I else (Inr m, I)) (\<lambda>nk I1.
          bind_res (if d then storage_call IE g I1 else (Inr n, I1)) (\<lambda>nt I2. (Inr (h nk nt), I2))))) = ig_store I"
    for c d f g and m n :: int and h :: "int \<Rightarrow> int \<Rightarrow> event_result"
    by (intro snd_bind_res [where P = "\<lambda>J. ig_store J = ig_store I"] call) simp_all
  then show ?thesis unfolding apply_event_def by (auto split: sum.split simp del: bind_res_simps)
qed

text \<open>The steps of a successful application.\<close>

lemma apply_event_Inr:
  assumes "apply_event IE e I = (Inr r, J)"
  obtains ks ts xs tr I1 nk nt where "gather (ig_env IE) (ig_namespaces I) e (ig_rules I) ([], []) = Inr (ks, ts)"
    "expand (ig_graph I) ks = Inr (xs, tr)" "outcome r = ''processed''"
    "(if xs \<noteq> [] then storage_call IE (be_delete_many (ig_backend IE) xs) I else (Inr 0, I)) = (Inr nk, I1)"
    "(if ts \<noteq> [] then storage_call IE (be_invalidate_tags (ig_backend IE) (PList (map PStr (sort ts)))) I1 else (Inr 0, I1))
       = (Inr nt, J)"
proof (cases "gather (ig_env IE) (ig_namespaces I) e (ig_rules I) ([], [])")
  case (Inl x)
  with assms show ?thesis by (simp add: apply_event_def)
next
  case g: (Inr kt)
  obtain ks ts where kt: "kt = (ks, ts)" by fastforce
  show ?thesis
  proof (cases "expand (ig_graph I) ks")
    case (Inl x)
    with assms g kt show ?thesis by (simp add: apply_event_def)
  next
    case (Inr xt)
    obtain xs tr where "xt = (xs, tr)" by fastforce
    with Inr g kt assms that show ?thesis unfolding apply_event_def by (auto simp: bind_res_Inr simp del: if_split)
  qed
qed

lemma process_store [simp]: "ig_store (snd (process IE e I)) = ig_store I"
  by (simp add: process_def split: sum.split)

lemma apply_event_outcome: "fst (apply_event IE e I) = Inr r \<Longrightarrow> outcome r = ''processed''"
  by (cases "apply_event IE e I") (auto elim: apply_event_Inr)

lemma process_outcome: "fst (process IE e I) = Inr r \<Longrightarrow> outcome r = ''processed''"
  by (auto simp: process_def dest: apply_event_outcome split: sum.splits)

lemma result_outcome: "result_for IE out e err I = Inr r \<Longrightarrow> outcome r = out"
  by (auto simp: result_for_def bind_sum_Inr)

text \<open>A committed event is at the checkpoint of its stream.\<close>

definition committed :: "ev_env \<Rightarrow> event \<Rightarrow> event_state \<Rightarrow> bool" where
  "committed ee e st \<longleftrightarrow> (\<exists>key c. checkpoint_key ee e = Inr key \<and> map_of (checkpoints st) key = Some c
     \<and> ev_position e \<le> ck_position c)"

lemma commit_event_committed: "commit_event ee b now e st = Inr st' \<Longrightarrow> committed ee e st'"
  by (auto simp: commit_event_def advance_checkpoint_def committed_def bind_sum_Inr Let_def event_err_def
      backpressure_def split: option.splits if_splits)

lemma committed_ahead: "committed ee e st \<Longrightarrow> ahead st st' \<Longrightarrow> committed ee e st'"
  by (fastforce simp: committed_def ahead_def)

lemma mutate_establishes:
  assumes "mutate ee flt f s = (Inr a, s')" "\<And>a c. f (est s) = Inr (a, c) \<Longrightarrow> P c"
  shows "P (est s')"
  using assms by (cases rule: mutate_cases) auto

lemma complete_committed: "complete ee flt now e s = (Inr u, s') \<Longrightarrow> committed ee e (est s')"
  unfolding complete_def by (cases rule: mutate_cases) (auto simp: bind_sum_Inr dest: commit_event_committed)

lemma dead_letter_committed:
  assumes "dead_letter ee flt failed_at now e err rt s = (Inr u, s')"
  shows "committed ee e (est s')"
proof -
  obtain be where "bounded_error ee (bounds s) err = Inr be"
    using assms by (cases "bounded_error ee (bounds s) err") (simp_all add: dead_letter_def)
  with assms show ?thesis unfolding dead_letter_def
    by simp (erule mutate_establishes, auto simp: bind_sum_Inr Let_def dest: commit_event_committed)
qed

lemma on_store_Inr: "on_store f I = (Inr a, J) \<Longrightarrow> f (ig_store I) = (Inr a, ig_store J) \<and> ig_storage J = ig_storage I"
  by (auto simp: on_store_def split: prod.splits)

lemma on_store_store [simp]: "ig_store (snd (on_store f I)) = snd (f (ig_store I))" "ig_storage (snd (on_store f I)) = ig_storage I"
  by (auto simp: on_store_def split: prod.splits)

text \<open>The ways \<open>finish\<close> can end.\<close>

lemma finish_cases [consumes 1, case_names raised letter completed]:
  assumes "finish IE dr e (q, I) = (res, J)"
  obtains x where "q = Inl x" "res = Inl x" "ig_store J = ig_store I"
  | x r0 J0 where "q = Inl x" "on_store (dead_letter (ig_env IE) (dr_fault dr) (dr_failed dr) (dr_commit dr) e (exc_text x) True) I = (r0, J0)"
      "ig_store J = ig_store J0" "\<And>a. res = Inr a \<Longrightarrow> outcome a = ''dead_letter'' \<and> r0 = Inr ()"
  | r r0 J0 where "q = Inr r" "on_store (complete (ig_env IE) (dr_fault dr) (dr_commit dr) e) I = (r0, J0)"
      "ig_store J = ig_store J0" "ig_storage J = ig_storage I" "\<And>a. res = Inr a \<Longrightarrow> a = r \<and> r0 = Inr ()"
proof (cases q)
  case (Inr r)
  obtain r0 J0 where c: "on_store (complete (ig_env IE) (dr_fault dr) (dr_commit dr) e) I = (r0, J0)" by fastforce
  then have "ig_storage J0 = ig_storage I" using on_store_store(2) by (metis snd_conv)
  with assms Inr c show ?thesis by (intro that(3) [OF Inr c]) (cases r0; auto simp: finish_def)+
next
  case (Inl x)
  show ?thesis
  proof (cases "(\<exists>g. x = DependencyGraphError g) \<or> (\<exists>m. x = EventBackpressure m)")
    case True
    with assms Inl show ?thesis by (intro that(1) [OF Inl]) (auto simp: finish_def)
  next
    case False
    obtain r0 J0 where d: "on_store (dead_letter (ig_env IE) (dr_fault dr) (dr_failed dr) (dr_commit dr) e (exc_text x) True) I = (r0, J0)"
      by fastforce
    have f: "finish IE dr e (q, I) = bind_res (r0, J0)
            (\<lambda>_ I1. lift_sum (result_for IE ''dead_letter'' e (Some (exc_text x)) I1) (count ''dead_lettered_total'' 1 I1))"
      using False d by (cases x) (simp_all add: finish_def Inl)
    show ?thesis
    proof (rule that(2) [OF Inl d])
      show "ig_store J = ig_store J0" using f assms by (cases r0) (auto simp: lift_sum_def)
      show "res = Inr a \<Longrightarrow> outcome a = ''dead_letter'' \<and> r0 = Inr ()" for a
        using f assms by (cases r0) (auto simp: lift_sum_def dest: result_outcome [OF sym])
    qed
  qed
qed

lemma finish_steps: "steps (ig_env IE) t (ig_store I) (ig_store (snd (finish IE dr e (q, I))))"
proof -
  obtain res J where f: "finish IE dr e (q, I) = (res, J)" by fastforce
  from f have "steps (ig_env IE) t (ig_store I) (ig_store J)"
  proof (cases rule: finish_cases)
    case (letter x r0 J0)
    then have "ig_store J = snd (dead_letter (ig_env IE) (dr_fault dr) (dr_failed dr) (dr_commit dr) e (exc_text x) True (ig_store I))"
      using on_store_store(1) [of "dead_letter (ig_env IE) (dr_fault dr) (dr_failed dr) (dr_commit dr) e (exc_text x) True" I] by simp
    then show ?thesis by (auto intro: step_dead_letter)
  next
    case (completed r r0 J0)
    then have "ig_store J = snd (complete (ig_env IE) (dr_fault dr) (dr_commit dr) e (ig_store I))"
      using on_store_store(1) [of "complete (ig_env IE) (dr_fault dr) (dr_commit dr) e" I] by simp
    then show ?thesis by (auto intro: step_complete)
  qed simp
  with f show ?thesis by simp
qed

lemma ingest_steps: "steps (ig_env IE) t (ig_store I) (ig_store (snd (ingest IE dr e I)))"
proof -
  have "steps (ig_env IE) t (ig_store I) (ig_store (snd (finish IE dr e (process IE e I))))"
    using finish_steps [of IE t "snd (process IE e I)" dr e "fst (process IE e I)"] by simp
  then show ?thesis by (auto simp: ingest_def split: sum.split verdict.split)
qed

lemma ingest_committed:
  assumes "ingest IE dr e I = (Inr r, J)" "outcome r \<in> {''processed'', ''dead_letter''}"
  shows "committed (ig_env IE) e (est (ig_store J))"
proof -
  have "finish IE dr e (fst (process IE e I), snd (process IE e I)) = (Inr r, J)"
    using assms by (auto simp: ingest_def lift_sum_def dest: result_outcome split: sum.splits verdict.splits)
  then show ?thesis
  proof (cases rule: finish_cases)
    case (letter x r0 J0)
    then show ?thesis using on_store_Inr [of _ _ "()" J0] by (auto dest!: dead_letter_committed)
  next
    case (completed r0 r1 J0)
    then show ?thesis using on_store_Inr [of _ _ "()" J0] by (auto dest!: complete_committed)
  qed simp
qed

text \<open>An event at or behind the checkpoint is never applied.\<close>

lemma committed_not_admitted:
  assumes "committed (ig_env IE) e (est (ig_store I))" "checkpoint_key (ig_env IE) e' = checkpoint_key (ig_env IE) e"
    and "ev_position e' \<le> ev_position e"
  shows "admit IE dr e' I \<noteq> Inr Proceed"
  using assms by (auto simp: committed_def admit_def bind_sum_Inr store_checkpoint_def split: if_splits)

text \<open>
  C30. An event takes effect at most once. Once \<open>ingest\<close> has answered that an event was processed or
  put among the dead letters, no later attempt to ingest it, or any event of the same stream that
  is not newer, touches the storage or the durable state or answers more than \<open>duplicate\<close> or
  \<open>replayed\<close>; whatever the store has done since, including failed writes, the eviction of the
  event's identifier from the history, and restarts from the file.
\<close>

theorem ingest_once:
  assumes "durable (ig_store I)" "ingest IE dr e I = (Inr r, I1)" "outcome r \<in> {''processed'', ''dead_letter''}"
    and "(store_step (ig_env IE) t)\<^sup>*\<^sup>* (ig_store I1) (ig_store I2)"
    and "ev_source e' = ev_source e" "ev_stream e' = ev_stream e" "ev_position e' \<le> ev_position e"
  shows "ig_storage (snd (ingest IE dr' e' I2)) = ig_storage I2 \<and> ig_store (snd (ingest IE dr' e' I2)) = ig_store I2
    \<and> (case fst (ingest IE dr' e' I2) of Inl x \<Rightarrow> True | Inr r' \<Rightarrow> outcome r' \<in> {''duplicate'', ''replayed''})"
proof -
  have "durable (ig_store I1)"
    using store_steps_ahead [OF ingest_steps [of IE 0 I dr e] assms(1)] assms(2) by simp
  then have "ahead (est (ig_store I1)) (est (ig_store I2))" using store_steps_ahead [OF assms(4)] by simp
  with ingest_committed [OF assms(2,3)] have "committed (ig_env IE) e (est (ig_store I2))" by (rule committed_ahead)
  moreover have "checkpoint_key (ig_env IE) e' = checkpoint_key (ig_env IE) e" using assms(5,6) by (simp add: checkpoint_key_def)
  ultimately have "admit IE dr' e' I2 \<noteq> Inr Proceed" using assms(7) by (rule committed_not_admitted)
  then show ?thesis
    by (auto simp: ingest_def lift_sum_def dest: result_outcome split: sum.split verdict.split)
qed

text \<open>A small pipeline: one rule, one dependency, an event that changes \<open>a\<close>.\<close>

definition demo_event :: event where
  "demo_event = \<lparr>event_id = lit ''s:f:1:t'', ev_source = lit ''db'', ev_stream = lit ''s'', ev_position = 7,
     ev_operation = lit ''update'', ev_payload = [(lit ''id'', PStr [97])], ev_timestamp = PInt 0,
     ev_schema = None, ev_cursor = Some (lit ''f:1'')\<rparr>"

definition demo_rule :: rule where
  "demo_rule = \<lparr>rl_name = lit ''r'', key_templates = [lit ''{payload.id}''], tag_templates = [], rl_sources = [],
     rl_streams = [], rl_operations = [], schema_names = [], rl_namespace = PNone\<rparr>"

definition demo_graph :: graph where
  "demo_graph = \<lparr>max_nodes = 3, max_edges = 2, max_fanout = 2, max_depth = 2, max_invalidation_nodes = 3,
     edges = [([97], [[107]])], nodes = [[97], [107]], edge_count = 1\<rparr>"

definition demo_ingestor :: "'s \<Rightarrow> 's ingestor" where
  "demo_ingestor S = \<lparr>ig_storage = S, ig_store = fresh_store, ig_rules = [demo_rule], ig_graph = demo_graph,
     ig_schemas = make_registry [], ig_namespaces = [], ig_metrics = (\<lambda>_. 0)\<rparr>"

definition events_draw :: ingest_draw where
  "events_draw = \<lparr>dr_stamp = 0, dr_capacity = 0, dr_commit = 0, dr_failed = 0, dr_fault = Written\<rparr>"

definition demo_committed :: event_state where
  "demo_committed = \<lparr>checkpoints = [(lit ''v2|2:db1:s'', \<lparr>ck_source = lit ''db'', ck_stream = lit ''s'', ck_position = 7,
      ck_cursor = Some (lit ''f:1''), ck_event_id = lit ''s:f:1:t'', committed_at = 0\<rparr>)], seen_events = [lit ''s:f:1:t''], replay_tokens = [],
      dead_letters = [], dead_letter_dropped = 0\<rparr>"

definition demo_store :: event_store where
  "demo_store = \<lparr>bounds = roomy, est = demo_committed, on_disk = Some demo_committed, store_closed = False\<rparr>"

definition events_env :: "(engine mutation_clock, engine_error) ingest_env" where
  "events_env = \<lparr>ig_env = plain_env, ig_backend = clock_backend [], exc_of = (\<lambda>_. [])\<rparr>"

lemma demo_key: "checkpoint_key plain_env demo_event = Inr (lit ''v2|2:db1:s'')"
  by (simp add: checkpoint_key_def length_framed_key_def demo_event_def lit_def encode_ascii is_ascii_def
      digits10.simps del: encode_utf8.simps)

lemma demo_cursor: "check_cursor plain_env roomy (Some (lit ''f:1'')) x = Inr ()"
  by (simp add: check_cursor_def encode_text_def encode_ascii is_ascii_def lit_def roomy_def del: encode_utf8.simps)

lemma demo_valid: "validate_event plain_env roomy demo_event = Inr ()"
proof -
  have "encoded_size (PDict (ev_payload demo_event)) = Inr 10" by code_simp
  moreover have "ev_cursor demo_event = Some (lit ''f:1'')" "max_payload_bytes roomy = 100"
    by (simp_all add: demo_event_def roomy_def)
  ultimately show ?thesis by (simp add: validate_event_def demo_cursor)
qed

lemma demo_commit: "commit_event plain_env roomy 0 demo_event empty_state = Inr demo_committed"
  unfolding commit_event_def advance_checkpoint_def demo_key
  by (simp add: remember_seen_def roomy_def empty_state_def demo_committed_def demo_event_def)

lemma demo_size: "encoded_size (state_value plain_env demo_committed) = Inr 219"
  by code_simp

lemma demo_limits: "validate_state_limits plain_env roomy demo_committed = Inr ()"
proof -
  have "map_sum_list (\<lambda>(k, c). check_cursor plain_env roomy (ck_cursor c) x) (checkpoints demo_committed) = Inr [()]" for x
    by (simp add: demo_committed_def demo_cursor)
  then show ?thesis unfolding validate_state_limits_def demo_size
    by (simp add: demo_committed_def roomy_def validate_dead_letters_def dead_letter_bytes_def)
qed

lemma demo_gather: "gather plain_env [] demo_event [demo_rule] ([], []) = Inr ([[97]], [])"
  by (simp add: rule_matches_def demo_rule_def demo_event_def render_def render_template_def render_context_def
      replace_field_def rule_keys_def set_update_def lit_def field_char_def is_alnum_def
      check_rendered_key_def validate_cache_key_def utf8_len_ascii is_ascii_def)

lemma demo_expand: "expand demo_graph [[97]] = Inr ([[97], [107]], False)"
  by (simp add: expand_def demo_graph_def children_def)

lemma demo_admit: "ig_env IE = plain_env \<Longrightarrow> admit IE events_draw demo_event (demo_ingestor S) = Inr Proceed"
  using demo_valid demo_commit demo_limits
  by (simp add: admit_def demo_ingestor_def is_seen_def ensure_open_def store_checkpoint_def demo_key
      ensure_complete_capacity_def fresh_store_def events_draw_def) (simp add: empty_state_def)

lemma demo_complete: "complete plain_env Written 0 demo_event fresh_store = (Inr (), demo_store)"
  by (simp add: complete_def mutate_def ensure_open_def fresh_store_def demo_valid demo_commit demo_limits
      persist_def demo_size demo_store_def) (simp add: roomy_def)

lemma demo_ingest:
  assumes "ig_env IE = plain_env" "be_delete_many (ig_backend IE) [[97], [107]] S = (Inr n, S')"
  obtains r J where "ingest IE events_draw demo_event (demo_ingestor S) = (Inr r, J)" "outcome r = ''processed''"
    "ig_store J = demo_store" "ig_storage J = S'"
proof -
  have "prepare plain_env (make_registry []) demo_event = Inr demo_event" by (simp add: prepare_def demo_event_def)
  then obtain r where p: "process IE demo_event (demo_ingestor S) = (Inr r, (demo_ingestor S)\<lparr>ig_storage := S'\<rparr>)"
      "outcome r = ''processed''"
  proof -
    have g: "gather plain_env (ig_namespaces (demo_ingestor S)) demo_event (ig_rules (demo_ingestor S)) ([], []) = Inr ([[97]], [])"
      using demo_gather by (simp add: demo_ingestor_def del: gather.simps)
    have x: "expand (ig_graph (demo_ingestor S)) [[97]] = Inr ([[97], [107]], False)"
      "ig_schemas (demo_ingestor S) = make_registry []" "ig_storage (demo_ingestor S) = S"
      using demo_expand by (simp_all add: demo_ingestor_def)
    assume "prepare plain_env (make_registry []) demo_event = Inr demo_event"
    then show thesis using that assms
      by (simp add: process_def apply_event_def g x storage_call_def del: gather.simps)
  qed
  moreover have "ig_store (demo_ingestor S) = fresh_store" by (simp add: demo_ingestor_def)
  moreover have "dr_fault events_draw = Written" "dr_commit events_draw = 0" by (simp_all add: events_draw_def)
  ultimately show ?thesis
    using that assms(1) by (simp add: ingest_def demo_admit finish_def on_store_def demo_complete)
qed

lemma delete_many_returns: "list_all (\<lambda>k. validate_key k = Inr ()) ks \<Longrightarrow> \<exists>n s'. delete_many ks s = (Inr n, s')"
proof (induction ks arbitrary: s)
  case (Cons k ks)
  then obtain b s1 where "delete k s = (Inr b, s1)" by (cases "remove_entry k s") (auto simp: delete_def Let_def)
  moreover obtain n s2 where "delete_many ks s1 = (Inr n, s2)" using Cons.IH [of s1] Cons.prems by auto
  ultimately show ?case by (auto simp: delete_many_def bind_res_Inr)
qed (simp add: delete_many_def)

lemma demo_deletes: "\<exists>n S'. be_delete_many (ig_backend events_env) [[97], [107]] (make_clock demo_tagged) = (Inr n, S')"
  using delete_many_returns [of "[[97], [107]]" demo_tagged]
  by (auto simp: events_env_def clock_backend_def clock_delete_many_def clocked_def make_clock_def validate_key_def Let_def)

theorem ingest_once_witness:
  "\<exists>r I1. ingest events_env events_draw demo_event (demo_ingestor (make_clock demo_tagged)) = (Inr r, I1)
     \<and> outcome r = ''processed'' \<and> ig_storage (snd (ingest events_env events_draw demo_event I1)) = ig_storage I1"
proof -
  obtain n S' where "be_delete_many (ig_backend events_env) [[97], [107]] (make_clock demo_tagged) = (Inr n, S')"
    using demo_deletes by blast
  then obtain r I1 where i: "ingest events_env events_draw demo_event (demo_ingestor (make_clock demo_tagged)) = (Inr r, I1)"
      "outcome r = ''processed''"
    by (rule demo_ingest [rotated]) (auto simp: events_env_def)
  have "durable (ig_store (demo_ingestor (make_clock demo_tagged)))"
    by (simp add: demo_ingestor_def fresh_store_def durable_def)
  from ingest_once [OF this i(1) _ _ refl refl order_refl, of 0 I1 events_draw] i show ?thesis by auto
qed

section \<open>A processed event leaves nothing stale behind\<close>

locale purging_storage = confined_storage be view
  for be :: "('s, 'e) backend" and view :: "'s \<Rightarrow> pystr \<Rightarrow> 'v option" +
  fixes sound :: "'s \<Rightarrow> bool"
    and labels :: "'s \<Rightarrow> pystr \<Rightarrow> pystr set"
  assumes purge: "be_delete_many be ks s = (Inr n, s') \<Longrightarrow> k \<in> set ks \<Longrightarrow> view s' k = None"
    and sound_purge: "sound s \<Longrightarrow> be_delete_many be ks s = (Inr n, s') \<Longrightarrow> sound s'"
    and purge_tags: "sound s \<Longrightarrow> be_invalidate_tags be (PList (map PStr ts)) s = (Inr n, s')
      \<Longrightarrow> view s' k \<noteq> None \<Longrightarrow> labels s' k \<inter> set ts = {}"
begin

lemma tags_stay_purged: "be_invalidate_tags be ts s = (r, s') \<Longrightarrow> view s k = None \<Longrightarrow> view s' k = None"
  using removals(3) [of s ts] unfolding kept_def by (metis empty_iff snd_conv)

lemma apply_event_purges:
  assumes "apply_event (IE\<lparr>ig_backend := be\<rparr>) e I = (Inr r, J)" "sound (ig_storage I)"
  shows "\<exists>ks ts. gather (ig_env IE) (ig_namespaces I) e (ig_rules I) ([], []) = Inr (ks, ts)
    \<and> (\<forall>k \<in> (edge_rel (edges (ig_graph I)))\<^sup>* `` set ks. view (ig_storage J) k = None)
    \<and> (\<forall>k. view (ig_storage J) k \<noteq> None \<longrightarrow> labels (ig_storage J) k \<inter> set ts = {})"
  using assms(1)
proof (rule apply_event_Inr)
  fix ks ts xs tr I1 nk nt
  let ?IE = "IE\<lparr>ig_backend := be\<rparr>"
  assume g: "gather (ig_env ?IE) (ig_namespaces I) e (ig_rules I) ([], []) = Inr (ks, ts)"
    and x: "expand (ig_graph I) ks = Inr (xs, tr)"
    and d: "(if xs \<noteq> [] then storage_call ?IE (be_delete_many (ig_backend ?IE) xs) I else (Inr 0, I)) = (Inr nk, I1)"
    and t: "(if ts \<noteq> [] then storage_call ?IE (be_invalidate_tags (ig_backend ?IE) (PList (map PStr (sort ts)))) I1
        else (Inr 0, I1)) = (Inr nt, J)"
  have s1: "sound (ig_storage I1)" "\<forall>k \<in> set xs. view (ig_storage I1) k = None"
    using d assms(2) by (auto simp: storage_call_def intro: sound_purge purge split: if_splits prod.splits sum.splits)
  have "view (ig_storage J) k = None" if "k \<in> set xs" for k
    using t s1 that by (auto simp: storage_call_def intro: tags_stay_purged split: if_splits prod.splits sum.splits)
  moreover have "view (ig_storage J) k \<noteq> None \<Longrightarrow> labels (ig_storage J) k \<inter> set ts = {}" for k
    using t purge_tags [OF s1(1), of "sort ts" nt "ig_storage J" k]
    by (auto simp: storage_call_def split: if_splits prod.splits sum.splits)
  ultimately show ?thesis using g expand_Inr [OF x] by auto
qed

end

lemma ingest_processed:
  assumes "ingest IE dr e I = (Inr r, J)" "outcome r = ''processed''"
  obtains p J0 where "prepare (ig_env IE) (ig_schemas I) e = Inr p" "apply_event IE p I = (Inr r, J0)"
    "ig_storage J = ig_storage J0"
proof -
  have "finish IE dr e (fst (process IE e I), snd (process IE e I)) = (Inr r, J)"
    using assms by (auto simp: ingest_def lift_sum_def dest: result_outcome split: sum.splits verdict.splits)
  then show ?thesis
  proof (cases rule: finish_cases)
    case (letter x r0 J0)
    then show ?thesis using assms(2) by auto
  next
    case (completed r1 r0 J0)
    then have "process IE e I = (Inr r, snd (process IE e I))" by (metis prod.collapse)
    then obtain p where "prepare (ig_env IE) (ig_schemas I) e = Inr p" "apply_event IE p I = (Inr r, snd (process IE e I))"
      by (auto simp: process_def split: sum.splits)
    with completed(4) that show ?thesis by blast
  qed simp
qed

lemma delete_many_purges: "delete_many ks s = (Inr n, s') \<Longrightarrow> k \<in> set ks \<Longrightarrow> engine_view s' k = None"
proof (induction ks arbitrary: s n)
  case (Cons j ks)
  from Cons.prems(1) obtain b s1 m where d: "delete j s = (Inr b, s1)" "delete_many ks s1 = (Inr m, s')"
    by (auto simp: delete_many_def bind_res_Inr)
  show ?case
  proof (cases "k \<in> set ks")
    case False
    then have "k = j" using Cons.prems(2) by simp
    then have "engine_view s1 k = None"
      using d(1) by (auto simp: delete_def engine_view_def case_prod_beta Let_def count_metric_def remove_lease_def
          delete_conv' split: sum.splits if_splits option.splits)
    then show ?thesis using delete_many_kept [of "{}" s1 ks] d(2) by (metis empty_iff kept_def snd_conv)
  qed (use Cons.IH d(2) in blast)
qed simp

definition clock_labels :: "engine mutation_clock \<Rightarrow> pystr \<Rightarrow> pystr set" where
  "clock_labels c k = (case map_of (entries (backing c)) k of None \<Rightarrow> {} | Some e \<Rightarrow> set (tags e))"

lemma clocked_Inr: "clocked changed f c = (Inr a, c') \<Longrightarrow> f (backing c) = (Inr a, backing c')"
  by (auto simp: clocked_def Let_def mark_changed_def split: prod.splits sum.splits if_splits)

lemma invalidate_tags_purges:
  assumes "engine_reachable s" "invalidate_tags (PList (map PStr ts)) s = (Inr n, s')" "map_of (entries s') k = Some e"
  shows "set (tags e) \<inter> set ts = {}"
proof -
  obtain nts where nts: "normalize_tags (PList (map PStr ts)) = Inr nts"
    using assms(2) by (cases "normalize_tags (PList (map PStr ts))") (auto simp: invalidate_tags_def)
  then have "map PStr nts = map PStr ts" by (auto simp: normalize_tags_def check_tags_Inr split: if_splits)
  then have "nts = ts" by (rule map_injective) (auto intro: injI)
  with invalidate_effect [OF assms(1) nts] assms(2) map_of_SomeD [OF assms(3)] show ?thesis by auto
qed

interpretation ps: purging_storage "clock_backend codec" clock_view "\<lambda>c. engine_reachable (backing c)" clock_labels
proof unfold_locales
  fix ks k n and c c' :: "engine mutation_clock"
  assume "be_delete_many (clock_backend codec) ks c = (Inr n, c')"
  then have d: "delete_many ks (backing c) = (Inr n, backing c')"
    by (simp add: clock_backend_def clock_delete_many_def clocked_Inr)
  show "k \<in> set ks \<Longrightarrow> clock_view c' k = None" using delete_many_purges [OF d] by (simp add: clock_view_def)
  show "engine_reachable (backing c) \<Longrightarrow> engine_reachable (backing c')"
    using step_delete_many [of "backing c" ks] d by (metis engine_next snd_conv)
next
  fix ts k n and c c' :: "engine mutation_clock"
  assume "engine_reachable (backing c)" "be_invalidate_tags (clock_backend codec) (PList (map PStr ts)) c = (Inr n, c')"
  then show "clock_view c' k \<noteq> None \<Longrightarrow> clock_labels c' k \<inter> set ts = {}"
    using invalidate_tags_purges [of "backing c" ts n "backing c'" k]
    by (auto simp: clock_backend_def clock_invalidate_tags_def clock_labels_def dest!: clocked_Inr split: option.splits)
qed

text \<open>
  C31. A processed event leaves nothing stale behind. When \<open>ingest\<close> answers \<open>processed\<close> on a
  reachable engine, then afterwards the engine holds no entry under any key that the rules render
  for the (possibly migrated) event, nor under any key that depends on one of those through any
  number of edges, nor any entry that carries a tag the rules render.
\<close>

theorem processed_event_purges:
  assumes "ig_backend IE = clock_backend codec" "engine_reachable (backing (ig_storage I))"
    and "ingest IE dr e I = (Inr r, J)" "outcome r = ''processed''"
  shows "\<exists>p ks ts. prepare (ig_env IE) (ig_schemas I) e = Inr p
    \<and> gather (ig_env IE) (ig_namespaces I) p (ig_rules I) ([], []) = Inr (ks, ts)
    \<and> (\<forall>k \<in> (edge_rel (edges (ig_graph I)))\<^sup>* `` set ks. map_of (entries (backing (ig_storage J))) k = None)
    \<and> (\<forall>k en. map_of (entries (backing (ig_storage J))) k = Some en \<longrightarrow> set (tags en) \<inter> set ts = {})"
proof -
  obtain p J0 where p: "prepare (ig_env IE) (ig_schemas I) e = Inr p" "apply_event IE p I = (Inr r, J0)"
    "ig_storage J = ig_storage J0"
    using assms(3,4) by (rule ingest_processed)
  have "IE = IE\<lparr>ig_backend := clock_backend codec\<rparr>" using assms(1) by simp
  with p(2) have "apply_event (IE\<lparr>ig_backend := clock_backend codec\<rparr>) p I = (Inr r, J0)" by simp
  from ps.apply_event_purges [OF this assms(2)] p show ?thesis
    by (fastforce simp: clock_view_def engine_view_def clock_labels_def)
qed

theorem processed_event_purges_witness:
  "\<exists>r J. ingest events_env events_draw demo_event (demo_ingestor (make_clock demo_tagged)) = (Inr r, J)
     \<and> map_of (entries demo_tagged) [107] \<noteq> None \<and> map_of (entries (backing (ig_storage J))) [107] = None"
proof -
  obtain n S' where "be_delete_many (ig_backend events_env) [[97], [107]] (make_clock demo_tagged) = (Inr n, S')"
    using demo_deletes by blast
  then obtain r J where i: "ingest events_env events_draw demo_event (demo_ingestor (make_clock demo_tagged)) = (Inr r, J)"
      "outcome r = ''processed''"
    by (rule demo_ingest [rotated]) (auto simp: events_env_def)
  have "prepare plain_env (make_registry []) demo_event = Inr demo_event" by (simp add: prepare_def demo_event_def)
  moreover have "([97], [107]) \<in> edge_rel (edges demo_graph)" by (simp add: edge_rel_def children_def demo_graph_def)
  moreover have "engine_reachable (backing (ig_storage (demo_ingestor (make_clock demo_tagged))))"
    by (simp add: demo_ingestor_def make_clock_def demo_tagged_reachable)
  ultimately have "map_of (entries (backing (ig_storage J))) [107] = None"
    using processed_event_purges [of events_env "[]", OF _ _ i] demo_gather
    by (auto simp: events_env_def demo_ingestor_def Image_iff)
  with i show ?thesis by (auto simp: demo_tagged_entries)
qed

section \<open>Webhook deliveries\<close>

text \<open>What an accepted delivery has passed.\<close>

lemma accepted_webhook:
  assumes "authenticate_webhook ee mac srcs flt now name headers body s = (Inr u, s')"
  obtains w stamp ts delivery tok where "map_of srcs name = Some w"
    "headers (lit ''X-MegaCache-Timestamp'') = Some stamp" "int_of_text ee stamp = Some ts"
    "\<bar>now - real_of_int ts\<bar> \<le> real_of_int (tolerance_seconds w)"
    "headers (lit ''X-MegaCache-Delivery'') = Some delivery" "length_framed_key ee [name, delivery] = Inr tok"
    "claim_replay_token ee flt tok (now + real_of_int (tolerance_seconds w)) now s = (Inr True, s')"
proof -
  obtain w delivery tok where c: "check_webhook ee mac srcs now name headers body = Inr (w, delivery)"
    and k: "length_framed_key ee [name, delivery] = Inr tok"
    and cl: "claim_replay_token ee flt tok (now + real_of_int (tolerance_seconds w)) now s = (Inr True, s')"
    using assms by (auto simp: authenticate_webhook_def lift_sum_def bind_sum_Inr bind_res_Inr webhook_err_def
        split: if_splits)
  obtain stamp ts where "map_of srcs name = Some w" "headers (lit ''X-MegaCache-Timestamp'') = Some stamp"
      "int_of_text ee stamp = Some ts" "\<bar>now - real_of_int ts\<bar> \<le> real_of_int (tolerance_seconds w)"
      "headers (lit ''X-MegaCache-Delivery'') = Some delivery"
    using c by (auto simp: check_webhook_def bind_sum_Inr webhook_err_def split: option.splits if_splits)
  with that k cl show thesis by blast
qed

text \<open>
  C32. A webhook delivery whose timestamp lies in the past is accepted once: the same source,
  delivery identifier and timestamp are never accepted again, with whatever body and signature, as
  long as the clock does not go back; restarts, failed writes and other traffic in between change
  nothing.
\<close>

theorem webhook_accepted_once:
  assumes "authenticate_webhook ee mac srcs flt now name headers body s = (Inr (), s1)"
    and "headers (lit ''X-MegaCache-Timestamp'') = Some stamp" "int_of_text ee stamp = Some ts" "real_of_int ts < now"
    and "(store_step ee t)\<^sup>*\<^sup>* s1 s2"
    and "headers' (lit ''X-MegaCache-Timestamp'') = Some stamp"
    and "headers' (lit ''X-MegaCache-Delivery'') = headers (lit ''X-MegaCache-Delivery'')"
  shows "fst (authenticate_webhook ee mac' srcs flt' t name headers' body' s2) \<noteq> Inr ()"
proof
  assume "fst (authenticate_webhook ee mac' srcs flt' t name headers' body' s2) = Inr ()"
  then obtain s3 where "authenticate_webhook ee mac' srcs flt' t name headers' body' s2 = (Inr (), s3)" by (metis prod.collapse)
  then obtain w tok where w: "map_of srcs name = Some w" "\<bar>t - real_of_int ts\<bar> \<le> real_of_int (tolerance_seconds w)"
      "claim_replay_token ee flt' tok (t + real_of_int (tolerance_seconds w)) t s2 = (Inr True, s3)"
    and tok: "\<And>delivery. headers (lit ''X-MegaCache-Delivery'') = Some delivery \<Longrightarrow> length_framed_key ee [name, delivery] = Inr tok"
    by (rule accepted_webhook) (use assms in auto)
  obtain w1 tok1 delivery where "map_of srcs name = Some w1" "headers (lit ''X-MegaCache-Delivery'') = Some delivery"
      "length_framed_key ee [name, delivery] = Inr tok1"
      "claim_replay_token ee flt tok1 (now + real_of_int (tolerance_seconds w1)) now s = (Inr True, s1)"
    using assms(1) by (rule accepted_webhook)
  with w(1) tok have "claim_replay_token ee flt tok (now + real_of_int (tolerance_seconds w)) now s = (Inr True, s1)" by auto
  from second_claim_late [OF this assms(5) w(3)] w(2) assms(4) show False by simp
qed

definition demo_source :: webhook_source where
  "demo_source = \<lparr>wh_name = lit ''gh'', wh_secret = replicate 16 CHR ''s'', tolerance_seconds = 300\<rparr>"

definition demo_sources :: "(pystr \<times> webhook_source) list" where
  "demo_sources = [(lit ''gh'', demo_source)]"

text \<open>A correctly signed request with the timestamp 1100 and the delivery identifier \<open>d\<close>.\<close>

definition demo_headers :: "(bytes \<Rightarrow> bytes \<Rightarrow> bytes) \<Rightarrow> pystr \<Rightarrow> pystr option" where
  "demo_headers mac h =
     (if h = lit ''X-MegaCache-Timestamp'' then Some (lit ''1100'')
      else if h = lit ''X-MegaCache-Delivery'' then Some (lit ''d'')
      else if h = lit ''X-MegaCache-Signature'' then Some (lit ''sha256='' @ hex_text (mac (wh_secret demo_source)
        (projr (webhook_signature_payload plain_env (lit ''gh'') (lit ''1100'') (lit ''d'') []))))
      else None)"

lemma demo_header_values:
  "demo_headers mac (lit ''X-MegaCache-Timestamp'') = Some (lit ''1100'')"
  "demo_headers mac (lit ''X-MegaCache-Delivery'') = Some (lit ''d'')"
  "demo_headers mac (lit ''X-MegaCache-Signature'') = Some (lit ''sha256='' @ hex_text (mac (wh_secret demo_source)
        (projr (webhook_signature_payload plain_env (lit ''gh'') (lit ''1100'') (lit ''d'') []))))"
  by (simp_all add: demo_headers_def lit_def)

lemma hex_text_ascii: "is_ascii (hex_text bs)"
proof -
  have "of_char c < (256 :: nat)" for c by (metis of_char_mod_256 mod_less_divisor zero_less_numeral)
  then have "of_char c div 16 < (16 :: nat)" for c by (simp add: less_mult_imp_div_less)
  moreover have "hex_digit d < 128" if "d < 16" for d using that by (simp add: hex_digit_def)
  ultimately show ?thesis by (auto simp: is_ascii_def hex_text_def list_all_iff)
qed

lemma demo_stamp: "int_of_text plain_env (lit ''1100'') = Some 1100"
  by code_simp

lemma demo_signed: "\<exists>p. webhook_signature_payload plain_env (lit ''gh'') (lit ''1100'') (lit ''d'') [] = Inr p"
  by (simp add: webhook_signature_payload_def encode_text_def encode_ascii is_ascii_def lit_def del: encode_utf8.simps)

lemma demo_range: "\<bar>1100\<bar> < float_limit"
  by (simp add: float_limit_def)

lemma demo_check:
  assumes "\<bar>now - 1100\<bar> \<le> 300"
  shows "check_webhook plain_env mac demo_sources now (lit ''gh'') (demo_headers mac) [] = Inr (demo_source, lit ''d'')"
proof -
  obtain p where p: "webhook_signature_payload plain_env (lit ''gh'') (lit ''1100'') (lit ''d'') [] = Inr p"
    using demo_signed by blast
  have "is_identifier (lit ''d'')" by (simp add: is_identifier_def lit_def is_alnum_def)
  moreover have "is_ascii (lit ''sha256='' @ hex_text bs)" for bs
    using hex_text_ascii [of bs] by (simp add: is_ascii_def lit_def)
  moreover have "tolerance_seconds demo_source = 300" by (simp add: demo_source_def)
  ultimately show ?thesis using assms p demo_range
    by (simp add: check_webhook_def demo_sources_def demo_header_values demo_stamp validate_identifier_def)
qed

lemma demo_token: "length_framed_key plain_env [lit ''gh'', lit ''d''] = Inr (lit ''v2|2:gh1:d'')"
  by (simp add: length_framed_key_def lit_def encode_ascii is_ascii_def digits10.simps del: encode_utf8.simps)

definition claim_state :: "real \<Rightarrow> event_state" where
  "claim_state x = empty_state\<lparr>replay_tokens := [(lit ''v2|2:gh1:d'', x)]\<rparr>"

definition claim_store :: "real \<Rightarrow> event_store" where
  "claim_store x = \<lparr>bounds = roomy, est = claim_state x, on_disk = Some (claim_state x), store_closed = False\<rparr>"

lemma claim_size: "encoded_size (state_value plain_env (claim_state x)) = Inr 138"
proof -
  have "state_value plain_env (claim_state x) = state_value plain_env (claim_state 0)"
    by (simp add: state_value_def claim_state_def plain_env_def)
  moreover have "encoded_size (state_value plain_env (claim_state 0)) = Inr 138" by code_simp
  ultimately show ?thesis by simp
qed

lemma claim_limits: "validate_state_limits plain_env roomy (claim_state x) = Inr ()"
  unfolding validate_state_limits_def claim_size
  by (simp add: claim_state_def empty_state_def roomy_def validate_dead_letters_def dead_letter_bytes_def)

lemma demo_claim:
  assumes "bounds s = roomy" "\<not> store_closed s" "est s\<lparr>replay_tokens := []\<rparr> = empty_state"
    and "filter (\<lambda>(k, x). x > now) (replay_tokens (est s)) = []"
  shows "claim_replay_token plain_env Written (lit ''v2|2:gh1:d'') x now s = (Inr True, s\<lparr>est := claim_state x, on_disk := Some (claim_state x)\<rparr>)"
proof -
  have "est s\<lparr>replay_tokens := [(lit ''v2|2:gh1:d'', x)]\<rparr> = claim_state x"
    using assms(3) unfolding claim_state_def by (cases "est s") (simp add: empty_state_def)
  moreover have "max_replay_tokens roomy = 1" "max_state_bytes roomy = 2000" by (simp_all add: roomy_def)
  ultimately show ?thesis using assms claim_limits
    by (simp add: claim_replay_token_def mutate_def ensure_open_def persist_def claim_size del: set_filter)
qed

lemma demo_authenticate:
  assumes "\<bar>now - 1100\<bar> \<le> 300" "bounds s = roomy" "\<not> store_closed s" "est s\<lparr>replay_tokens := []\<rparr> = empty_state"
    and "filter (\<lambda>(k, x). x > now) (replay_tokens (est s)) = []"
  shows "authenticate_webhook plain_env mac demo_sources Written now (lit ''gh'') (demo_headers mac) [] s
    = (Inr (), s\<lparr>est := claim_state (now + 300), on_disk := Some (claim_state (now + 300))\<rparr>)"
  using demo_claim [OF assms(2-5), of "now + 300"] demo_check [OF assms(1), of mac] demo_token
  by (simp add: authenticate_webhook_def lift_sum_def demo_source_def)

lemma fresh_frame: "bounds fresh_store = roomy" "\<not> store_closed fresh_store" "est fresh_store = empty_state"
  by (simp_all add: fresh_store_def)

theorem webhook_accepted_once_witness:
  "fst (authenticate_webhook plain_env (\<lambda>_ _. []) demo_sources Written 1200 (lit ''gh'') (demo_headers (\<lambda>_ _. [])) [] fresh_store) = Inr ()
   \<and> fst (authenticate_webhook plain_env (\<lambda>_ _. []) demo_sources Written 1300 (lit ''gh'') (demo_headers (\<lambda>_ _. [])) []
       (snd (authenticate_webhook plain_env (\<lambda>_ _. []) demo_sources Written 1200 (lit ''gh'') (demo_headers (\<lambda>_ _. [])) [] fresh_store))) \<noteq> Inr ()"
proof -
  let ?a = "authenticate_webhook plain_env (\<lambda>_ _. []) demo_sources Written 1200 (lit ''gh'') (demo_headers (\<lambda>_ _. [])) [] fresh_store"
  have a: "fst ?a = Inr ()"
    using demo_authenticate [of 1200 fresh_store "\<lambda>_ _. []"] by (simp add: fresh_frame empty_state_def)
  then have "?a = (Inr (), snd ?a)" by (metis prod.collapse)
  from webhook_accepted_once [OF this demo_header_values(1) demo_stamp _ rtranclp.rtrancl_refl demo_header_values(1) refl] a
  show ?thesis by simp
qed

text \<open>
  C33. Where the protection against replays ends: a correctly signed request whose timestamp lies
  ahead of the server's clock, within the tolerance, is accepted a second time. The claim made at
  time 1000 expires at 1300, while the timestamp 1100 stays acceptable until 1400.
\<close>

theorem future_webhook_accepted_twice:
  "\<exists>s1 s2. authenticate_webhook plain_env mac demo_sources Written 1000 (lit ''gh'') (demo_headers mac) [] fresh_store = (Inr (), s1)
     \<and> authenticate_webhook plain_env mac demo_sources Written 1300 (lit ''gh'') (demo_headers mac) [] s1 = (Inr (), s2)"
proof -
  let ?s1 = "fresh_store\<lparr>est := claim_state 1300, on_disk := Some (claim_state 1300)\<rparr>"
  have "authenticate_webhook plain_env mac demo_sources Written 1000 (lit ''gh'') (demo_headers mac) [] fresh_store = (Inr (), ?s1)"
    using demo_authenticate [of 1000 fresh_store mac] by (simp add: fresh_frame empty_state_def)
  moreover have "authenticate_webhook plain_env mac demo_sources Written 1300 (lit ''gh'') (demo_headers mac) [] ?s1
      = (Inr (), ?s1\<lparr>est := claim_state (1300 + 300), on_disk := Some (claim_state (1300 + 300))\<rparr>)"
    by (rule demo_authenticate) (simp_all add: fresh_frame claim_state_def empty_state_def)
  ultimately show ?thesis by blast
qed

end
