(* ===== verification/Event_Adapters.thy ===== *)
theory Event_Adapters
  imports Event_Props "HOL-Library.Product_Lexorder"
begin

text \<open>
  The connectors of \<open>src/src/megacache/events.py\<close> that turn externally supplied records into change
  events: \<open>PostgresLogicalAdapter\<close>, \<open>MySQLBinlogAdapter\<close>, \<open>MongoChangeStreamAdapter\<close> and
  \<open>KafkaRecordAdapter\<close>.

  The records are dataclasses without validation, given here the types of their annotations.
  A batch is fed with one \<open>ingest_draw\<close> per record. \<open>json.loads\<close> of a Kafka value is a parameter.
\<close>

unbundle bit_operations_syntax

type_synonym ('s, 'a) ires = "(event_error, 'a, 's ingestor) res"

text \<open>\<open>x or default\<close> for an optional text.\<close>

definition text_or :: "pystr option \<Rightarrow> pystr \<Rightarrow> pystr" where
  "text_or x dflt = (case x of None \<Rightarrow> dflt | Some s \<Rightarrow> (if s = [] then dflt else s))"

definition colon_join :: "pystr list \<Rightarrow> pystr" where
  "colon_join ps = concat (case ps of [] \<Rightarrow> [] | p # qs \<Rightarrow> p # map (\<lambda>q. 58 # q) qs)"

definition stamp_or_now :: "ev_env \<Rightarrow> ingest_draw \<Rightarrow> pyval option \<Rightarrow> pyval" where
  "stamp_or_now ee dr ts = (case ts of None \<Rightarrow> PFloat (repr_float ee (dr_stamp dr)) | Some v \<Rightarrow> v)"

definition ingest_made ::
  "('s, 'e) ingest_env \<Rightarrow> ingest_draw \<Rightarrow> event_error + event \<Rightarrow> 's ingestor \<Rightarrow> ('s, event_result) ires" where
  "ingest_made IE dr made I = (case made of Inl x \<Rightarrow> (Inl x, I) | Inr e \<Rightarrow> ingest IE dr e I)"

definition feed_all ::
  "('s, 'e) ingest_env \<Rightarrow> (ingest_draw \<Rightarrow> 'r \<Rightarrow> event_error + event) \<Rightarrow> (ingest_draw \<times> 'r) list \<Rightarrow> 's ingestor
    \<Rightarrow> ('s, event_result list) ires" where
  "feed_all IE mk = fold_res (\<lambda>(dr, r). ingest_made IE dr (mk dr r))"

section \<open>PostgreSQL\<close>

record pg_record =
  pg_slot :: pystr
  pg_lsn :: pystr
  pg_operation :: pystr
  pg_row :: "(pystr \<times> pyval) list"
  pg_event_id :: "pystr option"
  pg_schema_id :: "pystr option"
  pg_timestamp :: "pyval option"
  pg_ordinal :: "int option"

definition hexit :: "nat \<Rightarrow> bool" where
  "hexit c \<longleftrightarrow> is_hex c \<or> 65 \<le> c \<and> c \<le> 70"

definition hexit_value :: "nat \<Rightarrow> nat" where
  "hexit_value c = (if c \<le> 57 then c - 48 else if c \<le> 70 then c - 55 else c - 87)"

definition int_base16 :: "pystr \<Rightarrow> int" where
  "int_base16 s = int (foldl (\<lambda>n c. 16 * n + hexit_value c) 0 s)"

definition parse_postgres_lsn :: "pystr \<Rightarrow> event_error + int" where
  "parse_postgres_lsn v =
     (let high = takeWhile (\<lambda>c. c \<noteq> 47) v; rest = dropWhile (\<lambda>c. c \<noteq> 47) v; low = tl rest
      in if rest = [] \<or> high = [] \<or> low = [] \<or> \<not> list_all hexit high \<or> \<not> list_all hexit low
         then event_err ''PostgreSQL LSN must use HEX/HEX''
         else if int_base16 high > 0xFFFFFFFF \<or> int_base16 low > 0xFFFFFFFF
         then event_err ''PostgreSQL LSN halves must fit 32 bits''
         else Inr (push_bit 32 (int_base16 high) + int_base16 low))"

definition pg_place :: "pg_record \<Rightarrow> event_error + int \<times> int" where
  "pg_place r =
     (case pg_ordinal r of
        None \<Rightarrow> event_err ''PostgreSQL records require a stable 0-based ordinal''
      | Some ordinal \<Rightarrow>
          (if ordinal < 0 \<or> ordinal > 0xFFFFFFFF then event_err ''PostgreSQL records require a stable 0-based ordinal''
           else bind_sum (parse_postgres_lsn (pg_lsn r)) (\<lambda>lsn. Inr (lsn, ordinal))))"

definition earlier :: "int \<times> int \<Rightarrow> int \<times> int \<Rightarrow> bool" where
  "earlier p q \<longleftrightarrow> fst p < fst q \<or> fst p = fst q \<and> snd p < snd q"

fun strictly_ordered :: "(int \<times> int) list \<Rightarrow> bool" where
  "strictly_ordered (p # q # ps) \<longleftrightarrow> earlier p q \<and> strictly_ordered (q # ps)"
| "strictly_ordered _ \<longleftrightarrow> True"

definition pg_position :: "int \<times> int \<Rightarrow> int" where
  "pg_position p = push_bit 32 (fst p) OR snd p"

definition pg_event :: "ev_env \<Rightarrow> pystr \<Rightarrow> ingest_draw \<Rightarrow> pg_record \<times> int \<times> int \<Rightarrow> event_error + event" where
  "pg_event ee src dr rp =
     (let r = fst rp
      in make_event ee (PStr (text_or (pg_event_id r) (colon_join [pg_slot r, pg_lsn r, dump_int (snd (snd rp))])))
           (PStr src) (PStr (pg_slot r)) (PInt (pg_position (snd rp))) (PStr (pg_operation r)) (PDict (pg_row r))
           (stamp_or_now ee dr (pg_timestamp r)) (opt_text (pg_schema_id r)) (PStr (pg_lsn r)))"

definition pg_feed ::
  "('s, 'e) ingest_env \<Rightarrow> pystr \<Rightarrow> (ingest_draw \<times> pg_record) list \<Rightarrow> 's ingestor \<Rightarrow> ('s, event_result list) ires" where
  "pg_feed IE src batch I =
     (case map_sum_list (\<lambda>(dr, r). pg_place r) batch of
        Inl x \<Rightarrow> (Inl x, I)
      | Inr places \<Rightarrow>
          (if \<not> strictly_ordered places
           then (event_err ''PostgreSQL records must be a strictly ordered change batch'', I)
           else feed_all IE (pg_event (ig_env IE) src) (map (\<lambda>((dr, r), p). (dr, r, p)) (zip batch places)) I))"

section \<open>MySQL\<close>

record mysql_record =
  my_server_id :: pystr
  my_sequence :: int
  my_file :: pystr
  my_file_position :: int
  my_table :: pystr
  my_operation :: pystr
  my_row :: "(pystr \<times> pyval) list"
  my_event_id :: "pystr option"
  my_schema_id :: "pystr option"
  my_timestamp :: "pyval option"

definition mysql_event :: "ev_env \<Rightarrow> pystr \<Rightarrow> ingest_draw \<Rightarrow> mysql_record \<Rightarrow> event_error + event" where
  "mysql_event ee src dr r =
     (let cursor = colon_join [my_file r, dump_int (my_file_position r)]
      in make_event ee (PStr (text_or (my_event_id r) (colon_join [my_server_id r, cursor, my_table r])))
           (PStr src) (PStr (my_server_id r)) (PInt (my_sequence r)) (PStr (my_operation r)) (PDict (my_row r))
           (stamp_or_now ee dr (my_timestamp r)) (opt_text (my_schema_id r)) (PStr cursor))"

definition mysql_feed ::
  "('s, 'e) ingest_env \<Rightarrow> pystr \<Rightarrow> (ingest_draw \<times> mysql_record) list \<Rightarrow> 's ingestor \<Rightarrow> ('s, event_result list) ires" where
  "mysql_feed IE src = feed_all IE (mysql_event (ig_env IE) src)"

section \<open>MongoDB\<close>

record mongo_record =
  mo_database :: pystr
  mo_collection :: pystr
  mo_sequence :: int
  mo_resume_token :: pystr
  mo_operation :: pystr
  mo_document :: "(pystr \<times> pyval) list"
  mo_event_id :: "pystr option"
  mo_schema_id :: "pystr option"
  mo_timestamp :: "pyval option"

definition mongo_event :: "ev_env \<Rightarrow> pystr \<Rightarrow> ingest_draw \<Rightarrow> mongo_record \<Rightarrow> event_error + event" where
  "mongo_event ee src dr r =
     (let strm = mo_database r @ lit ''.'' @ mo_collection r
      in make_event ee (PStr (text_or (mo_event_id r) (colon_join [strm, dump_int (mo_sequence r), mo_resume_token r])))
           (PStr src) (PStr strm) (PInt (mo_sequence r)) (PStr (mo_operation r)) (PDict (mo_document r))
           (stamp_or_now ee dr (mo_timestamp r)) (opt_text (mo_schema_id r)) (PStr (mo_resume_token r)))"

definition mongo_feed ::
  "('s, 'e) ingest_env \<Rightarrow> pystr \<Rightarrow> (ingest_draw \<times> mongo_record) list \<Rightarrow> 's ingestor \<Rightarrow> ('s, event_result list) ires" where
  "mongo_feed IE src = feed_all IE (mongo_event (ig_env IE) src)"

section \<open>Kafka\<close>

record kafka_record =
  ka_topic :: pystr
  ka_partition :: int
  ka_offset :: int
  ka_value :: bytes
  ka_timestamp :: "pyval option"

definition put_field :: "string \<Rightarrow> pyval \<Rightarrow> (pystr \<times> pyval) list \<Rightarrow> (pystr \<times> pyval) list" where
  "put_field name v kvs = AList.update (lit name) v kvs"

definition kafka_event ::
  "ev_env \<Rightarrow> (bytes \<Rightarrow> pyval option) \<Rightarrow> pystr \<Rightarrow> ingest_draw \<Rightarrow> kafka_record \<Rightarrow> event_error + event" where
  "kafka_event ee decoded src dr r =
     (case decoded (ka_value r) of
        None \<Rightarrow> event_err ''Kafka record value must be a JSON event''
      | Some (PDict kvs) \<Rightarrow>
          (let place = [ka_topic r, dump_int (ka_partition r)];
               d1 = put_field ''source'' (PStr src) kvs;
               d2 = put_field ''stream'' (PStr (colon_join place)) d1;
               d3 = put_field ''position'' (PInt (ka_offset r)) d2;
               d4 = put_field ''cursor'' (PStr (dump_int (ka_offset r))) d3;
               d5 = (if map_of d4 (lit ''event_id'') = None
                     then put_field ''event_id'' (PStr (colon_join (place @ [dump_int (ka_offset r)]))) d4 else d4);
               d6 = (case ka_timestamp r of None \<Rightarrow> d5 | Some ts \<Rightarrow> put_field ''timestamp'' ts d5)
           in event_from_dict ee (dr_stamp dr) (PDict d6))
      | Some _ \<Rightarrow> event_err ''Kafka record value must be a JSON object'')"

definition kafka_key :: "ingest_draw \<times> kafka_record \<Rightarrow> pystr \<times> int \<times> int" where
  "kafka_key dr_r = (ka_topic (snd dr_r), ka_partition (snd dr_r), ka_offset (snd dr_r))"

text \<open>
  \<open>consume_once\<close> on the records a poll returned: the results and the offsets to commit, for which
  the call of \<open>consumer.commit\<close> is made when there are any.
\<close>

definition kafka_offsets :: "kafka_record list \<Rightarrow> ((pystr \<times> int) \<times> int) list" where
  "kafka_offsets rs = fold (\<lambda>r d. AList.update (ka_topic r, ka_partition r) (ka_offset r + 1) d) rs []"

definition kafka_consume_once ::
  "('s, 'e) ingest_env \<Rightarrow> (bytes \<Rightarrow> pyval option) \<Rightarrow> pystr \<Rightarrow> (ingest_draw \<times> kafka_record) list \<Rightarrow> 's ingestor
    \<Rightarrow> ('s, event_result list \<times> ((pystr \<times> int) \<times> int) list) ires" where
  "kafka_consume_once IE decoded src polled I =
     (let ordered = sort_key kafka_key polled
      in bind_res (feed_all IE (kafka_event (ig_env IE) decoded src) ordered I)
           (\<lambda>rs I1. (Inr (rs, kafka_offsets (map snd ordered)), I1)))"

section \<open>Positions of PostgreSQL changes\<close>

lemma pg_position_eq:
  assumes "0 \<le> snd p" "snd p < 2 ^ 32"
  shows "pg_position p = fst p * 2 ^ 32 + snd p"
proof -
  have "take_bit 32 (snd p) = snd p" using assms by (simp add: take_bit_int_eq_self)
  then have "pg_position p = concat_bit 32 (snd p) (fst p)" by (simp add: pg_position_def concat_bit_def or.commute)
  also have "\<dots> = snd p + push_bit 32 (fst p)" using concat_bit_eq [of 32 "snd p" "fst p"] assms by (simp add: take_bit_int_eq_self)
  finally show ?thesis by (simp add: push_bit_eq_mult)
qed

lemma lsn_range: "parse_postgres_lsn v = Inr lsn \<Longrightarrow> 0 \<le> lsn \<and> lsn < 2 ^ 64"
proof -
  assume "parse_postgres_lsn v = Inr lsn"
  then obtain a b where ab: "lsn = push_bit 32 a + b" "0 \<le> a" "a \<le> 0xFFFFFFFF" "0 \<le> b" "b \<le> 0xFFFFFFFF"
    by (auto simp: parse_postgres_lsn_def Let_def event_err_def int_base16_def split: if_splits)
  then show ?thesis by (simp add: push_bit_eq_mult)
qed

lemma pg_place_range: "pg_place r = Inr p \<Longrightarrow> 0 \<le> fst p \<and> fst p < 2 ^ 64 \<and> 0 \<le> snd p \<and> snd p < 2 ^ 32"
  by (auto simp: pg_place_def event_err_def bind_sum_Inr dest: lsn_range split: option.splits if_splits)

lemma map_sum_list_all2: "map_sum_list f xs = Inr ys \<Longrightarrow> list_all2 (\<lambda>x y. f x = Inr y) xs ys"
  by (induction xs arbitrary: ys) (auto split: sum.splits)

lemma pg_places_range:
  "map_sum_list (\<lambda>(dr, r). pg_place r) batch = Inr places \<Longrightarrow> p \<in> set places
    \<Longrightarrow> 0 \<le> fst p \<and> fst p < 2 ^ 64 \<and> 0 \<le> snd p \<and> snd p < 2 ^ 32"
  by (drule map_sum_list_all2) (auto simp: list_all2_conv_all_nth in_set_conv_nth case_prod_beta dest!: pg_place_range)

lemma earlier_position:
  assumes "earlier p q" "0 \<le> snd p" "snd p < 2 ^ 32" "0 \<le> snd q" "snd q < 2 ^ 32"
  shows "pg_position p < pg_position q"
  using assms by (auto simp: earlier_def pg_position_eq)

lemma strictly_ordered_positions:
  "strictly_ordered ps \<Longrightarrow> (\<And>p. p \<in> set ps \<Longrightarrow> 0 \<le> snd p \<and> snd p < 2 ^ 32) \<Longrightarrow> sorted_wrt (<) (map pg_position ps)"
proof (induction ps rule: strictly_ordered.induct)
  case (1 p q ps)
  then have "pg_position p < pg_position q" by (intro earlier_position) auto
  moreover have "sorted_wrt (<) (map pg_position (q # ps))" using 1 by auto
  ultimately show ?case by auto
qed simp_all

text \<open>
  The composite positions of a PostgreSQL batch are faithful: in an accepted batch they increase
  strictly from record to record, so that no change is taken for an older one of its stream; each
  fits 96 bits, and its upper and lower parts are exactly the log position and the ordinal.
\<close>

theorem pg_positions_faithful:
  assumes "map_sum_list (\<lambda>(dr, r). pg_place r) batch = Inr places" "strictly_ordered places"
  shows "sorted_wrt (<) (map pg_position places)
    \<and> list_all (\<lambda>p. 0 \<le> pg_position p \<and> pg_position p < 2 ^ 96
        \<and> pg_position p div 2 ^ 32 = fst p \<and> pg_position p mod 2 ^ 32 = snd p) places"
proof
  show "sorted_wrt (<) (map pg_position places)"
    using assms by (intro strictly_ordered_positions) (auto dest: pg_places_range)
  show "list_all (\<lambda>p. 0 \<le> pg_position p \<and> pg_position p < 2 ^ 96
      \<and> pg_position p div 2 ^ 32 = fst p \<and> pg_position p mod 2 ^ 32 = snd p) places"
    unfolding list_all_iff
  proof
    fix p assume "p \<in> set places"
    from pg_places_range [OF assms(1) this] show "0 \<le> pg_position p \<and> pg_position p < 2 ^ 96
      \<and> pg_position p div 2 ^ 32 = fst p \<and> pg_position p mod 2 ^ 32 = snd p"
      by (simp add: pg_position_eq)
  qed
qed

definition pg_row_change :: "int \<Rightarrow> pg_record" where
  "pg_row_change n = \<lparr>pg_slot = lit ''s'', pg_lsn = lit ''16/B374D848'', pg_operation = lit ''update'', pg_row = [],
     pg_event_id = None, pg_schema_id = None, pg_timestamp = None, pg_ordinal = Some n\<rparr>"

theorem pg_positions_faithful_witness:
  "map_sum_list (\<lambda>(dr, r). pg_place r) [(events_draw, pg_row_change 0), (events_draw, pg_row_change 1)]
     = Inr [(97500059720, 0), (97500059720, 1)]
   \<and> pg_position (97500059720, 0) < pg_position (97500059720, 1)"
proof -
  have p: "map_sum_list (\<lambda>(dr, r). pg_place r) [(events_draw, pg_row_change 0), (events_draw, pg_row_change 1)]
     = Inr [(97500059720, 0), (97500059720, 1)]"
    by (simp add: pg_place_def pg_row_change_def parse_postgres_lsn_def lit_def hexit_def is_hex_def int_base16_def
        hexit_value_def push_bit_eq_mult)
  from pg_positions_faithful [OF this] p show ?thesis by (simp add: earlier_def)
qed

section \<open>Row changes of MySQL that collide\<close>

lemma commit_event_seen: "commit_event ee b now e st = Inr st' \<Longrightarrow> 0 < max_seen_events b \<Longrightarrow> event_id e \<in> set (seen_events st')"
proof -
  assume "commit_event ee b now e st = Inr st'" "0 < max_seen_events b"
  then obtain st1 where "st' = remember_seen b (event_id e) st1" by (auto simp: commit_event_def bind_sum_Inr)
  moreover have "x \<in> set (drop (length (xs @ [x]) - nat m) (xs @ [x]))" if "0 < m" for x :: pystr and xs m
    using that by simp
  ultimately show ?thesis using \<open>0 < max_seen_events b\<close> by (simp add: remember_seen_def Let_def del: drop_append)
qed

lemma ingest_seen:
  assumes "ingest IE dr e I = (Inr r, J)" "outcome r \<in> {''processed'', ''dead_letter''}"
    and "0 < max_seen_events (bounds (ig_store I))"
  shows "event_id e \<in> set (seen_events (est (ig_store J)))"
proof -
  have "finish IE dr e (fst (process IE e I), snd (process IE e I)) = (Inr r, J)"
    using assms by (auto simp: ingest_def lift_sum_def dest: result_outcome split: sum.splits verdict.splits)
  then show ?thesis
  proof (cases rule: finish_cases)
    case (letter x r0 J0)
    then have d: "dead_letter (ig_env IE) (dr_fault dr) (dr_failed dr) (dr_commit dr) e (exc_text x) True (ig_store I) = (Inr (), ig_store J)"
      using on_store_Inr [of _ _ "()" J0] by auto
    obtain be where "bounded_error (ig_env IE) (bounds (ig_store I)) (exc_text x) = Inr be"
      using d by (cases "bounded_error (ig_env IE) (bounds (ig_store I)) (exc_text x)") (simp_all add: dead_letter_def)
    with d assms(3) show ?thesis unfolding dead_letter_def
      by simp (erule mutate_establishes, auto simp: bind_sum_Inr Let_def dest: commit_event_seen)
  next
    case (completed r1 r0 J0)
    then have "complete (ig_env IE) (dr_fault dr) (dr_commit dr) e (ig_store I) = (Inr (), ig_store J)"
      using on_store_Inr [of _ _ "()" J0] by auto
    then show ?thesis using assms(3) unfolding complete_def
      by (elim mutate_establishes) (auto simp: bind_sum_Inr dest: commit_event_seen)
  qed simp
qed

lemma make_event_id: "make_event ee (PStr i) a b c d f g h k = Inr e \<Longrightarrow> event_id e = i"
  by (auto simp: make_event_def bind_sum_Inr check_event_id_def event_err_def split: if_splits)

text \<open>
  C34. The default event identifier of a MySQL record leaves out its sequence number. Of two row
  changes of one table that share a binlog position, the second is dropped: once the first has been
  ingested, the second is answered \<open>duplicate\<close> and invalidates nothing, whatever its row and
  however much higher its sequence number.
\<close>

theorem mysql_rows_collide:
  assumes "my_server_id r2 = my_server_id r1" "my_file r2 = my_file r1" "my_file_position r2 = my_file_position r1"
    and "my_table r2 = my_table r1" "my_event_id r1 = None" "my_event_id r2 = None"
    and "mysql_event (ig_env IE) src dr r1 = Inr e1" "mysql_event (ig_env IE) src dr' r2 = Inr e2"
    and "ingest IE dr e1 I = (Inr res, I1)" "outcome res \<in> {''processed'', ''dead_letter''}"
    and "0 < max_seen_events (bounds (ig_store I))"
  shows "ig_storage (snd (ingest IE dr' e2 I1)) = ig_storage I1
    \<and> (case fst (ingest IE dr' e2 I1) of Inl x \<Rightarrow> True | Inr r \<Rightarrow> outcome r = ''duplicate'')"
proof -
  have "event_id e2 = event_id e1"
    using assms(1-8) by (auto simp: mysql_event_def text_or_def Let_def dest!: make_event_id)
  then have "event_id e2 \<in> set (seen_events (est (ig_store I1)))" using ingest_seen [OF assms(9-11)] by simp
  then have "admit IE dr' e2 I1 \<noteq> Inr Proceed \<and> admit IE dr' e2 I1 \<noteq> Inr Replayed"
    by (auto simp: admit_def bind_sum_Inr is_seen_def split: if_splits)
  then show ?thesis
    by (auto simp: ingest_def lift_sum_def dest: result_outcome split: sum.split verdict.split)
qed

definition demo_change :: "int \<Rightarrow> pystr \<Rightarrow> mysql_record" where
  "demo_change n key = \<lparr>my_server_id = lit ''s'', my_sequence = n, my_file = lit ''f'', my_file_position = 1, my_table = lit ''t'',
     my_operation = lit ''update'', my_row = [(lit ''id'', PStr key)], my_event_id = None, my_schema_id = None,
     my_timestamp = Some (PInt 0)\<rparr>"

lemma demo_change_event:
  "is_ascii key \<Longrightarrow> 0 \<le> n \<Longrightarrow> mysql_event plain_env (lit ''db'') dr (demo_change n key)
     = Inr (demo_event\<lparr>ev_position := n, ev_payload := [(lit ''id'', PStr key)]\<rparr>)"
  by (simp add: mysql_event_def demo_change_def demo_event_def make_event_def text_or_def colon_join_def Let_def
      check_event_id_def encode_text_def encode_ascii validate_identifier_def is_identifier_def is_alnum_def json_compatible_def
      check_timestamp_def float_limit_def stamp_or_now_def lit_def is_ascii_def is_space_def dump_int_def digits10.simps
      del: encode_utf8.simps)

theorem mysql_rows_collide_witness:
  "\<exists>res I1. ingest events_env events_draw demo_event (demo_ingestor (make_clock demo_tagged)) = (Inr res, I1)
     \<and> ig_storage (snd (ingest events_env events_draw (demo_event\<lparr>ev_position := 8, ev_payload := [(lit ''id'', PStr [98])]\<rparr>) I1))
       = ig_storage I1"
proof -
  obtain n S' where "be_delete_many (ig_backend events_env) [[97], [107]] (make_clock demo_tagged) = (Inr n, S')"
    using demo_deletes by blast
  then obtain r I1 where i: "ingest events_env events_draw demo_event (demo_ingestor (make_clock demo_tagged)) = (Inr r, I1)"
      "outcome r = ''processed''"
    by (rule demo_ingest [rotated]) (auto simp: events_env_def)
  have "ig_env events_env = plain_env" "0 < max_seen_events (bounds (ig_store (demo_ingestor (make_clock demo_tagged))))"
    by (simp_all add: events_env_def demo_ingestor_def fresh_store_def roomy_def)
  moreover have "mysql_event plain_env (lit ''db'') events_draw (demo_change 7 [97]) = Inr demo_event"
    using demo_change_event [of "[97]" 7 events_draw] by (simp add: is_ascii_def demo_event_def)
  moreover have "mysql_event plain_env (lit ''db'') events_draw (demo_change 8 [98])
      = Inr (demo_event\<lparr>ev_position := 8, ev_payload := [(lit ''id'', PStr [98])]\<rparr>)"
    using demo_change_event [of "[98]" 8 events_draw] by (simp add: is_ascii_def)
  ultimately have "ig_storage (snd (ingest events_env events_draw (demo_event\<lparr>ev_position := 8, ev_payload := [(lit ''id'', PStr [98])]\<rparr>) I1))
       = ig_storage I1"
    using mysql_rows_collide [of "demo_change 8 [98]" "demo_change 7 [97]" events_env "lit ''db''" events_draw demo_event events_draw
        "demo_event\<lparr>ev_position := 8, ev_payload := [(lit ''id'', PStr [98])]\<rparr>", OF _ _ _ _ _ _ _ _ i(1)] i(2)
    by (simp add: demo_change_def)
  with i show ?thesis by blast
qed

end
