(* ===== verification/Client_Cache.thy ===== *)
theory Client_Cache
  imports PyText
begin

text \<open>
  The client-side cache of \<open>src/src/megacache/client.py\<close>: \<open>LocalCache\<close>, a bounded LRU, and the
  generation counter with which \<open>MegaCacheClient\<close> keeps it from holding what the client itself has
  overwritten. \<open>_mutation_succeeded\<close> bumps the generation and clears the cache under \<open>_flight_lock\<close>;
  a value read from the server is admitted only when the generation is still the one read before
  the request.

  Threads interleave at the sections that hold \<open>_flight_lock\<close> and at the instant the server
  executes a command; \<open>client_step\<close> is the step relation. What the server answers is taken from
  its content at that instant, which any other client may change at any time.
\<close>

section \<open>The local cache\<close>

record local_entry =
  le_value :: bytes
  le_fresh_until :: real
  le_stale_until :: real
  le_size :: int

record local_cache =
  lc_max_entries :: int
  lc_max_memory :: int
  lc_entries :: "(pystr \<times> local_entry) list"
  lc_used :: int

datatype client_fault = BadLimits | BadPolicy | NotEncodable | BadPollInterval

datatype value_state = FreshValue | StaleValue | LoadedValue | StaleIfError

record cached_value =
  cv_value :: bytes
  cv_state :: value_state
  cv_deadline :: "real option"

definition make_local_cache :: "int \<Rightarrow> int \<Rightarrow> client_fault + local_cache" where
  "make_local_cache n m =
     (if n \<le> 0 \<or> m \<le> 0 then Inl BadLimits
      else Inr \<lparr>lc_max_entries = n, lc_max_memory = m, lc_entries = [], lc_used = 0\<rparr>)"

definition lc_remove :: "pystr \<Rightarrow> local_cache \<Rightarrow> local_cache" where
  "lc_remove k c =
     (case map_of (lc_entries c) k of
        None \<Rightarrow> c
      | Some e \<Rightarrow> c\<lparr>lc_entries := AList.delete k (lc_entries c), lc_used := lc_used c - le_size e\<rparr>)"

definition lc_get :: "real \<Rightarrow> pystr \<Rightarrow> local_cache \<Rightarrow> cached_value option \<times> local_cache" where
  "lc_get now k c =
     (case map_of (lc_entries c) k of
        None \<Rightarrow> (None, c)
      | Some e \<Rightarrow>
          (if now \<ge> le_stale_until e then (None, lc_remove k c)
           else (Some \<lparr>cv_value = le_value e,
                       cv_state = (if now < le_fresh_until e then FreshValue else StaleValue),
                       cv_deadline = Some (le_stale_until e)\<rparr>,
                 c\<lparr>lc_entries := od_to_end k (lc_entries c)\<rparr>)))"

definition lc_over :: "local_cache \<Rightarrow> bool" where
  "lc_over c \<longleftrightarrow> int (length (lc_entries c)) > lc_max_entries c \<or> lc_used c > lc_max_memory c"

text \<open>\<open>while over the limits: self._remove(oldest)\<close>.\<close>

function lc_evict :: "local_cache \<Rightarrow> local_cache" where
  "lc_evict c =
     (if lc_over c
      then (case lc_entries c of [] \<Rightarrow> c | (k, e) # _ \<Rightarrow> lc_evict (lc_remove k c))
      else c)"
  by pat_completeness auto
termination
  by (relation "measure (\<lambda>c. length (lc_entries c))")
    (auto simp: lc_remove_def less_Suc_eq_le intro: length_delete_le)

declare lc_evict.simps [simp del]

definition lc_put ::
  "real \<Rightarrow> pystr \<Rightarrow> bytes \<Rightarrow> real \<Rightarrow> real \<Rightarrow> local_cache \<Rightarrow> (client_fault, bool, local_cache) res" where
  "lc_put now k v ttl_s stale_s c =
     (if ttl_s < 0 \<or> stale_s < 0 \<or> ttl_s + stale_s \<le> 0 then (Inl BadPolicy, c)
      else case utf8_len k of
          None \<Rightarrow> (Inl NotEncodable, c)
        | Some n \<Rightarrow>
            (let sz = n + int (length v)
             in if sz > lc_max_memory c then (Inr False, c)
                else
                  let c1 = lc_remove k c;
                      e = \<lparr>le_value = v, le_fresh_until = now + ttl_s, le_stale_until = now + ttl_s + stale_s, le_size = sz\<rparr>;
                      c2 = c1\<lparr>lc_entries := lc_entries c1 @ [(k, e)], lc_used := lc_used c1 + sz\<rparr>
                  in (Inr True, lc_evict c2)))"

definition lc_clear :: "local_cache \<Rightarrow> local_cache" where
  "lc_clear c = c\<lparr>lc_entries := [], lc_used := 0\<rparr>"

section \<open>Windows\<close>

definition remaining_windows :: "real \<Rightarrow> real \<Rightarrow> real \<Rightarrow> real \<times> real" where
  "remaining_windows fresh_budget stale_budget elapsed =
     (let fresh = max 0 (fresh_budget - elapsed);
          hard = max 0 (fresh_budget + stale_budget - elapsed)
      in (fresh, max 0 (hard - fresh)))"

text \<open>The budget of a window: the policy's, cut to what the server says is left (negative: unlimited).\<close>

definition window_budget :: "real \<Rightarrow> real option \<Rightarrow> real" where
  "window_budget policy_s left =
     (case left of None \<Rightarrow> policy_s | Some l \<Rightarrow> (if l < 0 then policy_s else min policy_s l))"

definition deadline_after :: "real \<Rightarrow> real \<Rightarrow> real \<Rightarrow> real" where
  "deadline_after now started budget = now + max 0 (budget - max 0 (now - started))"

section \<open>Generations\<close>

record client =
  cl_local :: local_cache
  cl_generation :: int
  cl_cursor :: "pystr option"
  cl_epoch :: "pystr option"
  cl_cursor_generation :: "int option"
  cl_last_poll :: real
  cl_poll_seconds :: real

definition make_client :: "int \<Rightarrow> int \<Rightarrow> real \<Rightarrow> client_fault + client" where
  "make_client n m poll =
     (if poll < 0 then Inl BadPollInterval
      else case make_local_cache n m of
          Inl e \<Rightarrow> Inl e
        | Inr lc \<Rightarrow> Inr \<lparr>cl_local = lc, cl_generation = 0, cl_cursor = None, cl_epoch = None,
                        cl_cursor_generation = None, cl_last_poll = 0, cl_poll_seconds = poll\<rparr>)"

definition mutation_succeeded :: "client \<Rightarrow> int \<times> client" where
  "mutation_succeeded c =
     (let g = cl_generation c + 1
      in (g, c\<lparr>cl_generation := g, cl_local := lc_clear (cl_local c)\<rparr>))"

definition admit_if_generation ::
  "int \<Rightarrow> real \<Rightarrow> pystr \<Rightarrow> bytes \<Rightarrow> real \<Rightarrow> real \<Rightarrow> client \<Rightarrow> (client_fault, bool, client) res" where
  "admit_if_generation g now k v ttl_s stale_s c =
     (if g \<noteq> cl_generation c then (Inr False, c)
      else case lc_put now k v ttl_s stale_s (cl_local c) of (r, lc) \<Rightarrow> (r, c\<lparr>cl_local := lc\<rparr>))"

record invalidation_document =
  doc_cursor :: pystr
  doc_epoch :: "pystr option"
  doc_generation :: "int option"

definition poll_changed :: "invalidation_document \<Rightarrow> client \<Rightarrow> bool" where
  "poll_changed d c \<longleftrightarrow> cl_cursor c \<noteq> None
     \<and> (if doc_epoch d = None \<or> doc_generation d = None then Some (doc_cursor d) \<noteq> cl_cursor c
        else doc_epoch d \<noteq> cl_epoch c \<or> doc_generation d \<noteq> cl_cursor_generation c)"

text \<open>\<open>_poll_invalidations\<close> once the document is here; \<open>poll_due\<close> is its first test.\<close>

definition poll_due :: "real \<Rightarrow> client \<Rightarrow> bool" where
  "poll_due now c \<longleftrightarrow> \<not> now - cl_last_poll c < cl_poll_seconds c"

definition apply_poll :: "real \<Rightarrow> invalidation_document \<Rightarrow> client \<Rightarrow> client" where
  "apply_poll now d c =
     (let c1 = (if poll_changed d c then snd (mutation_succeeded c) else c)
      in c1\<lparr>cl_cursor := Some (doc_cursor d), cl_epoch := doc_epoch d, cl_cursor_generation := doc_generation d,
            cl_last_poll := now\<rparr>)"

section \<open>The local cache is exact and bounded\<close>

definition lc_inv :: "local_cache \<Rightarrow> bool" where
  "lc_inv c \<longleftrightarrow> od_distinct (lc_entries c) \<and> lc_used c = od_sum le_size (lc_entries c)
     \<and> int (length (lc_entries c)) \<le> lc_max_entries c \<and> lc_used c \<le> lc_max_memory c
     \<and> 0 < lc_max_entries c \<and> 0 < lc_max_memory c \<and> (\<forall>(k, e) \<in> set (lc_entries c). 0 \<le> le_size e)"

definition lc_exact :: "local_cache \<Rightarrow> bool" where
  "lc_exact c \<longleftrightarrow> od_distinct (lc_entries c) \<and> lc_used c = od_sum le_size (lc_entries c)
     \<and> (\<forall>(k, e) \<in> set (lc_entries c). 0 \<le> le_size e)"

lemma set_delete_le: "set (AList.delete k d) \<subseteq> set d"
  by (auto simp: delete_filter)

lemma set_to_end_le: "set (od_to_end k d) \<subseteq> set d"
  by (auto simp: od_to_end_def delete_filter split: option.splits dest: map_of_SomeD)

lemma lc_remove_exact: "lc_exact c \<Longrightarrow> lc_exact (lc_remove k c)"
  using set_delete_le [of k "lc_entries c"]
  by (cases "map_of (lc_entries c) k") (auto simp: lc_exact_def lc_remove_def od_sum_delete simp del: map_of_eq_Some_iff)

lemma lc_remove_frame [simp]:
  "lc_max_entries (lc_remove k c) = lc_max_entries c" "lc_max_memory (lc_remove k c) = lc_max_memory c"
  by (simp_all add: lc_remove_def split: option.splits)

lemma lc_remove_entries [simp]: "lc_entries (lc_remove k c) = AList.delete k (lc_entries c)"
  by (simp add: lc_remove_def delete_absent split: option.splits)

lemma lc_head_removed:
  assumes "lc_exact c" "lc_entries c = (k, e) # r"
  shows "lc_entries (lc_remove k c) = r"
  using assms by (simp add: lc_exact_def delete_fresh)

lemma lc_evict_frame:
  "lc_max_entries (lc_evict c) = lc_max_entries c \<and> lc_max_memory (lc_evict c) = lc_max_memory c
   \<and> set (lc_entries (lc_evict c)) \<subseteq> set (lc_entries c)"
proof (induction c rule: lc_evict.induct)
  case (1 c)
  show ?case
  proof (cases "lc_over c \<and> lc_entries c \<noteq> []")
    case True
    then obtain k e r where c: "lc_entries c = (k, e) # r" by (cases "lc_entries c") auto
    with True 1 [of "(k, e)" r k e] have "lc_max_entries (lc_evict (lc_remove k c)) = lc_max_entries c
      \<and> lc_max_memory (lc_evict (lc_remove k c)) = lc_max_memory c
      \<and> set (lc_entries (lc_evict (lc_remove k c))) \<subseteq> set (AList.delete k (lc_entries c))" by simp
    moreover have "set (AList.delete k (lc_entries c)) \<subseteq> set (lc_entries c)" by (auto simp: delete_filter)
    ultimately show ?thesis using True c by (subst (1 2 3) lc_evict.simps) auto
  qed (subst (1 2 3) lc_evict.simps, auto)
qed

lemma lc_evict_inv:
  "lc_exact c \<Longrightarrow> 0 < lc_max_entries c \<Longrightarrow> 0 < lc_max_memory c \<Longrightarrow> lc_inv (lc_evict c)"
proof (induction c rule: lc_evict.induct)
  case (1 c)
  show ?case
  proof (cases "lc_over c")
    case True
    then obtain k e r where c: "lc_entries c = (k, e) # r"
      using "1.prems" by (cases "lc_entries c") (auto simp: lc_over_def lc_exact_def)
    have "lc_inv (lc_evict (lc_remove k c))" using True c "1.prems" by (intro "1.IH") (auto intro: lc_remove_exact)
    with True c show ?thesis by (subst lc_evict.simps) simp
  next
    case False
    with "1.prems" show ?thesis by (subst lc_evict.simps) (auto simp: lc_inv_def lc_exact_def lc_over_def)
  qed
qed

text \<open>Eviction never reaches the entry just written.\<close>

lemma lc_evict_last:
  "lc_exact c \<Longrightarrow> 0 < lc_max_entries c \<Longrightarrow> lc_entries c = xs @ [(k, e)] \<Longrightarrow> le_size e \<le> lc_max_memory c
    \<Longrightarrow> \<exists>ys. lc_entries (lc_evict c) = ys @ [(k, e)]"
proof (induction c arbitrary: xs rule: lc_evict.induct)
  case (1 c)
  show ?case
  proof (cases "lc_over c")
    case True
    then obtain k' e' ys where xs: "xs = (k', e') # ys"
      using "1.prems" by (cases xs) (auto simp: lc_over_def lc_exact_def)
    have c: "lc_entries c = (k', e') # ys @ [(k, e)]" using "1.prems"(3) xs by simp
    have "lc_entries (lc_remove k' c) = ys @ [(k, e)]" using lc_head_removed [OF "1.prems"(1) c] .
    then have "\<exists>ys. lc_entries (lc_evict (lc_remove k' c)) = ys @ [(k, e)]"
      using "1.IH" [OF True c refl, of ys] "1.prems" by (simp add: lc_remove_exact)
    with True c show ?thesis by (subst lc_evict.simps) simp
  next
    case False
    with "1.prems" show ?thesis by (subst lc_evict.simps) simp
  qed
qed

lemma lc_inv_exact: "lc_inv c \<Longrightarrow> lc_exact c"
  by (simp add: lc_inv_def lc_exact_def)

lemma lc_get_inv: "lc_inv c \<Longrightarrow> lc_inv (snd (lc_get now k c))"
proof -
  assume i: "lc_inv c"
  have "lc_inv (lc_remove k c)" if "map_of (lc_entries c) k = Some e" for e
  proof -
    have "(k, e) \<in> set (lc_entries c)" using map_of_SomeD [OF that] .
    then have "0 \<le> le_size e" using i by (auto simp: lc_inv_def)
    with i that lc_remove_exact [OF lc_inv_exact [OF i], of k] length_delete_le [of k "lc_entries c"] show ?thesis
      by (auto simp: lc_inv_def lc_exact_def lc_remove_def)
  qed
  moreover have "lc_inv (c\<lparr>lc_entries := od_to_end k (lc_entries c)\<rparr>)"
    using i by (auto simp: lc_inv_def dest: set_mp [OF set_to_end_le])
  ultimately show ?thesis using i by (auto simp: lc_get_def split: option.splits)
qed

lemma lc_put_True:
  assumes "lc_inv c" "lc_put now k v ttl_s stale_s c = (Inr True, c')"
  obtains e ys where "lc_inv c'" "lc_entries c' = ys @ [(k, e)]" "le_value e = v" "le_fresh_until e = now + ttl_s"
    "le_stale_until e = now + ttl_s + stale_s" "set (lc_entries c') \<subseteq> insert (k, e) (set (lc_entries c))"
proof -
  obtain n where n: "utf8_len k = Some n" "n + int (length v) \<le> lc_max_memory c"
    using assms(2) by (auto simp: lc_put_def Let_def split: if_splits option.splits)
  define e where "e = \<lparr>le_value = v, le_fresh_until = now + ttl_s, le_stale_until = now + ttl_s + stale_s, le_size = n + int (length v)\<rparr>"
  define c2 where "c2 = (lc_remove k c)\<lparr>lc_entries := AList.delete k (lc_entries c) @ [(k, e)],
      lc_used := lc_used (lc_remove k c) + (n + int (length v))\<rparr>"
  have c': "c' = lc_evict c2"
    using assms(2) n by (auto simp: lc_put_def Let_def c2_def e_def split: if_splits)
  have pos: "0 \<le> n + int (length v)" using utf8_len_nonneg [OF n(1)] by simp
  have ex: "lc_exact c2"
    using lc_remove_exact [OF lc_inv_exact [OF assms(1)], of k] pos
    by (auto simp: lc_exact_def c2_def e_def)
  have m: "0 < lc_max_entries c2" "0 < lc_max_memory c2" "le_size e \<le> lc_max_memory c2"
    using assms(1) n pos by (auto simp: c2_def e_def lc_inv_def)
  obtain ys where ys: "lc_entries c' = ys @ [(k, e)]"
    using lc_evict_last [OF ex m(1) _ m(3), of "AList.delete k (lc_entries c)" k] by (auto simp: c' c2_def)
  have "set (lc_entries c') \<subseteq> insert (k, e) (set (lc_entries c))"
    using lc_evict_frame [of c2] by (auto simp: c' c2_def delete_filter)
  with that [OF _ ys] lc_evict_inv [OF ex m(1,2)] show thesis by (simp add: c' e_def)
qed

lemma lc_put_found:
  assumes "lc_inv c" "lc_put now k v ttl_s stale_s c = (Inr True, c')"
  shows "lc_inv c' \<and> fst (lc_get t k c') =
    (if t < now + ttl_s + stale_s
     then Some \<lparr>cv_value = v, cv_state = (if t < now + ttl_s then FreshValue else StaleValue), cv_deadline = Some (now + ttl_s + stale_s)\<rparr>
     else None)"
proof -
  obtain e ys where e: "lc_inv c'" "lc_entries c' = ys @ [(k, e)]" "le_value e = v" "le_fresh_until e = now + ttl_s"
      "le_stale_until e = now + ttl_s + stale_s"
    using assms by (rule lc_put_True)
  have "map_of (lc_entries c') k = Some e"
    using e(1,2) by (intro map_of_is_SomeI) (simp_all add: lc_inv_def)
  with e show ?thesis by (simp add: lc_get_def)
qed

text \<open>
  The local cache keeps its promises: a stored value is returned byte for byte until its stale
  window ends, as fresh before the end of its time to live and as stale after, whatever had to be
  evicted to make room, which is never the value itself; and storing keeps the byte count exact and
  both limits.
\<close>

theorem local_put_get:
  assumes "lc_inv c" "lc_put now k v ttl_s stale_s c = (Inr True, c')"
  shows "lc_inv c' \<and> fst (lc_get t k c') =
    (if t < now + ttl_s + stale_s
     then Some \<lparr>cv_value = v, cv_state = (if t < now + ttl_s then FreshValue else StaleValue), cv_deadline = Some (now + ttl_s + stale_s)\<rparr>
     else None)"
  by (rule lc_put_found [OF assms])

definition tiny_cache :: local_cache where
  "tiny_cache = \<lparr>lc_max_entries = 1, lc_max_memory = 4,
     lc_entries = [([97], \<lparr>le_value = ''x'', le_fresh_until = 1, le_stale_until = 2, le_size = 2\<rparr>)], lc_used = 2\<rparr>"

theorem local_put_get_witness:
  "\<exists>c'. lc_put 0 [98] ''yz'' 5 0 tiny_cache = (Inr True, c') \<and> lc_inv c'
     \<and> fst (lc_get 3 [98] c') = Some \<lparr>cv_value = ''yz'', cv_state = FreshValue, cv_deadline = Some 5\<rparr>"
proof -
  have "lc_inv tiny_cache" by (simp add: lc_inv_def tiny_cache_def)
  moreover obtain c' where "lc_put 0 [98] ''yz'' 5 0 tiny_cache = (Inr True, c')"
    by (simp add: lc_put_def utf8_len_ascii is_ascii_def tiny_cache_def Let_def)
  ultimately show ?thesis using local_put_get [of tiny_cache 0 "[98]" "''yz''" 5 0 c' 3] by auto
qed

section \<open>Interleavings\<close>

text \<open>
  Where a thread is: it has read the generation for a key; the server has answered its read; the
  server has executed its mutation (it holds \<open>_mutation_lock\<close>); it is about to admit its own write.
  The instants are those of the server.
\<close>

datatype thread =
    Resting
  | Asked pystr int
  | Answered pystr int bytes nat
  | Executed "(pystr \<times> bytes) option" nat
  | OwnWrite pystr int bytes nat

record world =
  w_client :: client
  w_server :: "pystr \<Rightarrow> bytes option"
  w_now :: nat
  w_past :: "nat \<Rightarrow> pystr \<Rightarrow> bytes option"
  w_thread :: "nat \<Rightarrow> thread"
  w_writer :: "nat option"
  w_base :: nat

definition server_becomes :: "(pystr \<Rightarrow> bytes option) \<Rightarrow> world \<Rightarrow> world" where
  "server_becomes srv w = w\<lparr>w_server := srv, w_now := w_now w + 1, w_past := (w_past w)(w_now w + 1 := srv)\<rparr>"

definition set_thread :: "nat \<Rightarrow> thread \<Rightarrow> world \<Rightarrow> world" where
  "set_thread i p w = w\<lparr>w_thread := (w_thread w)(i := p)\<rparr>"

definition stores :: "(pystr \<Rightarrow> bytes option) \<Rightarrow> (pystr \<times> bytes) option \<Rightarrow> bool" where
  "stores srv kv \<longleftrightarrow> (case kv of None \<Rightarrow> True | Some (k, v) \<Rightarrow> srv k = Some v)"

inductive client_step :: "world \<Rightarrow> world \<Rightarrow> bool" where
  elsewhere: "client_step w (server_becomes srv w)"
| ask: "w_thread w i = Resting \<Longrightarrow> client_step w (set_thread i (Asked k (cl_generation (w_client w))) w)"
| answer: "w_thread w i = Asked k g \<Longrightarrow> w_server w k = Some v
    \<Longrightarrow> client_step w (set_thread i (Answered k g v (w_now w)) w)"
| give_up: "\<forall>kv t. w_thread w i \<noteq> Executed kv t \<Longrightarrow> client_step w (set_thread i Resting w)"
| admit: "w_thread w i = Answered k g v t
    \<Longrightarrow> client_step w (set_thread i Resting (w\<lparr>w_client := snd (admit_if_generation g now k v ttl_s stale_s (w_client w))\<rparr>))"
| execute: "w_thread w i = Resting \<Longrightarrow> w_writer w = None \<Longrightarrow> stores srv kv
    \<Longrightarrow> client_step w (set_thread i (Executed kv (w_now w + 1)) ((server_becomes srv w)\<lparr>w_writer := Some i\<rparr>))"
| unanswered: "w_thread w i = Executed kv t \<Longrightarrow> client_step w (set_thread i Resting (w\<lparr>w_writer := None\<rparr>))"
| record_write: "w_thread w i = Executed kv t \<Longrightarrow> mutation_succeeded (w_client w) = (g, c)
    \<Longrightarrow> client_step w (set_thread i (case kv of None \<Rightarrow> Resting | Some (k, v) \<Rightarrow> OwnWrite k g v t)
          (w\<lparr>w_client := c, w_writer := None, w_base := t\<rparr>))"
| admit_own: "w_thread w i = OwnWrite k g v t
    \<Longrightarrow> client_step w (set_thread i Resting (w\<lparr>w_client := snd (admit_if_generation g now k v ttl_s stale_s (w_client w))\<rparr>))"
| poll: "client_step w (w\<lparr>w_client := apply_poll now d (w_client w)\<rparr>)"
| look: "client_step w (w\<lparr>w_client := (w_client w)\<lparr>cl_local := snd (lc_get now k (cl_local (w_client w)))\<rparr>\<rparr>)"

definition start_world :: "client \<Rightarrow> (pystr \<Rightarrow> bytes option) \<Rightarrow> world" where
  "start_world c srv = \<lparr>w_client = c, w_server = srv, w_now = 0, w_past = (\<lambda>_. srv), w_thread = (\<lambda>_. Resting),
     w_writer = None, w_base = 0\<rparr>"

definition since_base :: "world \<Rightarrow> pystr \<Rightarrow> bytes \<Rightarrow> bool" where
  "since_base w k v \<longleftrightarrow> (\<exists>t. w_base w \<le> t \<and> t \<le> w_now w \<and> w_past w t k = Some v)"

fun thread_ok :: "world \<Rightarrow> nat \<Rightarrow> thread \<Rightarrow> bool" where
  "thread_ok w i Resting = True"
| "thread_ok w i (Asked k g) = (g \<le> cl_generation (w_client w))"
| "thread_ok w i (Answered k g v t) = (g \<le> cl_generation (w_client w) \<and> t \<le> w_now w \<and> w_past w t k = Some v
     \<and> (g = cl_generation (w_client w) \<longrightarrow> w_base w \<le> t))"
| "thread_ok w i (Executed kv t) = (w_writer w = Some i \<and> w_base w \<le> t \<and> t \<le> w_now w \<and> stores (w_past w t) kv)"
| "thread_ok w i (OwnWrite k g v t) = (g \<le> cl_generation (w_client w) \<and> t \<le> w_now w \<and> w_past w t k = Some v
     \<and> (g = cl_generation (w_client w) \<longrightarrow> w_base w \<le> t))"

definition coherent :: "world \<Rightarrow> bool" where
  "coherent w \<longleftrightarrow> lc_inv (cl_local (w_client w)) \<and> w_past w (w_now w) = w_server w \<and> w_base w \<le> w_now w
     \<and> (\<forall>(k, e) \<in> set (lc_entries (cl_local (w_client w))). since_base w k (le_value e))
     \<and> (\<forall>i. thread_ok w i (w_thread w i))"

lemma set_thread_frame [simp]:
  "w_client (set_thread i p w) = w_client w" "w_server (set_thread i p w) = w_server w" "w_now (set_thread i p w) = w_now w"
  "w_past (set_thread i p w) = w_past w" "w_writer (set_thread i p w) = w_writer w" "w_base (set_thread i p w) = w_base w"
  "w_thread (set_thread i p w) = (w_thread w)(i := p)"
  by (simp_all add: set_thread_def)

lemma thread_ok_set [simp]: "thread_ok (set_thread i q w) j p = thread_ok w j p"
  by (cases p) simp_all

lemma since_base_set [simp]: "since_base (set_thread i q w) k v = since_base w k v"
  by (simp add: since_base_def)

lemma coherent_set: "coherent (set_thread i p w) \<longleftrightarrow>
    lc_inv (cl_local (w_client w)) \<and> w_past w (w_now w) = w_server w \<and> w_base w \<le> w_now w
    \<and> (\<forall>(k, e) \<in> set (lc_entries (cl_local (w_client w))). since_base w k (le_value e))
    \<and> thread_ok w i p \<and> (\<forall>j. j \<noteq> i \<longrightarrow> thread_ok w j (w_thread w j))"
  by (auto simp: coherent_def)

lemma coherentD:
  assumes "coherent w"
  shows "lc_inv (cl_local (w_client w))" "w_past w (w_now w) = w_server w" "w_base w \<le> w_now w"
    and "(k, e) \<in> set (lc_entries (cl_local (w_client w))) \<Longrightarrow> since_base w k (le_value e)"
    and "thread_ok w i (w_thread w i)"
  using assms by (auto simp: coherent_def)

lemma thread_ok_mono:
  assumes "thread_ok w j p" "cl_generation (w_client w') = cl_generation (w_client w)" "w_base w' = w_base w"
    and "\<forall>kv t. p = Executed kv t \<longrightarrow> w_writer w' = w_writer w" "w_now w \<le> w_now w'" "\<forall>t \<le> w_now w. w_past w' t = w_past w t"
  shows "thread_ok w' j p"
  using assms by (cases p) auto

lemma since_base_mono:
  assumes "since_base w k v" "w_base w' = w_base w" "w_now w \<le> w_now w'" "\<forall>t \<le> w_now w. w_past w' t = w_past w t"
  shows "since_base w' k v"
  using assms unfolding since_base_def by (metis le_trans)

lemma lc_get_entries: "set (lc_entries (snd (lc_get now k c))) \<subseteq> set (lc_entries c)"
  by (auto simp: lc_get_def od_to_end_def delete_filter split: option.splits if_splits dest: map_of_SomeD)

lemma admit_effect:
  assumes "lc_inv (cl_local c)" and c'_def: "c' = snd (admit_if_generation g now k v ttl_s stale_s c)"
  shows "lc_inv (cl_local c') \<and> cl_generation c' = cl_generation c
    \<and> (\<forall>(j, e) \<in> set (lc_entries (cl_local c')). (j, e) \<in> set (lc_entries (cl_local c)) \<or> g = cl_generation c \<and> j = k \<and> le_value e = v)"
proof (cases "g = cl_generation c \<and> fst (lc_put now k v ttl_s stale_s (cl_local c)) = Inr True")
  case True
  then have p: "lc_put now k v ttl_s stale_s (cl_local c) = (Inr True, cl_local c')"
    by (cases "lc_put now k v ttl_s stale_s (cl_local c)") (simp add: c'_def admit_if_generation_def)
  have "cl_generation c' = cl_generation c"
    using True by (simp add: c'_def admit_if_generation_def split: prod.split)
  moreover from assms(1) p obtain e ys where "lc_inv (cl_local c')" "le_value e = v"
      "set (lc_entries (cl_local c')) \<subseteq> insert (k, e) (set (lc_entries (cl_local c)))"
    by (rule lc_put_True)
  ultimately show ?thesis using True by auto
next
  case False
  have "snd (lc_put now k v ttl_s stale_s (cl_local c)) = cl_local c \<or> fst (lc_put now k v ttl_s stale_s (cl_local c)) = Inr True"
    by (auto simp: lc_put_def Let_def split: option.splits)
  with False have "c' = c" by (auto simp: c'_def admit_if_generation_def split: prod.split)
  with assms(1) show ?thesis by auto
qed

lemma coherent_admit:
  assumes "coherent w" "g = cl_generation (w_client w) \<Longrightarrow> since_base w k v"
  shows "coherent (set_thread i Resting (w\<lparr>w_client := snd (admit_if_generation g now k v ttl_s stale_s (w_client w))\<rparr>))"
proof -
  let ?c = "snd (admit_if_generation g now k v ttl_s stale_s (w_client w))"
  let ?w = "w\<lparr>w_client := ?c\<rparr>"
  have a: "lc_inv (cl_local ?c)" "cl_generation ?c = cl_generation (w_client w)"
    "\<forall>(j, e) \<in> set (lc_entries (cl_local ?c)). (j, e) \<in> set (lc_entries (cl_local (w_client w)))
       \<or> g = cl_generation (w_client w) \<and> j = k \<and> le_value e = v"
    using admit_effect [OF _ refl, of "w_client w" g now k v ttl_s stale_s] assms(1) by (auto simp: coherent_def)
  have t: "thread_ok ?w j (w_thread w j)" for j
    using a(2) by (intro thread_ok_mono [OF coherentD(5) [OF assms(1)]]) simp_all
  have "since_base w j (le_value e)" if "(j, e) \<in> set (lc_entries (cl_local ?c))" for j e
    using a(3) that assms(2) coherentD(4) [OF assms(1), of j e] by fastforce
  then have "since_base ?w j (le_value e)" if "(j, e) \<in> set (lc_entries (cl_local ?c))" for j e
    using that by (simp add: since_base_def)
  with a(1) coherentD(2,3) [OF assms(1)] t show ?thesis unfolding coherent_set by simp blast
qed

lemma coherent_server:
  assumes "coherent w"
  shows "coherent (server_becomes srv w)"
proof -
  let ?w = "server_becomes srv w"
  have f: "w_client ?w = w_client w" "w_base ?w = w_base w" "w_writer ?w = w_writer w" "w_now w \<le> w_now ?w"
    "w_thread ?w = w_thread w" "\<forall>t \<le> w_now w. w_past ?w t = w_past w t" "w_past ?w (w_now ?w) = w_server ?w"
    by (auto simp: server_becomes_def)
  have "thread_ok ?w j (w_thread ?w j)" for j
    unfolding f(5) using f by (intro thread_ok_mono [OF coherentD(5) [OF assms]]) simp_all
  moreover have "since_base ?w k (le_value e)" if "(k, e) \<in> set (lc_entries (cl_local (w_client w)))" for k e
    using f by (intro since_base_mono [OF coherentD(4) [OF assms that]]) simp_all
  moreover have "w_base ?w \<le> w_now ?w" using coherentD(3) [OF assms] f by simp
  ultimately show ?thesis using coherentD(1) [OF assms] f(1,7) unfolding coherent_def by auto
qed

lemma coherent_bump:
  assumes "coherent w" "mutation_succeeded (w_client w) = (g, c)" "w_base w \<le> t" "t \<le> w_now w"
    and "\<forall>j kv u. j \<noteq> i \<longrightarrow> w_thread w j \<noteq> Executed kv u"
    and "thread_ok (w\<lparr>w_client := c, w_writer := wr, w_base := t\<rparr>) i p"
  shows "coherent (set_thread i p (w\<lparr>w_client := c, w_writer := wr, w_base := t\<rparr>))"
proof -
  let ?w = "w\<lparr>w_client := c, w_writer := wr, w_base := t\<rparr>"
  have c: "cl_generation c = cl_generation (w_client w) + 1" "lc_entries (cl_local c) = []" "lc_inv (cl_local c)"
    using assms(1,2) by (auto simp: mutation_succeeded_def lc_clear_def Let_def coherent_def lc_inv_def)
  have "thread_ok ?w j (w_thread w j)" if "j \<noteq> i" for j
  proof -
    have "thread_ok w j (w_thread w j)" using assms(1) by (simp add: coherent_def)
    then show ?thesis using assms(5) that c(1) by (cases "w_thread w j") auto
  qed
  then show ?thesis using assms c by (auto simp: coherent_set coherent_def)
qed

lemma coherent_poll:
  assumes "coherent w"
  shows "coherent (w\<lparr>w_client := apply_poll now d (w_client w)\<rparr>)"
proof -
  let ?c = "apply_poll now d (w_client w)"
  have c: "lc_inv (cl_local ?c)" "cl_generation (w_client w) \<le> cl_generation ?c"
    "set (lc_entries (cl_local ?c)) \<subseteq> set (lc_entries (cl_local (w_client w)))"
    using assms by (auto simp: apply_poll_def mutation_succeeded_def lc_clear_def Let_def coherent_def lc_inv_def)
  have "thread_ok (w\<lparr>w_client := ?c\<rparr>) j (w_thread w j)" for j
  proof -
    have "thread_ok w j (w_thread w j)" using assms by (simp add: coherent_def)
    then show ?thesis using c(2) by (cases "w_thread w j") auto
  qed
  with c assms show ?thesis by (fastforce simp: coherent_def since_base_def)
qed

lemma client_step_coherent: "client_step w w' \<Longrightarrow> coherent w \<Longrightarrow> coherent w'"
proof (induction rule: client_step.induct)
  case (elsewhere w srv)
  then show ?case by (simp add: coherent_server)
next
  case (ask w i k)
  then show ?case by (auto simp: coherent_set) (auto simp: coherent_def)
next
  case (answer w i k g v)
  then have "thread_ok w i (Asked k g)" by (metis coherent_def)
  with answer show ?case by (auto simp: coherent_set) (auto simp: coherent_def)
next
  case (give_up w i)
  then show ?case by (auto simp: coherent_set) (auto simp: coherent_def)
next
  case (admit w i k g v t now ttl_s stale_s)
  then have "thread_ok w i (Answered k g v t)" by (metis coherent_def)
  with admit show ?case by (intro coherent_admit) (auto simp: since_base_def)
next
  case (execute w i srv kv)
  let ?s = "server_becomes srv w"
  have s: "coherent ?s" using execute by (simp add: coherent_server)
  have n: "w_thread w j \<noteq> Executed kv' t" for j kv' t
    using coherentD(5) [OF execute(4), of j] execute(2) by auto
  have th: "w_thread ?s = w_thread w" by (simp add: server_becomes_def)
  have "thread_ok (?s\<lparr>w_writer := Some i\<rparr>) j (w_thread w j)" for j
    using coherentD(5) [OF s, of j] n [of j] th by (cases "w_thread w j") auto
  moreover have "thread_ok (?s\<lparr>w_writer := Some i\<rparr>) i (Executed kv (w_now w + 1))"
    using execute(3) coherentD(3) [OF execute(4)] by (simp add: server_becomes_def)
  moreover have "since_base (?s\<lparr>w_writer := Some i\<rparr>) k (le_value e)"
    if "(k, e) \<in> set (lc_entries (cl_local (w_client ?s)))" for k e
    using coherentD(4) [OF s that] by (simp add: since_base_def)
  ultimately show ?case using coherentD(1-3) [OF s] th unfolding coherent_set by auto
next
  case (unanswered w i kv t)
  then have e: "thread_ok w i (Executed kv t)" by (metis coherent_def)
  have "thread_ok (w\<lparr>w_writer := None\<rparr>) j (w_thread w j)" if "j \<noteq> i" for j
  proof -
    have "thread_ok w j (w_thread w j)" using unanswered by (simp add: coherent_def)
    with that e show ?thesis by (cases "w_thread w j") auto
  qed
  with unanswered show ?case by (auto simp: coherent_set) (auto simp: coherent_def since_base_def)
next
  case (record_write w i kv t g c)
  then have e: "thread_ok w i (Executed kv t)" by (metis coherent_def)
  have o: "\<forall>j kv u. j \<noteq> i \<longrightarrow> w_thread w j \<noteq> Executed kv u"
    using record_write e by (metis coherent_def option.inject thread_ok.simps(4))
  have "g = cl_generation c" using record_write by (auto simp: mutation_succeeded_def Let_def)
  with e o record_write show ?case
    by (intro coherent_bump) (auto simp: stores_def split: option.split)
next
  case (admit_own w i k g v t now ttl_s stale_s)
  then have "thread_ok w i (OwnWrite k g v t)" by (metis coherent_def)
  with admit_own show ?case by (intro coherent_admit) (auto simp: since_base_def)
next
  case (poll w now d)
  then show ?case by (simp add: coherent_poll)
next
  case (look w now k)
  let ?c = "(w_client w)\<lparr>cl_local := snd (lc_get now k (cl_local (w_client w)))\<rparr>"
  have "thread_ok (w\<lparr>w_client := ?c\<rparr>) j (w_thread w j)" for j
    by (intro thread_ok_mono [OF coherentD(5) [OF look]]) simp_all
  with look lc_get_inv [of "cl_local (w_client w)" now k] lc_get_entries [of now k "cl_local (w_client w)"]
  show ?case by (fastforce simp: coherent_def since_base_def)
qed

text \<open>
  C35. The client reads its own writes through the local cache. However the threads of a client
  interleave, and whatever other clients do to the server, a value found in the local cache was on
  the server at some instant not before the server executed the last mutation that this client has
  recorded; so that once a mutation has returned, no value it replaced can be read locally.
\<close>

theorem local_cache_reads_own_writes:
  assumes "make_client n m p = Inr c" "client_step\<^sup>*\<^sup>* (start_world c srv) w"
    and "fst (lc_get t k (cl_local (w_client w))) = Some cv"
  shows "\<exists>u. w_base w \<le> u \<and> u \<le> w_now w \<and> w_past w u k = Some (cv_value cv)"
proof -
  have "lc_inv (cl_local c)" "lc_entries (cl_local c) = []"
    using assms(1) by (auto simp: make_client_def make_local_cache_def lc_inv_def split: if_splits)
  then have "coherent (start_world c srv)" by (simp add: coherent_def start_world_def)
  with assms(2) have "coherent w" by (induction rule: rtranclp_induct) (auto intro: client_step_coherent)
  moreover obtain e where "map_of (lc_entries (cl_local (w_client w))) k = Some e" "cv_value cv = le_value e"
    using assms(3) by (auto simp: lc_get_def split: option.splits if_splits)
  ultimately show ?thesis by (auto simp: coherent_def since_base_def dest!: map_of_SomeD)
qed

definition first_client :: client where
  "first_client = \<lparr>cl_local = \<lparr>lc_max_entries = 1, lc_max_memory = 4, lc_entries = [], lc_used = 0\<rparr>,
     cl_generation = 0, cl_cursor = None, cl_epoch = None, cl_cursor_generation = None, cl_last_poll = 0, cl_poll_seconds = 0\<rparr>"

definition after_write :: world where
  "after_write =
     (let w1 = set_thread 0 (Executed (Some ([97], ''y'')) 1)
                 ((server_becomes (\<lambda>_. Some ''y'') (start_world first_client (\<lambda>_. Some ''x'')))\<lparr>w_writer := Some 0\<rparr>);
          w2 = set_thread 0 (OwnWrite [97] 1 ''y'' 1)
                 (w1\<lparr>w_client := snd (mutation_succeeded (w_client w1)), w_writer := None, w_base := 1\<rparr>)
      in set_thread 0 Resting (w2\<lparr>w_client := snd (admit_if_generation 1 0 [97] ''y'' 5 0 (w_client w2))\<rparr>))"

lemma after_write_reached: "client_step\<^sup>*\<^sup>* (start_world first_client (\<lambda>_. Some ''x'')) after_write"
proof -
  let ?w0 = "start_world first_client (\<lambda>_. Some ''x'')"
  let ?w1 = "set_thread 0 (Executed (Some ([97], ''y'')) (w_now ?w0 + 1))
               ((server_becomes (\<lambda>_. Some ''y'') ?w0)\<lparr>w_writer := Some 0\<rparr>)"
  let ?w2 = "set_thread 0 (OwnWrite [97] 1 ''y'' 1)
               (?w1\<lparr>w_client := snd (mutation_succeeded (w_client ?w1)), w_writer := None, w_base := 1\<rparr>)"
  have 1: "client_step ?w0 ?w1" by (rule client_step.execute) (simp_all add: start_world_def stores_def)
  have 2: "client_step ?w1 ?w2"
    using client_step.record_write [of ?w1 0 "Some ([97], ''y'')" 1 1 "snd (mutation_succeeded (w_client ?w1))"]
    by (simp add: start_world_def server_becomes_def mutation_succeeded_def first_client_def Let_def)
  have 3: "client_step ?w2 after_write"
    using client_step.admit_own [of ?w2 0 "[97]" 1 "''y''" 1 0 5 0]
    by (simp add: after_write_def Let_def start_world_def)
  show ?thesis using 1 2 3 by (blast intro: converse_rtranclp_into_rtranclp)
qed

theorem local_cache_reads_own_writes_witness:
  "\<exists>u. w_base after_write \<le> u \<and> u \<le> w_now after_write \<and> w_past after_write u [97] = Some ''y''"
proof -
  have "make_client 1 4 0 = Inr first_client" by (simp add: make_client_def make_local_cache_def first_client_def)
  moreover have "fst (lc_get 3 [97] (cl_local (w_client after_write))) =
      Some \<lparr>cv_value = ''y'', cv_state = FreshValue, cv_deadline = Some 5\<rparr>"
    by (simp add: after_write_def Let_def start_world_def server_becomes_def mutation_succeeded_def first_client_def
        admit_if_generation_def lc_put_def utf8_len_ascii is_ascii_def lc_clear_def lc_evict.simps lc_over_def lc_get_def
        lc_remove_def)
  ultimately show ?thesis using local_cache_reads_own_writes [OF _ after_write_reached] by fastforce
qed

end
