(* ===== verification/Client_Lease.thy ===== *)
theory Client_Lease
  imports Client_Cache Resp_Props
begin

text \<open>
  \<open>MegaCacheClient.get_or_load\<close> (\<open>src/src/megacache/client.py\<close>) for the leader of a flight: what it does
  with each answer to \<open>MC.LEASE key WINDOWS\<close>, what it admits into the local cache, and what it
  returns when the loader fails. The answers are those of \<open>mc_lease\<close> of the RESP server.
\<close>

section \<open>Reading the answer\<close>

record lease_result =
  lr_state :: cache_state
  lr_value :: "bytes option"
  lr_token :: "pystr option"
  lr_retry :: real
  lr_expires :: "real option"
  lr_stale_for :: "real option"

definition plain_lease :: "cache_state \<Rightarrow> lease_result" where
  "plain_lease st = \<lparr>lr_state = st, lr_value = None, lr_token = None, lr_retry = 0, lr_expires = None, lr_stale_for = None\<rparr>"

definition wire_error :: "string \<Rightarrow> client_error + 'a" where
  "wire_error msg = Inl (WireError msg)"

fun expect_text :: "client_value \<Rightarrow> client_error + pystr" where
  "expect_text (CText s) = Inr s"
| "expect_text (CBytes b) =
     (case decode_utf8 b of None \<Rightarrow> wire_error ''response is not valid UTF-8'' | Some s \<Rightarrow> Inr s)"
| "expect_text _ = wire_error ''response must be a string''"

fun expect_bulk :: "client_value \<Rightarrow> client_error + bytes" where
  "expect_bulk (CBytes b) = Inr b"
| "expect_bulk _ = wire_error ''response must be a bulk string''"

fun expect_integer :: "int \<Rightarrow> client_value \<Rightarrow> client_error + int" where
  "expect_integer low (CInt i) = (if i < low then wire_error ''response is below its valid range'' else Inr i)"
| "expect_integer low _ = wire_error ''response must be an integer''"

definition expect_arity :: "nat list \<Rightarrow> client_value list \<Rightarrow> client_error + unit" where
  "expect_arity allowed vs = (if length vs \<in> set allowed then Inr () else wire_error ''response has invalid arity'')"

definition bind_err :: "'e + 'a \<Rightarrow> ('a \<Rightarrow> 'e + 'b) \<Rightarrow> 'e + 'b" where
  "bind_err r f = (case r of Inl e \<Rightarrow> Inl e | Inr a \<Rightarrow> f a)"

lemma bind_err_simps [simp]: "bind_err (Inr a) f = f a" "bind_err (Inl e) f = Inl e"
  by (simp_all add: bind_err_def)

text \<open>\<open>_lease_milliseconds\<close> of the optional field \<open>i\<close>.\<close>

definition lease_milliseconds :: "nat \<Rightarrow> client_value list \<Rightarrow> client_error + real option" where
  "lease_milliseconds i vs =
     (if length vs > i then bind_err (expect_integer (-1) (vs ! i)) (\<lambda>n. Inr (Some (real_of_int n / 1000))) else Inr None)"

definition client_lease :: "client_value \<Rightarrow> client_error + lease_result" where
  "client_lease response =
     (case response of
        CList (v # rest) \<Rightarrow>
          (let vs = v # rest
           in bind_err (expect_text v) (\<lambda>st.
             if st = lit ''fresh'' then
               bind_err (expect_arity [2, 4] vs) (\<lambda>_.
               bind_err (expect_bulk (vs ! 1)) (\<lambda>b.
               bind_err (lease_milliseconds 2 vs) (\<lambda>ex.
               bind_err (lease_milliseconds 3 vs) (\<lambda>sf.
                 Inr ((plain_lease Fresh)\<lparr>lr_value := Some b, lr_expires := ex, lr_stale_for := sf\<rparr>)))))
             else if st = lit ''stale'' then
               bind_err (expect_arity [2, 3] vs) (\<lambda>_.
               bind_err (expect_bulk (vs ! 1)) (\<lambda>b.
               bind_err (lease_milliseconds 2 vs) (\<lambda>sf.
                 Inr ((plain_lease Stale)\<lparr>lr_value := Some b, lr_stale_for := sf\<rparr>))))
             else if st = lit ''stale_lease'' then
               bind_err (expect_arity [3, 4] vs) (\<lambda>_.
               bind_err (expect_bulk (vs ! 1)) (\<lambda>b.
               bind_err (expect_text (vs ! 2)) (\<lambda>tok.
               bind_err (lease_milliseconds 3 vs) (\<lambda>sf.
                 Inr ((plain_lease StaleLease)\<lparr>lr_value := Some b, lr_token := Some tok, lr_stale_for := sf\<rparr>)))))
             else if st = lit ''lease'' then
               bind_err (expect_arity [2] vs) (\<lambda>_.
               bind_err (expect_text (vs ! 1)) (\<lambda>tok. Inr ((plain_lease Lease)\<lparr>lr_token := Some tok\<rparr>)))
             else if st = lit ''loading'' then
               bind_err (expect_arity [2] vs) (\<lambda>_.
               bind_err (expect_integer 0 (vs ! 1)) (\<lambda>n.
                 Inr ((plain_lease Loading)\<lparr>lr_retry := real_of_int n / 1000\<rparr>)))
             else wire_error ''unknown MC.LEASE state''))
      | _ \<Rightarrow> wire_error ''invalid MC.LEASE response'')"

section \<open>One turn of the leader\<close>

record cache_policy =
  po_ttl :: real
  po_stale :: real
  po_stale_if_error :: bool

text \<open>
  \<open>Serve\<close> returns a value, after admitting it for the given windows if there are any;
  \<open>Again\<close> turns the loop after sleeping; \<open>Load\<close> runs the loader, with the value to
  fall back on replaced if there is one.
\<close>

datatype turn = Serve cached_value "(real \<times> real) option" | Again real | Load "cached_value option"

definition windows_if_any :: "real \<times> real \<Rightarrow> (real \<times> real) option" where
  "windows_if_any w = (if fst w + snd w > 0 then Some w else None)"

definition stale_copy :: "bytes \<Rightarrow> real \<Rightarrow> cached_value" where
  "stale_copy v deadline = \<lparr>cv_value = v, cv_state = StaleValue, cv_deadline = Some deadline\<rparr>"

text \<open>\<open>started\<close>, \<open>answered\<close> and \<open>now\<close> are readings of the monotonic clock, in this order.\<close>

definition on_lease :: "cache_policy \<Rightarrow> lease_result \<Rightarrow> real \<Rightarrow> real \<Rightarrow> real \<Rightarrow> turn" where
  "on_lease p lr started answered now =
     (let spent = max 0 (answered - started);
          stale_budget = window_budget (po_stale p) (lr_stale_for lr)
      in case (lr_state lr, lr_value lr) of
           (Fresh, Some v) \<Rightarrow>
             Serve \<lparr>cv_value = v, cv_state = FreshValue, cv_deadline = None\<rparr>
               (windows_if_any (remaining_windows (window_budget (po_ttl p) (lr_expires lr)) stale_budget spent))
         | (Stale, Some v) \<Rightarrow>
             Serve (stale_copy v (deadline_after now started stale_budget))
               (windows_if_any (0, max 0 (stale_budget - spent)))
         | (Loading, _) \<Rightarrow> Again (max (1 / 1000) (lr_retry lr))
         | (Lease, _) \<Rightarrow> Load None
         | (StaleLease, None) \<Rightarrow> Load None
         | (StaleLease, Some v) \<Rightarrow> Load (Some (stale_copy v (deadline_after now started stale_budget)))
         | _ \<Rightarrow> Again 0)"

text \<open>The loaded value has been stored on the server; \<open>elapsed\<close> is the time the command took.\<close>

definition on_loaded :: "cache_policy \<Rightarrow> bytes \<Rightarrow> real \<Rightarrow> turn" where
  "on_loaded p v spent =
     Serve \<lparr>cv_value = v, cv_state = LoadedValue, cv_deadline = None\<rparr>
       (windows_if_any (remaining_windows (po_ttl p) (po_stale p) spent))"

text \<open>The handler of exceptions: \<open>None\<close> raises again.\<close>

definition on_error :: "cache_policy \<Rightarrow> cached_value option \<Rightarrow> real \<Rightarrow> cached_value option" where
  "on_error p stale now =
     (case stale of
        None \<Rightarrow> None
      | Some c \<Rightarrow>
          (case cv_deadline c of
             None \<Rightarrow> None
           | Some d \<Rightarrow> (if po_stale_if_error p \<and> now < d
                       then Some \<lparr>cv_value = cv_value c, cv_state = StaleIfError, cv_deadline = Some d\<rparr> else None)))"

text \<open>A follower, once the event is set: \<open>Inl\<close> raises the leader's error or, without one, its own.\<close>

definition follow_flight :: "cached_value option \<Rightarrow> 'e option \<Rightarrow> real \<Rightarrow> 'e option + cached_value" where
  "follow_flight result error now =
     (case result of
        None \<Rightarrow> Inl error
      | Some c \<Rightarrow>
          (if cv_state c \<noteq> StaleIfError \<or> (case cv_deadline c of None \<Rightarrow> False | Some d \<Rightarrow> now < d) then Inr c
           else Inl error))"

section \<open>The client understands the server\<close>

text \<open>What the client makes of a number of seconds: \<open>-1\<close> milliseconds stand for no limit.\<close>

definition seen_seconds :: "pyfloat \<Rightarrow> real" where
  "seen_seconds x = real_of_int (duration_milliseconds x) / 1000"

lemma seen_seconds_le: "0 \<le> x \<Longrightarrow> 0 \<le> seen_seconds (Fin x) \<and> seen_seconds (Fin x) \<le> x"
proof -
  assume "0 \<le> x"
  moreover have "real_of_int \<lfloor>x * 1000\<rfloor> \<le> x * 1000" by (rule of_int_floor_le)
  ultimately show ?thesis by (simp add: seen_seconds_def duration_milliseconds_def py_int_def)
qed

lemma duration_ge [simp]: "\<not> duration_milliseconds x < -1"
  by (cases x) (auto simp: duration_milliseconds_def)

lemmas lease_reading = client_lease_def lease_fields_def lease_milliseconds_def expect_arity_def Let_def
  seen_seconds_def plain_lease_def

lemma decode_ascii_text: "is_ascii s \<Longrightarrow> decode_utf8 (ascii s) = Some s"
  by (rule decode_encode_utf8) (simp add: encode_ascii ascii_def)

lemma state_text: "decode_utf8 (state_name st) = Some (lit (state_name st))"
proof -
  have "is_ascii (lit (state_name st))" by (cases st) (simp_all add: is_ascii_def lit_def)
  moreover have "ascii (lit (state_name st)) = state_name st" by (simp add: ascii_def lit_def o_def)
  ultimately show ?thesis by (metis decode_ascii_text)
qed

lemmas state_texts [simp] = state_text [of Fresh, unfolded state_name.simps] state_text [of Stale, unfolded state_name.simps]
  state_text [of StaleLease, unfolded state_name.simps] state_text [of Lease, unfolded state_name.simps]
  state_text [of Loading, unfolded state_name.simps]

lemma lit_eq [simp]: "lit a = lit b \<longleftrightarrow> a = b"
proof
  assume "lit a = lit b"
  then have "map (char_of :: nat \<Rightarrow> char) (lit a) = map char_of (lit b)" by simp
  then show "a = b" by (simp add: lit_def o_def)
qed simp

text \<open>
  The client understands every answer the server gives to a lease request: it sees the same
  state, the same value and token, the remaining windows in whole milliseconds, never longer than
  the server's own, and for a key that is being loaded a time to wait that is not longer than the
  server asked for.
\<close>

theorem lease_answer_understood:
  assumes "lease_fields E True r h = (Inr fs, h')" "state r \<noteq> Miss"
    and "retry_after_seconds r = Fin w" "0 \<le> w"
  shows "\<exists>lr. client_lease (client_view (Items (Bulk (state_name (state r)) # fs))) = Inr lr \<and> lr_state lr = state r
    \<and> (state r \<in> {Fresh, Stale, StaleLease} \<longrightarrow>
         (\<exists>b. lr_value lr = Some b \<and> fst (value_bytes E (result_value r) h) = Inr b)
         \<and> lr_stale_for lr = Some (seen_seconds (stale_for_seconds r)))
    \<and> (state r = Fresh \<longrightarrow> lr_expires lr = Some (seen_seconds (expires_in_seconds r)))
    \<and> (state r \<in> {Lease, StaleLease} \<longrightarrow> lr_token lr = lease_token r)
    \<and> (state r = Loading \<longrightarrow> 0 \<le> lr_retry lr \<and> lr_retry lr \<le> w)"
proof -
  show ?thesis
  proof (cases "state r")
    case Loading
    have "real_of_int \<lfloor>w * 1000\<rfloor> \<le> w * 1000" by (rule of_int_floor_le)
    with Loading assms show ?thesis by (auto simp: lease_reading retry_reply_def py_int_def)
  next
    case Lease
    then show ?thesis using assms(1)
      by (auto simp: lease_reading token_bytes_def decode_ascii_text bind_res_def split: option.splits if_splits sum.splits)
  next
    case StaleLease
    then show ?thesis using assms(1)
      by (auto simp: lease_reading token_bytes_def decode_ascii_text bind_res_def numeral_3_eq_3 split: option.splits if_splits sum.splits prod.splits)
  next
    case Fresh
    then show ?thesis using assms(1)
      by (auto simp: lease_reading bind_res_def numeral_3_eq_3 split: sum.splits prod.splits)
  next
    case Stale
    then show ?thesis using assms(1)
      by (auto simp: lease_reading bind_res_def split: sum.splits prod.splits)
  qed (use assms in simp)
qed

definition demo_hit :: cache_result where
  "demo_hit = (result_of Fresh)\<lparr>result_value := PBytes ''v'', expires_in_seconds := Fin 2, stale_for_seconds := Fin 3\<rparr>"

lemma demo_hit_fields:
  "lease_fields demo_env True demo_hit (demo_conn None) = (Inr [Bulk ''v'', Number 2000, Number 3000], demo_conn None)"
  by (simp add: lease_fields_def demo_hit_def result_of_def value_bytes_def duration_milliseconds_def py_int_def)

theorem lease_answer_understood_witness:
  "\<exists>lr. client_lease (client_view (Items [Bulk ''fresh'', Bulk ''v'', Number 2000, Number 3000])) = Inr lr
     \<and> lr_state lr = Fresh \<and> lr_value lr = Some ''v'' \<and> lr_expires lr = Some 2 \<and> lr_stale_for lr = Some 3"
  using lease_answer_understood [OF demo_hit_fields, of 0]
  by (auto simp add: demo_hit_def result_of_def value_bytes_def seen_seconds_def duration_milliseconds_def py_int_def)

lemma lc_put_get:
  assumes "lc_inv c" "lc_put now k v ttl_s stale_s c = (Inr True, c')" "fst (lc_get t k c') = Some hit"
  shows "t < now + ttl_s + stale_s \<and> cv_value hit = v \<and> (cv_state hit = FreshValue \<longrightarrow> t < now + ttl_s)"
  using lc_put_found [OF assms(1,2), of t] assms(3) by (auto split: if_splits)



end
