(* ===== verification/Audit_Log.thy ===== *)
theory Audit_Log
  imports Event_Store
begin

text \<open>
  The tamper-evident audit log of the control plane (\<open>src/src/megacache/controlplane.py\<close>): canonical
  JSON, identifiers, key providers and \<open>TamperEvidentAuditLog\<close> with its segments and its anchor.

  The directory is part of the state: segment files by number, each with its content, whether it is
  a regular file and whether it is closed to other users, and the anchor file. An operation that
  raises keeps what it had already done to the directory. HMAC-SHA256 and the JSON reader are
  functions of the environment, and so are the faults of the file system; a float is named by its
  \<open>repr\<close>, and \<open>ae_float_int\<close> tells which integer it equals, if any.
\<close>

section \<open>Canonical JSON and checked arguments\<close>

datatype control_error =
    ControlError string
  | ControlCapacity string
  | ControlUnavailable string
  | ArtifactFault string
  | OtherError string

type_synonym dict = "(pystr \<times> pyval) list"

definition canonical :: "pyval \<Rightarrow> control_error + bytes" where
  "canonical v =
     (case (if all_finite v then json_dumps (json_sorted v) else None) of
        None \<Rightarrow> Inl (ControlError ''value is not valid bounded JSON'')
      | Some t \<Rightarrow>
          (case encode_utf8 t of
             None \<Rightarrow> Inl (ControlError ''value is not valid bounded JSON'')
           | Some b \<Rightarrow> Inr b))"

definition json_copy :: "pyval \<Rightarrow> control_error + pyval" where
  "json_copy v = bind_sum (canonical v) (\<lambda>_. Inr (json_norm (json_sorted v)))"

definition is_control_identifier :: "pystr \<Rightarrow> bool" where
  "is_control_identifier s \<longleftrightarrow> s \<noteq> [] \<and> length s \<le> 128 \<and> is_alnum (hd s)
     \<and> list_all (\<lambda>c. is_alnum c \<or> c \<in> {46, 95, 45}) (tl s)"

definition control_identifier :: "pyval \<Rightarrow> string \<Rightarrow> control_error + pystr" where
  "control_identifier v field =
     (case v of
        PStr s \<Rightarrow> (if is_control_identifier s then Inr s
                   else Inl (ControlError (field @ '' must be a 1-128 character identifier'')))
      | _ \<Rightarrow> Inl (ControlError (field @ '' must be a 1-128 character identifier'')))"

definition bounded_text :: "pyval \<Rightarrow> string \<Rightarrow> int \<Rightarrow> control_error + pystr" where
  "bounded_text v field maximum =
     (case v of
        PStr s \<Rightarrow>
          (if s = [] then Inl (ControlError (field @ '' must be bounded text''))
           else case utf8_len s of
               None \<Rightarrow> Inl (OtherError ''UnicodeEncodeError'')
             | Some n \<Rightarrow> (if n > maximum then Inl (ControlError (field @ '' must be bounded text'')) else Inr s))
      | _ \<Rightarrow> Inl (ControlError (field @ '' must be bounded text'')))"

definition control_integer :: "pyval \<Rightarrow> string \<Rightarrow> int \<Rightarrow> int \<Rightarrow> control_error + int" where
  "control_integer v field minimum maximum =
     (case v of
        PInt i \<Rightarrow> (if i < minimum \<or> i > maximum then Inl (ControlError (field @ '' must be an integer in range'')) else Inr i)
      | _ \<Rightarrow> Inl (ControlError (field @ '' must be an integer in range'')))"

definition int63 :: int where "int63 = 2 ^ 63 - 1"

section \<open>Keys\<close>

record key_provider =
  kp_active :: pystr
  kp_namespace :: pystr
  kp_keys :: "(pystr \<times> bytes) list"

definition validate_key_material :: "bytes \<Rightarrow> control_error + bytes" where
  "validate_key_material b =
     (if 32 \<le> length b \<and> length b \<le> 64 then Inr b else Inl (ControlError ''control keys must contain 32 to 64 bytes''))"

definition static_provider :: "bytes \<Rightarrow> pystr \<Rightarrow> control_error + key_provider" where
  "static_provider k kid =
     bind_sum (control_identifier (PStr kid) ''key id'') (\<lambda>i.
     bind_sum (validate_key_material k) (\<lambda>b. Inr \<lparr>kp_active = i, kp_namespace = i, kp_keys = [(i, b)]\<rparr>))"

definition provider_key :: "key_provider \<Rightarrow> pystr \<Rightarrow> control_error + bytes" where
  "provider_key p kid =
     (case map_of (kp_keys p) kid of
        None \<Rightarrow> Inl (ControlUnavailable ''requested key id is unavailable'')
      | Some k \<Rightarrow> Inr k)"

datatype load_fault = NotJson | NotText

record audit_env =
  ae_hmac :: "bytes \<Rightarrow> bytes \<Rightarrow> bytes"
  ae_provider :: key_provider
  ae_loads :: "bytes \<Rightarrow> load_fault + pyval"
  ae_load_text :: "pystr \<Rightarrow> pyval option"
  ae_float_int :: "pystr \<Rightarrow> int option"

definition derived_key :: "audit_env \<Rightarrow> pystr \<Rightarrow> bytes \<Rightarrow> control_error + bytes" where
  "derived_key E kid purpose =
     bind_sum (provider_key (ae_provider E) kid) (\<lambda>k.
       Inr (ae_hmac E k (''megacache-control-v1'' @ [CHR 0x00] @ purpose)))"

definition tenant_namespace_id :: "audit_env \<Rightarrow> pyval \<Rightarrow> control_error + pystr" where
  "tenant_namespace_id E tenant =
     bind_sum (control_identifier tenant ''tenant id'') (\<lambda>s.
     bind_sum (derived_key E (kp_namespace (ae_provider E)) ''tenant-namespace'') (\<lambda>k.
       Inr (take 32 (hex_text (ae_hmac E k (ascii s))))))"

definition document_mac :: "audit_env \<Rightarrow> bytes \<Rightarrow> pystr \<Rightarrow> dict \<Rightarrow> control_error + pystr" where
  "document_mac E purpose kid d =
     bind_sum (derived_key E kid purpose) (\<lambda>k.
     bind_sum (canonical (PDict d)) (\<lambda>b. Inr (hex_text (ae_hmac E k b))))"

text \<open>Comparing a value of a document with an integer, and \<open>int(...)\<close> of one that passed.\<close>

fun equals_int :: "audit_env \<Rightarrow> pyval \<Rightarrow> int \<Rightarrow> bool" where
  "equals_int E (PInt i) n = (i = n)"
| "equals_int E (PBool b) n = (of_bool b = n)"
| "equals_int E (PFloat r) n = (ae_float_int E r = Some n)"
| "equals_int E _ n = False"

fun int_value :: "audit_env \<Rightarrow> pyval \<Rightarrow> int" where
  "int_value E (PInt i) = i"
| "int_value E (PBool b) = of_bool b"
| "int_value E (PFloat r) = (case ae_float_int E r of Some n \<Rightarrow> n | None \<Rightarrow> 0)"
| "int_value E _ = 0"

fun isinstance_int :: "pyval \<Rightarrow> int option" where
  "isinstance_int (PInt i) = Some i"
| "isinstance_int (PBool b) = Some (of_bool b)"
| "isinstance_int _ = None"

fun text_value :: "pyval \<Rightarrow> pystr" where
  "text_value (PStr s) = s"
| "text_value _ = []"

definition is_hash :: "pystr \<Rightarrow> bool" where
  "is_hash s \<longleftrightarrow> length s = 64 \<and> list_all (\<lambda>c. 48 \<le> c \<and> c \<le> 57 \<or> 97 \<le> c \<and> c \<le> 102) s"

section \<open>The log and its directory\<close>

record audit_file =
  af_bytes :: bytes
  af_regular :: bool
  af_private :: bool

record audit_log =
  al_segment_bytes :: int
  al_max_segments :: int
  al_max_record :: int
  al_records :: "dict list"
  al_segments :: "int list"
  al_ranges :: "(int \<times> int \<times> int) list"
  al_anchor_sequence :: int
  al_anchor_hash :: pystr
  al_files :: "(int \<times> audit_file) list"
  al_anchor_file :: "audit_file option"

type_synonym 'a ares = "(control_error, 'a, audit_log) res"

definition zero_hash :: pystr where "zero_hash = replicate 64 48"

definition hash_of :: "dict \<Rightarrow> pystr" where
  "hash_of r = text_value (dict_get r ''hash'')"

definition sequence_of :: "audit_env \<Rightarrow> dict \<Rightarrow> int" where
  "sequence_of E r = int_value E (dict_get r ''sequence'')"

definition head_hash :: "audit_log \<Rightarrow> pystr" where
  "head_hash l = (if al_records l = [] then al_anchor_hash l else hash_of (last (al_records l)))"

definition log_sequence :: "audit_env \<Rightarrow> audit_log \<Rightarrow> int" where
  "log_sequence E l = (if al_records l = [] then al_anchor_sequence l else sequence_of E (last (al_records l)))"

section \<open>Appending\<close>

text \<open>What becomes of a write: all of it, the first bytes and an exception, or nothing and an exception.\<close>

datatype write_fault = Complete | Torn nat | Refused

definition segment_for_append :: "int \<Rightarrow> audit_log \<Rightarrow> int ares" where
  "segment_for_append n l =
     (if al_segments l = [] then (Inr 1, l\<lparr>al_segments := [1]\<rparr>)
      else
        let current = last (al_segments l)
        in case map_of (al_files l) current of
             Some f \<Rightarrow>
               (if \<not> af_regular f then (Inl (ControlError ''audit segment must be a regular file''), l)
                else if int (length (af_bytes f)) + n \<le> al_segment_bytes l then (Inr current, l)
                else if int (length (al_segments l)) \<ge> al_max_segments l
                then (Inl (ControlCapacity ''audit segment capacity is exhausted''), l)
                else (Inr (current + 1), l\<lparr>al_segments := al_segments l @ [current + 1]\<rparr>))
           | None \<Rightarrow>
               (if n \<le> al_segment_bytes l then (Inr current, l)
                else if int (length (al_segments l)) \<ge> al_max_segments l
                then (Inl (ControlCapacity ''audit segment capacity is exhausted''), l)
                else (Inr (current + 1), l\<lparr>al_segments := al_segments l @ [current + 1]\<rparr>)))"

definition write_payload :: "write_fault \<Rightarrow> int \<Rightarrow> bytes \<Rightarrow> audit_log \<Rightarrow> unit ares" where
  "write_payload fault seg payload l =
     (let old = (case map_of (al_files l) seg of None \<Rightarrow> [] | Some f \<Rightarrow> af_bytes f);
          store = (\<lambda>b. l\<lparr>al_files := AList.update seg \<lparr>af_bytes = old @ b, af_regular = True, af_private = True\<rparr> (al_files l)\<rparr>)
      in case fault of
           Complete \<Rightarrow> (Inr (), store payload)
         | Torn n \<Rightarrow> (Inl (OtherError ''OSError''), store (take n payload))
         | Refused \<Rightarrow> (Inl (OtherError ''OSError''), l))"

definition extend_range :: "int \<Rightarrow> int \<Rightarrow> (int \<times> int \<times> int) list \<Rightarrow> (int \<times> int \<times> int) list" where
  "extend_range seg n rs =
     AList.update seg (case map_of rs seg of None \<Rightarrow> (n, n) | Some (a, b) \<Rightarrow> (a, n)) rs"

definition record_body ::
  "audit_env \<Rightarrow> pystr \<Rightarrow> pystr option \<Rightarrow> pystr \<Rightarrow> pystr \<Rightarrow> pystr \<Rightarrow> pyval \<Rightarrow> audit_log \<Rightarrow> dict" where
  "record_body E stamp tenant actor action outcome details l =
     [(lit ''version'', PInt 1), (lit ''sequence'', PInt (log_sequence E l + 1)), (lit ''timestamp'', PFloat stamp),
      (lit ''key_id'', PStr (kp_active (ae_provider E))), (lit ''previous_hash'', PStr (head_hash l)),
      (lit ''tenant_namespace'', opt_text tenant), (lit ''actor'', PStr actor), (lit ''action'', PStr action),
      (lit ''outcome'', PStr outcome), (lit ''details'', details)]"

text \<open>The section under the lock.\<close>

definition append_body :: "audit_env \<Rightarrow> write_fault \<Rightarrow> dict \<Rightarrow> audit_log \<Rightarrow> pyval ares" where
  "append_body E fault body l =
     bind_res (lift_sum (document_mac E ''audit-record'' (kp_active (ae_provider E)) body) l) (\<lambda>digest l1.
     let r = body @ [(lit ''hash'', PStr digest)]
     in bind_res (lift_sum (canonical (PDict r)) l1) (\<lambda>b l2.
        let payload = b @ [CHR 0x0A]
        in if int (length payload) > al_max_record l2 then (Inl (ControlCapacity ''audit record exceeds byte limit''), l2)
           else bind_res (segment_for_append (int (length payload)) l2) (\<lambda>seg l3.
                bind_res (write_payload fault seg payload l3) (\<lambda>_ l4.
                lift_sum (json_copy (PDict r))
                  (l4\<lparr>al_records := al_records l4 @ [r],
                      al_ranges := extend_range seg (sequence_of E r) (al_ranges l4)\<rparr>)))))"

definition append_audit ::
  "audit_env \<Rightarrow> write_fault \<Rightarrow> pystr \<Rightarrow> pyval \<Rightarrow> pyval \<Rightarrow> pyval \<Rightarrow> pyval option \<Rightarrow> dict \<Rightarrow> audit_log \<Rightarrow> pyval ares" where
  "append_audit E fault stamp actor action outcome tenant details l =
     bind_res (lift_sum (bounded_text actor ''audit actor'' 256) l) (\<lambda>a _.
     bind_res (lift_sum (control_identifier action ''audit action'') l) (\<lambda>ac _.
     bind_res (lift_sum (control_identifier outcome ''audit outcome'') l) (\<lambda>oc _.
     bind_res (lift_sum (case tenant of None \<Rightarrow> Inr None
                         | Some t \<Rightarrow> bind_sum (control_identifier t ''tenant namespace'') (\<lambda>s. Inr (Some s))) l) (\<lambda>tn _.
     bind_res (lift_sum (json_copy (PDict details)) l) (\<lambda>ds _.
     bind_res (lift_sum (canonical ds) l) (\<lambda>b _.
       if length b > 8192 then (Inl (ControlCapacity ''audit details exceed byte limit''), l)
       else append_body E fault (record_body E stamp tn a ac oc ds l) l))))))"

section \<open>The anchor\<close>

definition anchor_document :: "audit_env \<Rightarrow> int \<Rightarrow> pystr \<Rightarrow> dict" where
  "anchor_document E n h =
     [(lit ''version'', PInt 1), (lit ''sequence'', PInt n), (lit ''hash'', PStr h), (lit ''key_id'', PStr (kp_active (ae_provider E)))]"

text \<open>\<open>_atomic_write\<close> replaces the file or leaves it alone.\<close>

definition write_anchor :: "audit_env \<Rightarrow> bool \<Rightarrow> int \<Rightarrow> pystr \<Rightarrow> audit_log \<Rightarrow> unit ares" where
  "write_anchor E replaced n h l =
     (let d = anchor_document E n h
      in bind_res (lift_sum (document_mac E ''audit-anchor'' (kp_active (ae_provider E)) d) l) (\<lambda>sig _.
         bind_res (lift_sum (canonical (PDict (d @ [(lit ''signature'', PStr sig)]))) l) (\<lambda>b _.
           if int (length b) > al_max_record l then (Inl (ControlCapacity ''durable state exceeds configured byte limit''), l)
           else if \<not> replaced then (Inl (OtherError ''OSError''), l)
           else (Inr (), l\<lparr>al_anchor_file := Some \<lparr>af_bytes = b, af_regular = True, af_private = True\<rparr>,
                           al_anchor_sequence := n, al_anchor_hash := h\<rparr>))))"

definition read_json_file :: "audit_env \<Rightarrow> string \<Rightarrow> int \<Rightarrow> audit_file \<Rightarrow> control_error + dict" where
  "read_json_file E field maximum f =
     (if \<not> af_regular f then Inl (ControlError (field @ '' must be a regular file''))
      else if int (length (af_bytes f)) > maximum then Inl (ControlCapacity (field @ '' exceeds its configured byte limit''))
      else case decode_utf8 (af_bytes f) of
          None \<Rightarrow> Inl (ControlError (''unable to load '' @ field))
        | Some t \<Rightarrow>
            (case ae_load_text E t of
               None \<Rightarrow> Inl (ControlError (''unable to load '' @ field))
             | Some (PDict d) \<Rightarrow> Inr d
             | Some _ \<Rightarrow> Inl (ControlError (field @ '' must contain a JSON object''))))"

text \<open>\<open>hmac.compare_digest\<close> of two \<open>str\<close> raises \<open>TypeError\<close> when one is not ASCII.\<close>

definition check_digest :: "pystr \<Rightarrow> pystr \<Rightarrow> control_error + bool" where
  "check_digest a b = (if is_ascii a \<and> is_ascii b then Inr (a = b) else Inl (OtherError ''TypeError''))"

definition anchor_fields :: "pystr set" where
  "anchor_fields = lit ` {''version'', ''sequence'', ''hash'', ''key_id'', ''signature''}"

definition verify_anchor :: "audit_env \<Rightarrow> dict \<Rightarrow> control_error + (int \<times> pystr)" where
  "verify_anchor E doc =
     (if fst ` set doc \<noteq> anchor_fields then Inl (ControlError ''audit anchor has unsupported fields'')
      else
        let signature = dict_get doc ''signature''; d = AList.delete (lit ''signature'') doc;
            failed = Inl (ControlError ''audit anchor verification failed'')
        in bind_sum (control_identifier (dict_get d ''key_id'') ''audit anchor key id'') (\<lambda>kid.
           bind_sum (document_mac E ''audit-anchor'' kid d) (\<lambda>expected.
             case (isinstance_int (dict_get d ''sequence''), dict_get d ''hash'', signature) of
               (Some n, PStr h, PStr s) \<Rightarrow>
                 (if equals_int E (dict_get d ''version'') 1 \<and> 0 \<le> n \<and> is_hash h
                  then bind_sum (check_digest s expected) (\<lambda>ok. if ok then Inr (n, h) else failed)
                  else failed)
             | _ \<Rightarrow> failed)))"

definition load_anchor :: "audit_env \<Rightarrow> audit_log \<Rightarrow> unit ares" where
  "load_anchor E l =
     (case al_anchor_file l of
        None \<Rightarrow> (Inr (), l)
      | Some f \<Rightarrow>
          (if \<not> af_regular f \<or> \<not> af_private f then (Inl (ControlError ''audit anchor must be a protected regular file''), l)
           else bind_res (lift_sum (bind_sum (read_json_file E ''audit anchor'' (al_max_record l) f) (verify_anchor E)) l)
             (\<lambda>(n, h) l1. (Inr (), l1\<lparr>al_anchor_sequence := n, al_anchor_hash := h\<rparr>))))"

section \<open>Loading\<close>

text \<open>\<open>for raw in source\<close>: the lines of a file, each with its line feed.\<close>

fun file_lines :: "bytes \<Rightarrow> bytes list" where
  "file_lines [] = []"
| "file_lines (c # cs) =
     (if c = CHR 0x0A then [c] # file_lines cs
      else case file_lines cs of [] \<Rightarrow> [[c]] | l # ls \<Rightarrow> (c # l) # ls)"

record load_progress =
  ls_previous :: pystr
  ls_sequence :: int
  ls_min :: "int option"
  ls_max :: "int option"

definition check_record :: "audit_env \<Rightarrow> load_progress \<Rightarrow> dict \<Rightarrow> pyval \<Rightarrow> control_error + pystr" where
  "check_record E st body supplied =
     bind_sum (control_identifier (dict_get body ''key_id'') ''audit key id'') (\<lambda>kid.
     bind_sum (document_mac E ''audit-record'' kid body) (\<lambda>expected.
       case supplied of
         PStr s \<Rightarrow>
           bind_sum (check_digest s expected) (\<lambda>ok.
             if ok \<and> dict_get body ''previous_hash'' = PStr (ls_previous st)
                \<and> equals_int E (dict_get body ''sequence'') (ls_sequence st + 1)
             then Inr s else Inl (ControlError ''audit chain verification failed''))
       | _ \<Rightarrow> Inl (ControlError ''audit chain verification failed'')))"

definition pruned :: "dict \<Rightarrow> audit_log \<Rightarrow> bool" where
  "pruned body l \<longleftrightarrow>
     (case isinstance_int (dict_get body ''sequence'') of None \<Rightarrow> False | Some i \<Rightarrow> i \<le> al_anchor_sequence l)"

definition load_line :: "audit_env \<Rightarrow> bytes \<Rightarrow> load_progress \<Rightarrow> audit_log \<Rightarrow> load_progress ares" where
  "load_line E raw st l =
     (if int (length raw) > al_max_record l then (Inl (ControlCapacity ''existing audit record exceeds configured limit''), l)
      else case ae_loads E raw of
          Inl NotJson \<Rightarrow> (Inl (ControlError ''audit log contains invalid JSON''), l)
        | Inl NotText \<Rightarrow> (Inl (OtherError ''UnicodeDecodeError''), l)
        | Inr (PDict kvs) \<Rightarrow>
            (let body = AList.delete (lit ''hash'') kvs
             in if pruned body l then (Inr st, l)
                else
                  bind_res (lift_sum (check_record E st body (dict_get kvs ''hash'')) l) (\<lambda>s l1.
                    (Inr \<lparr>ls_previous = s, ls_sequence = ls_sequence st + 1,
                          ls_min = (case ls_min st of None \<Rightarrow> Some (ls_sequence st + 1) | Some m \<Rightarrow> Some m),
                          ls_max = Some (ls_sequence st + 1)\<rparr>,
                     l1\<lparr>al_records := al_records l1 @ [body @ [(lit ''hash'', PStr s)]]\<rparr>)))
        | Inr _ \<Rightarrow> (Inl (ControlError ''audit log contains an invalid record''), l))"

fun load_lines :: "audit_env \<Rightarrow> bytes list \<Rightarrow> load_progress \<Rightarrow> audit_log \<Rightarrow> load_progress ares" where
  "load_lines E [] st l = (Inr st, l)"
| "load_lines E (raw # rest) st l = bind_res (load_line E raw st l) (\<lambda>st1 l1. load_lines E rest st1 l1)"

definition finish_segment :: "int \<Rightarrow> load_progress \<Rightarrow> audit_log \<Rightarrow> audit_log" where
  "finish_segment number st l =
     (case (ls_min st, ls_max st) of
        (Some a, Some b) \<Rightarrow> l\<lparr>al_segments := al_segments l @ [number], al_ranges := AList.update number (a, b) (al_ranges l)\<rparr>
      | _ \<Rightarrow> (if al_anchor_sequence l > 0 then l\<lparr>al_files := AList.delete number (al_files l)\<rparr>
              else l\<lparr>al_segments := al_segments l @ [number]\<rparr>))"

definition load_segment :: "audit_env \<Rightarrow> int \<times> audit_file \<Rightarrow> load_progress \<Rightarrow> audit_log \<Rightarrow> load_progress ares" where
  "load_segment E nf st l =
     (case nf of (number, f) \<Rightarrow>
       if \<not> af_regular f then (Inl (ControlError ''audit segments must be regular files''), l)
       else if \<not> af_private f then (Inl (ControlError ''audit segments must not be accessible by group or others''), l)
       else if int (length (af_bytes f)) > al_segment_bytes l + al_max_record l
       then (Inl (ControlCapacity ''existing audit segment exceeds configured limit''), l)
       else bind_res (load_lines E (file_lines (af_bytes f)) (st\<lparr>ls_min := None, ls_max := None\<rparr>) l)
              (\<lambda>st1 l1. (Inr st1, finish_segment number st1 l1)))"

fun load_segments :: "audit_env \<Rightarrow> (int \<times> audit_file) list \<Rightarrow> load_progress \<Rightarrow> audit_log \<Rightarrow> unit ares" where
  "load_segments E [] st l = (Inr (), l)"
| "load_segments E (nf # rest) st l = bind_res (load_segment E nf st l) (\<lambda>st1 l1. load_segments E rest st1 l1)"

text \<open>Names have eight digits.\<close>

definition listed :: "(int \<times> audit_file) list \<Rightarrow> (int \<times> audit_file) list" where
  "listed fs = sort_key fst (filter (\<lambda>(n, f). 0 \<le> n \<and> n < 10 ^ 8) fs)"

definition load_and_verify :: "audit_env \<Rightarrow> audit_log \<Rightarrow> unit ares" where
  "load_and_verify E l =
     (if int (length (listed (al_files l))) > al_max_segments l
      then (Inl (ControlCapacity ''existing audit segments exceed configured limit''), l)
      else load_segments E (listed (al_files l))
             \<lparr>ls_previous = al_anchor_hash l, ls_sequence = al_anchor_sequence l, ls_min = None, ls_max = None\<rparr> l)"

definition empty_log :: "int \<Rightarrow> int \<Rightarrow> int \<Rightarrow> (int \<times> audit_file) list \<Rightarrow> audit_file option \<Rightarrow> audit_log" where
  "empty_log sb ms mr fs an =
     \<lparr>al_segment_bytes = sb, al_max_segments = ms, al_max_record = mr, al_records = [], al_segments = [], al_ranges = [],
      al_anchor_sequence = 0, al_anchor_hash = zero_hash, al_files = fs, al_anchor_file = an\<rparr>"

definition open_audit ::
  "audit_env \<Rightarrow> pyval \<Rightarrow> pyval \<Rightarrow> pyval \<Rightarrow> (int \<times> audit_file) list \<Rightarrow> audit_file option \<Rightarrow> unit ares" where
  "open_audit E sb ms mr fs an =
     (case bind_sum (control_integer sb ''audit segment_bytes'' 1024 int63) (\<lambda>a.
           bind_sum (control_integer ms ''audit max_segments'' 1 int63) (\<lambda>b.
           bind_sum (control_integer mr ''audit max_record_bytes'' 512 int63) (\<lambda>c. Inr (a, b, c)))) of
        Inl e \<Rightarrow> (Inl e, empty_log 0 0 0 fs an)
      | Inr (a, b, c) \<Rightarrow>
          bind_res (load_anchor E (empty_log a b c fs an)) (\<lambda>_ l. load_and_verify E l))"

section \<open>Exporting and pruning\<close>

record audit_page =
  pg_anchor :: "int \<times> pystr"
  pg_head :: pystr
  pg_last :: int
  pg_records :: pyval
  pg_truncated :: bool

definition selects :: "audit_env \<Rightarrow> pystr option \<Rightarrow> int \<Rightarrow> dict \<Rightarrow> bool" where
  "selects E tenant after r \<longleftrightarrow> sequence_of E r > after
     \<and> (case tenant of None \<Rightarrow> True | Some t \<Rightarrow> dict_get r ''tenant_namespace'' = PStr t)"

definition export_audit :: "audit_env \<Rightarrow> pystr option \<Rightarrow> pyval \<Rightarrow> pyval \<Rightarrow> audit_log \<Rightarrow> control_error + audit_page" where
  "export_audit E tenant after_sequence page_limit l =
     bind_sum (control_integer after_sequence ''after_sequence'' 0 int63) (\<lambda>after.
     bind_sum (control_integer page_limit ''audit limit'' 1 1000) (\<lambda>n.
       let selected = take (nat n) (filter (selects E tenant after) (al_records l))
       in bind_sum (json_copy (PList (map PDict selected))) (\<lambda>rs.
            Inr \<lparr>pg_anchor = (al_anchor_sequence l, al_anchor_hash l), pg_head = head_hash l, pg_last = log_sequence E l,
                 pg_records = rs,
                 pg_truncated = (length selected = nat n
                   \<and> (\<exists>r \<in> set (al_records l). selects E tenant (sequence_of E (last selected)) r))\<rparr>)))"

definition eligible :: "int \<Rightarrow> audit_log \<Rightarrow> int list" where
  "eligible through l = map fst (filter (\<lambda>(n, a, b). b \<le> through) (al_ranges l))"

text \<open>The loop of unlinks; the one numbered by the fault, if any, raises.\<close>

fun unlink_segments :: "nat option \<Rightarrow> int list \<Rightarrow> int \<Rightarrow> audit_log \<Rightarrow> int ares" where
  "unlink_segments fault [] removed l = (Inr removed, l)"
| "unlink_segments fault (n # ns) removed l =
     (case map_of (al_files l) n of
        None \<Rightarrow> unlink_segments (map_option (\<lambda>i. i - 1) fault) ns removed l
      | Some f \<Rightarrow>
          (if \<not> af_regular f then (Inl (ControlError ''audit segment must be a regular file''), l)
           else if fault = Some 0 then (Inl (OtherError ''OSError''), l)
           else unlink_segments (map_option (\<lambda>i. i - 1) fault) ns (removed + 1)
                  (l\<lparr>al_files := AList.delete n (al_files l), al_ranges := AList.delete n (al_ranges l)\<rparr>)))"

definition anchor_of :: "int list \<Rightarrow> audit_log \<Rightarrow> int" where
  "anchor_of ns l = Max (set (map (\<lambda>n. case map_of (al_ranges l) n of Some (a, b) \<Rightarrow> b | None \<Rightarrow> 0) ns))"

text \<open>
  \<open>prune_exported\<close> up to the loop: the confirmation is checked and the anchor is written; the result
  is the list of segments to unlink, in order.
\<close>

definition prune_begin :: "audit_env \<Rightarrow> bool \<Rightarrow> pyval \<Rightarrow> pyval \<Rightarrow> audit_log \<Rightarrow> int list ares" where
  "prune_begin E replaced through_sequence expected l =
     bind_res (lift_sum (control_integer through_sequence ''audit prune sequence'' 1 int63) l) (\<lambda>through _.
     case expected of
       PStr h \<Rightarrow>
         (if \<not> is_hash h then (Inl (ControlError ''audit prune hash is invalid''), l)
          else case find (\<lambda>r. sequence_of E r = through) (al_records l) of
              None \<Rightarrow> (Inl (ControlError ''audit prune confirmation does not match retained history''), l)
            | Some r \<Rightarrow>
                (if hash_of r \<noteq> h then (Inl (ControlError ''audit prune confirmation does not match retained history''), l)
                 else if eligible through l = [] then (Inr [], l)
                 else
                   let n = anchor_of (eligible through l) l
                   in case find (\<lambda>r. sequence_of E r = n) (al_records l) of
                        None \<Rightarrow> (Inl (OtherError ''StopIteration''), l)
                      | Some ar \<Rightarrow>
                          bind_res (write_anchor E replaced n (hash_of ar) l) (\<lambda>_ l1. (Inr (sort (eligible through l)), l1))))
     | _ \<Rightarrow> (Inl (ControlError ''audit prune hash is invalid''), l))"

definition prune_exported ::
  "audit_env \<Rightarrow> bool \<Rightarrow> nat option \<Rightarrow> pyval \<Rightarrow> pyval \<Rightarrow> audit_log \<Rightarrow> (int \<times> int \<times> pystr) ares" where
  "prune_exported E replaced fault through_sequence expected l =
     bind_res (prune_begin E replaced through_sequence expected l) (\<lambda>ns l1.
       if ns = [] then (Inr (0, al_anchor_sequence l1, al_anchor_hash l1), l1)
       else bind_res (unlink_segments fault ns 0 l1) (\<lambda>removed l2.
         (Inr (removed, al_anchor_sequence l2, al_anchor_hash l2),
          l2\<lparr>al_segments := filter (\<lambda>s. s \<notin> set ns) (al_segments l2),
             al_records := filter (\<lambda>r. sequence_of E r > al_anchor_sequence l2) (al_records l2)\<rparr>)))"

end
