(* ===== verification/Audit_Chain.thy ===== *)
theory Audit_Chain
  imports Audit_Log "HOL-Library.Multiset"
begin

text \<open>
  The hash chain of the audit log and what loading makes of files: copies of records through JSON,
  chains of signed records, the layout of segments in the directory, and that appending keeps it.
\<close>

section \<open>Copies through JSON\<close>

definition on_values :: "('v \<Rightarrow> 'w) \<Rightarrow> ('k \<times> 'v) list \<Rightarrow> ('k \<times> 'w) list" where
  "on_values g d = map (\<lambda>(k, v). (k, g v)) d"

lemma on_values_on_values: "on_values g (on_values h d) = on_values (\<lambda>v. g (h v)) d"
  by (simp add: on_values_def split_def)

lemma on_values_append: "on_values g (a @ b) = on_values g a @ on_values g b"
  by (simp add: on_values_def)

lemma on_values_cong: "(\<And>k v. (k, v) \<in> set d \<Longrightarrow> g v = h v) \<Longrightarrow> on_values g d = on_values h d"
  by (auto simp: on_values_def)

lemma keys_on_values [simp]: "map fst (on_values g d) = map fst d"
  by (simp add: on_values_def split_def o_def)

lemma on_values_shape [simp]: "fst ` set (on_values g d) = fst ` set d" "length (on_values g d) = length d"
  by (simp_all add: on_values_def image_image split_def)

lemma filter_on_values: "filter (\<lambda>p. P (fst p)) (on_values g d) = on_values g (filter (\<lambda>p. P (fst p)) d)"
  by (simp add: on_values_def filter_map o_def split_def)

lemma sort_key_on_values: "sort_key fst (on_values g d) = on_values g (sort_key fst d)"
proof (rule properties_for_sort_key)
  show "mset (on_values g (sort_key fst d)) = mset (on_values g d)" by (simp add: on_values_def)
  show "filter (\<lambda>x. fst k = fst x) (on_values g (sort_key fst d)) = filter (\<lambda>x. fst k = fst x) (on_values g d)" for k
    unfolding filter_on_values [of "\<lambda>x. fst k = x"] using sort_key_stable [of fst "fst k" d] by (simp add: eq_commute)
qed simp

lemma sort_key_again: "sort_key f (sort_key f xs @ ys) = sort_key f (xs @ ys)"
proof (rule properties_for_sort_key)
  show "filter (\<lambda>x. f k = f x) (sort_key f (xs @ ys)) = filter (\<lambda>x. f k = f x) (sort_key f xs @ ys)" for k
    using sort_key_stable [of f "f k" "xs @ ys"] sort_key_stable [of f "f k" xs] by (simp add: eq_commute)
qed simp_all

lemma json_sorted_dict: "json_sorted (PDict d) = PDict (on_values json_sorted (sort_key fst d))"
  by (simp flip: on_values_def sort_key_on_values)

lemma json_norm_dict: "json_norm (PDict d) = PDict (on_values json_norm d)"
  by (simp add: on_values_def)

lemma json_sorted_norm: "json_sorted (json_norm v) = json_norm (json_sorted v)"
proof (induction v rule: json_norm.induct)
  case (3 kvs)
  have "on_values (\<lambda>v. json_sorted (json_norm v)) (sort_key fst kvs) = on_values (\<lambda>v. json_norm (json_sorted v)) (sort_key fst kvs)"
    using 3 by (intro on_values_cong) auto
  then show ?case by (simp only: json_sorted_dict json_norm_dict sort_key_on_values on_values_on_values)
qed simp_all

lemma json_sorted_idem: "json_sorted (json_sorted v) = json_sorted v"
proof (induction v rule: json_sorted.induct)
  case (3 kvs)
  have "on_values (\<lambda>v. json_sorted (json_sorted v)) (sort_key fst kvs) = on_values json_sorted (sort_key fst kvs)"
    using 3 by (intro on_values_cong) auto
  then show ?case
    using sort_key_again [of fst kvs "[]"] by (simp only: json_sorted_dict sort_key_on_values on_values_on_values append_Nil2)
qed simp_all

definition dict_copy :: "dict \<Rightarrow> dict" where
  "dict_copy d = on_values (\<lambda>v. json_norm (json_sorted v)) (sort_key fst d)"

lemma json_copy_dict: "json_norm (json_sorted (PDict d)) = PDict (dict_copy d)"
  by (simp only: dict_copy_def json_sorted_dict json_norm_dict on_values_on_values)

lemma copy_value_idem: "json_norm (json_sorted (json_norm (json_sorted v))) = json_norm (json_sorted v)"
  by (simp add: json_sorted_norm json_sorted_idem json_norm_idem)

lemma dict_copy_copy: "dict_copy (dict_copy a @ b) = dict_copy (a @ b)"
proof -
  have "dict_copy (dict_copy a @ b) = sort_key fst (on_values (\<lambda>v. json_norm (json_sorted v)) (dict_copy a @ b))"
    by (simp add: dict_copy_def sort_key_on_values)
  also have "on_values (\<lambda>v. json_norm (json_sorted v)) (dict_copy a @ b)
      = sort_key fst (on_values (\<lambda>v. json_norm (json_sorted v)) a) @ on_values (\<lambda>v. json_norm (json_sorted v)) b"
    by (simp add: dict_copy_def sort_key_on_values on_values_append on_values_on_values copy_value_idem)
  also have "sort_key fst \<dots> = sort_key fst (on_values (\<lambda>v. json_norm (json_sorted v)) (a @ b))"
    by (simp add: sort_key_again on_values_append)
  finally show ?thesis by (simp add: dict_copy_def sort_key_on_values)
qed

lemma all_finite_sorted [simp]: "all_finite (json_sorted v) = all_finite v"
  by (induction v rule: json_sorted.induct) (auto simp: list_all_iff split_def)

lemma all_finite_norm [simp]: "all_finite (json_norm v) = all_finite v"
  by (induction v rule: json_norm.induct) (auto simp: list_all_iff split_def)

lemma canonical_copy: "canonical (PDict (dict_copy d)) = canonical (PDict d)"
proof -
  have "all_finite (PDict (dict_copy d)) = all_finite (PDict d)"
    by (metis all_finite_norm all_finite_sorted json_copy_dict)
  moreover have "json_dumps (json_sorted (PDict (dict_copy d))) = json_dumps (json_sorted (PDict d))"
    by (metis json_copy_dict json_dumps_norm json_sorted_idem json_sorted_norm)
  ultimately show ?thesis by (simp add: canonical_def del: json_sorted.simps all_finite.simps)
qed

lemma map_of_sort_key: "map_of (sort_key fst d) k = map_of d k"
proof -
  have f: "map_of xs k = map_of (filter (\<lambda>p. fst p = k) xs) k" for xs :: "('b \<times> 'a) list"
    by (induction xs) auto
  show ?thesis by (subst (1 2) f) (simp add: sort_key_stable)
qed

lemma map_of_on_values: "map_of (on_values g d) k = map_option g (map_of d k)"
  by (induction d) (auto simp: on_values_def)

lemma map_of_copy: "map_of (dict_copy d) k = map_option (\<lambda>v. json_norm (json_sorted v)) (map_of d k)"
  by (simp add: dict_copy_def map_of_on_values map_of_sort_key)

lemma delete_copy: "AList.delete k (dict_copy d) = dict_copy (AList.delete k d)"
  by (simp add: dict_copy_def delete_filter filter_on_values [of "\<lambda>x. x \<noteq> k"] filter_sort)

section \<open>Chains\<close>

definition verified :: "audit_env \<Rightarrow> pystr \<Rightarrow> int \<Rightarrow> dict \<Rightarrow> bool" where
  "verified E prev n r \<longleftrightarrow>
     (\<exists>body kid h. r = body @ [(lit ''hash'', PStr h)] \<and> lit ''hash'' \<notin> fst ` set body
        \<and> dict_get body ''key_id'' = PStr kid \<and> is_control_identifier kid \<and> document_mac E ''audit-record'' kid body = Inr h
        \<and> dict_get body ''previous_hash'' = PStr prev \<and> equals_int E (dict_get body ''sequence'') n)"

fun chain :: "audit_env \<Rightarrow> pystr \<Rightarrow> int \<Rightarrow> dict list \<Rightarrow> bool" where
  "chain E prev n [] = True"
| "chain E prev n (r # rs) = (verified E prev (n + 1) r \<and> chain E (hash_of r) (n + 1) rs)"

definition chain_end :: "pystr \<Rightarrow> dict list \<Rightarrow> pystr" where
  "chain_end prev rs = (if rs = [] then prev else hash_of (last rs))"

lemma verifiedI:
  assumes "lit ''hash'' \<notin> fst ` set body" "dict_get body ''key_id'' = PStr kid" "is_control_identifier kid"
    and "document_mac E ''audit-record'' kid body = Inr h" "dict_get body ''previous_hash'' = PStr prev"
    and "equals_int E (dict_get body ''sequence'') n"
  shows "verified E prev n (body @ [(lit ''hash'', PStr h)])"
  unfolding verified_def using assms by blast

lemma lit_inj: "lit a = lit b \<longleftrightarrow> a = b"
proof
  assume "lit a = lit b"
  then have "map (char_of :: nat \<Rightarrow> char) (lit a) = map char_of (lit b)" by simp
  then show "a = b" by (simp add: lit_def o_def)
qed simp

lemma dict_get_append:
  "lit x \<notin> fst ` set d \<Longrightarrow> dict_get (d @ [(lit y, v)]) x = (if x = y then v else PNone)"
  "x \<noteq> y \<Longrightarrow> dict_get (d @ [(lit y, v)]) x = dict_get d x"
  by (auto simp: dict_get_def map_add_def lit_inj split: option.split dest: map_of_SomeD intro: rev_image_eqI)

lemma equals_int_value: "equals_int E v n \<Longrightarrow> int_value E v = n"
  by (cases v) auto

lemma verified_sequence: "verified E prev n r \<Longrightarrow> sequence_of E r = n"
  by (auto simp: verified_def sequence_of_def dict_get_append equals_int_value)

lemma chain_append: "chain E prev n (rs @ qs) \<longleftrightarrow> chain E prev n rs \<and> chain E (chain_end prev rs) (n + int (length rs)) qs"
  by (induction rs arbitrary: prev n) (auto simp: chain_end_def algebra_simps)

lemma chain_sequences: "chain E prev n rs \<Longrightarrow> i < length rs \<Longrightarrow> sequence_of E (rs ! i) = n + 1 + int i"
proof (induction rs arbitrary: prev n i)
  case (Cons r rs)
  then show ?case by (cases i) (auto simp: verified_sequence)
qed simp

lemma chain_sequence_range: "chain E prev n rs \<Longrightarrow> r \<in> set rs \<Longrightarrow> n < sequence_of E r \<and> sequence_of E r \<le> n + int (length rs)"
  by (auto simp: in_set_conv_nth chain_sequences)

lemma chain_hash: "verified E prev n r \<Longrightarrow> \<exists>kid. document_mac E ''audit-record'' kid (butlast r) = Inr (hash_of r)"
  by (auto simp: verified_def hash_of_def dict_get_append)

lemma verified_previous: "verified E prev n r \<Longrightarrow> dict_get r ''previous_hash'' = PStr prev"
  by (auto simp: verified_def dict_get_append)

text \<open>What a log looks like while it is loaded.\<close>

definition loading :: "audit_env \<Rightarrow> pystr \<Rightarrow> int \<Rightarrow> load_progress \<Rightarrow> audit_log \<Rightarrow> bool" where
  "loading E h n st l \<longleftrightarrow> chain E h n (al_records l) \<and> ls_previous st = chain_end h (al_records l)
     \<and> ls_sequence st = n + int (length (al_records l)) \<and> al_anchor_sequence l = n \<and> al_anchor_hash l = h"

lemma lift_sum_Inr: "lift_sum x l = (Inr a, l') \<longleftrightarrow> x = Inr a \<and> l' = l"
  by (cases x) (auto simp: lift_sum_def)

lemma control_identifier_Inr: "control_identifier v f = Inr s \<longleftrightarrow> v = PStr s \<and> is_control_identifier s"
  by (cases v) (auto simp: control_identifier_def)

lemma check_digest_Inr: "check_digest a b = Inr ok \<longleftrightarrow> is_ascii a \<and> is_ascii b \<and> ok = (a = b)"
  by (auto simp: check_digest_def)

lemma check_record_Inr:
  "check_record E st body v = Inr s \<longleftrightarrow>
     (\<exists>kid. dict_get body ''key_id'' = PStr kid \<and> is_control_identifier kid \<and> document_mac E ''audit-record'' kid body = Inr s
        \<and> v = PStr s \<and> is_ascii s \<and> dict_get body ''previous_hash'' = PStr (ls_previous st)
        \<and> equals_int E (dict_get body ''sequence'') (ls_sequence st + 1))"
  by (cases v) (auto simp: check_record_def bind_sum_Inr control_identifier_Inr check_digest_Inr split: if_splits)

lemma check_record_verified:
  assumes "check_record E st (AList.delete (lit ''hash'') kvs) v = Inr s"
  shows "verified E (ls_previous st) (ls_sequence st + 1) (AList.delete (lit ''hash'') kvs @ [(lit ''hash'', PStr s)])"
  unfolding verified_def using assms by (auto simp: check_record_Inr delete_filter)

lemma hash_of_added: "lit ''hash'' \<notin> fst ` set b \<Longrightarrow> hash_of (b @ [(lit ''hash'', PStr s)]) = s"
  by (simp add: hash_of_def dict_get_append)

lemma hash_of_replaced [simp]: "hash_of (AList.delete (lit ''hash'') kvs @ [(lit ''hash'', PStr s)]) = s"
  by (rule hash_of_added) (auto simp: delete_filter)

lemma load_line_loading:
  assumes "load_line E raw st l = (Inr st', l')" "loading E h n st l"
  shows "loading E h n st' l'"
proof -
  obtain kvs where kvs: "ae_loads E raw = Inr (PDict kvs)" "int (length raw) \<le> al_max_record l"
    using assms(1) by (auto simp: load_line_def split: if_splits sum.splits load_fault.splits pyval.splits)
  let ?b = "AList.delete (lit ''hash'') kvs"
  show ?thesis
  proof (cases "pruned ?b l")
    case True
    with kvs assms show ?thesis by (simp add: load_line_def)
  next
    case False
    then obtain s where s: "check_record E st ?b (dict_get kvs ''hash'') = Inr s"
        "ls_previous st' = s" "ls_sequence st' = ls_sequence st + 1" "l' = l\<lparr>al_records := al_records l @ [?b @ [(lit ''hash'', PStr s)]]\<rparr>"
      using assms(1) kvs by (auto simp: load_line_def Let_def bind_res_Inr lift_sum_Inr)
    from s(2-) assms(2) check_record_verified [OF s(1)] show ?thesis
      by (simp add: loading_def chain_append chain_end_def)
  qed
qed

lemma load_lines_loading: "load_lines E raws st l = (Inr st', l') \<Longrightarrow> loading E h n st l \<Longrightarrow> loading E h n st' l'"
proof (induction raws arbitrary: st l)
  case (Cons raw raws)
  then obtain st1 l1 where "load_line E raw st l = (Inr st1, l1)" "load_lines E raws st1 l1 = (Inr st', l')"
    by (auto simp: bind_res_Inr)
  with Cons.IH Cons.prems(2) load_line_loading show ?case by blast
qed simp

lemma finish_segment_frame [simp]:
  "al_records (finish_segment n st l) = al_records l" "al_anchor_sequence (finish_segment n st l) = al_anchor_sequence l"
  "al_anchor_hash (finish_segment n st l) = al_anchor_hash l"
  by (simp_all add: finish_segment_def split: option.split)

lemma load_segments_chain:
  "load_segments E fs st l = (Inr (), l') \<Longrightarrow> loading E h n st l \<Longrightarrow> \<exists>st'. loading E h n st' l'"
proof (induction fs arbitrary: st l)
  case (Cons nf fs)
  then obtain st1 l1 where s: "load_segment E nf st l = (Inr st1, l1)" "load_segments E fs st1 l1 = (Inr (), l')"
    by (auto simp: bind_res_Inr)
  obtain number f where nf: "nf = (number, f)" by (cases nf)
  obtain l2 where "load_lines E (file_lines (af_bytes f)) (st\<lparr>ls_min := None, ls_max := None\<rparr>) l = (Inr st1, l2)"
      "l1 = finish_segment number st1 l2"
    using s(1) nf by (auto simp: load_segment_def bind_res_Inr split: if_splits)
  moreover have "loading E h n (st\<lparr>ls_min := None, ls_max := None\<rparr>) l" using Cons.prems(2) by (simp add: loading_def)
  ultimately have "loading E h n st1 l1" using load_lines_loading by (fastforce simp: loading_def)
  with Cons.IH s(2) show ?case by blast
qed auto

lemma load_and_verify_chain:
  assumes "load_and_verify E l = (Inr (), l')" "al_records l = []"
  shows "chain E (al_anchor_hash l) (al_anchor_sequence l) (al_records l')
    \<and> al_anchor_hash l' = al_anchor_hash l \<and> al_anchor_sequence l' = al_anchor_sequence l"
proof -
  let ?st = "\<lparr>ls_previous = al_anchor_hash l, ls_sequence = al_anchor_sequence l, ls_min = None, ls_max = None\<rparr>"
  have "load_segments E (listed (al_files l)) ?st l = (Inr (), l')"
    using assms(1) by (auto simp: load_and_verify_def split: if_splits)
  moreover have "loading E (al_anchor_hash l) (al_anchor_sequence l) ?st l"
    using assms(2) by (simp add: loading_def chain_end_def)
  ultimately show ?thesis using load_segments_chain [of E] by (fastforce simp: loading_def)
qed

section \<open>Loading what was written\<close>

definition record_line :: "dict \<Rightarrow> bytes" where
  "record_line r = (case canonical (PDict r) of Inl _ \<Rightarrow> [] | Inr b \<Rightarrow> b @ [CHR 0x0A])"

definition well_kept :: "audit_env \<Rightarrow> int \<Rightarrow> dict \<Rightarrow> bool" where
  "well_kept E mr r \<longleftrightarrow>
     (\<exists>body h b i. r = body @ [(lit ''hash'', PStr h)] \<and> lit ''hash'' \<notin> fst ` set body \<and> is_ascii h
        \<and> canonical (PDict r) = Inr b \<and> CHR 0x0A \<notin> set b \<and> int (length b) < mr
        \<and> ae_loads E (b @ [CHR 0x0A]) = Inr (PDict (dict_copy r)) \<and> dict_get r ''sequence'' = PInt i)"

definition reloaded :: "dict \<Rightarrow> dict" where
  "reloaded r = AList.delete (lit ''hash'') (dict_copy r) @ [(lit ''hash'', PStr (hash_of r))]"

lemma dict_get_copy: "dict_get (dict_copy d) x = json_norm (json_sorted (dict_get d x))"
  by (simp add: dict_get_def map_of_copy split: option.split)

lemma mac_copy: "document_mac E p kid (dict_copy d) = document_mac E p kid d"
  by (simp add: document_mac_def canonical_copy)

lemma delete_added: "k \<notin> fst ` set d \<Longrightarrow> AList.delete k (d @ [(k, v)]) = d"
  by (simp add: delete_append delete_fresh)

lemma reloaded_eq:
  "lit ''hash'' \<notin> fst ` set body \<Longrightarrow> reloaded (body @ [(lit ''hash'', PStr h)]) = dict_copy body @ [(lit ''hash'', PStr h)]"
  by (simp add: reloaded_def delete_copy delete_added hash_of_added)

lemma keys_copy: "fst ` set (dict_copy d) = fst ` set d"
  by (simp add: dict_copy_def on_values_def image_image split_def)

lemma well_keptE:
  assumes "well_kept E mr r"
  obtains body h b i where "r = body @ [(lit ''hash'', PStr h)]" "lit ''hash'' \<notin> fst ` set body" "is_ascii h"
    "canonical (PDict r) = Inr b" "record_line r = b @ [CHR 0x0A]" "CHR 0x0A \<notin> set b" "int (length b) < mr"
    "ae_loads E (b @ [CHR 0x0A]) = Inr (PDict (dict_copy r))" "dict_get body ''sequence'' = PInt i" "hash_of r = h"
    "sequence_of E r = i"
  using assms that by (fastforce simp: well_kept_def record_line_def hash_of_added sequence_of_def dict_get_append)

lemma canonical_reloaded:
  assumes "well_kept E mr r"
  shows "canonical (PDict (reloaded r)) = canonical (PDict r)" "dict_copy (reloaded r) = dict_copy r"
proof -
  from assms obtain body h where r: "r = body @ [(lit ''hash'', PStr h)]" "lit ''hash'' \<notin> fst ` set body"
    by (rule well_keptE)
  then show c: "dict_copy (reloaded r) = dict_copy r" by (simp add: reloaded_eq dict_copy_copy)
  show "canonical (PDict (reloaded r)) = canonical (PDict r)" by (metis c canonical_copy)
qed

lemma well_kept_reloaded: "well_kept E mr r \<Longrightarrow> well_kept E mr (reloaded r) \<and> record_line (reloaded r) = record_line r"
proof -
  assume w: "well_kept E mr r"
  from w obtain body h b i where r: "r = body @ [(lit ''hash'', PStr h)]" "lit ''hash'' \<notin> fst ` set body" "is_ascii h"
      "canonical (PDict r) = Inr b" "record_line r = b @ [CHR 0x0A]" "CHR 0x0A \<notin> set b" "int (length b) < mr"
      "ae_loads E (b @ [CHR 0x0A]) = Inr (PDict (dict_copy r))" "dict_get body ''sequence'' = PInt i"
    by (rule well_keptE)
  have e: "reloaded r = dict_copy body @ [(lit ''hash'', PStr h)]" using r(1,2) by (simp add: reloaded_eq)
  have "dict_get (reloaded r) ''sequence'' = PInt i" unfolding e using r(9) by (simp add: dict_get_append dict_get_copy)
  moreover have "record_line (reloaded r) = record_line r" using canonical_reloaded [OF w] by (simp add: record_line_def)
  ultimately show ?thesis unfolding well_kept_def using r e canonical_reloaded [OF w] keys_copy [of body] by metis
qed

lemma verified_reloaded:
  assumes "well_kept E mr r" "verified E prev n r"
  shows "verified E prev n (reloaded r) \<and> hash_of (reloaded r) = hash_of r"
proof -
  obtain body kid h where v: "r = body @ [(lit ''hash'', PStr h)]" "lit ''hash'' \<notin> fst ` set body"
      "dict_get body ''key_id'' = PStr kid" "is_control_identifier kid" "document_mac E ''audit-record'' kid body = Inr h"
      "dict_get body ''previous_hash'' = PStr prev" "equals_int E (dict_get body ''sequence'') n"
    using assms(2) by (auto simp: verified_def)
  from assms(1) v(1) obtain i where i: "dict_get body ''sequence'' = PInt i"
    by (auto elim!: well_keptE)
  have e: "reloaded r = dict_copy body @ [(lit ''hash'', PStr h)]" using v(1,2) by (simp add: reloaded_eq)
  have "verified E prev n (reloaded r)"
    unfolding verified_def e using v i
    by (intro exI [of _ "dict_copy body"] exI [of _ kid] exI [of _ h]) (simp add: keys_copy dict_get_copy mac_copy)
  then show ?thesis by (simp add: reloaded_def)
qed

lemma load_line_kept:
  assumes "well_kept E (al_max_record l) r" "verified E (ls_previous st) (ls_sequence st + 1) r"
    and "al_anchor_sequence l \<le> ls_sequence st"
  shows "load_line E (record_line r) st l =
    (Inr \<lparr>ls_previous = hash_of r, ls_sequence = ls_sequence st + 1,
          ls_min = (case ls_min st of None \<Rightarrow> Some (ls_sequence st + 1) | Some m \<Rightarrow> Some m),
          ls_max = Some (ls_sequence st + 1)\<rparr>, l\<lparr>al_records := al_records l @ [reloaded r]\<rparr>)"
proof -
  from assms(1) obtain body h b i where r: "r = body @ [(lit ''hash'', PStr h)]" "lit ''hash'' \<notin> fst ` set body" "is_ascii h"
      "record_line r = b @ [CHR 0x0A]" "int (length b) < al_max_record l"
      "ae_loads E (b @ [CHR 0x0A]) = Inr (PDict (dict_copy r))" "dict_get body ''sequence'' = PInt i" "hash_of r = h"
      "sequence_of E r = i"
    by (rule well_keptE)
  have i: "i = ls_sequence st + 1" using verified_sequence [OF assms(2)] r(9) by simp
  have d: "AList.delete (lit ''hash'') (dict_copy r) = dict_copy body" using r(1,2) by (simp add: delete_copy delete_added)
  have h: "dict_get (dict_copy r) ''hash'' = PStr h" using r(1,2) by (simp add: dict_get_copy dict_get_append)
  obtain kid where k: "dict_get body ''key_id'' = PStr kid" "is_control_identifier kid"
      "document_mac E ''audit-record'' kid body = Inr h" "dict_get body ''previous_hash'' = PStr (ls_previous st)"
    using assms(2) r(1,2) by (auto simp: verified_def)
  have "check_record E st (dict_copy body) (PStr h) = Inr h"
    using k r(3,7) i by (auto simp: check_record_Inr dict_get_copy mac_copy)
  moreover have "\<not> pruned (dict_copy body) l" using r(7) i assms(3) by (simp add: pruned_def dict_get_copy)
  ultimately show ?thesis using r(4-6,8) d h by (simp add: load_line_def Let_def lift_sum_def reloaded_def)
qed

lemma load_line_pruned:
  assumes "well_kept E (al_max_record l) r" "sequence_of E r \<le> al_anchor_sequence l"
  shows "load_line E (record_line r) st l = (Inr st, l)"
proof -
  from assms(1) obtain body h b i where r: "r = body @ [(lit ''hash'', PStr h)]" "lit ''hash'' \<notin> fst ` set body" "is_ascii h"
      "record_line r = b @ [CHR 0x0A]" "int (length b) < al_max_record l"
      "ae_loads E (b @ [CHR 0x0A]) = Inr (PDict (dict_copy r))" "dict_get body ''sequence'' = PInt i" "sequence_of E r = i"
    by (rule well_keptE)
  have "AList.delete (lit ''hash'') (dict_copy r) = dict_copy body" using r(1,2) by (simp add: delete_copy delete_added)
  moreover have "pruned (dict_copy body) l" using r(7,8) assms(2) by (simp add: pruned_def dict_get_copy)
  ultimately show ?thesis using r(4-6) by (simp add: load_line_def)
qed

lemma load_lines_kept:
  assumes "\<forall>r \<in> set rs. well_kept E (al_max_record l) r" "chain E (ls_previous st) (ls_sequence st) rs" "rs \<noteq> []"
    and "al_anchor_sequence l \<le> ls_sequence st"
  shows "load_lines E (map record_line rs) st l =
    (Inr \<lparr>ls_previous = chain_end (ls_previous st) rs, ls_sequence = ls_sequence st + int (length rs),
          ls_min = (case ls_min st of None \<Rightarrow> Some (ls_sequence st + 1) | Some m \<Rightarrow> Some m),
          ls_max = Some (ls_sequence st + int (length rs))\<rparr>, l\<lparr>al_records := al_records l @ map reloaded rs\<rparr>)"
  using assms
proof (induction rs arbitrary: st l)
  case (Cons r rs)
  let ?st = "\<lparr>ls_previous = hash_of r, ls_sequence = ls_sequence st + 1,
      ls_min = (case ls_min st of None \<Rightarrow> Some (ls_sequence st + 1) | Some m \<Rightarrow> Some m), ls_max = Some (ls_sequence st + 1)\<rparr>"
  let ?l = "l\<lparr>al_records := al_records l @ [reloaded r]\<rparr>"
  have 1: "load_line E (record_line r) st l = (Inr ?st, ?l)" using Cons.prems by (intro load_line_kept) simp_all
  show ?case
  proof (cases "rs = []")
    case True
    with 1 show ?thesis by (simp add: chain_end_def)
  next
    case False
    with Cons.IH [of ?l ?st] Cons.prems 1 show ?thesis by (simp add: chain_end_def split: option.split)
  qed
qed simp

lemma load_lines_pruned:
  "\<forall>r \<in> set rs. well_kept E (al_max_record l) r \<and> sequence_of E r \<le> al_anchor_sequence l
    \<Longrightarrow> load_lines E (map record_line rs) st l = (Inr st, l)"
  by (induction rs) (simp_all add: load_line_pruned)

lemma file_lines_record:
  "CHR 0x0A \<notin> set b \<Longrightarrow> file_lines (b @ [CHR 0x0A] @ rest) = (b @ [CHR 0x0A]) # file_lines rest"
  by (induction b) auto

lemma file_lines_records:
  "\<forall>r \<in> set rs. well_kept E mr r \<Longrightarrow> file_lines (concat (map record_line rs)) = map record_line rs"
proof (induction rs)
  case (Cons r rs)
  then have "well_kept E mr r" by simp
  then obtain b where "record_line r = b @ [CHR 0x0A]" "CHR 0x0A \<notin> set b" by (rule well_keptE)
  with Cons file_lines_record [of b "concat (map record_line rs)"] show ?case by simp
qed simp

section \<open>The directory of a log\<close>

text \<open>A log is determined by its limits, its anchor and its segments, each a number with its records.\<close>

type_synonym segments = "(int \<times> dict list) list"

definition segment_file :: "dict list \<Rightarrow> audit_file" where
  "segment_file rs = \<lparr>af_bytes = concat (map record_line rs), af_regular = True, af_private = True\<rparr>"

definition layout :: "segments \<Rightarrow> (int \<times> audit_file) list" where
  "layout gs = on_values segment_file gs"

definition all_records :: "segments \<Rightarrow> dict list" where
  "all_records gs = concat (map snd gs)"

fun spans :: "int \<Rightarrow> segments \<Rightarrow> (int \<times> int \<times> int) list" where
  "spans n [] = []"
| "spans n ((k, rs) # gs) = (k, n + 1, n + int (length rs)) # spans (n + int (length rs)) gs"

definition log_of :: "audit_log \<Rightarrow> segments \<Rightarrow> audit_log" where
  "log_of l gs = l\<lparr>al_records := all_records gs, al_segments := map fst gs, al_ranges := spans (al_anchor_sequence l) gs,
     al_files := layout gs\<rparr>"

definition kept_segments :: "audit_env \<Rightarrow> audit_log \<Rightarrow> segments \<Rightarrow> bool" where
  "kept_segments E l gs \<longleftrightarrow> (\<forall>(k, rs) \<in> set gs. rs \<noteq> []
     \<and> int (length (concat (map record_line rs))) \<le> al_segment_bytes l + al_max_record l
     \<and> (\<forall>r \<in> set rs. well_kept E (al_max_record l) r))"

lemma all_records_simps [simp]: "all_records [] = []" "all_records ((k, rs) # gs) = rs @ all_records gs"
  "all_records (gs @ hs) = all_records gs @ all_records hs"
  by (simp_all add: all_records_def)

lemma layout_simps [simp]: "layout [] = []" "layout ((k, rs) # gs) = (k, segment_file rs) # layout gs"
  "layout (gs @ hs) = layout gs @ layout hs" "map fst (layout gs) = map fst gs" "length (layout gs) = length gs"
  by (simp_all add: layout_def on_values_def split_def o_def)

lemma spans_keys [simp]: "map fst (spans n gs) = map fst gs"
  by (induction n gs rule: spans.induct) simp_all

lemma load_segment_kept:
  assumes "kept_segments E l [(k, rs)]" "chain E (ls_previous st) (ls_sequence st) rs"
    and "al_anchor_sequence l \<le> ls_sequence st" "k \<notin> fst ` set (al_ranges l)"
  shows "\<exists>a b. load_segment E (k, segment_file rs) st l =
    (Inr \<lparr>ls_previous = chain_end (ls_previous st) rs, ls_sequence = ls_sequence st + int (length rs), ls_min = a, ls_max = b\<rparr>,
     l\<lparr>al_records := al_records l @ map reloaded rs, al_segments := al_segments l @ [k],
       al_ranges := al_ranges l @ spans (ls_sequence st) [(k, rs)]\<rparr>)"
proof -
  have w: "\<forall>r \<in> set rs. well_kept E (al_max_record l) r" "rs \<noteq> []" using assms(1) by (auto simp: kept_segments_def)
  let ?st = "st\<lparr>ls_min := None, ls_max := None\<rparr>"
  have "load_lines E (map record_line rs) ?st l =
      (Inr \<lparr>ls_previous = chain_end (ls_previous st) rs, ls_sequence = ls_sequence st + int (length rs),
         ls_min = Some (ls_sequence st + 1), ls_max = Some (ls_sequence st + int (length rs))\<rparr>, l\<lparr>al_records := al_records l @ map reloaded rs\<rparr>)"
    using load_lines_kept [of rs E l ?st] w assms(2,3) by simp
  then show ?thesis using assms(1,4) file_lines_records [OF w(1)]
    by (simp add: load_segment_def segment_file_def kept_segments_def finish_segment_def update_fresh)
qed

lemma load_segment_pruned:
  assumes "kept_segments E l [(k, rs)]" "\<forall>r \<in> set rs. sequence_of E r \<le> al_anchor_sequence l" "0 < al_anchor_sequence l"
  shows "load_segment E (k, segment_file rs) st l =
    (Inr (st\<lparr>ls_min := None, ls_max := None\<rparr>), l\<lparr>al_files := AList.delete k (al_files l)\<rparr>)"
proof -
  have w: "\<forall>r \<in> set rs. well_kept E (al_max_record l) r" using assms(1) by (auto simp: kept_segments_def)
  have "load_lines E (map record_line rs) (st\<lparr>ls_min := None, ls_max := None\<rparr>) l = (Inr (st\<lparr>ls_min := None, ls_max := None\<rparr>), l)"
    using load_lines_pruned [of rs E l] w assms(2) by simp
  then show ?thesis using assms(1,3) file_lines_records [OF w]
    by (simp add: load_segment_def segment_file_def kept_segments_def finish_segment_def)
qed

lemma kept_segments_frame [simp]:
  "kept_segments E (l\<lparr>al_records := a\<rparr>) gs = kept_segments E l gs" "kept_segments E (l\<lparr>al_segments := b\<rparr>) gs = kept_segments E l gs"
  "kept_segments E (l\<lparr>al_ranges := c\<rparr>) gs = kept_segments E l gs" "kept_segments E (l\<lparr>al_files := d\<rparr>) gs = kept_segments E l gs"
  "kept_segments E (l\<lparr>al_anchor_sequence := n\<rparr>) gs = kept_segments E l gs" "kept_segments E (l\<lparr>al_anchor_hash := h\<rparr>) gs = kept_segments E l gs"
  "kept_segments E (l\<lparr>al_anchor_file := f\<rparr>) gs = kept_segments E l gs"
  by (simp_all add: kept_segments_def)

lemma kept_segments_Cons: "kept_segments E l (g # gs) \<longleftrightarrow> kept_segments E l [g] \<and> kept_segments E l gs"
  by (simp add: kept_segments_def)

lemma kept_segments_append [simp]: "kept_segments E l (gs @ hs) \<longleftrightarrow> kept_segments E l gs \<and> kept_segments E l hs"
  by (auto simp: kept_segments_def)

lemma chain_end_append: "chain_end p (rs @ qs) = chain_end (chain_end p rs) qs"
  by (simp add: chain_end_def)

lemma load_segments_then:
  assumes "kept_segments E l gs" "chain E (ls_previous st) (ls_sequence st) (all_records gs)"
    and "al_anchor_sequence l \<le> ls_sequence st" "distinct (map fst gs)" "fst ` set gs \<inter> fst ` set (al_ranges l) = {}"
  shows "\<exists>a b. load_segments E (layout gs @ fs) st l =
    load_segments E fs \<lparr>ls_previous = chain_end (ls_previous st) (all_records gs), ls_sequence = ls_sequence st + int (length (all_records gs)),
        ls_min = a, ls_max = b\<rparr>
      (l\<lparr>al_records := al_records l @ map reloaded (all_records gs), al_segments := al_segments l @ map fst gs,
         al_ranges := al_ranges l @ spans (ls_sequence st) gs\<rparr>)"
  using assms
proof (induction gs arbitrary: st l)
  case Nil
  show ?case
    by (rule exI [of _ "ls_min st"], rule exI [of _ "ls_max st"], cases st) (simp add: chain_end_def)
next
  case (Cons g gs)
  obtain k rs where g: "g = (k, rs)" by (cases g)
  let ?l = "l\<lparr>al_records := al_records l @ map reloaded rs, al_segments := al_segments l @ [k],
       al_ranges := al_ranges l @ spans (ls_sequence st) [(k, rs)]\<rparr>"
  obtain st' where st': "load_segment E (k, segment_file rs) st l = (Inr st', ?l)"
      "ls_previous st' = chain_end (ls_previous st) rs" "ls_sequence st' = ls_sequence st + int (length rs)"
  proof -
    have "kept_segments E l [(k, rs)]" "chain E (ls_previous st) (ls_sequence st) rs" "k \<notin> fst ` set (al_ranges l)"
      using Cons.prems kept_segments_Cons [of E l g gs] by (auto simp: g chain_append)
    with load_segment_kept [of E l k rs st] Cons.prems(3) that show thesis by auto
  qed
  have "\<exists>a b. load_segments E (layout gs @ fs) st' ?l =
      load_segments E fs \<lparr>ls_previous = chain_end (ls_previous st') (all_records gs), ls_sequence = ls_sequence st' + int (length (all_records gs)),
          ls_min = a, ls_max = b\<rparr>
        (?l\<lparr>al_records := al_records ?l @ map reloaded (all_records gs), al_segments := al_segments ?l @ map fst gs,
           al_ranges := al_ranges ?l @ spans (ls_sequence st') gs\<rparr>)"
    using Cons.prems st'(2,3) kept_segments_Cons [of E l g gs] by (intro Cons.IH) (auto simp: g chain_append)
  then show ?case by (simp add: g st' chain_end_append algebra_simps)
qed

lemmas load_segments_kept = load_segments_then [where fs = "[]", simplified]

lemma load_segments_pruned:
  assumes "kept_segments E l olds" "\<forall>r \<in> set (all_records olds). sequence_of E r \<le> al_anchor_sequence l"
    and "olds \<noteq> [] \<longrightarrow> 0 < al_anchor_sequence l" "ls_min st = None" "ls_max st = None"
  shows "load_segments E (layout olds @ fs) st l =
    load_segments E fs st (l\<lparr>al_files := filter (\<lambda>p. fst p \<notin> fst ` set olds) (al_files l)\<rparr>)"
  using assms
proof (induction olds arbitrary: l)
  case (Cons g olds)
  obtain k rs where g: "g = (k, rs)" by (cases g)
  let ?l = "l\<lparr>al_files := AList.delete k (al_files l)\<rparr>"
  have "st\<lparr>ls_min := None, ls_max := None\<rparr> = st" using Cons.prems(4,5) by simp
  then have 1: "load_segment E (k, segment_file rs) st l = (Inr st, ?l)"
    using load_segment_pruned [of E l k rs st] Cons.prems kept_segments_Cons [of E l g olds] by (auto simp: g)
  have "load_segments E (layout olds @ fs) st ?l =
      load_segments E fs st (?l\<lparr>al_files := filter (\<lambda>p. fst p \<notin> fst ` set olds) (al_files ?l)\<rparr>)"
    using Cons.prems kept_segments_Cons [of E l g olds] by (intro Cons.IH) (auto simp: g)
  then show ?case using 1 by (simp add: g delete_filter conj_commute)
qed simp

definition anchor_ok :: "audit_env \<Rightarrow> audit_log \<Rightarrow> bool" where
  "anchor_ok E l \<longleftrightarrow>
     (case al_anchor_file l of
        None \<Rightarrow> al_anchor_sequence l = 0 \<and> al_anchor_hash l = zero_hash
      | Some f \<Rightarrow> af_regular f \<and> af_private f
          \<and> bind_sum (read_json_file E ''audit anchor'' (al_max_record l) f) (verify_anchor E) = Inr (al_anchor_sequence l, al_anchor_hash l))"

definition limits_ok :: "audit_log \<Rightarrow> bool" where
  "limits_ok l \<longleftrightarrow> al_segment_bytes l \<in> {1024..int63} \<and> al_max_segments l \<in> {1..int63} \<and> al_max_record l \<in> {512..int63}"

lemma load_anchor_ok:
  assumes "anchor_ok E l"
  shows "load_anchor E (empty_log (al_segment_bytes l) (al_max_segments l) (al_max_record l) fs (al_anchor_file l)) =
    (Inr (), l\<lparr>al_records := [], al_segments := [], al_ranges := [], al_files := fs\<rparr>)"
  using assms by (cases "al_anchor_file l") (simp_all add: anchor_ok_def load_anchor_def empty_log_def lift_sum_def)

lemma listed_layout:
  assumes "sorted_wrt (<) (map fst gs)" "\<forall>k \<in> fst ` set gs. 0 \<le> k \<and> k < 10 ^ 8"
  shows "listed (layout gs) = layout gs"
proof -
  have "filter (\<lambda>(n, f). 0 \<le> n \<and> n < 10 ^ 8) (layout gs) = layout gs"
    using assms(2) by (auto simp: filter_id_conv layout_def on_values_def)
  moreover have "sorted (map fst (layout gs))" using assms(1) by (simp add: strict_sorted_iff)
  ultimately show ?thesis by (simp add: listed_def sorted_sort_id sort_key_id_if_sorted)
qed

lemma layout_reloaded: "kept_segments E l gs \<Longrightarrow> layout (on_values (map reloaded) gs) = layout gs"
  unfolding layout_def on_values_on_values
proof (rule on_values_cong)
  fix k rs
  assume "kept_segments E l gs" "(k, rs) \<in> set gs"
  then have "\<forall>r \<in> set rs. record_line (reloaded r) = record_line r"
    using well_kept_reloaded by (fastforce simp: kept_segments_def)
  then have "map record_line (map reloaded rs) = map record_line rs" by simp
  then show "segment_file (map reloaded rs) = segment_file rs" by (simp only: segment_file_def)
qed

lemma records_reloaded: "all_records (on_values (map reloaded) gs) = map reloaded (all_records gs)"
  by (simp add: all_records_def on_values_def map_concat split_def o_def)

lemma spans_reloaded: "spans n (on_values (map reloaded) gs) = spans n gs"
  by (induction n gs rule: spans.induct) (simp_all add: on_values_def)

text \<open>
  Opening a directory whose first segments hold only records up to the anchor: those segments are
  removed and the rest is the log.
\<close>

lemma open_layout:
  assumes "limits_ok l" "anchor_ok E l" "kept_segments E l (olds @ gs)" "sorted_wrt (<) (map fst (olds @ gs))"
    and "\<forall>k \<in> fst ` set (olds @ gs). 0 \<le> k \<and> k < 10 ^ 8" "int (length (olds @ gs)) \<le> al_max_segments l"
    and "chain E (al_anchor_hash l) (al_anchor_sequence l) (all_records gs)"
    and "\<forall>r \<in> set (all_records olds). sequence_of E r \<le> al_anchor_sequence l" "olds \<noteq> [] \<longrightarrow> 0 < al_anchor_sequence l"
  shows "open_audit E (PInt (al_segment_bytes l)) (PInt (al_max_segments l)) (PInt (al_max_record l))
      (layout (olds @ gs)) (al_anchor_file l) = (Inr (), log_of l (on_values (map reloaded) gs))"
proof -
  let ?l0 = "l\<lparr>al_records := [], al_segments := [], al_ranges := [], al_files := layout (olds @ gs)\<rparr>"
  let ?l1 = "?l0\<lparr>al_files := filter (\<lambda>p. fst p \<notin> fst ` set olds) (al_files ?l0)\<rparr>"
  let ?st = "\<lparr>ls_previous = al_anchor_hash l, ls_sequence = al_anchor_sequence l, ls_min = None, ls_max = None\<rparr>"
  have dj: "distinct (map fst gs)" "fst ` set olds \<inter> fst ` set gs = {}"
    using assms(4) by (auto simp: strict_sorted_iff)
  have f: "filter (\<lambda>p. fst p \<notin> fst ` set olds) (layout (olds @ gs)) = layout gs"
  proof -
    have "filter (\<lambda>p. fst p \<notin> fst ` set olds) (layout olds) = []"
      by (auto simp: filter_empty_conv layout_def on_values_def intro: rev_image_eqI)
    moreover have "filter (\<lambda>p. fst p \<notin> fst ` set olds) (layout gs) = layout gs"
      using dj(2) by (auto simp: filter_id_conv layout_def on_values_def) (metis IntI emptyE fst_conv image_eqI)
    ultimately show ?thesis by simp
  qed
  have "load_segments E (layout olds @ layout gs) ?st ?l0 = load_segments E (layout gs) ?st ?l1"
    using assms(3,8,9) by (intro load_segments_pruned) simp_all
  also have "\<dots> = (Inr (), ?l1\<lparr>al_records := map reloaded (all_records gs), al_segments := map fst gs, al_ranges := spans (al_anchor_sequence l) gs\<rparr>)"
    using assms(3,7) dj(1) by (subst load_segments_kept) simp_all
  also have "\<dots> = (Inr (), log_of l (on_values (map reloaded) gs))"
    using f assms(3) layout_reloaded [of E l gs] by (simp add: log_of_def records_reloaded spans_reloaded del: layout_simps(3))
  finally show ?thesis
    using assms(1,6) load_anchor_ok [OF assms(2), of "layout (olds @ gs)"] listed_layout [OF assms(4,5)]
    by (simp add: open_audit_def control_integer_def limits_ok_def load_and_verify_def)
qed

section \<open>Appending keeps the log in order\<close>

definition standing :: "audit_env \<Rightarrow> audit_log \<Rightarrow> segments \<Rightarrow> bool" where
  "standing E l gs \<longleftrightarrow> log_of l gs = l \<and> limits_ok l \<and> anchor_ok E l \<and> 0 \<le> al_anchor_sequence l \<and> kept_segments E l gs
     \<and> chain E (al_anchor_hash l) (al_anchor_sequence l) (all_records gs) \<and> sorted_wrt (<) (map fst gs)
     \<and> (\<forall>k \<in> fst ` set gs. 1 \<le> k) \<and> int (length gs) \<le> al_max_segments l"

lemma log_of_fields:
  assumes "log_of l gs = l"
  shows "al_records l = all_records gs" "al_segments l = map fst gs"
    "al_ranges l = spans (al_anchor_sequence l) gs" "al_files l = layout gs"
  by (subst assms [symmetric], simp add: log_of_def)+

lemma log_of_log_of [simp]: "log_of (log_of l gs) hs = log_of l hs"
  by (simp add: log_of_def)

lemma log_of_frame [simp]:
  "al_segment_bytes (log_of l gs) = al_segment_bytes l" "al_max_segments (log_of l gs) = al_max_segments l"
  "al_max_record (log_of l gs) = al_max_record l" "al_anchor_sequence (log_of l gs) = al_anchor_sequence l"
  "al_anchor_hash (log_of l gs) = al_anchor_hash l" "al_anchor_file (log_of l gs) = al_anchor_file l"
  "al_records (log_of l gs) = all_records gs" "al_segments (log_of l gs) = map fst gs" "al_files (log_of l gs) = layout gs"
  "al_ranges (log_of l gs) = spans (al_anchor_sequence l) gs"
  "kept_segments E (log_of l gs) hs = kept_segments E l hs" "limits_ok (log_of l gs) = limits_ok l"
  by (simp_all add: log_of_def limits_ok_def)

lemma anchor_ok_log_of [simp]: "anchor_ok E (log_of l gs) = anchor_ok E l"
  by (cases "al_anchor_file l") (simp_all add: anchor_ok_def)

lemma standing_fields:
  assumes "standing E l gs"
  shows "al_records l = all_records gs" "al_segments l = map fst gs"
    "al_ranges l = spans (al_anchor_sequence l) gs" "al_files l = layout gs"
  using assms log_of_fields [of l gs] by (simp_all add: standing_def)

lemma standing_head:
  assumes "standing E l gs"
  shows "head_hash l = chain_end (al_anchor_hash l) (all_records gs)"
    "log_sequence E l = al_anchor_sequence l + int (length (all_records gs))"
proof -
  have c: "chain E (al_anchor_hash l) (al_anchor_sequence l) (all_records gs)" and r: "al_records l = all_records gs"
    using assms standing_fields(1) by (auto simp: standing_def)
  show "head_hash l = chain_end (al_anchor_hash l) (all_records gs)" by (simp add: head_hash_def chain_end_def r)
  show "log_sequence E l = al_anchor_sequence l + int (length (all_records gs))"
    using chain_sequences [OF c, of "length (all_records gs) - 1"] by (auto simp: log_sequence_def r last_conv_nth of_nat_diff Suc_leI)
qed

lemma spans_append: "spans n (gs @ hs) = spans n gs @ spans (n + int (length (all_records gs))) hs"
  by (induction n gs rule: spans.induct) (simp_all add: algebra_simps)

lemma update_last: "k \<notin> fst ` set d \<Longrightarrow> AList.update k v (d @ [(k, w)]) = d @ [(k, v)]"
  by (induction d) auto

lemma map_of_last: "k \<notin> fst ` set d \<Longrightarrow> ([k \<mapsto> w] ++ map_of d) k = Some w"
proof -
  assume "k \<notin> fst ` set d"
  then have "map_of d k = None" by (simp add: map_of_eq_None_iff)
  then show ?thesis by (simp add: map_add_def)
qed

lemma layout_keys [simp]: "fst ` set (layout gs) = fst ` set gs"
  by (metis layout_simps(4) set_map)

lemma spans_key_set [simp]: "fst ` set (spans n gs) = fst ` set gs"
  by (metis spans_keys set_map)

definition add_record :: "int \<Rightarrow> dict \<Rightarrow> segments \<Rightarrow> segments" where
  "add_record seg r gs =
     (if gs \<noteq> [] \<and> fst (last gs) = seg then butlast gs @ [(seg, snd (last gs) @ [r])] else gs @ [(seg, [r])])"

lemma records_add: "all_records (add_record seg r gs) = all_records gs @ [r]"
proof (cases gs rule: rev_exhaust)
  case (snoc hs g)
  then show ?thesis by (cases g) (simp add: add_record_def)
qed (simp add: add_record_def)

text \<open>Where the record goes, and that the size of the segment stays within its limit.\<close>

lemma segment_for_append_cases:
  assumes "standing E l gs" "segment_for_append n l = (Inr seg, l3)"
  shows "l3 = l\<lparr>al_segments := map fst (add_record seg r gs)\<rparr> \<and> 1 \<le> seg \<and> int (length (add_record seg r gs)) \<le> al_max_segments l
    \<and> (gs = [] \<or> fst (last gs) = seg \<and> int (length (concat (map record_line (snd (last gs))))) + n \<le> al_segment_bytes l
        \<or> seg = fst (last gs) + 1)"
proof (cases gs rule: rev_exhaust)
  case Nil
  then show ?thesis using assms standing_fields(2) [OF assms(1)]
    by (auto simp: standing_def segment_for_append_def add_record_def limits_ok_def)
next
  case (snoc hs g)
  obtain k rs where g: "g = (k, rs)" by (cases g)
  have f: "al_segments l = map fst gs" "al_files l = layout gs" using standing_fields [OF assms(1)] by simp_all
  have k: "1 \<le> k" "int (length gs) \<le> al_max_segments l" "sorted_wrt (<) (map fst gs)"
    using assms(1) by (auto simp: standing_def snoc g)
  have "map_of (al_files l) k = Some (segment_file rs)"
  proof -
    have "k \<notin> fst ` set hs" using k(3) by (auto simp: snoc g sorted_wrt_append)
    then show ?thesis by (simp add: f snoc g map_of_last)
  qed
  then show ?thesis using assms(2) k f(1) snoc g
    by (auto simp: segment_for_append_def Let_def segment_file_def add_record_def split: if_splits)
qed

lemma write_record:
  assumes "standing E l gs" "segment_for_append n l = (Inr seg, l3)" "record_line r = payload"
  shows "write_payload Complete seg payload l3 =
    (Inr (), l3\<lparr>al_files := layout (add_record seg r gs)\<rparr>)
   \<and> extend_range seg (al_anchor_sequence l + int (length (all_records gs)) + 1) (al_ranges l) = spans (al_anchor_sequence l) (add_record seg r gs)"
proof -
  have f: "al_ranges l = spans (al_anchor_sequence l) gs" "al_files l = layout gs" "sorted_wrt (<) (map fst gs)"
    using assms(1) standing_fields [OF assms(1)] by (simp_all add: standing_def)
  have c: "l3 = l\<lparr>al_segments := map fst (add_record seg r gs)\<rparr>"
      "gs = [] \<or> fst (last gs) = seg \<or> seg = fst (last gs) + 1"
    using segment_for_append_cases [OF assms(1,2), of r] by auto
  show ?thesis
  proof (cases gs rule: rev_exhaust)
    case Nil
    with c f assms(3) show ?thesis by (simp add: write_payload_def add_record_def segment_file_def extend_range_def)
  next
    case (snoc hs g)
    obtain k rs where g: "g = (k, rs)" by (cases g)
    have lt: "\<forall>j \<in> fst ` set hs. j < k" using f(3) by (auto simp: snoc g sorted_wrt_append)
    from c(2) consider "seg = k" | "seg = k + 1" by (auto simp: snoc g)
    then show ?thesis
    proof cases
      case 1
      have "k \<notin> fst ` set hs" using lt by auto
      with 1 c(1) f(1,2) assms(3) show ?thesis
        by (simp add: write_payload_def snoc g add_record_def segment_file_def extend_range_def map_of_last update_last spans_append algebra_simps)
    next
      case 2
      have n: "seg \<notin> fst ` set gs" using lt 2 by (auto simp: snoc g)
      then have "map_of (layout gs) seg = None" "map_of (spans (al_anchor_sequence l) gs) seg = None"
        by (simp_all add: map_of_eq_None_iff)
      with 2 n c(1) f(1,2) assms(3) show ?thesis
        by (simp add: write_payload_def add_record_def update_fresh extend_range_def)
          (simp add: snoc g segment_file_def spans_append algebra_simps)
    qed
  qed
qed

text \<open>Canonical JSON is one line: control characters are escaped, and the text of a float has none.\<close>

fun plain_floats :: "pyval \<Rightarrow> bool" where
  "plain_floats (PFloat r) = (10 \<notin> set r)"
| "plain_floats (PList xs) = list_all plain_floats xs"
| "plain_floats (PTuple xs) = list_all plain_floats xs"
| "plain_floats (PDict kvs) = list_all (\<lambda>(k, v). plain_floats v) kvs"
| "plain_floats _ = True"

lemma plain_floats_sorted [simp]: "plain_floats (json_sorted v) = plain_floats v"
  by (induction v rule: json_sorted.induct) (auto simp: list_all_iff split_def)

lemma plain_floats_norm [simp]: "plain_floats (json_norm v) = plain_floats v"
  by (induction v rule: json_norm.induct) (auto simp: list_all_iff split_def)

lemma dump_char_no_lf: "10 \<notin> set (dump_char c)"
  by (simp add: dump_char_def hex_digit_def)

lemma dump_str_no_lf: "10 \<notin> set (dump_str s)"
  using dump_char_no_lf by (auto simp: dump_str_def)

lemma digits10_no_lf: "10 \<notin> set (digits10 n)"
  using digits10_digits [of 10 n] by (auto simp: is_digit_def)

lemma join_text_set: "set (join_text ts) \<subseteq> insert 44 (\<Union> (set ` set ts))"
  by (induction ts rule: join_text.induct) auto

lemma collect_opt_mem: "collect_opt ys = Some zs \<Longrightarrow> z \<in> set zs \<Longrightarrow> Some z \<in> set ys"
  by (induction ys arbitrary: zs rule: collect_opt.induct) auto

lemma json_dumps_no_lf: "plain_floats v \<Longrightarrow> json_dumps v = Some t \<Longrightarrow> 10 \<notin> set t"
proof (induction v arbitrary: t rule: json_dumps.induct)
  case (3 i)
  then show ?case using digits10_no_lf by (auto simp: dump_int_def split: if_splits)
next
  case (5 s)
  then show ?case using dump_str_no_lf by auto
next
  case (7 xs)
  then obtain ts where ts: "collect_opt (map json_dumps xs) = Some ts" "t = [91] @ join_text ts @ [93]" by auto
  have "10 \<notin> set u" if "u \<in> set ts" for u using collect_opt_mem [OF ts(1) that] 7 by (auto simp: list_all_iff)
  then show ?case using join_text_set [of ts] ts(2) by auto
next
  case (8 xs)
  then obtain ts where ts: "collect_opt (map json_dumps xs) = Some ts" "t = [91] @ join_text ts @ [93]" by auto
  have "10 \<notin> set u" if "u \<in> set ts" for u using collect_opt_mem [OF ts(1) that] 8 by (auto simp: list_all_iff)
  then show ?case using join_text_set [of ts] ts(2) by auto
next
  case (9 kvs)
  then obtain ts where ts: "collect_opt (map (\<lambda>(k, v). map_option (\<lambda>t. dump_str k @ [58] @ t) (json_dumps v)) kvs) = Some ts"
      "t = [123] @ join_text ts @ [125]" by auto
  have "10 \<notin> set u" if u: "u \<in> set ts" for u
  proof -
    obtain k v w where kv: "(k, v) \<in> set kvs" "json_dumps v = Some w" "u = dump_str k @ [58] @ w"
      using collect_opt_mem [OF ts(1) u] by (auto simp: eq_commute [of "Some u"])
    have "10 \<notin> set w" using "9.IH" [OF kv(1) refl, of w] "9.prems"(1) kv(1,2) by (auto simp: list_all_iff)
    with kv(3) dump_str_no_lf show ?thesis by auto
  qed
  then show ?case using join_text_set [of ts] ts(2) by auto
qed (auto simp: lit_def)

lemma canonical_no_lf: "plain_floats v \<Longrightarrow> canonical v = Inr b \<Longrightarrow> CHR 0x0A \<notin> set b"
  using json_dumps_no_lf [of "json_sorted v"] encode_utf8_no_lf
  by (simp add: canonical_def split: option.splits if_splits)

lemma hex_text_plain: "is_ascii (hex_text b) \<and> length (hex_text b) = 2 * length b"
proof
  have "hex_digit d < 128" if "d < 16" for d using that by (simp add: hex_digit_def)
  moreover have "of_char c < (256 :: nat)" for c :: char by (rule nat_of_char_less_256)
  then have "of_char c div 16 < (16 :: nat)" for c :: char by (simp add: less_mult_imp_div_less)
  ultimately show "is_ascii (hex_text b)" by (auto simp: is_ascii_def hex_text_def list_all_iff)
  show "length (hex_text b) = 2 * length b" by (induction b) (simp_all add: hex_text_def)
qed

definition env_ok :: "audit_env \<Rightarrow> bool" where
  "env_ok E \<longleftrightarrow> (\<forall>k m. length (ae_hmac E k m) = 32) \<and> is_control_identifier (kp_active (ae_provider E))"

text \<open>The JSON reader reads a line that was written as the record that was written.\<close>

definition line_reads_back :: "audit_env \<Rightarrow> dict \<Rightarrow> bool" where
  "line_reads_back E r \<longleftrightarrow> ae_loads E (record_line r) = Inr (PDict (dict_copy r))"

lemma kept_add:
  assumes "standing E l gs" "segment_for_append (int (length (record_line r))) l = (Inr seg, l3)" "well_kept E (al_max_record l) r"
  shows "kept_segments E l (add_record seg r gs)" "sorted_wrt (<) (map fst (add_record seg r gs))"
    "\<forall>k \<in> fst ` set (add_record seg r gs). 1 \<le> k"
proof -
  have s: "limits_ok l" "kept_segments E l gs" "sorted_wrt (<) (map fst gs)" "\<forall>k \<in> fst ` set gs. 1 \<le> k"
    using assms(1) by (simp_all add: standing_def)
  note c = segment_for_append_cases [OF assms(1,2), of r]
  obtain b where b: "record_line r = b @ [CHR 0x0A]" "int (length b) < al_max_record l" using assms(3) by (rule well_keptE)
  have "kept_segments E l (add_record seg r gs) \<and> sorted_wrt (<) (map fst (add_record seg r gs)) \<and> (\<forall>k \<in> fst ` set (add_record seg r gs). 1 \<le> k)"
  proof (cases gs rule: rev_exhaust)
    case Nil
    then show ?thesis using c b assms(3) s(1) by (auto simp: add_record_def kept_segments_def limits_ok_def)
  next
    case (snoc hs g)
    then show ?thesis using c b assms(3) s
      by (cases g) (auto simp: add_record_def kept_segments_def limits_ok_def sorted_wrt_append)
  qed
  then show "kept_segments E l (add_record seg r gs)" "sorted_wrt (<) (map fst (add_record seg r gs))"
    "\<forall>k \<in> fst ` set (add_record seg r gs). 1 \<le> k" by simp_all
qed

lemma standing_add:
  assumes "standing E l gs" "segment_for_append (int (length (record_line r))) l = (Inr seg, l3)"
    and "well_kept E (al_max_record l) r" "verified E (head_hash l) (log_sequence E l + 1) r"
  shows "standing E (log_of l (add_record seg r gs)) (add_record seg r gs)"
proof -
  have s: "limits_ok l" "anchor_ok E l" "0 \<le> al_anchor_sequence l"
      "chain E (al_anchor_hash l) (al_anchor_sequence l) (all_records gs)"
    using assms(1) by (simp_all add: standing_def)
  have "chain E (al_anchor_hash l) (al_anchor_sequence l) (all_records (add_record seg r gs))"
    using s(4) assms(4) standing_head [OF assms(1)] by (simp add: records_add chain_append)
  with s segment_for_append_cases [OF assms(1,2), of r] kept_add [OF assms(1-3)] show ?thesis by (simp add: standing_def)
qed

text \<open>An append that changes anything has signed its record, found it small enough and chosen a segment.\<close>

lemma append_body_cases:
  assumes "append_body E fault body l = (res, l')" "l' \<noteq> l"
  obtains h b seg l3 where "document_mac E ''audit-record'' (kp_active (ae_provider E)) body = Inr h"
    "canonical (PDict (body @ [(lit ''hash'', PStr h)])) = Inr b" "int (length b) < al_max_record l"
    "record_line (body @ [(lit ''hash'', PStr h)]) = b @ [CHR 0x0A]"
    "segment_for_append (int (length (record_line (body @ [(lit ''hash'', PStr h)])))) l = (Inr seg, l3)"
    "bind_res (write_payload fault seg (b @ [CHR 0x0A]) l3) (\<lambda>_ l4. lift_sum (json_copy (PDict (body @ [(lit ''hash'', PStr h)])))
        (l4\<lparr>al_records := al_records l4 @ [body @ [(lit ''hash'', PStr h)]],
            al_ranges := extend_range seg (sequence_of E (body @ [(lit ''hash'', PStr h)])) (al_ranges l4)\<rparr>)) = (res, l')"
proof -
  obtain h b where h: "document_mac E ''audit-record'' (kp_active (ae_provider E)) body = Inr h"
      "canonical (PDict (body @ [(lit ''hash'', PStr h)])) = Inr b" "int (length (b @ [CHR 0x0A])) \<le> al_max_record l"
    using assms by (auto simp: append_body_def Let_def bind_res_def lift_sum_def split: sum.splits if_splits)
  define r where "r = body @ [(lit ''hash'', PStr h)]"
  have line: "record_line r = b @ [CHR 0x0A]" using h(2) by (simp add: record_line_def r_def)
  obtain seg l3 where seg: "segment_for_append (int (length (record_line r))) l = (Inr seg, l3)"
  proof (cases "segment_for_append (int (length (record_line r))) l")
    case (Pair res3 l3)
    show thesis
    proof (cases res3)
      case (Inl e)
      with Pair have "l3 = l" by (auto simp: segment_for_append_def Let_def split: option.splits if_splits)
      with assms h line Pair Inl show thesis by (simp add: append_body_def Let_def lift_sum_def r_def)
    qed (use Pair that in simp)
  qed
  show thesis
  proof (rule that [OF h(1,2)])
    show "bind_res (write_payload fault seg (b @ [CHR 0x0A]) l3) (\<lambda>_ l4. lift_sum (json_copy (PDict (body @ [(lit ''hash'', PStr h)])))
        (l4\<lparr>al_records := al_records l4 @ [body @ [(lit ''hash'', PStr h)]],
            al_ranges := extend_range seg (sequence_of E (body @ [(lit ''hash'', PStr h)])) (al_ranges l4)\<rparr>)) = (res, l')"
      using assms(1) h seg line by (simp add: append_body_def Let_def lift_sum_def r_def)
  qed (use h(3) line seg in \<open>simp_all add: r_def\<close>)
qed

lemma signed_kept:
  assumes "env_ok E" "lit ''hash'' \<notin> fst ` set body" "plain_floats (PDict body)" "dict_get body ''sequence'' = PInt i"
    and "document_mac E ''audit-record'' kid body = Inr h" "canonical (PDict (body @ [(lit ''hash'', PStr h)])) = Inr b"
    and "int (length b) < mr" "line_reads_back E (body @ [(lit ''hash'', PStr h)])"
  shows "well_kept E mr (body @ [(lit ''hash'', PStr h)])"
proof -
  have "is_ascii h" using assms(5) by (auto simp: document_mac_def bind_sum_Inr hex_text_plain)
  moreover have "CHR 0x0A \<notin> set b" using canonical_no_lf [OF _ assms(6)] assms(3) by simp
  moreover have "record_line (body @ [(lit ''hash'', PStr h)]) = b @ [CHR 0x0A]" using assms(6) by (simp add: record_line_def)
  ultimately show ?thesis
    unfolding well_kept_def using assms(2,4,6-8) by (auto simp: line_reads_back_def dict_get_append)
qed

lemma append_body_standing:
  assumes "append_body E Complete body l = (res, l')" "l' \<noteq> l" "standing E l gs" "env_ok E"
    and "lit ''hash'' \<notin> fst ` set body" "plain_floats (PDict body)" "dict_get body ''key_id'' = PStr (kp_active (ae_provider E))"
    and "dict_get body ''previous_hash'' = PStr (head_hash l)" "dict_get body ''sequence'' = PInt (log_sequence E l + 1)"
    and "\<forall>h. document_mac E ''audit-record'' (kp_active (ae_provider E)) body = Inr h \<longrightarrow> line_reads_back E (body @ [(lit ''hash'', PStr h)])"
  shows "\<exists>hs h. standing E l' hs \<and> l' = log_of l hs \<and> all_records hs = all_records gs @ [body @ [(lit ''hash'', PStr h)]] \<and> (\<exists>v. res = Inr v)"
proof -
  from assms(1,2) obtain h b seg l3 where h: "document_mac E ''audit-record'' (kp_active (ae_provider E)) body = Inr h"
      "canonical (PDict (body @ [(lit ''hash'', PStr h)])) = Inr b" "int (length b) < al_max_record l"
      "record_line (body @ [(lit ''hash'', PStr h)]) = b @ [CHR 0x0A]"
    and s: "segment_for_append (int (length (record_line (body @ [(lit ''hash'', PStr h)])))) l = (Inr seg, l3)"
      "bind_res (write_payload Complete seg (b @ [CHR 0x0A]) l3) (\<lambda>_ l4. lift_sum (json_copy (PDict (body @ [(lit ''hash'', PStr h)])))
        (l4\<lparr>al_records := al_records l4 @ [body @ [(lit ''hash'', PStr h)]],
            al_ranges := extend_range seg (sequence_of E (body @ [(lit ''hash'', PStr h)])) (al_ranges l4)\<rparr>)) = (res, l')"
    by (rule append_body_cases)
  define r where "r = body @ [(lit ''hash'', PStr h)]"
  note seg = s(1) [folded r_def] and line = h(4) [folded r_def]
  have "l3 = l\<lparr>al_segments := map fst (add_record seg r gs)\<rparr>" using segment_for_append_cases [OF assms(3) seg, of r] by simp
  moreover note write_record [OF assms(3) seg line]
  moreover have sq: "sequence_of E r = al_anchor_sequence l + int (length (all_records gs)) + 1"
    using assms(9) standing_head(2) [OF assms(3)] by (simp add: r_def sequence_of_def dict_get_append)
  ultimately have l': "l' = log_of l (add_record seg r gs)" "res = json_copy (PDict r)"
    using s(2) standing_fields [OF assms(3)] by (auto simp: lift_sum_def r_def log_of_def records_add)
  have v: "verified E (head_hash l) (log_sequence E l + 1) r"
    unfolding r_def by (rule verifiedI [OF assms(5,7) _ h(1) assms(8)]) (use assms(4,9) in \<open>simp_all add: env_ok_def\<close>)
  have "line_reads_back E r" using assms(10) h(1) by (simp add: r_def)
  then have "well_kept E (al_max_record l) r" unfolding r_def by (rule signed_kept [OF assms(4-6,9) h(1-3)])
  note standing_add [OF assms(3) seg this v]
  moreover have "json_copy (PDict r) = Inr (PDict (dict_copy r))"
    using h(2) by (simp add: json_copy_def r_def json_copy_dict del: json_sorted.simps json_norm.simps)
  ultimately show ?thesis using l' by (auto simp: records_add r_def)
qed

end
