(* ===== verification/Audit_Runs.thy ===== *)
theory Audit_Runs
  imports Audit_Chain
begin

text \<open>
  Runs of an audit log: appends, prunes that finish or stop half-way, and restarts, as a step relation,
  and the invariant \<open>standing\<close> that every step keeps. What a restart makes of the directory of a log
  in order and of one whose pruning was interrupted.
\<close>

section \<open>Appends\<close>

lemma record_body_fields:
  fixes E stamp tn a ac oc ds l
  defines "body \<equiv> record_body E stamp tn a ac oc ds l"
  shows "lit ''hash'' \<notin> fst ` set body" "dict_get body ''key_id'' = PStr (kp_active (ae_provider E))"
    "dict_get body ''previous_hash'' = PStr (head_hash l)" "dict_get body ''sequence'' = PInt (log_sequence E l + 1)"
    "plain_floats (PDict body) \<longleftrightarrow> 10 \<notin> set stamp \<and> plain_floats ds"
  by (auto simp: body_def record_body_def dict_get_def lit_inj split: option.splits) (cases tn; simp)+

definition appended_record :: "audit_env \<Rightarrow> pystr \<Rightarrow> pyval \<Rightarrow> pyval \<Rightarrow> pyval \<Rightarrow> pyval option \<Rightarrow> dict \<Rightarrow> audit_log \<Rightarrow> dict" where
  "appended_record E stamp actor action outcome tenant details l =
     (let body = record_body E stamp (map_option text_value tenant) (text_value actor) (text_value action) (text_value outcome)
                   (PDict (dict_copy details)) l
      in body @ [(lit ''hash'', PStr (case document_mac E ''audit-record'' (kp_active (ae_provider E)) body of Inl _ \<Rightarrow> [] | Inr h \<Rightarrow> h))])"

lemma bounded_text_Inr: "bounded_text v f m = Inr s \<Longrightarrow> v = PStr s"
  by (cases v) (auto simp: bounded_text_def split: if_splits option.splits)

lemma append_audit_record:
  assumes "append_audit E fault stamp actor action outcome tenant details l = (res, l')" "l' \<noteq> l"
  shows "append_body E fault (butlast (appended_record E stamp actor action outcome tenant details l)) l = (res, l')"
proof -
  obtain a ac oc tn where v: "bounded_text actor ''audit actor'' 256 = Inr a" "control_identifier action ''audit action'' = Inr ac"
      "control_identifier outcome ''audit outcome'' = Inr oc"
      "(case tenant of None \<Rightarrow> Inr None | Some t \<Rightarrow> bind_sum (control_identifier t ''tenant namespace'') (\<lambda>s. Inr (Some s))) = Inr tn"
      "append_body E fault (record_body E stamp tn a ac oc (PDict (dict_copy details)) l) l = (res, l')"
    using assms by (auto simp: append_audit_def json_copy_def bind_res_def lift_sum_def bind_sum_def json_copy_dict
        simp del: json_sorted.simps json_norm.simps split: sum.splits if_splits)
  have "tn = map_option text_value tenant"
    using v(4) by (cases tenant) (auto simp: bind_sum_Inr control_identifier_Inr)
  with v bounded_text_Inr [OF v(1)] show ?thesis
    by (simp add: appended_record_def Let_def control_identifier_Inr)
qed

lemma appended_record_Inr:
  assumes "append_body E fault (butlast (appended_record E stamp actor action outcome tenant details l)) l = (res, l')" "l' \<noteq> l"
  shows "\<exists>h. document_mac E ''audit-record'' (kp_active (ae_provider E)) (butlast (appended_record E stamp actor action outcome tenant details l)) = Inr h
    \<and> appended_record E stamp actor action outcome tenant details l
        = butlast (appended_record E stamp actor action outcome tenant details l) @ [(lit ''hash'', PStr h)]"
proof -
  from assms obtain h where "document_mac E ''audit-record'' (kp_active (ae_provider E)) (butlast (appended_record E stamp actor action outcome tenant details l)) = Inr h"
    by (rule append_body_cases)
  then show ?thesis by (simp add: appended_record_def Let_def)
qed

text \<open>The fields of the record that an append would write.\<close>

lemma appended_fields:
  fixes E actor action outcome tenant l
  assumes "10 \<notin> set stamp" "plain_floats (PDict details)"
  defines "body \<equiv> butlast (appended_record E stamp actor action outcome tenant details l)"
  shows "lit ''hash'' \<notin> fst ` set body" "plain_floats (PDict body)" "dict_get body ''key_id'' = PStr (kp_active (ae_provider E))"
    "dict_get body ''previous_hash'' = PStr (head_hash l)" "dict_get body ''sequence'' = PInt (log_sequence E l + 1)"
proof -
  have "plain_floats (PDict (dict_copy details))"
    using assms(2) by (metis json_copy_dict plain_floats_norm plain_floats_sorted)
  moreover have "body = record_body E stamp (map_option text_value tenant) (text_value actor) (text_value action) (text_value outcome)
                   (PDict (dict_copy details)) l"
    by (simp add: body_def appended_record_def Let_def)
  ultimately show "lit ''hash'' \<notin> fst ` set body" "plain_floats (PDict body)" "dict_get body ''key_id'' = PStr (kp_active (ae_provider E))"
    "dict_get body ''previous_hash'' = PStr (head_hash l)" "dict_get body ''sequence'' = PInt (log_sequence E l + 1)"
    using record_body_fields assms(1) by simp_all
qed

lemma append_standing:
  assumes "append_audit E Complete stamp actor action outcome tenant details l = (res, l')" "standing E l gs" "env_ok E"
    and "10 \<notin> set stamp" "plain_floats (PDict details)" "line_reads_back E (appended_record E stamp actor action outcome tenant details l)"
  shows "\<exists>hs. standing E l' hs"
proof (cases "l' = l")
  case False
  note b = append_audit_record [OF assms(1) False]
  note f = appended_fields [OF assms(4,5), of E actor action outcome tenant l]
  have "\<exists>hs h. standing E l' hs \<and> l' = log_of l hs
    \<and> all_records hs = all_records gs @ [butlast (appended_record E stamp actor action outcome tenant details l) @ [(lit ''hash'', PStr h)]] \<and> (\<exists>v. res = Inr v)"
    using appended_record_Inr [OF b False] assms(6) by (intro append_body_standing [OF b False assms(2,3) f]) auto
  then show ?thesis by blast
qed (use assms(2) in blast)

section \<open>Pruning\<close>

lemma spans_above: "\<forall>(k, rs) \<in> set gs. rs \<noteq> [] \<Longrightarrow> (k, a, b) \<in> set (spans n gs) \<Longrightarrow> n < b"
  by (induction n gs rule: spans.induct) fastforce+

lemma filter_spans:
  "\<forall>(k, rs) \<in> set gs. rs \<noteq> [] \<Longrightarrow> \<exists>olds rest. gs = olds @ rest \<and> filter (\<lambda>(k, a, b). b \<le> t) (spans n gs) = spans n olds"
proof (induction gs arbitrary: n)
  case (Cons g gs)
  obtain k rs where g: "g = (k, rs)" by (cases g)
  let ?m = "n + int (length rs)"
  show ?case
  proof (cases "?m \<le> t")
    case True
    obtain olds rest where "gs = olds @ rest" "filter (\<lambda>(k, a, b). b \<le> t) (spans ?m gs) = spans ?m olds"
      using Cons.IH [of ?m] Cons.prems by auto
    with True g show ?thesis by (intro exI [of _ "g # olds"] exI [of _ rest]) simp
  next
    case False
    have "filter (\<lambda>(k, a, b). b \<le> t) (spans ?m gs) = []"
      using spans_above [of gs _ _ _ ?m] Cons.prems False by (fastforce simp: filter_empty_conv)
    with False g show ?thesis by (intro exI [of _ "[]"] exI [of _ "g # gs"]) simp
  qed
qed simp

lemma spans_last:
  assumes "olds \<noteq> []" "\<forall>(k, rs) \<in> set olds. rs \<noteq> []"
  shows "Max ((\<lambda>(k, a, b). b) ` set (spans n olds)) = n + int (length (all_records olds))"
  using assms
proof (induction olds arbitrary: n)
  case (Cons g olds)
  obtain k rs where g: "g = (k, rs)" by (cases g)
  show ?case
  proof (cases "olds = []")
    case False
    then have "spans (n + int (length rs)) olds \<noteq> []" by (metis list.map_disc_iff spans_keys)
    with Cons False show ?thesis by (simp add: g)
  qed (simp add: g)
qed simp

lemma standing_nonempty: "standing E l gs \<Longrightarrow> \<forall>(k, rs) \<in> set gs. rs \<noteq> []"
  by (auto simp: standing_def kept_segments_def)

lemma standing_distinct: "standing E l gs \<Longrightarrow> distinct (map fst gs)"
  by (auto simp: standing_def strict_sorted_iff)

lemma anchor_of_spans:
  assumes "standing E l (olds @ rest)" "olds \<noteq> []"
  shows "anchor_of (map fst olds) l = al_anchor_sequence l + int (length (all_records olds))"
proof -
  let ?n = "al_anchor_sequence l"
  have r: "al_ranges l = spans ?n (olds @ rest)" using standing_fields [OF assms(1)] by simp
  have d: "distinct (map fst (spans ?n (olds @ rest)))" using standing_distinct [OF assms(1)] by simp
  have "map_of (al_ranges l) k = Some (a, b)" if "(k, a, b) \<in> set (spans ?n olds)" for k a b
    unfolding r using that by (intro map_of_is_SomeI [OF d]) (simp add: spans_append)
  then have "map (\<lambda>k. case map_of (al_ranges l) k of Some (a, b) \<Rightarrow> b | None \<Rightarrow> 0) (map fst (spans ?n olds)) = map (\<lambda>(k, a, b). b) (spans ?n olds)"
    by (auto simp del: spans_keys)
  then show ?thesis using spans_last [OF assms(2), of ?n] standing_nonempty [OF assms(1)]
    by (simp add: anchor_of_def)
qed

lemma find_sequence:
  assumes "chain E h n rs" "0 < m" "m \<le> length rs"
  shows "find (\<lambda>r. sequence_of E r = n + int m) rs = Some (rs ! (m - 1))"
proof -
  have "find (\<lambda>r. sequence_of E r = n + int m) rs = Some (rs ! (m - 1)) \<longleftrightarrow>
      (\<exists>i < length rs. sequence_of E (rs ! i) = n + int m \<and> rs ! (m - 1) = rs ! i \<and> (\<forall>j < i. sequence_of E (rs ! j) \<noteq> n + int m))"
    by (auto simp: find_Some_iff)
  then show ?thesis using assms chain_sequences [OF assms(1)] by (auto intro!: exI [of _ "m - 1"])
qed

text \<open>How many of the segments are unlinked.\<close>

definition unlinked :: "nat option \<Rightarrow> nat \<Rightarrow> nat" where
  "unlinked fault n = (case fault of None \<Rightarrow> n | Some j \<Rightarrow> min j n)"

lemma unlink_effect:
  fixes fault :: "nat option" and c :: int
  assumes "distinct (map fst (olds @ rest))" "al_files l = layout (olds @ rest)" "al_ranges l = spans n (olds @ rest)"
  defines "m \<equiv> unlinked fault (length olds)"
  shows "snd (unlink_segments fault (map fst olds) c l) =
      l\<lparr>al_files := layout (drop m olds @ rest), al_ranges := spans (n + int (length (all_records (take m olds)))) (drop m olds @ rest)\<rparr>
    \<and> (fst (unlink_segments fault (map fst olds) c l) = Inr (c + int (length olds)) \<and> m = length olds
       \<or> fault \<noteq> None \<and> (\<exists>e. fst (unlink_segments fault (map fst olds) c l) = Inl e))"
  unfolding m_def using assms(1-3)
proof (induction olds arbitrary: fault c l n)
  case Nil
  then show ?case by (auto simp: unlinked_def split: option.split)
next
  case (Cons g olds)
  obtain k rs where g: "g = (k, rs)" by (cases g)
  have f: "map_of (al_files l) k = Some (segment_file rs)" using Cons.prems by (simp add: g)
  show ?case
  proof (cases "fault = Some 0")
    case True
    with f Cons.prems show ?thesis by (simp add: g segment_file_def unlinked_def)
  next
    case False
    let ?l = "l\<lparr>al_files := layout (olds @ rest), al_ranges := spans (n + int (length rs)) (olds @ rest)\<rparr>"
    let ?f = "map_option (\<lambda>i. i - 1) fault"
    have d: "AList.delete k (al_files l) = layout (olds @ rest)" "AList.delete k (al_ranges l) = spans (n + int (length rs)) (olds @ rest)"
    proof -
      have "k \<notin> fst ` set (olds @ rest)" using Cons.prems(1) by (auto simp: g)
      then have "AList.delete k (layout (olds @ rest)) = layout (olds @ rest)"
          "AList.delete k (spans (n + int (length rs)) (olds @ rest)) = spans (n + int (length rs)) (olds @ rest)"
        by (simp_all only: delete_fresh layout_keys spans_key_set not_False_eq_True)
      then show "AList.delete k (al_files l) = layout (olds @ rest)"
        "AList.delete k (al_ranges l) = spans (n + int (length rs)) (olds @ rest)"
        using Cons.prems(2,3) by (simp_all add: g del: layout_simps(3) spans.simps add: spans.simps)
    qed
    have u: "unlink_segments fault (map fst (g # olds)) c l = unlink_segments ?f (map fst olds) (c + 1) ?l"
      using f False d by (simp add: g segment_file_def)
    have m: "unlinked fault (length (g # olds)) = Suc (unlinked ?f (length olds))"
      using False by (cases fault) (auto simp: unlinked_def min_def)
    have p: "distinct (map fst (olds @ rest))" "al_files ?l = layout (olds @ rest)" "al_ranges ?l = spans (n + int (length rs)) (olds @ rest)"
      using Cons.prems by (simp_all add: g)
    show ?thesis unfolding u m using Cons.IH [OF p, of ?f "c + 1"] by (simp add: g algebra_simps)
  qed
qed

definition signed_anchor :: "audit_env \<Rightarrow> int \<Rightarrow> pystr \<Rightarrow> dict" where
  "signed_anchor E n h =
     (case document_mac E ''audit-anchor'' (kp_active (ae_provider E)) (anchor_document E n h) of
        Inl _ \<Rightarrow> [] | Inr s \<Rightarrow> anchor_document E n h @ [(lit ''signature'', PStr s)])"

definition anchor_reads_back :: "audit_env \<Rightarrow> int \<Rightarrow> pystr \<Rightarrow> bool" where
  "anchor_reads_back E n h \<longleftrightarrow>
     (\<forall>t. json_dumps (json_sorted (PDict (signed_anchor E n h))) = Some t
        \<longrightarrow> ae_load_text E t = Some (PDict (dict_copy (signed_anchor E n h))))"

lemma anchor_document_fields:
  "dict_get (anchor_document E n h) ''key_id'' = PStr (kp_active (ae_provider E))" "dict_get (anchor_document E n h) ''sequence'' = PInt n"
  "dict_get (anchor_document E n h) ''hash'' = PStr h" "dict_get (anchor_document E n h) ''version'' = PInt 1"
  "lit ''signature'' \<notin> fst ` set (anchor_document E n h)"
  "insert (lit ''signature'') (fst ` set (anchor_document E n h)) = anchor_fields"
  by (auto simp: anchor_document_def dict_get_def lit_inj anchor_fields_def)

lemma write_anchor_Inr:
  assumes "write_anchor E replaced n h l = (Inr (), l1)" "env_ok E" "is_hash h" "0 \<le> n" "anchor_reads_back E n h"
  shows "anchor_ok E l1 \<and> (\<exists>f. l1 = l\<lparr>al_anchor_file := Some f, al_anchor_sequence := n, al_anchor_hash := h\<rparr>)"
proof -
  let ?d = "anchor_document E n h"
  obtain s b where s: "document_mac E ''audit-anchor'' (kp_active (ae_provider E)) ?d = Inr s"
      "canonical (PDict (?d @ [(lit ''signature'', PStr s)])) = Inr b" "int (length b) \<le> al_max_record l"
      "l1 = l\<lparr>al_anchor_file := Some \<lparr>af_bytes = b, af_regular = True, af_private = True\<rparr>, al_anchor_sequence := n, al_anchor_hash := h\<rparr>"
    using assms(1) by (auto simp: write_anchor_def Let_def bind_res_Inr lift_sum_Inr split: if_splits)
  have sd: "signed_anchor E n h = ?d @ [(lit ''signature'', PStr s)]" using s(1) by (simp add: signed_anchor_def)
  let ?c = "dict_copy (?d @ [(lit ''signature'', PStr s)])"
  obtain t where t: "json_dumps (json_sorted (PDict (?d @ [(lit ''signature'', PStr s)]))) = Some t" "encode_utf8 t = Some b"
    using s(2) by (auto simp: canonical_def simp del: json_sorted.simps all_finite.simps split: option.splits if_splits)
  then have "read_json_file E ''audit anchor'' (al_max_record l) \<lparr>af_bytes = b, af_regular = True, af_private = True\<rparr> = Inr ?c"
    using s(3) assms(5) decode_encode_utf8 [OF t(2)] by (simp add: read_json_file_def anchor_reads_back_def sd del: json_sorted.simps)
  moreover have "fst ` set ?c = anchor_fields" by (simp add: keys_copy anchor_document_fields(6))
  moreover have "AList.delete (lit ''signature'') ?c = dict_copy ?d" by (simp add: delete_copy delete_added anchor_document_fields(5))
  moreover have "dict_get ?c ''signature'' = PStr s" by (simp add: dict_get_copy dict_get_append anchor_document_fields(5))
  moreover have "is_ascii s" using s(1) by (auto simp: document_mac_def bind_sum_Inr hex_text_plain)
  ultimately show ?thesis
    using s(1,4) assms(2-4) by (simp add: anchor_ok_def verify_anchor_def Let_def dict_get_copy anchor_document_fields mac_copy
        control_identifier_def env_ok_def check_digest_def) blast
qed

lemma write_anchor_shape:
  "write_anchor E replaced n h l = (Inr (), l1) \<Longrightarrow> \<exists>f. l1 = l\<lparr>al_anchor_file := Some f, al_anchor_sequence := n, al_anchor_hash := h\<rparr>"
  by (auto simp: write_anchor_def Let_def bind_res_Inr lift_sum_Inr split: if_splits)

lemma write_anchor_Inl: "write_anchor E replaced n h l = (Inl e, l1) \<Longrightarrow> l1 = l"
  by (auto simp: write_anchor_def Let_def bind_res_def lift_sum_def split: sum.splits if_splits)

lemma hex_text_digits:
  assumes "c \<in> set (hex_text b)"
  shows "48 \<le> c \<and> c \<le> 57 \<or> 97 \<le> c \<and> c \<le> 102"
proof -
  obtain x :: char and d where "c = hex_digit d" "d = of_char x div 16 \<or> d = of_char x mod 16"
    using assms by (auto simp: hex_text_def)
  moreover have "of_char x div 16 < (16 :: nat)"
    using nat_of_char_less_256 [of x] by (simp add: less_mult_imp_div_less)
  ultimately have "c = hex_digit d" "d < 16" by auto
  then show ?thesis by (auto simp: hex_digit_def)
qed

lemma hash_of_verified: "verified E prev n r \<Longrightarrow> env_ok E \<Longrightarrow> is_hash (hash_of r)"
proof -
  assume v: "verified E prev n r" and e: "env_ok E"
  from v obtain b where b: "hash_of r = hex_text b" "length b = 32"
    using e by (auto simp: verified_def hash_of_added document_mac_def bind_sum_Inr env_ok_def)
  have "c \<in> set (hex_text b) \<Longrightarrow> 48 \<le> c \<and> c \<le> 57 \<or> 97 \<le> c \<and> c \<le> 102" for c
    using hex_text_digits by blast
  with b show ?thesis by (auto simp: is_hash_def list_all_iff hex_text_plain)
qed

text \<open>
  What a call of \<open>prune_exported\<close> does to a log in order: nothing, or it moves the anchor to the end of
  a prefix \<open>olds\<close> of the segments and unlinks segments of that prefix, all of them if it returns.
\<close>

definition moved_anchor :: "audit_file option \<Rightarrow> segments \<Rightarrow> audit_log \<Rightarrow> audit_log" where
  "moved_anchor f olds l =
     l\<lparr>al_anchor_file := f, al_anchor_sequence := al_anchor_sequence l + int (length (all_records olds)),
       al_anchor_hash := hash_of (last (all_records olds))\<rparr>"

lemma eligible_prefix:
  assumes "standing E l gs"
  obtains olds rest where "gs = olds @ rest" "eligible t l = map fst olds"
proof -
  obtain olds rest where "gs = olds @ rest" "filter (\<lambda>(k, a, b). b \<le> t) (spans (al_anchor_sequence l) gs) = spans (al_anchor_sequence l) olds"
    using filter_spans [OF standing_nonempty [OF assms]] by blast
  with that show thesis using standing_fields [OF assms] by (simp add: eligible_def)
qed

lemma prefix_record:
  assumes "standing E l (olds @ rest)" "olds \<noteq> []" "env_ok E"
  shows "find (\<lambda>r. sequence_of E r = al_anchor_sequence l + int (length (all_records olds))) (al_records l) = Some (last (all_records olds))"
    "all_records olds \<noteq> []" "is_hash (hash_of (last (all_records olds)))"
proof -
  have c: "chain E (al_anchor_hash l) (al_anchor_sequence l) (all_records olds @ all_records rest)"
    using assms(1) by (simp add: standing_def)
  obtain k rs os where "olds = (k, rs) # os" using assms(2) by (metis list.exhaust prod.exhaust)
  with standing_nonempty [OF assms(1)] show ne: "all_records olds \<noteq> []" by auto
  show "find (\<lambda>r. sequence_of E r = al_anchor_sequence l + int (length (all_records olds))) (al_records l) = Some (last (all_records olds))"
    using find_sequence [OF c, of "length (all_records olds)"] ne standing_fields(1) [OF assms(1)]
    by (simp add: nth_append last_conv_nth)
  have "chain E (al_anchor_hash l) (al_anchor_sequence l) (butlast (all_records olds) @ [last (all_records olds)])"
    using c ne by (simp add: chain_append)
  with assms(3) show "is_hash (hash_of (last (all_records olds)))" by (auto simp: chain_append intro: hash_of_verified)
qed

lemma filter_later:
  assumes "standing E l (olds @ rest)"
  shows "filter (\<lambda>r. sequence_of E r > al_anchor_sequence l + int (length (all_records olds))) (al_records l) = all_records rest"
    "filter (\<lambda>s. s \<notin> set (map fst olds)) (al_segments l) = map fst rest"
proof -
  let ?n = "al_anchor_sequence l + int (length (all_records olds))"
  have c: "chain E (al_anchor_hash l) (al_anchor_sequence l) (all_records olds)"
      "chain E (chain_end (al_anchor_hash l) (all_records olds)) ?n (all_records rest)"
    using assms by (auto simp: standing_def chain_append)
  have "filter (\<lambda>r. sequence_of E r > ?n) (all_records olds) = []"
    using chain_sequence_range [OF c(1)] by (fastforce simp: filter_empty_conv)
  moreover have "filter (\<lambda>r. sequence_of E r > ?n) (all_records rest) = all_records rest"
    using chain_sequence_range [OF c(2)] by (fastforce simp: filter_id_conv)
  ultimately show "filter (\<lambda>r. sequence_of E r > ?n) (al_records l) = all_records rest"
    using standing_fields(1) [OF assms] by simp
  have "filter (\<lambda>s. s \<notin> set (map fst olds)) (map fst rest) = map fst rest"
    using standing_distinct [OF assms] by (auto simp: filter_id_conv)
  then show "filter (\<lambda>s. s \<notin> set (map fst olds)) (al_segments l) = map fst rest"
    using standing_fields(2) [OF assms] by (simp add: filter_empty_conv)
qed

lemma prune_begin_cases:
  assumes "prune_begin E replaced through expected l = (res, l1)" "standing E l gs" "env_ok E"
    and "anchor_reads_back E (al_anchor_sequence l1) (al_anchor_hash l1)"
  obtains "l1 = l" "\<forall>ns. res = Inr ns \<longrightarrow> ns = []"
  | olds rest f where "gs = olds @ rest" "olds \<noteq> []" "res = Inr (map fst olds)" "l1 = moved_anchor f olds l" "anchor_ok E l1"
proof (cases "l1 = l \<and> (\<forall>ns. res = Inr ns \<longrightarrow> ns = [])")
  case False
  then obtain t where t: "through = PInt t"
    using assms(1) by (cases through) (auto simp: prune_begin_def control_integer_def lift_sum_def)
  obtain olds rest where gs: "gs = olds @ rest" "eligible t l = map fst olds"
    using assms(2) by (rule eligible_prefix)
  note st = assms(2) [unfolded gs(1)]
  let ?n = "al_anchor_sequence l + int (length (all_records olds))" and ?h = "hash_of (last (all_records olds))"
  have ne: "olds \<noteq> []"
    using assms(1) False gs(2) t by (auto simp: prune_begin_def control_integer_def lift_sum_def Let_def
        split: if_splits pyval.splits option.splits)
  have sorted: "sort (map fst olds) = map fst olds"
    using st by (auto simp: standing_def sorted_wrt_append strict_sorted_iff sorted_sort_id)
  have "bind_res (write_anchor E replaced ?n ?h l) (\<lambda>_ l1. (Inr (map fst olds), l1)) = (res, l1)"
    using assms(1) False gs(2) t ne sorted prefix_record(1) [OF st ne assms(3)] anchor_of_spans [OF st ne]
    by (auto simp: prune_begin_def control_integer_def lift_sum_def Let_def split: if_splits pyval.splits option.splits)
  then have w: "write_anchor E replaced ?n ?h l = (Inr (), l1)" "res = Inr (map fst olds)"
    using False write_anchor_Inl by (cases "write_anchor E replaced ?n ?h l", auto simp: bind_res_def split: sum.splits)+
  obtain f where f: "l1 = moved_anchor (Some f) olds l"
    using write_anchor_shape [OF w(1)] by (auto simp: moved_anchor_def)
  have "0 \<le> ?n" using st by (simp add: standing_def)
  then have "anchor_ok E l1"
    using write_anchor_Inr [OF w(1) assms(3) prefix_record(3) [OF st ne assms(3)]] assms(4) by (simp add: f moved_anchor_def)
  with that(2) [OF gs(1) ne w(2) f] show thesis .
qed (use that(1) in blast)

text \<open>The loop leaves the segments it did not reach.\<close>

lemma unlink_moved:
  fixes fault :: "nat option"
  assumes "standing E l (olds @ rest)" "unlink_segments fault (map fst olds) 0 (moved_anchor f olds l) = (res, l2)"
  shows "al_files l2 = layout (drop (unlinked fault (length olds)) olds @ rest)" "al_anchor_file l2 = f"
    "\<forall>v. res = Inr v \<longrightarrow> l2\<lparr>al_segments := filter (\<lambda>s. s \<notin> set (map fst olds)) (al_segments l2),
           al_records := filter (\<lambda>r. sequence_of E r > al_anchor_sequence l2) (al_records l2)\<rparr> = log_of (moved_anchor f olds l) rest"
    "fault = None \<longrightarrow> (\<exists>v. res = Inr v)" "(\<exists>v. res = Inr v) \<longrightarrow> unlinked fault (length olds) = length olds"
proof -
  let ?m = "unlinked fault (length olds)" and ?l = "moved_anchor f olds l"
  have d: "distinct (map fst (olds @ rest))" using standing_distinct [OF assms(1)] .
  have "al_files ?l = layout (olds @ rest)" "al_ranges ?l = spans (al_anchor_sequence l) (olds @ rest)"
    using standing_fields [OF assms(1)] by (simp_all add: moved_anchor_def)
  note u = unlink_effect [OF d this, of fault 0, unfolded assms(2) fst_conv snd_conv]
  then show "al_files l2 = layout (drop ?m olds @ rest)" "al_anchor_file l2 = f" "fault = None \<longrightarrow> (\<exists>v. res = Inr v)"
      "(\<exists>v. res = Inr v) \<longrightarrow> unlinked fault (length olds) = length olds"
    by (auto simp: moved_anchor_def)
  show "\<forall>v. res = Inr v \<longrightarrow> l2\<lparr>al_segments := filter (\<lambda>s. s \<notin> set (map fst olds)) (al_segments l2),
           al_records := filter (\<lambda>r. sequence_of E r > al_anchor_sequence l2) (al_records l2)\<rparr> = log_of ?l rest"
    using u filter_later [OF assms(1)] by (auto simp: moved_anchor_def log_of_def)
qed

lemma standing_moved:
  assumes "standing E l (olds @ rest)" "olds \<noteq> []" "anchor_ok E (moved_anchor f olds l)" "env_ok E"
  shows "standing E (log_of (moved_anchor f olds l) rest) rest"
proof -
  have "all_records olds \<noteq> []" using prefix_record(2) [OF assms(1,2,4)] .
  then show ?thesis using assms(1,3)
    by (simp add: standing_def moved_anchor_def limits_ok_def chain_append chain_end_def sorted_wrt_append)
qed

section \<open>Runs of a log\<close>

definition reopen_audit :: "audit_env \<Rightarrow> audit_log \<Rightarrow> unit ares" where
  "reopen_audit E l =
     open_audit E (PInt (al_segment_bytes l)) (PInt (al_max_segments l)) (PInt (al_max_record l)) (al_files l) (al_anchor_file l)"

definition eight_digits :: "audit_log \<Rightarrow> bool" where
  "eight_digits l \<longleftrightarrow> (\<forall>k \<in> set (al_segments l). k < 10 ^ 8)"

text \<open>
  Appends whose writes complete, prunes that run to their end, prunes that stop in the middle with a
  restart after them, and restarts. The JSON reader reads back what was written, and no segment
  number has outgrown the eight digits of a file name.
\<close>

inductive audit_step :: "audit_env \<Rightarrow> audit_log \<Rightarrow> audit_log \<Rightarrow> bool" for E where
  append: "append_audit E Complete stamp actor action outcome tenant details l = (res, l') \<Longrightarrow> 10 \<notin> set stamp
    \<Longrightarrow> plain_floats (PDict details) \<Longrightarrow> line_reads_back E (appended_record E stamp actor action outcome tenant details l) \<Longrightarrow> audit_step E l l'"
| prune: "prune_exported E replaced None through expected l = (res, l') \<Longrightarrow> anchor_reads_back E (al_anchor_sequence l') (al_anchor_hash l')
    \<Longrightarrow> audit_step E l l'"
| crash: "prune_exported E replaced fault through expected l = (res, lc) \<Longrightarrow> anchor_reads_back E (al_anchor_sequence lc) (al_anchor_hash lc)
    \<Longrightarrow> eight_digits l \<Longrightarrow> reopen_audit E lc = (Inr (), l') \<Longrightarrow> audit_step E l l'"
| reopen: "eight_digits l \<Longrightarrow> reopen_audit E l = (Inr (), l') \<Longrightarrow> audit_step E l l'"

text \<open>Two logs that differ at most in the order of keys inside their records.\<close>

definition same_log :: "audit_env \<Rightarrow> audit_log \<Rightarrow> audit_log \<Rightarrow> bool" where
  "same_log E l l' \<longleftrightarrow> l'\<lparr>al_records := []\<rparr> = l\<lparr>al_records := []\<rparr>
     \<and> map (\<lambda>r. canonical (PDict r)) (al_records l') = map (\<lambda>r. canonical (PDict r)) (al_records l)
     \<and> head_hash l' = head_hash l \<and> log_sequence E l' = log_sequence E l"

lemma kept_records: "kept_segments E l gs \<Longrightarrow> \<forall>r \<in> set (all_records gs). well_kept E (al_max_record l) r"
  by (auto simp: kept_segments_def all_records_def)

lemma chain_reloaded:
  "\<forall>r \<in> set rs. well_kept E mr r \<Longrightarrow> chain E prev n rs \<Longrightarrow> chain E prev n (map reloaded rs)"
proof (induction rs arbitrary: prev n)
  case (Cons r rs)
  then have "verified E prev (n + 1) (reloaded r) \<and> hash_of (reloaded r) = hash_of r"
    using verified_reloaded [of E mr r prev "n + 1"] by simp
  with Cons show ?case by simp
qed simp

lemma kept_reloaded:
  assumes "kept_segments E l gs"
  shows "kept_segments E l (on_values (map reloaded) gs)"
  unfolding kept_segments_def
proof (intro ballI, clarify)
  fix j qs
  assume "(j, qs) \<in> set (on_values (map reloaded) gs)"
  then obtain rs where rs: "(j, rs) \<in> set gs" "qs = map reloaded rs" by (auto simp: on_values_def)
  with assms have k: "rs \<noteq> []" "int (length (concat (map record_line rs))) \<le> al_segment_bytes l + al_max_record l"
      "\<forall>r \<in> set rs. well_kept E (al_max_record l) r"
    by (auto simp: kept_segments_def)
  have "map record_line qs = map record_line rs" and "\<forall>r \<in> set qs. well_kept E (al_max_record l) r" and "qs \<noteq> []"
    using k(1,3) well_kept_reloaded rs(2) by auto
  with k(2) show "qs \<noteq> [] \<and> int (length (concat (map record_line qs))) \<le> al_segment_bytes l + al_max_record l
      \<and> (\<forall>r \<in> set qs. well_kept E (al_max_record l) r)" by (simp only: simp_thms)
qed

lemma standing_reloaded:
  assumes "standing E l gs"
  shows "standing E (log_of l (on_values (map reloaded) gs)) (on_values (map reloaded) gs)"
proof -
  have s: "limits_ok l" "anchor_ok E l" "0 \<le> al_anchor_sequence l" "kept_segments E l gs" "sorted_wrt (<) (map fst gs)"
      "chain E (al_anchor_hash l) (al_anchor_sequence l) (all_records gs)" "\<forall>k \<in> fst ` set gs. 1 \<le> k" "int (length gs) \<le> al_max_segments l"
    using assms by (simp_all add: standing_def)
  with kept_reloaded [OF s(4)] chain_reloaded [OF kept_records [OF s(4)] s(6)] show ?thesis
    unfolding standing_def by (simp only: log_of_frame log_of_log_of anchor_ok_log_of records_reloaded keys_on_values on_values_shape)
qed

lemma same_reloaded:
  assumes "standing E l gs"
  shows "same_log E l (log_of l (on_values (map reloaded) gs))"
proof -
  have s: "log_of l gs = l" "kept_segments E l gs" using assms by (simp_all add: standing_def)
  have w: "\<forall>r \<in> set (all_records gs). well_kept E (al_max_record l) r" using kept_records [OF s(2)] .
  let ?hs = "on_values (map reloaded) gs"
  have "(log_of l ?hs)\<lparr>al_records := []\<rparr> = (log_of l gs)\<lparr>al_records := []\<rparr>"
    using layout_reloaded [OF s(2)] by (simp add: log_of_def spans_reloaded)
  moreover have "map (\<lambda>r. canonical (PDict r)) (all_records ?hs) = map (\<lambda>r. canonical (PDict r)) (all_records gs)"
    using w canonical_reloaded(1) by (auto simp: records_reloaded)
  moreover have "head_hash (log_of l ?hs) = head_hash l"
    using standing_fields(1) [OF assms] by (simp add: head_hash_def records_reloaded last_map reloaded_def)
  moreover have "log_sequence E (log_of l ?hs) = log_sequence E l"
    using standing_head(2) [OF assms] standing_head(2) [OF standing_reloaded [OF assms]] by (simp add: records_reloaded)
  ultimately show ?thesis unfolding same_log_def using s(1) standing_fields(1) [OF assms] by simp
qed

lemma unlink_limits:
  "al_segment_bytes (snd (unlink_segments fault ns c l)) = al_segment_bytes l \<and> al_max_segments (snd (unlink_segments fault ns c l)) = al_max_segments l
   \<and> al_max_record (snd (unlink_segments fault ns c l)) = al_max_record l \<and> al_anchor_sequence (snd (unlink_segments fault ns c l)) = al_anchor_sequence l
   \<and> al_anchor_hash (snd (unlink_segments fault ns c l)) = al_anchor_hash l"
  by (induction fault ns c l rule: unlink_segments.induct) (auto split: option.splits)

text \<open>Restarting on the directory of a log in order, or on one whose pruning had been interrupted.\<close>

lemma reopen_standing:
  assumes "standing E l gs" "eight_digits l"
  shows "reopen_audit E l = (Inr (), log_of l (on_values (map reloaded) gs))"
proof -
  have "\<forall>k \<in> fst ` set gs. 0 \<le> k \<and> k < 10 ^ 8"
    using assms standing_fields(2) [OF assms(1)] by (fastforce simp: standing_def eight_digits_def)
  then show ?thesis
    using open_layout [of l E "[]" gs] assms(1) standing_fields(4) [OF assms(1)] by (simp add: standing_def reopen_audit_def)
qed

lemma reopen_interrupted:
  assumes "standing E l (olds @ rest)" "olds \<noteq> []" "anchor_ok E (moved_anchor f olds l)" "env_ok E" "eight_digits l"
    and "unlink_segments fault (map fst olds) 0 (moved_anchor f olds l) = (res, l2)"
  shows "reopen_audit E l2 = (Inr (), log_of (moved_anchor f olds l) (on_values (map reloaded) rest))"
proof -
  let ?l = "moved_anchor f olds l" and ?m = "unlinked fault (length olds)"
  have s: "limits_ok l" "kept_segments E l (olds @ rest)" "sorted_wrt (<) (map fst (olds @ rest))"
      "chain E (al_anchor_hash l) (al_anchor_sequence l) (all_records olds @ all_records rest)"
      "\<forall>k \<in> fst ` set (olds @ rest). 1 \<le> k" "int (length (olds @ rest)) \<le> al_max_segments l" "0 \<le> al_anchor_sequence l"
    using assms(1) by (simp_all add: standing_def)
  have m: "set (drop ?m olds) \<subseteq> set olds" by (rule set_drop_subset)
  have "sorted_wrt (<) (map fst (drop ?m olds))"
    using s(3) by (metis drop_map map_append sorted_wrt_append sorted_wrt_drop)
  then have 1: "sorted_wrt (<) (map fst (drop ?m olds @ rest))" using s(3) m by (auto simp: sorted_wrt_append)
  have 2: "kept_segments E ?l (drop ?m olds @ rest)" using s(2) m by (auto simp: kept_segments_def moved_anchor_def)
  have 3: "\<forall>k \<in> fst ` set (drop ?m olds @ rest). 0 \<le> k \<and> k < 10 ^ 8"
  proof -
    have "0 \<le> k \<and> k < 10 ^ 8" if k: "k \<in> fst ` set (olds @ rest)" for k
    proof -
      have "k \<in> set (al_segments l)" using k standing_fields(2) [OF assms(1)] by (simp only: set_map)
      moreover have "1 \<le> k" using s(5) k by (rule bspec)
      ultimately show ?thesis using assms(5) by (simp add: eight_digits_def)
    qed
    with m show ?thesis by auto
  qed
  have 4: "chain E (al_anchor_hash ?l) (al_anchor_sequence ?l) (all_records rest)"
    using s(4) prefix_record(2) [OF assms(1,2,4)] by (simp add: chain_append chain_end_def moved_anchor_def)
  have "set (all_records (drop ?m olds)) \<subseteq> set (all_records olds)" using m by (auto simp: all_records_def)
  then have 5: "\<forall>r \<in> set (all_records (drop ?m olds)). sequence_of E r \<le> al_anchor_sequence ?l"
    using s(4) chain_sequence_range [of E "al_anchor_hash l" "al_anchor_sequence l" "all_records olds"]
    by (auto simp: chain_append moved_anchor_def)
  have 6: "0 < al_anchor_sequence ?l"
    using prefix_record(2) [OF assms(1,2,4)] s(7) by (simp add: moved_anchor_def add_nonneg_pos)
  have "limits_ok ?l" "int (length (drop ?m olds @ rest)) \<le> al_max_segments ?l"
    using s(1,6) by (auto simp: limits_ok_def moved_anchor_def)
  note open_layout [OF this(1) assms(3) 2 1 3 this(2) 4 5]
  moreover have "al_segment_bytes l2 = al_segment_bytes ?l" "al_max_segments l2 = al_max_segments ?l" "al_max_record l2 = al_max_record ?l"
    using unlink_limits [of fault "map fst olds" 0 ?l] assms(6) by simp_all
  ultimately show ?thesis using 6 unlink_moved(1,2) [OF assms(1,6)] by (simp add: reopen_audit_def) (simp add: moved_anchor_def)
qed

lemma unlink_anchor:
  "unlink_segments fault ns c l = (r, l2) \<Longrightarrow> al_anchor_sequence l2 = al_anchor_sequence l \<and> al_anchor_hash l2 = al_anchor_hash l"
  using unlink_limits [of fault ns c l] by simp

lemma prune_outcome:
  assumes "prune_exported E replaced fault through expected l = (res, l')" "standing E l gs" "env_ok E"
    and "anchor_reads_back E (al_anchor_sequence l') (al_anchor_hash l')"
  obtains b where "l' = l" "prune_begin E replaced through expected l = (b, l)" "\<forall>ns. b = Inr ns \<longrightarrow> ns = []"
  | olds rest f r l2 where "gs = olds @ rest" "olds \<noteq> []" "anchor_ok E (moved_anchor f olds l)"
      "prune_begin E replaced through expected l = (Inr (map fst olds), moved_anchor f olds l)"
      "unlink_segments fault (map fst olds) 0 (moved_anchor f olds l) = (r, l2)" "reopen_audit E l' = reopen_audit E l2"
      "\<forall>v. r = Inr v \<longrightarrow> l' = log_of (moved_anchor f olds l) rest"
proof -
  obtain b l1 where b: "prune_begin E replaced through expected l = (b, l1)" by (metis surj_pair)
  have "al_anchor_sequence l' = al_anchor_sequence l1 \<and> al_anchor_hash l' = al_anchor_hash l1"
    using assms(1) b
    by (cases b) (auto simp: prune_exported_def bind_res_def dest: unlink_anchor split: if_splits sum.splits prod.splits)
  with assms(4) have a: "anchor_reads_back E (al_anchor_sequence l1) (al_anchor_hash l1)" by simp
  from b assms(2,3) a show thesis
  proof (cases rule: prune_begin_cases)
    case 1
    with assms(1) b have "l' = l" by (cases b) (auto simp: prune_exported_def)
    with that(1) b 1 show thesis by blast
  next
    case (2 olds rest f)
    obtain r l2 where u: "unlink_segments fault (map fst olds) 0 (moved_anchor f olds l) = (r, l2)" by (metis surj_pair)
    note st = assms(2) [unfolded 2(1)]
    have l': "l' = (case r of Inl _ \<Rightarrow> l2 | Inr _ \<Rightarrow> log_of (moved_anchor f olds l) rest)"
    proof (cases r)
      case (Inl e)
      with assms(1) b 2 u show ?thesis by (simp add: prune_exported_def)
    next
      case (Inr v)
      with assms(1) b 2(2-4) u unlink_moved(3) [OF st u] show ?thesis by (auto simp: prune_exported_def)
    qed
    have "reopen_audit E l' = reopen_audit E l2"
    proof (cases r)
      case (Inr v)
      have "unlinked fault (length olds) = length olds"
        using unlink_moved(5) [OF st u] Inr by blast
      then show ?thesis using l' Inr unlink_moved(1,2) [OF st u] unlink_limits [of fault "map fst olds" 0 "moved_anchor f olds l"]
        by (simp add: u reopen_audit_def) (simp add: moved_anchor_def)
    qed (use l' in simp)
    with that(2) [OF 2(1,2) _ _ u] 2 b l' show thesis by simp
  qed
qed

lemma step_standing:
  assumes "audit_step E l l'" "standing E l gs" "env_ok E"
  shows "\<exists>hs. standing E l' hs"
  using assms
proof (induction rule: audit_step.induct)
  case (append stamp actor action outcome tenant details l res l')
  then show ?case by (intro append_standing)
next
  case (prune replaced through expected l res l')
  from prune(1,3,4,2) show ?case
  proof (cases rule: prune_outcome)
    case (2 olds rest f r l2)
    with unlink_moved(4) [OF prune(3) [unfolded 2(1)] 2(5)] standing_moved [OF prune(3) [unfolded 2(1)] 2(2,3) prune(4)]
    show ?thesis by auto
  qed (use prune in blast)
next
  case (crash replaced fault through expected l res lc l')
  from crash(1,5,6,2) show ?case
  proof (cases rule: prune_outcome)
    case 1
    with crash show ?thesis using reopen_standing standing_reloaded by fastforce
  next
    case (2 olds rest f r l2)
    note st = crash(5) [unfolded 2(1)]
    have "l' = log_of (moved_anchor f olds l) (on_values (map reloaded) rest)"
      using reopen_interrupted [OF st 2(2,3) crash(6,3) 2(5)] crash(4) 2(6) by simp
    with standing_reloaded [OF standing_moved [OF st 2(2,3) crash(6)]] show ?thesis by auto
  qed
next
  case (reopen l l')
  then show ?case using reopen_standing standing_reloaded by fastforce
qed

lemma control_integer_Inr: "control_integer v f a b = Inr i \<longleftrightarrow> v = PInt i \<and> a \<le> i \<and> i \<le> b"
  by (cases v) (auto simp: control_integer_def)

lemma open_audit_Inr:
  assumes "open_audit E sb ms mr fs an = (Inr (), l)"
  obtains a b c where "sb = PInt a" "ms = PInt b" "mr = PInt c" "a \<in> {1024..int63}" "b \<in> {1..int63}" "c \<in> {512..int63}"
    "bind_res (load_anchor E (empty_log a b c fs an)) (\<lambda>_ l. load_and_verify E l) = (Inr (), l)"
  using assms that by (auto simp: open_audit_def bind_sum_Inr control_integer_Inr split: sum.splits)

lemma open_empty:
  assumes "open_audit E sb ms mr [] None = (Inr (), l)"
  shows "standing E l []"
proof -
  obtain a b c where abc: "a \<in> {1024..int63}" "b \<in> {1..int63}" "c \<in> {512..int63}"
      "bind_res (load_anchor E (empty_log a b c [] None)) (\<lambda>_ l. load_and_verify E l) = (Inr (), l)"
    using assms by (rule open_audit_Inr)
  have "l = empty_log a b c [] None"
    using abc by (simp add: load_anchor_def load_and_verify_def listed_def empty_log_def)
  with abc show ?thesis by (simp add: standing_def empty_log_def log_of_def limits_ok_def anchor_ok_def kept_segments_def)
qed

lemma run_standing:
  assumes "env_ok E" "open_audit E sb ms mr [] None = (Inr (), l0)" "(audit_step E)\<^sup>*\<^sup>* l0 l"
  obtains gs where "standing E l gs"
proof -
  from assms(3) have "\<exists>gs. standing E l gs"
    by (induction rule: rtranclp_induct) (use open_empty [OF assms(2)] step_standing assms(1) in blast)+
  with that show thesis by blast
qed

definition anchor_value :: "audit_env \<Rightarrow> int \<Rightarrow> audit_file option \<Rightarrow> control_error + (int \<times> pystr)" where
  "anchor_value E mr an =
     (case an of None \<Rightarrow> Inr (0, zero_hash) | Some f \<Rightarrow> bind_sum (read_json_file E ''audit anchor'' mr f) (verify_anchor E))"

lemma open_chain:
  assumes "open_audit E sb ms mr fs an = (Inr (), l)"
  shows "\<exists>m. mr = PInt m \<and> anchor_value E m an = Inr (al_anchor_sequence l, al_anchor_hash l)
    \<and> chain E (al_anchor_hash l) (al_anchor_sequence l) (al_records l)"
proof -
  obtain a b c where abc: "sb = PInt a" "ms = PInt b" "mr = PInt c"
      "bind_res (load_anchor E (empty_log a b c fs an)) (\<lambda>_ l. load_and_verify E l) = (Inr (), l)"
    using assms by (rule open_audit_Inr)
  then obtain l1 where l1: "load_anchor E (empty_log a b c fs an) = (Inr (), l1)" "load_and_verify E l1 = (Inr (), l)"
    by (auto simp: bind_res_Inr)
  have "al_records l1 = []" "anchor_value E c an = Inr (al_anchor_sequence l1, al_anchor_hash l1)"
    using l1(1) by (auto simp: load_anchor_def empty_log_def anchor_value_def bind_res_Inr lift_sum_Inr split: option.splits if_splits)
  with load_and_verify_chain [OF l1(2)] abc(3) show ?thesis by auto
qed

lemma standing_anchor: "standing E l gs \<Longrightarrow> anchor_value E (al_max_record l) (al_anchor_file l) = Inr (al_anchor_sequence l, al_anchor_hash l)"
  by (auto simp: standing_def anchor_ok_def anchor_value_def split: option.splits)

lemma int_value_copy: "int_value E (json_norm (json_sorted v)) = int_value E v"
  by (cases v) simp_all

lemma copy_sequence: "dict_copy r = dict_copy q \<Longrightarrow> sequence_of E r = sequence_of E q"
  by (metis dict_get_copy int_value_copy sequence_of_def)

lemma chain_unique:
  assumes "chain E p n rs" "chain E p n qs" "length rs = length qs" "chain_end p rs = chain_end p qs"
    and "\<forall>r \<in> set rs. \<forall>q \<in> set qs. hash_of r = hash_of q \<longrightarrow> dict_copy r = dict_copy q"
  shows "map dict_copy rs = map dict_copy qs"
  using assms
proof (induction rs arbitrary: qs rule: rev_induct)
  case (snoc r rs)
  then obtain ps q where qs: "qs = ps @ [q]" by (cases qs rule: rev_exhaust) auto
  have "hash_of r = hash_of q" using snoc.prems(4) by (simp add: qs chain_end_def)
  with snoc.prems(5) have d: "dict_copy r = dict_copy q" by (simp add: qs)
  have "dict_get r ''previous_hash'' = PStr (chain_end p rs)" "dict_get q ''previous_hash'' = PStr (chain_end p ps)"
    using snoc.prems(1,2) verified_previous by (auto simp: qs chain_append)
  with d have "chain_end p rs = chain_end p ps" by (metis dict_get_copy json_norm.simps json_sorted.simps pyval.inject(4))
  with snoc.IH [of ps] snoc.prems d show ?case by (auto simp: qs chain_append)
qed simp

end
