(* ===== verification/Audit_Failures.thy ===== *)
theory Audit_Failures
  imports Audit_Runs
begin

text \<open>
  Directories of an audit log in which a line does not continue the chain, as a write leaves them that
  fails only after its bytes have reached the file.
\<close>

section \<open>A line that does not fit the chain\<close>

lemma load_line_bad:
  assumes "well_kept E (al_max_record l) r" "verified E prev m r" "m \<noteq> ls_sequence st + 1" "al_anchor_sequence l < m"
  shows "load_line E (record_line r) st l = (Inl (ControlError ''audit chain verification failed''), l)"
proof -
  from assms(1) obtain body h b i where r: "r = body @ [(lit ''hash'', PStr h)]" "lit ''hash'' \<notin> fst ` set body" "is_ascii h"
      "record_line r = b @ [CHR 0x0A]" "int (length b) < al_max_record l"
      "ae_loads E (b @ [CHR 0x0A]) = Inr (PDict (dict_copy r))" "dict_get body ''sequence'' = PInt i" "sequence_of E r = i"
    by (rule well_keptE)
  have i: "i = m" using verified_sequence [OF assms(2)] r(8) by simp
  have d: "AList.delete (lit ''hash'') (dict_copy r) = dict_copy body" using r(1,2) by (simp add: delete_copy delete_added)
  have h: "dict_get (dict_copy r) ''hash'' = PStr h" using r(1,2) by (simp add: dict_get_copy dict_get_append)
  obtain kid where k: "dict_get body ''key_id'' = PStr kid" "is_control_identifier kid" "document_mac E ''audit-record'' kid body = Inr h"
    using assms(2) r(1,2) by (auto simp: verified_def)
  have "check_record E st (dict_copy body) (PStr h) = Inl (ControlError ''audit chain verification failed'')"
    using k r(3,7) i assms(3) by (simp add: check_record_def dict_get_copy mac_copy control_identifier_def check_digest_def)
  moreover have "\<not> pruned (dict_copy body) l" using r(7) i assms(4) by (simp add: pruned_def dict_get_copy)
  ultimately show ?thesis using r(4-6) d h by (simp add: load_line_def Let_def lift_sum_def)
qed

lemma load_lines_append: "load_lines E (xs @ ys) st l = bind_res (load_lines E xs st l) (\<lambda>st1 l1. load_lines E ys st1 l1)"
proof (induction xs arbitrary: st l)
  case (Cons x xs)
  then show ?case by (cases "load_line E x st l"; cases "fst (load_line E x st l)") (simp_all add: bind_res_def)
qed simp

lemma load_segments_bad:
  assumes "kept_segments E l (hs @ [(k, rs @ [r])])" "distinct (map fst hs)" "chain E (ls_previous st) (ls_sequence st) (all_records hs @ rs)"
    and "verified E prev m r" "m \<noteq> ls_sequence st + int (length (all_records hs @ rs)) + 1" "al_anchor_sequence l < m"
    and "al_anchor_sequence l \<le> ls_sequence st" "al_ranges l = []"
  shows "\<exists>l'. load_segments E (layout (hs @ [(k, rs @ [r])])) st l = (Inl (ControlError ''audit chain verification failed''), l')"
proof -
  have w: "\<forall>q \<in> set (rs @ [r]). well_kept E (al_max_record l) q" using assms(1) by (auto simp: kept_segments_def)
  obtain st1 l1 where s1: "load_segments E (layout hs @ [(k, segment_file (rs @ [r]))]) st l = load_segments E [(k, segment_file (rs @ [r]))] st1 l1"
      "ls_previous st1 = chain_end (ls_previous st) (all_records hs)" "ls_sequence st1 = ls_sequence st + int (length (all_records hs))"
      "al_max_record l1 = al_max_record l" "al_segment_bytes l1 = al_segment_bytes l" "al_anchor_sequence l1 = al_anchor_sequence l"
    using load_segments_then [of E l hs st "[(k, segment_file (rs @ [r]))]"] assms(1-3,7,8) by (fastforce simp: chain_append)
  let ?st = "st1\<lparr>ls_min := None, ls_max := None\<rparr>"
  have "\<exists>st2 l2. load_lines E (map record_line rs) ?st l1 = (Inr st2, l2) \<and> ls_sequence st2 = ls_sequence st1 + int (length rs)
      \<and> al_max_record l2 = al_max_record l \<and> al_anchor_sequence l2 = al_anchor_sequence l"
  proof (cases "rs = []")
    case False
    have "chain E (ls_previous st1) (ls_sequence st1) rs" using assms(3) s1 by (simp add: chain_append)
    then show ?thesis using load_lines_kept [of rs E l1 ?st] w False s1 assms(7) by simp
  qed (use s1 in simp)
  then obtain st2 l2 where s2: "load_lines E (map record_line rs) ?st l1 = (Inr st2, l2)" "ls_sequence st2 = ls_sequence st1 + int (length rs)"
      "al_max_record l2 = al_max_record l" "al_anchor_sequence l2 = al_anchor_sequence l" by blast
  have "load_line E (record_line r) st2 l2 = (Inl (ControlError ''audit chain verification failed''), l2)"
    using s1 s2 w assms(4-6) by (intro load_line_bad [of E l2 r prev m]) simp_all
  then have "load_lines E (map record_line (rs @ [r])) ?st l1 = (Inl (ControlError ''audit chain verification failed''), l2)"
    using s2(1) by (simp add: load_lines_append)
  then have "load_segment E (k, segment_file (rs @ [r])) st1 l1 = (Inl (ControlError ''audit chain verification failed''), l2)"
    using assms(1) s1 file_lines_records [OF w]
    by (simp add: load_segment_def segment_file_def kept_segments_def del: map_append concat_append)
  then show ?thesis using s1(1) by simp
qed

lemma add_record_shape:
  obtains hs rs where "add_record seg r gs = hs @ [(seg, rs @ [r])]" "all_records hs @ rs = all_records gs"
proof (cases gs rule: rev_exhaust)
  case Nil
  then show thesis using that [of "[]" "[]"] by (simp add: add_record_def)
next
  case (snoc hs g)
  obtain k rs where g: "g = (k, rs)" by (cases g)
  show thesis
  proof (cases "k = seg")
    case True
    then show thesis using that [of hs rs] by (simp add: add_record_def snoc g)
  next
    case False
    then show thesis using that [of gs "[]"] by (simp add: add_record_def snoc g)
  qed
qed

section \<open>A write that fails after its bytes have reached the file\<close>

lemma segment_for_append_cong:
  assumes "al_segments l' = al_segments l" "al_files l' = al_files l" "al_segment_bytes l' = al_segment_bytes l"
    and "al_max_segments l' = al_max_segments l"
  shows "fst (segment_for_append n l') = fst (segment_for_append n l)"
    "al_segments (snd (segment_for_append n l')) = al_segments (snd (segment_for_append n l))"
  using assms by (auto simp: segment_for_append_def Let_def split: option.splits)

lemma write_torn:
  assumes "length payload \<le> n"
  shows "write_payload (Torn n) seg payload l = (Inl (OtherError ''OSError''), snd (write_payload Complete seg payload l))"
  using assms by (simp add: write_payload_def Let_def)

lemma write_payload_files:
  "al_files l' = al_files l \<Longrightarrow> al_files (snd (write_payload Complete seg p l')) = al_files (snd (write_payload Complete seg p l))"
  by (simp add: write_payload_def Let_def)

text \<open>The directory after such a write is that of the log with the record appended; the log itself has not moved on.\<close>

lemma torn_append:
  assumes "append_audit E (Torn n) stamp actor action outcome tenant details l = (res, l1)" "l1 \<noteq> l" "al_max_record l \<le> int n"
    and "standing E l gs" "env_ok E" "10 \<notin> set stamp" "plain_floats (PDict details)"
    and "line_reads_back E (appended_record E stamp actor action outcome tenant details l)"
  obtains hs where "standing E (log_of l hs) hs" "length (all_records hs) = length (all_records gs) + 1"
    "l1 = l\<lparr>al_segments := map fst hs, al_files := layout hs\<rparr>"
proof -
  define body where "body = butlast (appended_record E stamp actor action outcome tenant details l)"
  note ab = append_audit_record [OF assms(1,2), folded body_def]
  note f = appended_fields [OF assms(6,7), of E actor action outcome tenant l, folded body_def]
  from ab assms(2) obtain h b seg l3 where h: "document_mac E ''audit-record'' (kp_active (ae_provider E)) body = Inr h"
      "canonical (PDict (body @ [(lit ''hash'', PStr h)])) = Inr b" "int (length b) < al_max_record l"
      "record_line (body @ [(lit ''hash'', PStr h)]) = b @ [CHR 0x0A]"
    and s: "segment_for_append (int (length (record_line (body @ [(lit ''hash'', PStr h)])))) l = (Inr seg, l3)"
      "bind_res (write_payload (Torn n) seg (b @ [CHR 0x0A]) l3) (\<lambda>_ l4. lift_sum (json_copy (PDict (body @ [(lit ''hash'', PStr h)])))
        (l4\<lparr>al_records := al_records l4 @ [body @ [(lit ''hash'', PStr h)]],
            al_ranges := extend_range seg (sequence_of E (body @ [(lit ''hash'', PStr h)])) (al_ranges l4)\<rparr>)) = (res, l1)"
    by (rule append_body_cases)
  define r where "r = body @ [(lit ''hash'', PStr h)]"
  note seg = s(1) [folded r_def]
  have "appended_record E stamp actor action outcome tenant details l = r"
    using appended_record_Inr [OF ab [unfolded body_def] assms(2)] h(1) by (simp add: r_def body_def)
  with assms(8) have "line_reads_back E (body @ [(lit ''hash'', PStr h)])" by (simp add: r_def)
  then have w: "well_kept E (al_max_record l) r" unfolding r_def by (rule signed_kept [OF assms(5) f(1,2,5) h(1-3)])
  have v: "verified E (head_hash l) (log_sequence E l + 1) r"
    unfolding r_def by (rule verifiedI [OF f(1,3) _ h(1) f(4)]) (use assms(5) f(5) in \<open>simp_all add: env_ok_def\<close>)
  have "l1 = snd (write_payload Complete seg (b @ [CHR 0x0A]) l3)"
    using s(2) h(3) assms(3) by (simp add: write_torn)
  also have "\<dots> = l3\<lparr>al_files := layout (add_record seg r gs)\<rparr>"
    using write_record [OF assms(4) seg h(4) [folded r_def]] by simp
  also have "l3 = l\<lparr>al_segments := map fst (add_record seg r gs)\<rparr>" using segment_for_append_cases [OF assms(4) seg, of r] by simp
  finally show thesis
    using that [OF standing_add [OF assms(4) seg w v]] by (simp add: records_add)
qed

lemma segment_records: "segment_for_append n l = (res, l3) \<Longrightarrow> al_records l3 = al_records l"
  by (auto simp: segment_for_append_def Let_def split: if_splits option.splits)

lemma write_records: "write_payload fault seg p l = (res, l3) \<Longrightarrow> al_records l3 = al_records l"
  by (cases fault) (auto simp: write_payload_def Let_def)

lemma append_grows:
  assumes "append_audit E fault stamp actor action outcome tenant details l = (Inr v, l')"
  shows "l' \<noteq> l"
proof -
  have "\<exists>r. al_records l' = al_records l @ [r]"
    using assms by (auto simp: append_audit_def append_body_def Let_def bind_res_Inr lift_sum_Inr
        dest!: segment_records write_records split: if_splits)
  then show ?thesis by auto
qed

lemma write_frame:
  assumes "write_payload Complete seg p l = (Inr (), l4)"
  shows "al_segment_bytes l4 = al_segment_bytes l" "al_max_segments l4 = al_max_segments l" "al_max_record l4 = al_max_record l"
    "al_anchor_file l4 = al_anchor_file l" "al_segments l4 = al_segments l"
  using assms by (auto simp: write_payload_def Let_def)

lemma segment_frame:
  assumes "segment_for_append n l = (res, l3)"
  shows "al_segment_bytes l3 = al_segment_bytes l" "al_max_segments l3 = al_max_segments l" "al_max_record l3 = al_max_record l"
    "al_anchor_file l3 = al_anchor_file l" "al_files l3 = al_files l"
  using assms by (auto simp: segment_for_append_def Let_def split: if_splits option.splits)

text \<open>Opening a directory whose last line breaks the chain.\<close>

lemma open_bad:
  assumes "standing E (log_of l hs) hs" "segment_for_append (int (length (record_line r))) (log_of l hs) = (Inr seg, l3)"
    and "well_kept E (al_max_record l) r" "verified E prev m r" "m \<noteq> al_anchor_sequence l + int (length (all_records hs)) + 1"
    and "al_anchor_sequence l < m" "\<forall>k \<in> set (map fst (add_record seg r hs)). k < 10 ^ 8"
  shows "\<exists>l'. open_audit E (PInt (al_segment_bytes l)) (PInt (al_max_segments l)) (PInt (al_max_record l)) (layout (add_record seg r hs)) (al_anchor_file l)
    = (Inl (ControlError ''audit chain verification failed''), l')"
proof -
  have s: "limits_ok l" "anchor_ok E l" "chain E (al_anchor_hash l) (al_anchor_sequence l) (all_records hs)"
    using assms(1) by (simp_all add: standing_def)
  obtain ps rs where g: "add_record seg r hs = ps @ [(seg, rs @ [r])]" "all_records ps @ rs = all_records hs"
    by (rule add_record_shape)
  have k: "kept_segments E l (add_record seg r hs)" "sorted_wrt (<) (map fst (add_record seg r hs))"
      "\<forall>k \<in> fst ` set (add_record seg r hs). 0 \<le> k \<and> k < 10 ^ 8"
    using kept_add [OF assms(1,2)] assms(3,7) by fastforce+
  let ?l = "l\<lparr>al_records := [], al_segments := [], al_ranges := [], al_files := layout (add_record seg r hs)\<rparr>"
  let ?st = "\<lparr>ls_previous = al_anchor_hash l, ls_sequence = al_anchor_sequence l, ls_min = None, ls_max = None\<rparr>"
  have "distinct (map fst (add_record seg r hs))" using k(2) by (simp add: strict_sorted_iff)
  then have "\<exists>l'. load_segments E (layout (add_record seg r hs)) ?st ?l = (Inl (ControlError ''audit chain verification failed''), l')"
    unfolding g(1) using k(1) s(3) assms(4-6) g(2) by (intro load_segments_bad) (simp_all add: g(1))
  moreover have "int (length (add_record seg r hs)) \<le> al_max_segments l"
    using segment_for_append_cases [OF assms(1,2), of r] by simp
  ultimately show ?thesis
    using s(1) load_anchor_ok [OF s(2), of "layout (add_record seg r hs)"] listed_layout [OF k(2,3)]
    by (simp add: open_audit_def control_integer_def limits_ok_def load_and_verify_def)
qed

text \<open>A further append to a directory that is ahead of the log.\<close>

lemma append_onto:
  assumes "append_audit E Complete stamp actor action outcome tenant details l1 = (Inr v, l2)" "standing E (log_of l hs) hs"
    and "l1 = l\<lparr>al_segments := map fst hs, al_files := layout hs\<rparr>" "env_ok E" "10 \<notin> set stamp" "plain_floats (PDict details)"
    and "line_reads_back E (appended_record E stamp actor action outcome tenant details l1)"
  obtains r seg l3 where "segment_for_append (int (length (record_line r))) (log_of l hs) = (Inr seg, l3)" "well_kept E (al_max_record l) r"
    "verified E (head_hash l) (log_sequence E l + 1) r" "al_segments l2 = map fst (add_record seg r hs)"
    "reopen_audit E l2 = open_audit E (PInt (al_segment_bytes l)) (PInt (al_max_segments l)) (PInt (al_max_record l))
       (layout (add_record seg r hs)) (al_anchor_file l)"
proof -
  let ?lh = "log_of l hs"
  define body where "body = butlast (appended_record E stamp actor action outcome tenant details l1)"
  note ab = append_audit_record [OF assms(1) append_grows [OF assms(1)], folded body_def]
  note f = appended_fields [OF assms(5,6), of E actor action outcome tenant l1, folded body_def]
  from ab append_grows [OF assms(1)] obtain h b seg l3 where h: "document_mac E ''audit-record'' (kp_active (ae_provider E)) body = Inr h"
      "canonical (PDict (body @ [(lit ''hash'', PStr h)])) = Inr b" "int (length b) < al_max_record l1"
      "record_line (body @ [(lit ''hash'', PStr h)]) = b @ [CHR 0x0A]"
    and s: "segment_for_append (int (length (record_line (body @ [(lit ''hash'', PStr h)])))) l1 = (Inr seg, l3)"
      "bind_res (write_payload Complete seg (b @ [CHR 0x0A]) l3) (\<lambda>_ l4. lift_sum (json_copy (PDict (body @ [(lit ''hash'', PStr h)])))
        (l4\<lparr>al_records := al_records l4 @ [body @ [(lit ''hash'', PStr h)]],
            al_ranges := extend_range seg (sequence_of E (body @ [(lit ''hash'', PStr h)])) (al_ranges l4)\<rparr>)) = (Inr v, l2)"
    by (rule append_body_cases)
  define r where "r = body @ [(lit ''hash'', PStr h)]"
  have "appended_record E stamp actor action outcome tenant details l1 = r"
    using appended_record_Inr [OF ab [unfolded body_def] append_grows [OF assms(1)]] h(1) by (simp add: r_def body_def)
  with assms(7) have rb: "line_reads_back E (body @ [(lit ''hash'', PStr h)])" by (simp add: r_def)
  have w: "well_kept E (al_max_record ?lh) r"
    unfolding r_def using signed_kept [OF assms(4) f(1,2,5) h(1,2) _ rb, of "al_max_record l"] h(3) assms(3) by simp
  have sq: "log_sequence E l1 = log_sequence E l" "head_hash l1 = head_hash l" by (simp_all add: assms(3) log_sequence_def head_hash_def)
  have ver: "verified E (head_hash l) (log_sequence E l + 1) r"
    unfolding r_def by (rule verifiedI [OF f(1,3) _ h(1)]) (use assms(4) f(4,5) sq in \<open>simp_all add: env_ok_def\<close>)
  let ?N = "int (length (record_line r))"
  have cong: "fst (segment_for_append ?N l1) = fst (segment_for_append ?N ?lh)"
      "al_segments (snd (segment_for_append ?N l1)) = al_segments (snd (segment_for_append ?N ?lh))"
    by (rule segment_for_append_cong; simp add: assms(3))+
  obtain l3' where seg: "segment_for_append ?N ?lh = (Inr seg, l3')"
    using cong(1) s(1) [folded r_def] by (metis fst_conv prod.collapse)
  obtain l4 where l4: "write_payload Complete seg (b @ [CHR 0x0A]) l3 = (Inr (), l4)"
    by (simp add: write_payload_def Let_def)
  have l2: "al_files l2 = al_files l4" "al_segments l2 = al_segments l4" "al_segment_bytes l2 = al_segment_bytes l4"
      "al_max_segments l2 = al_max_segments l4" "al_max_record l2 = al_max_record l4" "al_anchor_file l2 = al_anchor_file l4"
    using s(2) l4 by (auto simp: lift_sum_Inr)
  have "al_files l3 = al_files l3'" using segment_frame(5) [OF s(1)] segment_frame(5) [OF seg] by (simp add: assms(3))
  from write_payload_files [OF this] have files: "al_files l4 = layout (add_record seg r hs)"
    using write_record [OF assms(2) seg h(4) [folded r_def]] l4 by (metis audit_log.select_convs(9) audit_log.surjective audit_log.update_convs(9) snd_conv)
  have "al_segments l3 = map fst (add_record seg r hs)"
    using cong(2) s(1) [folded r_def] seg segment_for_append_cases [OF assms(2) seg, of r] by simp
  then have "al_segments l2 = map fst (add_record seg r hs)" using l2(2) write_frame(5) [OF l4] by simp
  moreover have "reopen_audit E l2 = open_audit E (PInt (al_segment_bytes l)) (PInt (al_max_segments l)) (PInt (al_max_record l))
       (layout (add_record seg r hs)) (al_anchor_file l)"
    using l2 files write_frame [OF l4] segment_frame [OF s(1)] by (simp add: reopen_audit_def assms(3))
  ultimately show thesis using that [OF seg _ ver] w by simp
qed

end
