(* ===== verification/Audit_Guarantees.thy ===== *)
theory Audit_Guarantees
  imports Audit_Failures
begin

text \<open>
  What the audit log guarantees, each guarantee shown on a small log: restarts give the same log,
  interrupted pruning is finished by a restart, changes to the segments show, the head hash fixes the
  history; and what a write that fails too late does to the log.
\<close>

section \<open>A small log\<close>

lemma canonical_ascii:
  assumes "case json_dumps (json_sorted v) of None \<Rightarrow> False | Some t \<Rightarrow> is_ascii t \<and> length t < n" "all_finite v"
  shows "\<exists>b. canonical v = Inr b \<and> length b < n"
  using assms by (auto simp: canonical_def encode_ascii split: option.splits)

definition demo_hash :: pystr where
  "demo_hash = concat (replicate 32 [52, 49])"

definition demo_body :: dict where
  "demo_body =
     [(lit ''version'', PInt 1), (lit ''sequence'', PInt 1), (lit ''timestamp'', PFloat (lit ''1.5'')), (lit ''key_id'', PStr (lit ''k'')),
      (lit ''previous_hash'', PStr zero_hash), (lit ''tenant_namespace'', PNone), (lit ''actor'', PStr (lit ''a'')),
      (lit ''action'', PStr (lit ''x'')), (lit ''outcome'', PStr (lit ''ok'')), (lit ''details'', PDict [])]"

definition demo_record :: dict where
  "demo_record = demo_body @ [(lit ''hash'', PStr demo_hash)]"

definition demo_anchor :: dict where
  "demo_anchor = [(lit ''version'', PInt 1), (lit ''sequence'', PInt 1), (lit ''hash'', PStr demo_hash), (lit ''key_id'', PStr (lit ''k'')),
     (lit ''signature'', PStr demo_hash)]"

definition demo_audit :: audit_env where
  "demo_audit = \<lparr>ae_hmac = (\<lambda>_ _. replicate 32 (CHR ''A'')),
     ae_provider = \<lparr>kp_active = lit ''k'', kp_namespace = lit ''k'', kp_keys = [(lit ''k'', replicate 32 (CHR ''x''))]\<rparr>,
     ae_loads = (\<lambda>_. Inr (PDict (dict_copy demo_record))), ae_load_text = (\<lambda>_. Some (PDict (dict_copy demo_anchor))),
     ae_float_int = (\<lambda>_. None)\<rparr>"

definition demo_log :: audit_log where
  "demo_log = empty_log 1024 2 16384 [] None"

lemma demo_env_ok: "env_ok demo_audit"
  by (simp add: env_ok_def demo_audit_def is_control_identifier_def lit_def is_alnum_def)

lemma demo_opened: "open_audit demo_audit (PInt 1024) (PInt 2) (PInt 16384) [] None = (Inr (), demo_log)"
  by (simp add: open_audit_def control_integer_def int63_def load_anchor_def load_and_verify_def listed_def demo_log_def empty_log_def)

lemma demo_hex: "hex_text (replicate 32 (CHR ''A'')) = demo_hash"
  by code_simp

lemma demo_canonical:
  "\<exists>b. canonical (PDict demo_body) = Inr b \<and> length b < 1000" "\<exists>b. canonical (PDict demo_record) = Inr b \<and> length b < 1000"
  "\<exists>b. canonical (PDict (butlast demo_anchor)) = Inr b \<and> length b < 1000" "\<exists>b. canonical (PDict demo_anchor) = Inr b \<and> length b < 1000"
  "\<exists>b. canonical (PDict []) = Inr b \<and> length b < 1000"
  by (rule canonical_ascii, code_simp, code_simp)+

lemma demo_mac:
  "document_mac demo_audit p (lit ''k'') demo_body = Inr demo_hash" "document_mac demo_audit p (lit ''k'') (butlast demo_anchor) = Inr demo_hash"
  using demo_canonical(1,3)
  by (auto simp: document_mac_def derived_key_def provider_key_def demo_audit_def demo_hex)

lemma demo_active: "kp_active (ae_provider demo_audit) = lit ''k''"
  by (simp add: demo_audit_def)

lemma demo_appended:
  assumes "head_hash l = zero_hash" "log_sequence demo_audit l = 0"
  shows "appended_record demo_audit (lit ''1.5'') (PStr (lit ''a'')) (PStr (lit ''x'')) (PStr (lit ''ok'')) None [] l = demo_record"
proof -
  have "record_body demo_audit (lit ''1.5'') None (lit ''a'') (lit ''x'') (lit ''ok'') (PDict (dict_copy [])) l = demo_body"
    using assms by (simp add: record_body_def demo_body_def demo_active dict_copy_def on_values_def)
  then show ?thesis by (simp add: appended_record_def demo_active demo_mac demo_record_def)
qed

lemma demo_reads: "line_reads_back demo_audit demo_record"
  by (simp add: line_reads_back_def demo_audit_def)

lemma demo_start: "head_hash demo_log = zero_hash" "log_sequence demo_audit demo_log = 0"
  by (simp_all add: demo_log_def empty_log_def head_hash_def log_sequence_def)

text \<open>The call of \<open>append\<close> on a log that has no records yet.\<close>

lemma demo_append:
  assumes "head_hash l = zero_hash" "log_sequence demo_audit l = 0"
  shows "append_audit demo_audit fault (lit ''1.5'') (PStr (lit ''a'')) (PStr (lit ''x'')) (PStr (lit ''ok'')) None [] l = append_body demo_audit fault demo_body l"
proof -
  obtain b where "canonical (PDict []) = Inr b" "length b < 1000" using demo_canonical(5) by blast
  moreover have "bounded_text (PStr (lit ''a'')) ''audit actor'' 256 = Inr (lit ''a'')"
    by (simp add: bounded_text_def utf8_len_ascii is_ascii_def lit_def)
  moreover have "control_identifier (PStr (lit s)) f = Inr (lit s)" if "s = ''x'' \<or> s = ''ok''" for s f
    using that by (auto simp: control_identifier_def is_control_identifier_def lit_def is_alnum_def)
  moreover have "record_body demo_audit (lit ''1.5'') None (lit ''a'') (lit ''x'') (lit ''ok'') (PDict []) l = demo_body"
    using assms by (simp add: record_body_def demo_body_def demo_active)
  ultimately show ?thesis by (simp add: append_audit_def json_copy_def lift_sum_def)
qed

definition demo_file :: audit_file where
  "demo_file = segment_file [demo_record]"

definition demo_full :: audit_log where
  "demo_full = log_of demo_log [(1, [demo_record])]"

lemma demo_line: obtains b where "canonical (PDict demo_record) = Inr b" "record_line demo_record = b @ [CHR 0x0A]" "length b < 1000"
  using demo_canonical(2) by (auto simp: record_line_def)

lemma demo_sequence: "sequence_of demo_audit demo_record = 1" "hash_of demo_record = demo_hash"
  by (simp_all add: demo_record_def demo_body_def sequence_of_def hash_of_def dict_get_def lit_def)

lemma demo_written: "\<exists>v. append_body demo_audit Complete demo_body demo_log = (Inr v, demo_full)"
proof -
  obtain b where b: "canonical (PDict demo_record) = Inr b" "record_line demo_record = b @ [CHR 0x0A]" "length b < 1000" by (rule demo_line)
  then have "json_copy (PDict demo_record) = Inr (PDict (dict_copy demo_record))"
    by (simp add: json_copy_def json_copy_dict del: json_sorted.simps json_norm.simps)
  with b demo_sequence(1) show ?thesis
    by (simp add: append_body_def demo_active demo_mac lift_sum_def Let_def flip: demo_record_def)
      (simp add: segment_for_append_def write_payload_def extend_range_def demo_log_def empty_log_def demo_full_def log_of_def segment_file_def)
qed

lemma demo_run: "(audit_step demo_audit)\<^sup>*\<^sup>* demo_log demo_full"
proof -
  obtain v where a: "append_audit demo_audit Complete (lit ''1.5'') (PStr (lit ''a'')) (PStr (lit ''x'')) (PStr (lit ''ok'')) None [] demo_log = (Inr v, demo_full)"
    using demo_append [OF demo_start] demo_written by auto
  have b: "line_reads_back demo_audit (appended_record demo_audit (lit ''1.5'') (PStr (lit ''a'')) (PStr (lit ''x'')) (PStr (lit ''ok'')) None [] demo_log)"
    using demo_appended [OF demo_start] demo_reads by simp
  have "audit_step demo_audit demo_log demo_full" by (rule audit_step.append [OF a _ _ b]) (simp_all add: lit_def)
  then show ?thesis by blast
qed

lemma demo_digits: "eight_digits demo_full"
  by (simp add: eight_digits_def demo_full_def)

text \<open>
  C37. The audit log survives every restart. After any sequence of appends, prunes, prunes cut short
  by a crash, and restarts, opening the directory again verifies the whole chain and yields the
  same log: the same segments with the same ranges, the same anchor and head hash, the next
  sequence number, and every record as it was signed.
\<close>

theorem audit_reopens:
  assumes "env_ok E" "open_audit E sb ms mr [] None = (Inr (), l0)" "(audit_step E)\<^sup>*\<^sup>* l0 l" "eight_digits l"
  shows "\<exists>l'. reopen_audit E l = (Inr (), l') \<and> same_log E l l'"
proof -
  obtain gs where "standing E l gs" using assms(1-3) by (rule run_standing)
  with reopen_standing [OF this assms(4)] same_reloaded show ?thesis by blast
qed

theorem audit_reopens_witness:
  "\<exists>l'. reopen_audit demo_audit demo_full = (Inr (), l') \<and> same_log demo_audit demo_full l' \<and> length (al_records l') = 1"
proof -
  obtain l' where "reopen_audit demo_audit demo_full = (Inr (), l')" "same_log demo_audit demo_full l'"
    using audit_reopens [OF demo_env_ok demo_opened demo_run demo_digits] by blast
  moreover from this(2) have "length (al_records l') = length (al_records demo_full)"
    unfolding same_log_def by (metis length_map)
  ultimately show ?thesis by (simp add: demo_full_def)
qed

lemma demo_signed_anchor: "signed_anchor demo_audit 1 demo_hash = demo_anchor"
proof -
  have "anchor_document demo_audit 1 demo_hash = butlast demo_anchor" by (simp add: anchor_document_def demo_anchor_def demo_active)
  then show ?thesis by (simp add: signed_anchor_def demo_active demo_mac) (simp add: demo_anchor_def)
qed

lemma demo_pruned: "\<exists>v lp. prune_exported demo_audit True None (PInt 1) (PStr demo_hash) demo_full = (Inr v, lp)
    \<and> al_anchor_sequence lp = 1 \<and> al_anchor_hash lp = demo_hash"
proof -
  have h: "is_hash demo_hash" by code_simp
  have d: "anchor_document demo_audit 1 demo_hash = butlast demo_anchor" by (simp add: anchor_document_def demo_anchor_def demo_active)
  have d2: "butlast demo_anchor @ [(lit ''signature'', PStr demo_hash)] = demo_anchor" by (simp add: demo_anchor_def)
  obtain b where b: "canonical (PDict demo_anchor) = Inr b" "length b < 1000" using demo_canonical(4) by blast
  have f: "al_records demo_full = [demo_record]" "al_ranges demo_full = [(1, 1, 1)]" "al_files demo_full = [(1, demo_file)]"
      "al_max_record demo_full = 16384"
    by (simp_all add: demo_full_def demo_file_def) (simp_all add: demo_log_def empty_log_def)
  have e: "eligible 1 demo_full = [1]" "anchor_of [1] demo_full = 1" by (simp_all add: eligible_def anchor_of_def f)
  have w: "\<exists>l1. write_anchor demo_audit True 1 demo_hash demo_full = (Inr (), l1) \<and> al_files l1 = [(1, demo_file)]
      \<and> al_anchor_sequence l1 = 1 \<and> al_anchor_hash l1 = demo_hash"
    using b f by (simp add: write_anchor_def Let_def d d2 demo_active demo_mac lift_sum_def)
  then obtain l1 where l1: "write_anchor demo_audit True 1 demo_hash demo_full = (Inr (), l1)" "al_files l1 = [(1, demo_file)]"
      "al_anchor_sequence l1 = 1" "al_anchor_hash l1 = demo_hash" by blast
  have "prune_begin demo_audit True (PInt 1) (PStr demo_hash) demo_full = (Inr [1], l1)"
    using h e l1(1) demo_sequence by (simp add: prune_begin_def control_integer_def int63_def lift_sum_def f)
  then show ?thesis using l1 by (simp add: prune_exported_def demo_file_def segment_file_def)
qed

text \<open>
  C39. Pruning is safe against crashes. However many segments have been unlinked when the process
  stops, a restart finishes the job: it arrives at the log that an undisturbed call would have left.
\<close>

theorem prune_crash_safe:
  assumes "env_ok E" "open_audit E sb ms mr [] None = (Inr (), l0)" "(audit_step E)\<^sup>*\<^sup>* l0 l" "eight_digits l"
    and "prune_exported E replaced None through expected l = (Inr v, lp)" "anchor_reads_back E (al_anchor_sequence lp) (al_anchor_hash lp)"
    and "prune_exported E replaced fault through expected l = (res, lc)"
  shows "\<exists>l'. reopen_audit E lc = (Inr (), l') \<and> same_log E lp l'"
proof -
  obtain gs where st: "standing E l gs" using assms(1-3) by (rule run_standing)
  from assms(5) st assms(1,6) show ?thesis
  proof (cases rule: prune_outcome)
    case (1 b)
    then have "lc = l" using assms(7) by (cases b) (auto simp: prune_exported_def)
    with 1 reopen_standing [OF st assms(4)] same_reloaded [OF st] show ?thesis by blast
  next
    case (2 olds rest f r l2)
    note so = st [unfolded 2(1)]
    have lp: "lp = log_of (moved_anchor f olds l) rest" using unlink_moved(4) [OF so 2(5)] 2(7) by auto
    have "al_anchor_sequence lc = al_anchor_sequence lp \<and> al_anchor_hash lc = al_anchor_hash lp"
      using assms(7) 2(2,4) lp by (auto simp: prune_exported_def bind_res_def dest: unlink_anchor split: sum.splits prod.splits)
    with assms(6) have a: "anchor_reads_back E (al_anchor_sequence lc) (al_anchor_hash lc)" by simp
    obtain r3 l3 where u: "unlink_segments fault (map fst olds) 0 (moved_anchor f olds l) = (r3, l3)" by (metis surj_pair)
    from assms(7) st assms(1) a have "reopen_audit E lc = reopen_audit E l3"
      by (cases rule: prune_outcome) (use 2(1,2,4) u in auto)
    with reopen_interrupted [OF so 2(2,3) assms(1,4) u] same_reloaded [OF standing_moved [OF so 2(2,3) assms(1)]] lp
    show ?thesis by simp
  qed
qed

theorem prune_crash_safe_witness:
  "\<exists>lc lp l'. snd (prune_exported demo_audit True (Some 0) (PInt 1) (PStr demo_hash) demo_full) = lc
     \<and> snd (prune_exported demo_audit True None (PInt 1) (PStr demo_hash) demo_full) = lp
     \<and> reopen_audit demo_audit lc = (Inr (), l') \<and> same_log demo_audit lp l' \<and> al_anchor_sequence lp = 1"
proof -
  obtain v lp where p: "prune_exported demo_audit True None (PInt 1) (PStr demo_hash) demo_full = (Inr v, lp)"
      "al_anchor_sequence lp = 1" "al_anchor_hash lp = demo_hash" using demo_pruned by blast
  obtain res lc where c: "prune_exported demo_audit True (Some 0) (PInt 1) (PStr demo_hash) demo_full = (res, lc)" by (metis surj_pair)
  have "anchor_reads_back demo_audit (al_anchor_sequence lp) (al_anchor_hash lp)"
    by (simp add: p anchor_reads_back_def demo_signed_anchor) (simp add: demo_audit_def)
  from prune_crash_safe [OF demo_env_ok demo_opened demo_run demo_digits p(1) this c] p c show ?thesis by auto
qed

lemma demo_reopened: "reopen_audit demo_audit demo_full = (Inr (), log_of demo_full [(1, [reloaded demo_record])])"
proof -
  obtain gs where st: "standing demo_audit demo_full gs" using demo_env_ok demo_opened demo_run by (rule run_standing)
  have "gs = [(1, [demo_record])]"
    using standing_fields(1,2) [OF st] by (cases gs; cases "hd gs") (auto simp: demo_full_def)
  with reopen_standing [OF st demo_digits] show ?thesis by (simp add: on_values_def)
qed

lemma demo_reloaded: "dict_copy (reloaded demo_record) = dict_copy demo_record"
  unfolding reloaded_def demo_sequence by code_simp



text \<open>
  The head hash fixes the whole history. Two directories with the same anchor that both open,
  end at the same sequence number and have the same head hash hold the same records, unless two
  different records have the same keyed hash.
\<close>

theorem head_hash_fixes_history:
  assumes "open_audit E sb ms mr files an = (Inr (), l)" "open_audit E sb ms mr files' an = (Inr (), l')"
    and "head_hash l = head_hash l'" "log_sequence E l = log_sequence E l'"
    and "\<forall>r \<in> set (al_records l). \<forall>q \<in> set (al_records l'). hash_of r = hash_of q \<longrightarrow> dict_copy r = dict_copy q"
  shows "map dict_copy (al_records l) = map dict_copy (al_records l')"
proof -
  let ?n = "al_anchor_sequence l" and ?h = "al_anchor_hash l"
  have c: "chain E ?h ?n (al_records l)" "chain E ?h ?n (al_records l')" "al_anchor_sequence l' = ?n" "al_anchor_hash l' = ?h"
    using open_chain [OF assms(1)] open_chain [OF assms(2)] by auto
  have len: "log_sequence E k = ?n + int (length (al_records k))" if "chain E ?h ?n (al_records k)" "al_anchor_sequence k = ?n" for k
    using chain_sequences [OF that(1), of "length (al_records k) - 1"] that(2) by (auto simp: log_sequence_def last_conv_nth of_nat_diff Suc_leI)
  show ?thesis
  proof (rule chain_unique [OF c(1,2)])
    show "length (al_records l) = length (al_records l')" using len c assms(4) by simp
    show "chain_end ?h (al_records l) = chain_end ?h (al_records l')" using assms(3) c(4) by (simp add: head_hash_def chain_end_def)
  qed (rule assms(5))
qed

theorem head_hash_fixes_history_witness:
  "\<exists>l l'. reopen_audit demo_audit demo_full = (Inr (), l) \<and> reopen_audit demo_audit l = (Inr (), l')
     \<and> map dict_copy (al_records l) = map dict_copy (al_records l') \<and> al_records l \<noteq> []"
proof -
  let ?l = "log_of demo_full [(1, [reloaded demo_record])]"
  have "reopen_audit demo_audit ?l = (Inr (), ?l)"
  proof -
    have "layout [(1, [reloaded demo_record])] = layout [(1, [demo_record])]"
      by (simp add: segment_file_def record_line_def) (metis canonical_copy demo_reloaded)
    then show ?thesis using demo_reopened by (simp add: reopen_audit_def del: layout_simps) (simp add: demo_full_def)
  qed
  with demo_reopened head_hash_fixes_history [OF demo_reopened [unfolded reopen_audit_def] demo_reopened [unfolded reopen_audit_def] refl refl]
  show ?thesis by auto
qed

text \<open>
  C40. An append whose write fails only after its bytes have reached the file, at \<open>fsync\<close> for instance,
  reports an error and leaves its line behind; the next append signs another record with the same
  sequence number. It returns, but from then on the log cannot be opened: verification fails at the
  second line.
\<close>

theorem failed_append_blocks_restart:
  assumes "env_ok E" "open_audit E sb ms mr [] None = (Inr (), l0)" "(audit_step E)\<^sup>*\<^sup>* l0 l"
    and "append_audit E (Torn n) stamp actor action outcome tenant details l = (Inl e, l1)" "l1 \<noteq> l" "al_max_record l \<le> int n"
    and "append_audit E Complete stamp2 actor2 action2 outcome2 tenant2 details2 l1 = (Inr v, l2)" "eight_digits l2"
    and "10 \<notin> set stamp" "plain_floats (PDict details)" "10 \<notin> set stamp2" "plain_floats (PDict details2)"
    and "line_reads_back E (appended_record E stamp actor action outcome tenant details l)"
    and "line_reads_back E (appended_record E stamp2 actor2 action2 outcome2 tenant2 details2 l1)"
  shows "\<exists>l3. reopen_audit E l2 = (Inl (ControlError ''audit chain verification failed''), l3)"
proof -
  obtain gs where st: "standing E l gs" using assms(1-3) by (rule run_standing)
  from assms(4-6) st assms(1,9,10,13) obtain hs where hs: "standing E (log_of l hs) hs"
      "length (all_records hs) = length (all_records gs) + 1" "l1 = l\<lparr>al_segments := map fst hs, al_files := layout hs\<rparr>"
    by (rule torn_append)
  from assms(7) hs(1,3) assms(1,11,12,14) obtain r seg l3
    where seg: "segment_for_append (int (length (record_line r))) (log_of l hs) = (Inr seg, l3)" "well_kept E (al_max_record l) r"
      and ver: "verified E (head_hash l) (log_sequence E l + 1) r" and l2: "al_segments l2 = map fst (add_record seg r hs)"
      "reopen_audit E l2 = open_audit E (PInt (al_segment_bytes l)) (PInt (al_max_segments l)) (PInt (al_max_record l))
         (layout (add_record seg r hs)) (al_anchor_file l)"
    by (rule append_onto)
  have "\<forall>k \<in> set (map fst (add_record seg r hs)). k < 10 ^ 8" using assms(8) l2(1) by (simp add: eight_digits_def)
  moreover have "log_sequence E l + 1 \<noteq> al_anchor_sequence l + int (length (all_records hs)) + 1" "al_anchor_sequence l < log_sequence E l + 1"
    using standing_head(2) [OF st] hs(2) by simp_all
  ultimately show ?thesis using open_bad [OF hs(1) seg ver] l2(2) by simp
qed

theorem failed_append_blocks_restart_witness:
  "\<exists>l1 v l2 l3 e. append_audit demo_audit (Torn 16384) (lit ''1.5'') (PStr (lit ''a'')) (PStr (lit ''x'')) (PStr (lit ''ok'')) None [] demo_log = (Inl e, l1)
     \<and> append_audit demo_audit Complete (lit ''1.5'') (PStr (lit ''a'')) (PStr (lit ''x'')) (PStr (lit ''ok'')) None [] l1 = (Inr v, l2)
     \<and> reopen_audit demo_audit l2 = (Inl (ControlError ''audit chain verification failed''), l3)"
proof -
  obtain b where b: "canonical (PDict demo_record) = Inr b" "record_line demo_record = b @ [CHR 0x0A]" "length b < 1000" by (rule demo_line)
  have j: "json_copy (PDict demo_record) = Inr (PDict (dict_copy demo_record))"
    using b by (simp add: json_copy_def json_copy_dict del: json_sorted.simps json_norm.simps)
  let ?l1 = "demo_log\<lparr>al_segments := [1], al_files := [(1, \<lparr>af_bytes = b @ [CHR 0x0A], af_regular = True, af_private = True\<rparr>)]\<rparr>"
  have 1: "append_body demo_audit (Torn 16384) demo_body demo_log = (Inl (OtherError ''OSError''), ?l1)"
    using b by (simp add: append_body_def demo_active demo_mac lift_sum_def Let_def flip: demo_record_def)
      (simp add: segment_for_append_def write_payload_def demo_log_def empty_log_def)
  have h: "head_hash ?l1 = zero_hash" "log_sequence demo_audit ?l1 = 0"
    by (simp_all add: demo_log_def empty_log_def head_hash_def log_sequence_def)
  have 2: "\<exists>l2. append_body demo_audit Complete demo_body ?l1 = (Inr (PDict (dict_copy demo_record)), l2) \<and> eight_digits l2"
    using b j by (simp add: append_body_def demo_active demo_mac lift_sum_def Let_def flip: demo_record_def)
      (simp add: segment_for_append_def write_payload_def demo_log_def empty_log_def eight_digits_def)
  then obtain l2 where l2: "append_body demo_audit Complete demo_body ?l1 = (Inr (PDict (dict_copy demo_record)), l2)" "eight_digits l2" by blast
  note a1 = demo_append [OF demo_start, of "Torn 16384", unfolded 1] and a2 = demo_append [OF h, of Complete, unfolded l2(1)]
  have r1: "line_reads_back demo_audit (appended_record demo_audit (lit ''1.5'') (PStr (lit ''a'')) (PStr (lit ''x'')) (PStr (lit ''ok'')) None [] demo_log)"
    using demo_appended [OF demo_start] demo_reads by simp
  have r2: "line_reads_back demo_audit (appended_record demo_audit (lit ''1.5'') (PStr (lit ''a'')) (PStr (lit ''x'')) (PStr (lit ''ok'')) None [] ?l1)"
    using demo_appended [OF h] demo_reads by simp
  have "?l1 \<noteq> demo_log" by (simp add: demo_log_def empty_log_def)
  moreover have "al_max_record demo_log \<le> int 16384" by (simp add: demo_log_def empty_log_def)
  ultimately have "\<exists>l3. reopen_audit demo_audit l2 = (Inl (ControlError ''audit chain verification failed''), l3)"
    by (rule failed_append_blocks_restart [OF demo_env_ok demo_opened rtranclp.rtrancl_refl a1 _ _ a2 l2(2) _ _ _ _ r1 r2])
      (simp_all add: lit_def)
  with a1 a2 show ?thesis by blast
qed

end
