(* ===== verification/Spec2Isabelle.thy ===== *)
theory Spec2Isabelle
  imports Engine_Snapshot Coordination Singleflight Cluster_Rebalance Resp_Props Event_Adapters Client_Lease Audit_Guarantees
begin

text \<open>
  A verification of MegaCache (\<open>src/src/megacache\<close>), an in-memory cache with leases, tags and stale
  windows, a replicated mode, a RESP server, and event-driven invalidation.

  \<^bold>\<open>The parts and how they fit together.\<close> \<open>CacheEngine\<close> (\<open>engine.py\<close>) holds the entries. Clients
  reach it through \<open>MutationClock\<close> (\<open>coordination.py\<close>), which counts the changes that a client-side
  cache must hear of, or through \<open>ClusterCoordinator\<close> (\<open>cluster.py\<close>), which replicates every key
  on a consistent-hash ring of engines with quorum reads and writes, leader terms, leases,
  tombstones, rebalancing and snapshots. \<open>MegaCacheRespHandler\<close> (\<open>resp.py\<close>) serves either of them to
  \<open>MegaCacheClient\<close> (\<open>client.py\<close>) after \<open>AuthManager\<close> (\<open>auth.py\<close>) has named the principal.
  \<open>EventIngestor\<close> (\<open>events.py\<close>) turns change events, delivered by webhooks or database connectors,
  into invalidations of the same storage. \<open>MegaCacheClient\<close> may keep values of its own for a while;
  \<open>TamperEvidentAuditLog\<close> (\<open>controlplane.py\<close>) keeps the control plane's signed record of what was done.

  \<^bold>\<open>Foundations.\<close>
  \<^item> \<open>Prelude\<close>: results with state (a raised exception keeps the changes made before it), floats
    that may be infinite, ordered dictionaries as association lists.
  \<^item> \<open>PyText\<close>: Python text as lists of code points, bytes, UTF-8, JSON values and their text.

  \<^bold>\<open>The engine.\<close>
  \<^item> \<open>Engine\<close>: \<open>_Entry\<close>, \<open>_Lease\<close> and the whole state of \<open>CacheEngine\<close> as records, one definition per
    method. \<open>Engine_Inv\<close>: the invariant (exact byte counters, a tag index that mirrors the entries,
    both capacity limits) and its preservation. \<open>Engine_Journal\<close>: mutation checkpoints and what a
    rollback restores. \<open>Engine_Props\<close>: reads, writes, eviction, tags and leases.
    \<open>Engine_Snapshot\<close>: export and restore.
  \<^item> \<open>Coordination\<close>: the mutation clock; the locale \<open>reporting\<close> is the contract of a call that says
    whether it changed anything, interpreted on every mutating method of the engine.
  \<^item> \<open>Singleflight\<close>: \<open>get_or_load\<close> and \<open>coordinate\<close> as interleavings of their atomic sections over any
    number of threads, as a step relation refined from an abstract flight protocol.

  \<^bold>\<open>The cluster.\<close>
  \<^item> \<open>Digest\<close>, \<open>Ring\<close>: hashing texts, the ring with its walk to the owners, consistency profiles.
  \<^item> \<open>Snapshot_Transfer\<close>: chunked sessions with acknowledgements and the receiver.
  \<^item> \<open>Cluster\<close>, \<open>Cluster_Write\<close>: the coordinator's state, membership, leadership and fences, the replica
    catalogue, quorum reads with repair, writes, deletions and transactions. \<open>Cluster_Inv\<close>,
    \<open>Cluster_Txn\<close>, \<open>Cluster_Props\<close>: failed writes are undone, successful ones reach their quorum, reads
    see the newest version a majority holds, no two leaders share a term, tombstones wait for all.
  \<^item> \<open>Cluster_Rebalance\<close>: plans, moves, verification, switch and clean-up; node snapshots.

  \<^bold>\<open>The network side.\<close>
  \<^item> \<open>Resp_Wire\<close>: both ends of the protocol, with every limit, and the round trips between them.
  \<^item> \<open>Auth\<close>: principals, the users document, \<open>authenticate\<close> with its cache under concurrent calls.
  \<^item> \<open>Resp_Server\<close>: the record \<open>backend\<close> is \<open>StorageBackend\<close> (\<open>storage.py\<close>); dispatch, authorisation, the
    commands and the connection loop. \<open>Resp_Props\<close>: the locale \<open>confined_storage\<close> says what the
    handlers need of a storage; on top of it no command writes outside the principal's keys.

  \<^bold>\<open>The client.\<close>
  \<^item> \<open>Client_Cache\<close>: the local cache of \<open>MegaCacheClient\<close> with its bounds, generations and polling of the
    server's mutation clock, as a step relation of reads, admissions, mutations and polls in any
    interleaving. \<open>Client_Lease\<close>: the answers of \<open>MC.LEASE\<close> and how \<open>get_or_load\<close> reacts to each; a value
    kept locally expires within the window the server gave it.

  \<^bold>\<open>Events.\<close>
  \<^item> \<open>Event_Graph\<close>: the bounded acyclic dependency graph and its expansion. \<open>Event_Text\<close>: change events,
    schemas with migrations, namespaces, rules with templates, framed keys and signed payloads.
  \<^item> \<open>Event_Store\<close>: the durable checkpoints, seen identifiers, claims and dead letters. A mutation
    copies, validates, writes and installs the state; a write may fail before or after the file is
    replaced. \<open>store_step\<close> is the step relation of its operations and of restarts.
  \<^item> \<open>Event_Ingest\<close>: the ingestor, retries, webhook authentication and the facade. \<open>Event_Props\<close>: an
    event takes effect at most once, a processed event leaves nothing stale (through the locale
    \<open>purging_storage\<close>, which extends \<open>confined_storage\<close>), a delivery is accepted once.
  \<^item> \<open>Event_Adapters\<close>: PostgreSQL, MySQL, MongoDB and Kafka records.

  \<^bold>\<open>The audit log.\<close>
  \<^item> \<open>Audit_Log\<close>: canonical JSON, signing keys and \<open>TamperEvidentAuditLog\<close>: opening with verification, append
    with segment rotation, pruning with its signed anchor, the files as an ordered directory.
  \<^item> \<open>Audit_Chain\<close>: what a well-formed directory is (\<open>standing\<close>) and that it loads. \<open>Audit_Runs\<close>: any
    sequence of appends and prunes, a crash between the two steps of a prune, and reopening.
    \<open>Audit_Failures\<close>: damaged lines and writes that stop half way. \<open>Audit_Guarantees\<close>: a log reopens to
    the state it was closed in, also after a crash while pruning; records that were signed can only
    be cut off at the end, not changed, reordered or skipped; a torn write blocks the next start.

  \<^bold>\<open>Parameters.\<close> Clock readings are streams or arguments; finite floats are real numbers, without
  rounding. SHA-256, HMAC-SHA256 and PBKDF2 verification are functions the definitions take as
  arguments, and so are the JSON reader where a body is decoded, the text of codec errors, Python's
  limit on the digits of an integer, random tokens, and the faults of files and replicas. For the
  audit log the JSON reader is assumed to read back the lines and anchors that the log itself
  writes (\<open>line_reads_back\<close>, \<open>anchor_reads_back\<close>), which the witnesses satisfy. Python's
  sets are iterated in sorted order or in order of insertion where the order can be observed. The
  lock that each class holds during a method makes the method one step; where the code releases it
  (single flight, authentication) the sections in between are separate steps.

  \<^bold>\<open>Loops and bounds.\<close> Every definition is total: loops recurse on their input, on a measure with a
  termination proof (eviction, the walk round the ring, graph searches, the parsers), or on the
  length of the input read so far. No fuel is used.

  \<^bold>\<open>Not modelled.\<close> The HTTP server (\<open>server.py\<close>) and TLS (\<open>transport.py\<close>): request plumbing around
  \<open>http.server\<close> and \<open>ssl\<close>. Origin fetching (\<open>origin.py\<close>) and policy intelligence (\<open>intelligence.py\<close>).
  Of the multi-tenant control plane (\<open>controlplane.py\<close>) everything but the audit log. Of the client
  (\<open>client.py\<close>) connecting, pooling and the command methods that only send and decode. Configuration
  and the command line (\<open>config.py\<close>, \<open>cli.py\<close>), logging, reports in JSON and Prometheus text, and
  opening files. Commands of the RESP server that belong to those parts are one parameter of its
  dispatcher.
\<close>

end
